(* ===== verification/DT_Prelude.thy ===== *)
theory DT_Prelude
  imports Main "HOL-Library.Word"
begin

text \<open>
  Shared ground of the development: the machine types of the C sources (\<open>dt/common.h\<close>), the
  errno values used as results, the byte order conversions, C strings, and the list and word
  lemmas that the component theories use.

  Conventions.  A C buffer is a list of bytes.  A function that returns \<open>0\<close> or \<open>-errno\<close> becomes
  a function into the sum type \<open>errno + 'a\<close> with \<open>Inl\<close> for the error.  The host is taken to be
  little endian with a 64 bit \<open>long\<close>; only structures written in host order (the raw header, the
  bucket meta data) depend on the byte order.
\<close>

unbundle bit_operations_syntax

named_theorems dt_simps \<open>unfolding rules the component proofs share\<close>

type_synonym u8 = "8 word"
type_synonym u16 = "16 word"
type_synonym u32 = "32 word"
type_synonym u64 = "64 word"
type_synonym bytes = "u8 list"

section \<open>Error values\<close>

text \<open>
  The errno names the sources return.  \<open>FAULT\<close> is not an errno: it is the result of a path on which the
  C code has undefined behaviour (a null pointer dereference, an access outside an object, an exit by
  \<open>abort\<close>), so that such a path is visible in the model.
\<close>

datatype errno =
    EPERM | ENOENT | EIO | E2BIG | EBADF | ENOMEM | EBUSY | ENODEV | EINVAL
  | ENOSPC | ESPIPE | EROFS | ERANGE | ENOSYS | ENODATA | EOVERFLOW
  | EILSEQ | EBADMSG | EUCLEAN | EWOULDBLOCK | EPROBE_DEFER | ENOTSUPP
  | FAULT

type_synonym 'a res = "errno + 'a"

definition bindE :: "'e + 'a \<Rightarrow> ('a \<Rightarrow> 'e + 'b) \<Rightarrow> 'e + 'b" where
  "bindE m f = (case m of Inl e \<Rightarrow> Inl e | Inr x \<Rightarrow> f x)"

lemma bindE_simps [simp]:
  "bindE (Inl e) f = Inl e"
  "bindE (Inr x) f = f x"
  by (simp_all add: bindE_def)

lemma bindE_eq_Inr [simp]: "bindE m f = Inr y \<longleftrightarrow> (\<exists>x. m = Inr x \<and> f x = Inr y)"
  by (cases m) auto

lemma bindE_eq_Inl: "bindE m f = Inl e \<longleftrightarrow> m = Inl e \<or> (\<exists>x. m = Inr x \<and> f x = Inl e)"
  by (cases m) auto

lemma bindE_cong [fundef_cong]:
  "m = m' \<Longrightarrow> (\<And>x. m' = Inr x \<Longrightarrow> f x = f' x) \<Longrightarrow> bindE m f = bindE m' f'"
  by (cases m') auto

section \<open>Strings\<close>

text \<open>
  A C string is a \<open>string\<close> without its terminator; its bytes in memory are \<open>str_bytes\<close> of it.
\<close>

definition str_bytes :: "string \<Rightarrow> bytes" where
  "str_bytes s = map of_char s"

definition bytes_str :: "bytes \<Rightarrow> string" where
  "bytes_str bs = map (\<lambda>b. char_of (unat b)) bs"

lemma unat_of_char [simp]: "unat (of_char c :: u8) = of_char c"
proof -
  have "(of_char c :: u8) = of_nat (of_char c)" by (simp only: of_nat_of_char)
  then show ?thesis using nat_of_char_less_256 [of c]
    by (simp add: unat_of_nat)
qed

lemma char_of_unat_of_char: "char_of (unat (of_char c :: u8)) = c"
  by simp

lemma char_byte_zero: "(char_of (0::nat) :: char) = CHR 0x00"
  by (simp add: char_of_def)

lemma of_char_char_of_u8 [simp]: "of_char (char_of (unat b) :: char) = (b :: u8)"
proof -
  have "of_char (char_of (unat b) :: char) = (of_nat (of_char (char_of (unat b) :: char)) :: u8)"
    by (simp only: of_nat_of_char)
  also have "of_char (char_of (unat b) :: char) = unat b mod 256" by simp
  also have "\<dots> = unat b" using unsigned_less [of b, where ?'a = nat] by simp
  finally show ?thesis by simp
qed

lemma bytes_str_inverse [simp]: "bytes_str (str_bytes s) = s"
  by (simp add: bytes_str_def str_bytes_def comp_def)

lemma str_bytes_inverse [simp]: "str_bytes (bytes_str bs) = bs"
  by (simp add: bytes_str_def str_bytes_def comp_def)

lemma length_str_bytes [simp]: "length (str_bytes s) = length s"
  by (simp add: str_bytes_def)

lemma length_bytes_str [simp]: "length (bytes_str bs) = length bs"
  by (simp add: bytes_str_def)

lemma str_bytes_append [simp]: "str_bytes (s @ t) = str_bytes s @ str_bytes t"
  by (simp add: str_bytes_def)

lemma bytes_str_append [simp]: "bytes_str (s @ t) = bytes_str s @ bytes_str t"
  by (simp add: bytes_str_def)

lemma str_bytes_inj [simp]: "str_bytes s = str_bytes t \<longleftrightarrow> s = t"
  by (metis bytes_str_inverse)

lemma bytes_str_inj [simp]: "bytes_str s = bytes_str t \<longleftrightarrow> s = t"
  by (metis str_bytes_inverse)

text \<open>\<open>strnlen\<close>: the number of bytes before the first NUL, at most the size of the buffer.\<close>

definition strnlen :: "bytes \<Rightarrow> nat" where
  "strnlen bs = length (takeWhile (\<lambda>b. b \<noteq> 0) bs)"

lemma strnlen_le: "strnlen bs \<le> length bs"
  by (simp add: strnlen_def length_takeWhile_le)

lemma strnlen_append_nul [simp]: "0 \<notin> set bs \<Longrightarrow> strnlen (bs @ 0 # r) = length bs"
  by (induction bs) (auto simp: strnlen_def)

text \<open>The C string that starts at a buffer: the bytes before its first NUL.\<close>

definition cstr_at :: "bytes \<Rightarrow> string" where
  "cstr_at bs = bytes_str (takeWhile (\<lambda>b. b \<noteq> 0) bs)"

lemma cstr_at_append_nul [simp]: "0 \<notin> set bs \<Longrightarrow> cstr_at (bs @ 0 # r) = bytes_str bs"
  by (induction bs) (auto simp: cstr_at_def)

lemma length_cstr_at: "length (cstr_at bs) = strnlen bs"
  by (simp add: cstr_at_def strnlen_def)

text \<open>A string without an embedded NUL, as every C string is.\<close>

definition nul_free :: "string \<Rightarrow> bool" where
  "nul_free s \<longleftrightarrow> (\<forall>c \<in> set s. c \<noteq> CHR 0x00)"

lemma nul_notin_str_bytes [simp]: "0 \<in> set (str_bytes s) \<longleftrightarrow> \<not> nul_free s"
proof -
  have "(of_char c :: u8) = 0 \<longleftrightarrow> c = CHR 0x00" for c
  proof
    assume "(of_char c :: u8) = 0"
    then have "char_of (unat (of_char c :: u8)) = (char_of (0::nat) :: char)" by simp
    then show "c = CHR 0x00" by (simp only: char_byte_zero char_of_unat_of_char)
  qed simp
  then show ?thesis
    by (auto simp: str_bytes_def nul_free_def image_iff)
qed

text \<open>\<open>strcasecmp\<close> in the C locale, used as an equality test.\<close>

definition tolower :: "char \<Rightarrow> char" where
  "tolower c = (let n = (of_char c :: nat) in if 65 \<le> n \<and> n \<le> 90 then char_of (n + 32) else c)"

definition strcasecmp_eq :: "string \<Rightarrow> string \<Rightarrow> bool" where
  "strcasecmp_eq a b \<longleftrightarrow> map tolower a = map tolower b"

lemma strcasecmp_eq_refl [simp]: "strcasecmp_eq a a"
  by (simp add: strcasecmp_eq_def)

section \<open>Words\<close>

lemma bit_u8D: "bit (w :: u8) n \<Longrightarrow> n < 8"
  by (drule bit_imp_le_length) simp

lemma bit_u32D: "bit (w :: u32) n \<Longrightarrow> n < 32"
  by (drule bit_imp_le_length) simp

lemma word_xor_eq_0: "(a :: 'a::len word) XOR b = 0 \<longleftrightarrow> a = b"
  by (metis xor.left_neutral xor.assoc xor_self_eq)

lemma word_xor_cancel [simp]:
  "(a :: 'a::len word) XOR c = b XOR c \<longleftrightarrow> a = b"
  "c XOR a = c XOR b \<longleftrightarrow> a = b"
proof -
  have r: "a = b" if "a XOR c = b XOR c" for a b c :: "'a word"
  proof -
    have "(a XOR c) XOR c = (b XOR c) XOR c" using that by simp
    then show ?thesis by (simp add: xor.assoc)
  qed
  show "a XOR c = b XOR c \<longleftrightarrow> a = b" using r by blast
  show "c XOR a = c XOR b \<longleftrightarrow> a = b" using r by (metis xor.commute)
qed

section \<open>Byte order\<close>

text \<open>\<open>get_unaligned_be16/32/64\<close> and \<open>put_unaligned_be16/32/64\<close> of \<open>dt/common.h\<close>.\<close>

definition get_unaligned_be16 :: "bytes \<Rightarrow> u16" where
  "get_unaligned_be16 p = push_bit 8 (ucast (p ! 0)) OR ucast (p ! 1)"

definition get_unaligned_be32 :: "bytes \<Rightarrow> u32" where
  "get_unaligned_be32 p =
     push_bit 24 (ucast (p ! 0)) OR push_bit 16 (ucast (p ! 1)) OR push_bit 8 (ucast (p ! 2))
     OR ucast (p ! 3)"

definition get_unaligned_be64 :: "bytes \<Rightarrow> u64" where
  "get_unaligned_be64 p =
     push_bit 32 (ucast (get_unaligned_be32 p)) OR ucast (get_unaligned_be32 (drop 4 p))"

definition put_unaligned_be16 :: "u16 \<Rightarrow> bytes" where
  "put_unaligned_be16 v = [ucast (drop_bit 8 v), ucast v]"

definition put_unaligned_be32 :: "u32 \<Rightarrow> bytes" where
  "put_unaligned_be32 v = put_unaligned_be16 (ucast (drop_bit 16 v)) @ put_unaligned_be16 (ucast v)"

definition put_unaligned_be64 :: "u64 \<Rightarrow> bytes" where
  "put_unaligned_be64 v = put_unaligned_be32 (ucast (drop_bit 32 v)) @ put_unaligned_be32 (ucast v)"

text \<open>The same in host (little endian) order, for structures the code writes with plain stores.\<close>

definition get_le16 :: "bytes \<Rightarrow> u16" where
  "get_le16 p = get_unaligned_be16 (rev (take 2 p))"

definition get_le32 :: "bytes \<Rightarrow> u32" where
  "get_le32 p = get_unaligned_be32 (rev (take 4 p))"

definition put_le16 :: "u16 \<Rightarrow> bytes" where
  "put_le16 v = rev (put_unaligned_be16 v)"

definition put_le32 :: "u32 \<Rightarrow> bytes" where
  "put_le32 v = rev (put_unaligned_be32 v)"

lemma length_put [simp]:
  "length (put_unaligned_be16 v) = 2"
  "length (put_unaligned_be32 w) = 4"
  "length (put_unaligned_be64 x) = 8"
  "length (put_le16 v) = 2"
  "length (put_le32 w) = 4"
  by (simp_all add: put_unaligned_be16_def put_unaligned_be32_def put_unaligned_be64_def
      put_le16_def put_le32_def)

lemma put_unaligned_be32_bytes:
  "put_unaligned_be32 v =
     [ucast (drop_bit 24 v), ucast (drop_bit 16 v), ucast (drop_bit 8 v), ucast v]"
  unfolding put_unaligned_be32_def put_unaligned_be16_def
  by (simp, intro conjI; rule bit_word_eqI) (auto simp: bit_simps)

lemma get_be_Cons:
  "get_unaligned_be16 (a # b # r) = push_bit 8 (ucast a) OR ucast b"
  "get_unaligned_be32 (a # b # c # d # r) =
     push_bit 24 (ucast a) OR push_bit 16 (ucast b) OR push_bit 8 (ucast c) OR ucast d"
  by (simp_all add: get_unaligned_be16_def get_unaligned_be32_def)

lemma get_put_be16 [simp]: "get_unaligned_be16 (put_unaligned_be16 v @ r) = v"
  unfolding put_unaligned_be16_def append_Cons append_Nil get_be_Cons
  by (rule bit_word_eqI) (auto simp: bit_simps)

lemma get_put_be32 [simp]: "get_unaligned_be32 (put_unaligned_be32 v @ r) = v"
  unfolding put_unaligned_be32_bytes append_Cons append_Nil get_be_Cons
proof (rule bit_word_eqI)
  fix n :: nat assume "n < LENGTH(32)"
  then consider "n < 8" | "8 \<le> n" "n < 16" | "16 \<le> n" "n < 24" | "24 \<le> n" "n < 32"
    by force
  then show "bit (push_bit 24 (ucast (ucast (drop_bit 24 v) :: u8)) OR
       push_bit 16 (ucast (ucast (drop_bit 16 v) :: u8)) OR
       push_bit 8 (ucast (ucast (drop_bit 8 v) :: u8)) OR ucast (ucast v :: u8) :: u32) n = bit v n"
    by cases (auto simp: bit_simps)
qed

lemma get_put_be32_exact [simp]: "get_unaligned_be32 (put_unaligned_be32 v) = v"
  using get_put_be32 [of v "[]"] by simp

lemma get_put_be64 [simp]: "get_unaligned_be64 (put_unaligned_be64 v @ r) = v"
  unfolding get_unaligned_be64_def put_unaligned_be64_def append_assoc
  by (simp, rule bit_word_eqI) (auto simp: bit_simps)

lemma put_get_be32 [simp]:
  "put_unaligned_be32 (get_unaligned_be32 [a, b, c, d]) = [a, b, c, d]"
  unfolding put_unaligned_be32_bytes get_be_Cons
  by (simp, intro conjI; rule bit_word_eqI) (auto simp: bit_simps dest: bit_imp_le_length)

lemma get_put_le16 [simp]: "get_le16 (put_le16 v @ r) = v"
  using get_put_be16 [of v "[]"] by (simp add: get_le16_def put_le16_def)

lemma get_put_le32 [simp]: "get_le32 (put_le32 v @ r) = v"
  using get_put_be32 [of v "[]"] by (simp add: get_le32_def put_le32_def)

lemma length_4_list: "length xs = 4 \<Longrightarrow> \<exists>a b c d. xs = [a, b, c, d]"
  by (auto simp: numeral_eq_Suc length_Suc_conv)

lemma put_get_le32:
  assumes "length p = 4" shows "put_le32 (get_le32 p) = p"
proof -
  obtain a b c d where "rev p = [a, b, c, d]"
    using length_4_list [of "rev p"] assms by auto
  then show ?thesis
    using assms by (simp add: put_le32_def get_le32_def)
qed

section \<open>Buffers\<close>

text \<open>
  \<open>memcpy (buf + ofs, src, length src)\<close> for a copy that stays inside \<open>buf\<close>; a copy past the end is
  cut off by \<open>mem_put\<close>, and every place that uses it checks or proves that it fits.
\<close>

definition mem_put :: "'a list \<Rightarrow> nat \<Rightarrow> 'a list \<Rightarrow> 'a list" where
  "mem_put buf ofs src =
     take ofs buf @ take (length buf - ofs) src @ drop (ofs + length src) buf"

lemma length_mem_put [simp]: "ofs \<le> length buf \<Longrightarrow> length (mem_put buf ofs src) = length buf"
  by (simp add: mem_put_def)

lemma mem_put_fits:
  "ofs + length src \<le> length buf \<Longrightarrow> mem_put buf ofs src = take ofs buf @ src @ drop (ofs + length src) buf"
  by (simp add: mem_put_def)

lemma nth_mem_put:
  assumes "ofs + length src \<le> length buf" and "i < length buf"
  shows "mem_put buf ofs src ! i =
    (if ofs \<le> i \<and> i < ofs + length src then src ! (i - ofs) else buf ! i)"
  using assms by (auto simp: mem_put_fits nth_append)

lemma take_drop_mem_put_same [simp]:
  "ofs + length src \<le> length buf \<Longrightarrow> take (length src) (drop ofs (mem_put buf ofs src)) = src"
  by (simp add: mem_put_fits)

lemma take_drop_mem_put_other:
  assumes "ofs + length src \<le> length buf" and "a + n \<le> ofs \<or> ofs + length src \<le> a"
  shows "take n (drop a (mem_put buf ofs src)) = take n (drop a buf)"
proof (rule nth_equalityI)
  show "length (take n (drop a (mem_put buf ofs src))) = length (take n (drop a buf))"
    using assms(1) by simp
next
  fix i assume "i < length (take n (drop a (mem_put buf ofs src)))"
  then have "i < n" "a + i < length buf" using assms(1) by auto
  then show "take n (drop a (mem_put buf ofs src)) ! i = take n (drop a buf) ! i"
    using assms by (auto simp: nth_mem_put)
qed

end
