(* ===== verification/Crc32.thy ===== *)
theory Crc32
  imports DT_Prelude
begin

text \<open>
  \<open>src/crc32.c\<close>: the table driven CRC-32 that guards the raw state format.  The table and the two
  entry points are translated as they stand, including the loop unrolled to eight bytes.  The
  lemmas show that the table is the bitwise CRC-32 of each byte, that both entry points compute the
  bitwise CRC of the buffer, that checksums can be continued over a split buffer, and that two
  buffers that differ in one stretch of at most four bytes never share a checksum.
\<close>

section \<open>The code\<close>

definition crc_table :: "u32 list" where
  "crc_table = [
    0x00000000, 0x77073096, 0xee0e612c, 0x990951ba, 0x076dc419, 0x706af48f, 0xe963a535, 0x9e6495a3,
    0x0edb8832, 0x79dcb8a4, 0xe0d5e91e, 0x97d2d988, 0x09b64c2b, 0x7eb17cbd, 0xe7b82d07, 0x90bf1d91,
    0x1db71064, 0x6ab020f2, 0xf3b97148, 0x84be41de, 0x1adad47d, 0x6ddde4eb, 0xf4d4b551, 0x83d385c7,
    0x136c9856, 0x646ba8c0, 0xfd62f97a, 0x8a65c9ec, 0x14015c4f, 0x63066cd9, 0xfa0f3d63, 0x8d080df5,
    0x3b6e20c8, 0x4c69105e, 0xd56041e4, 0xa2677172, 0x3c03e4d1, 0x4b04d447, 0xd20d85fd, 0xa50ab56b,
    0x35b5a8fa, 0x42b2986c, 0xdbbbc9d6, 0xacbcf940, 0x32d86ce3, 0x45df5c75, 0xdcd60dcf, 0xabd13d59,
    0x26d930ac, 0x51de003a, 0xc8d75180, 0xbfd06116, 0x21b4f4b5, 0x56b3c423, 0xcfba9599, 0xb8bda50f,
    0x2802b89e, 0x5f058808, 0xc60cd9b2, 0xb10be924, 0x2f6f7c87, 0x58684c11, 0xc1611dab, 0xb6662d3d,
    0x76dc4190, 0x01db7106, 0x98d220bc, 0xefd5102a, 0x71b18589, 0x06b6b51f, 0x9fbfe4a5, 0xe8b8d433,
    0x7807c9a2, 0x0f00f934, 0x9609a88e, 0xe10e9818, 0x7f6a0dbb, 0x086d3d2d, 0x91646c97, 0xe6635c01,
    0x6b6b51f4, 0x1c6c6162, 0x856530d8, 0xf262004e, 0x6c0695ed, 0x1b01a57b, 0x8208f4c1, 0xf50fc457,
    0x65b0d9c6, 0x12b7e950, 0x8bbeb8ea, 0xfcb9887c, 0x62dd1ddf, 0x15da2d49, 0x8cd37cf3, 0xfbd44c65,
    0x4db26158, 0x3ab551ce, 0xa3bc0074, 0xd4bb30e2, 0x4adfa541, 0x3dd895d7, 0xa4d1c46d, 0xd3d6f4fb,
    0x4369e96a, 0x346ed9fc, 0xad678846, 0xda60b8d0, 0x44042d73, 0x33031de5, 0xaa0a4c5f, 0xdd0d7cc9,
    0x5005713c, 0x270241aa, 0xbe0b1010, 0xc90c2086, 0x5768b525, 0x206f85b3, 0xb966d409, 0xce61e49f,
    0x5edef90e, 0x29d9c998, 0xb0d09822, 0xc7d7a8b4, 0x59b33d17, 0x2eb40d81, 0xb7bd5c3b, 0xc0ba6cad,
    0xedb88320, 0x9abfb3b6, 0x03b6e20c, 0x74b1d29a, 0xead54739, 0x9dd277af, 0x04db2615, 0x73dc1683,
    0xe3630b12, 0x94643b84, 0x0d6d6a3e, 0x7a6a5aa8, 0xe40ecf0b, 0x9309ff9d, 0x0a00ae27, 0x7d079eb1,
    0xf00f9344, 0x8708a3d2, 0x1e01f268, 0x6906c2fe, 0xf762575d, 0x806567cb, 0x196c3671, 0x6e6b06e7,
    0xfed41b76, 0x89d32be0, 0x10da7a5a, 0x67dd4acc, 0xf9b9df6f, 0x8ebeeff9, 0x17b7be43, 0x60b08ed5,
    0xd6d6a3e8, 0xa1d1937e, 0x38d8c2c4, 0x4fdff252, 0xd1bb67f1, 0xa6bc5767, 0x3fb506dd, 0x48b2364b,
    0xd80d2bda, 0xaf0a1b4c, 0x36034af6, 0x41047a60, 0xdf60efc3, 0xa867df55, 0x316e8eef, 0x4669be79,
    0xcb61b38c, 0xbc66831a, 0x256fd2a0, 0x5268e236, 0xcc0c7795, 0xbb0b4703, 0x220216b9, 0x5505262f,
    0xc5ba3bbe, 0xb2bd0b28, 0x2bb45a92, 0x5cb36a04, 0xc2d7ffa7, 0xb5d0cf31, 0x2cd99e8b, 0x5bdeae1d,
    0x9b64c2b0, 0xec63f226, 0x756aa39c, 0x026d930a, 0x9c0906a9, 0xeb0e363f, 0x72076785, 0x05005713,
    0x95bf4a82, 0xe2b87a14, 0x7bb12bae, 0x0cb61b38, 0x92d28e9b, 0xe5d5be0d, 0x7cdcefb7, 0x0bdbdf21,
    0x86d3d2d4, 0xf1d4e242, 0x68ddb3f8, 0x1fda836e, 0x81be16cd, 0xf6b9265b, 0x6fb077e1, 0x18b74777,
    0x88085ae6, 0xff0f6a70, 0x66063bca, 0x11010b5c, 0x8f659eff, 0xf862ae69, 0x616bffd3, 0x166ccf45,
    0xa00ae278, 0xd70dd2ee, 0x4e048354, 0x3903b3c2, 0xa7672661, 0xd06016f7, 0x4969474d, 0x3e6e77db,
    0xaed16a4a, 0xd9d65adc, 0x40df0b66, 0x37d83bf0, 0xa9bcae53, 0xdebb9ec5, 0x47b2cf7f, 0x30b5ffe9,
    0xbdbdf21c, 0xcabac28a, 0x53b39330, 0x24b4a3a6, 0xbad03605, 0xcdd70693, 0x54de5729, 0x23d967bf,
    0xb3667a2e, 0xc4614ab8, 0x5d681b02, 0x2a6f2b94, 0xb40bbe37, 0xc30c8ea1, 0x5a05df1b, 0x2d02ef8d]"

text \<open>The macros \<open>DO1\<close> to \<open>DO8\<close> advance the checksum and the read pointer.\<close>

definition DO1 :: "u32 \<times> bytes \<Rightarrow> u32 \<times> bytes" where
  "DO1 s = (case s of (crc, buf) \<Rightarrow>
     (crc_table ! unat ((crc XOR ucast (hd buf)) AND 0xff) XOR drop_bit 8 crc, tl buf))"

definition DO2 :: "u32 \<times> bytes \<Rightarrow> u32 \<times> bytes" where
  "DO2 s = DO1 (DO1 s)"

definition DO4 :: "u32 \<times> bytes \<Rightarrow> u32 \<times> bytes" where
  "DO4 s = DO2 (DO2 s)"

definition DO8 :: "u32 \<times> bytes \<Rightarrow> u32 \<times> bytes" where
  "DO8 s = DO4 (DO4 s)"

text \<open>
  \<open>crc32_no_comp\<close>: the \<open>while (len >= 8)\<close> loop over eight bytes at a time, then the
  \<open>do ... while (--len)\<close> loop over what is left.  The buffer list holds the \<open>len\<close> bytes.
\<close>

fun crc_tail :: "u32 \<times> bytes \<Rightarrow> nat \<Rightarrow> u32" where
  "crc_tail s 0 = fst s"
| "crc_tail s (Suc len) = crc_tail (DO1 s) len"

function crc_blocks :: "u32 \<times> bytes \<Rightarrow> nat \<Rightarrow> u32" where
  "crc_blocks s len = (if 8 \<le> len then crc_blocks (DO8 s) (len - 8) else crc_tail s len)"
  by pat_completeness auto
termination
  by (relation "measure snd") auto

declare crc_blocks.simps [simp del]

definition crc32_no_comp :: "u32 \<Rightarrow> bytes \<Rightarrow> u32" where
  "crc32_no_comp crc buf = crc_blocks (crc, buf) (length buf)"

definition crc32 :: "u32 \<Rightarrow> bytes \<Rightarrow> u32" where
  "crc32 crc buf = crc_blocks (crc XOR 0xffffffff, buf) (length buf) XOR 0xffffffff"

section \<open>The bitwise reference\<close>

text \<open>One shift of the reflected CRC-32 register, polynomial \<open>0xEDB88320\<close>, and eight of them.\<close>

definition crc_bit :: "u32 \<Rightarrow> u32" where
  "crc_bit c = (if bit c 0 then drop_bit 1 c XOR 0xEDB88320 else drop_bit 1 c)"

definition crc_shift8 :: "u32 \<Rightarrow> u32" where
  "crc_shift8 c = (crc_bit ^^ 8) c"

definition crc_byte :: "u32 \<Rightarrow> u8 \<Rightarrow> u32" where
  "crc_byte c b = crc_shift8 (c XOR ucast b)"

definition crc32_spec :: "bytes \<Rightarrow> u32" where
  "crc32_spec bs = NOT (foldl crc_byte (NOT 0) bs)"

section \<open>The table\<close>

lemma length_crc_table [simp]: "length crc_table = 256"
  by (simp add: crc_table_def)

lemma crc_shift8_unfold:
  "crc_shift8 c = crc_bit (crc_bit (crc_bit (crc_bit (crc_bit (crc_bit (crc_bit (crc_bit c)))))))"
  by (simp add: crc_shift8_def numeral_eq_Suc)

lemma crc_bit_eval:
  "crc_bit 0 = 0"
  "crc_bit 1 = 0xEDB88320"
  "crc_bit (numeral (num.Bit0 n)) = drop_bit 1 (numeral (num.Bit0 n))"
  "crc_bit (numeral (num.Bit1 n)) = drop_bit 1 (numeral (num.Bit1 n)) XOR 0xEDB88320"
  by (simp_all add: crc_bit_def)

lemmas crc_eval = crc_shift8_unfold crc_bit_eval

lemma crc_table_eq: "crc_table = map (\<lambda>i. crc_shift8 (word_of_nat i)) [0..<256]"
  unfolding crc_table_def by (simp add: upt_rec crc_eval)

lemma crc_table_nth: "i < 256 \<Longrightarrow> crc_table ! i = crc_shift8 (word_of_nat i)"
  unfolding crc_table_eq by simp

section \<open>Linearity and injectivity of the register\<close>

lemma crc_bit_xor: "crc_bit (a XOR b) = crc_bit a XOR crc_bit b"
  unfolding crc_bit_def by (rule bit_word_eqI) (auto simp: bit_simps)

lemma crc_bits_xor: "(crc_bit ^^ n) (a XOR b) = (crc_bit ^^ n) a XOR (crc_bit ^^ n) b"
  by (induction n) (simp_all add: crc_bit_xor)

lemma crc_shift8_xor: "crc_shift8 (a XOR b) = crc_shift8 a XOR crc_shift8 b"
  by (simp add: crc_shift8_def crc_bits_xor)

lemma crc_bit_eq_0: "crc_bit c = 0 \<Longrightarrow> c = 0"
proof -
  assume z: "crc_bit c = 0"
  have "\<not> bit c 0"
  proof
    assume "bit c 0"
    with z have "drop_bit 1 c = (0xEDB88320 :: u32)"
      by (simp add: crc_bit_def word_xor_eq_0)
    then have "bit (drop_bit 1 c) 31 = bit (0xEDB88320 :: u32) 31" by simp
    then show False by (auto simp: bit_simps dest: bit_u32D)
  qed
  with z have d: "drop_bit 1 c = 0" by (simp add: crc_bit_def)
  show ?thesis
  proof (rule bit_word_eqI)
    fix n :: nat assume "n < LENGTH(32)"
    show "bit c n = bit 0 n"
    proof (cases n)
      case 0
      with \<open>\<not> bit c 0\<close> show ?thesis by simp
    next
      case (Suc m)
      have "bit (drop_bit 1 c) m = bit (0 :: u32) m" using d by simp
      with Suc show ?thesis by (simp add: bit_simps)
    qed
  qed
qed

lemma crc_bit_inj: "crc_bit a = crc_bit b \<Longrightarrow> a = b"
  by (metis crc_bit_eq_0 crc_bit_xor word_xor_eq_0)

lemma crc_shift8_inj [simp]: "crc_shift8 a = crc_shift8 b \<longleftrightarrow> a = b"
  unfolding crc_shift8_unfold by (auto dest!: crc_bit_inj)

lemma crc_bits_drop: "take_bit n c = 0 \<Longrightarrow> (crc_bit ^^ n) c = drop_bit n c"
proof (induction n arbitrary: c)
  case (Suc n)
  have "\<not> bit c 0" using Suc.prems
    by (metis bit_0_eq bit_take_bit_iff bot_fun_def bot_bool_def zero_less_Suc)
  then have "crc_bit c = drop_bit 1 c" by (simp add: crc_bit_def)
  moreover have "take_bit n (drop_bit 1 c) = 0"
    using Suc.prems by (simp add: take_bit_drop_bit)
  ultimately show ?case using Suc.IH by (simp add: funpow_swap1)
qed simp

lemma crc_shift8_split: "crc_shift8 c = crc_shift8 (c AND 0xff) XOR drop_bit 8 c"
proof -
  have "c = (c AND 0xff) XOR push_bit 8 (drop_bit 8 c)"
  proof (rule bit_word_eqI)
    fix n :: nat assume "n < LENGTH(32)"
    have "bit (0xff :: u32) n \<longleftrightarrow> n < 8"
      using mask_eq_exp_minus_1 [of 8, where ?'a = u32] bit_mask_iff [of 8 n, where ?'a = u32]
      by auto
    then show "bit c n = bit ((c AND 0xff) XOR push_bit 8 (drop_bit 8 c)) n"
      using \<open>n < LENGTH(32)\<close> by (auto simp: bit_simps)
  qed
  moreover have "crc_shift8 (push_bit 8 (drop_bit 8 c)) = drop_bit 8 c"
    unfolding crc_shift8_def
    by (subst crc_bits_drop)
      (auto intro!: bit_word_eqI simp: bit_simps, drule bit_u32D, simp)
  ultimately show ?thesis by (metis crc_shift8_xor)
qed

section \<open>The code computes the bitwise CRC\<close>

lemma DO1_Cons: "DO1 (c, b # bs) = (crc_byte c b, bs)"
proof -
  let ?x = "c XOR ucast b"
  have lt: "unat (?x AND 0xff) < 256"
  proof -
    have "?x AND 0xff \<le> 0xff" by (rule word_and_le1)
    then show ?thesis by (simp add: word_le_nat_alt)
  qed
  have "drop_bit 8 ?x = drop_bit 8 c"
    by (rule bit_word_eqI) (auto simp: bit_simps dest: bit_imp_le_length)
  then show ?thesis
    by (simp add: DO1_def crc_byte_def crc_shift8_split [of ?x] crc_table_nth lt)
qed

lemma crc_tail_foldl: "n \<le> length bs \<Longrightarrow> crc_tail (c, bs) n = foldl crc_byte c (take n bs)"
proof (induction n arbitrary: c bs)
  case (Suc n)
  then obtain b r where "bs = b # r" by (cases bs) auto
  with Suc show ?case by (simp add: DO1_Cons)
qed simp

lemma DO8_append:
  assumes "length xs = 8" shows "DO8 (c, xs @ r) = (foldl crc_byte c xs, r)"
proof -
  obtain a b d e f g h i where "xs = [a, b, d, e, f, g, h, i]"
    using assms by (auto simp: numeral_eq_Suc length_Suc_conv)
  then show ?thesis by (simp add: DO8_def DO4_def DO2_def DO1_Cons)
qed

lemma crc_blocks_foldl: "n = length bs \<Longrightarrow> crc_blocks (c, bs) n = foldl crc_byte c bs"
proof (induction n arbitrary: c bs rule: less_induct)
  case (less n)
  show ?case
  proof (cases "8 \<le> n")
    case True
    then have s: "DO8 (c, bs) = (foldl crc_byte c (take 8 bs), drop 8 bs)"
      using less.prems DO8_append [of "take 8 bs" c "drop 8 bs"] by simp
    have "crc_blocks (c, bs) n = crc_blocks (DO8 (c, bs)) (n - 8)"
      using True by (simp add: crc_blocks.simps [of _ n])
    also have "\<dots> = foldl crc_byte (foldl crc_byte c (take 8 bs)) (drop 8 bs)"
      unfolding s using True less.prems by (intro less.IH) auto
    finally show ?thesis by (metis append_take_drop_id foldl_append)
  next
    case False
    with less.prems show ?thesis by (subst crc_blocks.simps) (simp add: crc_tail_foldl)
  qed
qed

lemma crc32_no_comp_foldl: "crc32_no_comp crc buf = foldl crc_byte crc buf"
  by (simp add: crc32_no_comp_def crc_blocks_foldl)

lemma xor_ones: "(w :: u32) XOR 0xffffffff = NOT w"
proof -
  have "(0xffffffff :: u32) = - 1" by simp
  then show ?thesis by (simp only:) (rule bit_word_eqI, simp add: bit_simps)
qed

lemma crc32_foldl: "crc32 crc buf = NOT (foldl crc_byte (NOT crc) buf)"
  by (simp add: crc32_def crc_blocks_foldl xor_ones)

section \<open>Properties of the checksum\<close>

lemma not_u32_inj: "NOT (a :: u32) = NOT b \<longleftrightarrow> a = b"
  by (metis bit.double_compl)

lemma foldl_crc_byte_inj: "foldl crc_byte a bs = foldl crc_byte b bs \<Longrightarrow> a = b"
proof (induction bs arbitrary: a b)
  case (Cons x bs)
  then have "crc_byte a x = crc_byte b x" by simp
  then show ?case by (simp add: crc_byte_def)
qed simp

text \<open>Four bytes enter the register as one little endian word.\<close>

lemma crc_shift8_push:
  "crc_shift8 (push_bit 8 (ucast (b :: u8))) = ucast b"
  "crc_shift8 (push_bit 16 (ucast b)) = push_bit 8 (ucast b)"
  "crc_shift8 (push_bit 24 (ucast b)) = push_bit 16 (ucast b)"
  unfolding crc_shift8_def
  by (subst crc_bits_drop; auto intro!: bit_word_eqI simp: bit_simps dest!: bit_u8D)+

lemma crc_word4:
  "foldl crc_byte c [b0, b1, b2, b3] =
     crc_shift8 (crc_shift8 (crc_shift8 (crc_shift8 (c XOR ucast b0 XOR push_bit 8 (ucast b1)
       XOR push_bit 16 (ucast b2) XOR push_bit 24 (ucast b3)))))"
  by (simp add: crc_byte_def crc_shift8_xor crc_shift8_push xor.assoc)

lemma bytes4_xor:
  "ucast b0 XOR push_bit 8 (ucast b1) XOR push_bit 16 (ucast b2) XOR push_bit 24 (ucast b3)
     = get_le32 [b0, b1, b2, b3]"
  unfolding get_le32_def get_unaligned_be32_def
  by (rule bit_word_eqI) (auto simp: bit_simps dest: bit_u8D)

lemma crc_word4_inj:
  assumes "foldl crc_byte c xs = foldl crc_byte c ys" and "length xs = 4" and "length ys = 4"
  shows "xs = ys"
proof -
  obtain a b d e where xs: "xs = [a, b, d, e]" using assms(2) length_4_list by blast
  obtain a' b' d' e' where ys: "ys = [a', b', d', e']" using assms(3) length_4_list by blast
  have "c XOR get_le32 xs = c XOR get_le32 ys"
    using assms(1) unfolding xs ys crc_word4 by (simp add: bytes4_xor [symmetric] xor.assoc)
  then have "get_le32 xs = get_le32 ys" by simp
  then show ?thesis using assms(2,3) put_get_le32 by metis
qed

lemma crc_burst_inj:
  assumes "foldl crc_byte c xs = foldl crc_byte c ys" and "length xs = length ys"
    and "length xs \<le> 4"
  shows "xs = ys"
proof -
  let ?z = "replicate (4 - length xs) (0 :: u8)"
  have "foldl crc_byte c (xs @ ?z) = foldl crc_byte c (ys @ ?z)"
    using assms(1) by simp
  then have "xs @ ?z = ys @ ?z" by (rule crc_word4_inj) (use assms in auto)
  then show ?thesis using assms(2) by simp
qed

lemma crc32_eq_iff: "crc32 c a = crc32 c b \<longleftrightarrow> foldl crc_byte (NOT c) a = foldl crc_byte (NOT c) b"
  by (simp add: crc32_foldl not_u32_inj)

lemma crc32_burst:
  assumes "length x = length y" and "length x \<le> 4" and "x \<noteq> y"
  shows "crc32 c (p @ x @ s) \<noteq> crc32 c (p @ y @ s)"
proof
  assume "crc32 c (p @ x @ s) = crc32 c (p @ y @ s)"
  then have "foldl crc_byte (foldl crc_byte (foldl crc_byte (NOT c) p) x) s =
      foldl crc_byte (foldl crc_byte (foldl crc_byte (NOT c) p) y) s"
    by (simp add: crc32_eq_iff)
  then have "foldl crc_byte (foldl crc_byte (NOT c) p) x = foldl crc_byte (foldl crc_byte (NOT c) p) y"
    by (rule foldl_crc_byte_inj)
  then show False using crc_burst_inj assms by blast
qed

text \<open>
  C30: the table driven \<open>crc32\<close>, with its eight byte unrolled loop, computes the CRC-32 of the buffer
  as defined bit by bit with the reflected polynomial \<open>0xEDB88320\<close>, register preset and final
  complement.
\<close>

theorem crc32_correct: "crc32 0 buf = crc32_spec buf"
  by (simp add: crc32_foldl crc32_spec_def)

text \<open>
  Checksums compose: continuing \<open>crc32\<close> from the checksum of a first part over a second part
  gives the checksum of both parts together, for the complemented and the plain variant.
\<close>

theorem crc32_append:
  "crc32 (crc32 c a) b = crc32 c (a @ b) \<and>
   crc32_no_comp (crc32_no_comp c a) b = crc32_no_comp c (a @ b)"
  by (simp add: crc32_foldl crc32_no_comp_foldl)

text \<open>
  Any corruption confined to a stretch of at most four bytes changes the checksum, so a bucket
  damaged in this way is never accepted by a CRC comparison.
\<close>

theorem crc32_detects_burst:
  assumes "length x = length y" and "length x \<le> 4" and "x \<noteq> y"
  shows "crc32 c (p @ x @ s) \<noteq> crc32 c (p @ y @ s)"
  using assms by (rule crc32_burst)

theorem crc32_detects_burst_witness:
  "crc32 0 ([1] @ [2, 3] @ [4]) \<noteq> crc32 0 ([1] @ [2, 7] @ [4])"
  by (rule crc32_detects_burst) simp_all

lemma crc32_eval: "crc32 0 buf = foldl crc_byte 0xffffffff buf XOR 0xffffffff"
  by (simp add: crc32_def crc_blocks_foldl)

text \<open>The vectors of \<open>test/crc32.c\<close>.\<close>

lemma crc32_test_vector: "crc32 0 (str_bytes ''Hello, World!'') = 0xec4ac3d0"
  by (simp add: crc32_eval crc_byte_def crc_eval str_bytes_def)

lemma crc32_no_comp_test_vector: "crc32_no_comp 0 (str_bytes ''Hello, World!'') = 0xe33e8552"
  by (simp add: crc32_no_comp_foldl crc_byte_def crc_eval str_bytes_def)

end
