(* ===== verification/Sha_Blocks.thy ===== *)
theory Sha_Blocks
  imports DT_Prelude
begin

text \<open>
  What \<open>crypto/sha1.c\<close> and \<open>crypto/sha2.c\<close> share: rotations (\<open>dt/common.h\<close>), the padding of FIPS 180-4, and
  the block wise streaming of a message through a compression function.  The locale \<open>md_hash\<close> states
  what a compression function has to provide, and proves once that the buffering update used by both
  sources is insensitive to how the message is cut into pieces, and that finalisation hashes the
  padded message.  Both digests interpret it.
\<close>

section \<open>Rotations\<close>

definition rol32 :: "u32 \<Rightarrow> nat \<Rightarrow> u32" where
  "rol32 w s = push_bit s w OR drop_bit (32 - s) w"

definition ror32 :: "u32 \<Rightarrow> nat \<Rightarrow> u32" where
  "ror32 w s = drop_bit s w OR push_bit (32 - s) w"

lemma ror32_rol32: "0 < s \<Longrightarrow> s < 32 \<Longrightarrow> ror32 w s = rol32 w (32 - s)"
  by (simp add: ror32_def rol32_def or.commute)

section \<open>Absorbing a message block by block\<close>

text \<open>The reference: compress every complete 64 byte block of the message in turn.\<close>

function absorb :: "('s \<Rightarrow> bytes \<Rightarrow> 's) \<Rightarrow> 's \<Rightarrow> bytes \<Rightarrow> 's" where
  "absorb T s bs = (if 64 \<le> length bs then absorb T (T s (take 64 bs)) (drop 64 bs) else s)"
  by pat_completeness auto
termination
  by (relation "measure (\<lambda>(T, s, bs). length bs)") auto

declare absorb.simps [simp del]

lemma absorb_short [simp]: "length bs < 64 \<Longrightarrow> absorb T s bs = s"
  by (simp add: absorb.simps)

lemma absorb_block:
  "length b = 64 \<Longrightarrow> absorb T s (b @ r) = absorb T (T s b) r"
  by (subst absorb.simps) simp

lemma absorb_append:
  "64 dvd length a \<Longrightarrow> absorb T s (a @ b) = absorb T (absorb T s a) b"
proof (induction T s a rule: absorb.induct)
  case (1 T s a)
  show ?case
  proof (cases "64 \<le> length a")
    case True
    then have d: "64 dvd length (drop 64 a)" using "1.prems" by auto
    have "absorb T s (a @ b) = absorb T (T s (take 64 a)) (drop 64 a @ b)"
      using absorb_block [of "take 64 a" T s "drop 64 a @ b"] True
      by (metis append.assoc append_take_drop_id length_take min.absorb2)
    also have "\<dots> = absorb T (absorb T (T s (take 64 a)) (drop 64 a)) b"
      using "1.IH" True d by simp
    also have "absorb T (T s (take 64 a)) (drop 64 a) = absorb T s a"
      using True by (simp add: absorb.simps [of T s a])
    finally show ?thesis .
  next
    case False
    with "1.prems" have "a = []" by (auto dest: dvd_imp_le)
    then show ?thesis by simp
  qed
qed

lemma absorb_whole:
  "absorb T s bs = absorb T s (take (length bs - length bs mod 64) bs)"
proof -
  let ?k = "length bs - length bs mod 64"
  have d: "64 dvd length (take ?k bs)" by (simp add: min_absorb2 dvd_minus_mod)
  have "absorb T s bs = absorb T s (take ?k bs @ drop ?k bs)" by simp
  also have "\<dots> = absorb T (absorb T s (take ?k bs)) (drop ?k bs)"
    using d by (rule absorb_append)
  also have "\<dots> = absorb T s (take ?k bs)" by (rule absorb_short) simp
  finally show ?thesis .
qed

text \<open>The FIPS 180-4 padding: a one bit, zeros up to 56 modulo 64, the bit length in 64 bits.\<close>

definition pad_len :: "nat \<Rightarrow> nat" where
  "pad_len n = (if n mod 64 < 56 then 56 - n mod 64 else 120 - n mod 64)"

definition fips_pad :: "bytes \<Rightarrow> bytes" where
  "fips_pad m = m @ 0x80 # replicate (pad_len (length m) - 1) 0
     @ put_unaligned_be64 (word_of_nat (8 * length m))"

lemma pad_len_bounds: "0 < pad_len n" "pad_len n \<le> 64"
  by (auto simp: pad_len_def)

lemma pad_len_aligns: "(n + pad_len n) mod 64 = 56"
proof -
  have "(n + pad_len n) mod 64 = (n mod 64 + pad_len n) mod 64" by (simp add: mod_add_left_eq)
  also have "n mod 64 + pad_len n = (if n mod 64 < 56 then 56 else 120)"
    using mod_less_divisor [of 64 n] by (auto simp: pad_len_def)
  finally show ?thesis by (simp split: if_splits)
qed

lemma length_fips_pad_mod: "length (fips_pad m) mod 64 = 0"
proof -
  have "length (fips_pad m) = length m + pad_len (length m) + 8"
    using pad_len_bounds(1) [of "length m"] by (simp add: fips_pad_def)
  also have "\<dots> mod 64 = ((length m + pad_len (length m)) mod 64 + 8) mod 64"
    by (simp add: mod_add_left_eq)
  finally show ?thesis by (simp add: pad_len_aligns)
qed

section \<open>The buffering update both digests use\<close>

function md_loop :: "('s \<Rightarrow> bytes \<Rightarrow> 's) \<Rightarrow> 's \<Rightarrow> bytes \<Rightarrow> nat \<Rightarrow> 's \<times> nat" where
  "md_loop T s data done =
     (if done + 64 \<le> length data
      then md_loop T (T s (take 64 (drop done data))) data (done + 64) else (s, done))"
  by pat_completeness auto
termination
  by (relation "measure (\<lambda>(T, s, data, done). length data - done)") auto

declare md_loop.simps [simp del]

definition md_update ::
    "('s \<Rightarrow> bytes \<Rightarrow> 's) \<Rightarrow> u64 \<times> 's \<times> bytes \<Rightarrow> bytes \<Rightarrow> u64 \<times> 's \<times> bytes" where
  "md_update T ctx data = (case ctx of (count, st, buf) \<Rightarrow>
     let partial = unat (count mod 64); len = length data; count' = count + word_of_nat len
     in if 64 \<le> partial + len then
          let buf1 = (if partial \<noteq> 0 then mem_put buf partial (take (64 - partial) data) else buf);
              src = (if partial \<noteq> 0 then buf1 else take 64 data);
              (st', done) = md_loop T (T st src) data (64 - partial)
          in (count', st', mem_put buf1 0 (drop done data))
        else (count', st, mem_put buf partial data))"

text \<open>A context holds the message \<open>m\<close>: its blocks are absorbed, its tail is buffered.\<close>

definition md_holds :: "('s \<Rightarrow> bytes \<Rightarrow> 's) \<Rightarrow> 's \<Rightarrow> u64 \<times> 's \<times> bytes \<Rightarrow> bytes \<Rightarrow> bool" where
  "md_holds T h0 ctx m = (case ctx of (count, st, buf) \<Rightarrow>
     length buf = 64 \<and> length m < 2 ^ 61 \<and> count = word_of_nat (length m) \<and> st = absorb T h0 m
     \<and> take (length m mod 64) buf = drop (length m - length m mod 64) m)"

lemma md_loop_absorb:
  "done \<le> length data \<Longrightarrow> md_loop T s data done =
     (absorb T s (drop done data), length data - (length data - done) mod 64)"
proof (induction T s data "done" rule: md_loop.induct)
  case (1 T s data d)
  show ?case
  proof (cases "d + 64 \<le> length data")
    case True
    have "md_loop T s data d = md_loop T (T s (take 64 (drop d data))) data (d + 64)"
      using True by (simp add: md_loop.simps [of T s data d])
    also have "\<dots> = (absorb T (T s (take 64 (drop d data))) (drop (d + 64) data),
        length data - (length data - (d + 64)) mod 64)"
      using 1 True by simp
    also have "absorb T (T s (take 64 (drop d data))) (drop (d + 64) data) = absorb T s (drop d data)"
    proof -
      have "64 \<le> length (drop d data)" using True by simp
      then show ?thesis by (simp add: absorb.simps [of T s "drop d data"] add.commute)
    qed
    also have "(length data - (d + 64)) mod 64 = (length data - d) mod 64"
      using True by (simp add: le_mod_geq [of 64 "length data - d"])
    finally show ?thesis .
  next
    case False
    then have "(length data - d) mod 64 = length data - d" by simp
    with False "1.prems" show ?thesis by (subst md_loop.simps) simp
  qed
qed

lemma unat_of_nat_mod64:
  "n < 2 ^ 61 \<Longrightarrow> unat ((word_of_nat n :: u64) mod 64) = n mod 64"
  by (simp add: unat_mod_distrib unat_of_nat)

lemma absorb_split:
  assumes "length t < 64"
  shows "64 dvd length a \<Longrightarrow> absorb T h0 (a @ t @ d') = absorb T (absorb T h0 (a @ t)) (t @ d')"
proof -
  assume d: "64 dvd length a"
  have "absorb T h0 (a @ t) = absorb T h0 a" using absorb_append [OF d, of T h0 t] assms by simp
  then show ?thesis using absorb_append [OF d, of T h0 "t @ d'"] by simp
qed

lemma md_update_holds:
  assumes "md_holds T h0 ctx m" and "length m + length data < 2 ^ 61"
  shows "md_holds T h0 (md_update T ctx data) (m @ data)"
proof -
  obtain count st buf where ctx: "ctx = (count, st, buf)" by (cases ctx) auto
  define r where "r = length m mod 64"
  define a where "a = take (length m - r) m"
  define t where "t = drop (length m - r) m"
  have m: "m = a @ t" by (simp add: a_def t_def)
  have r: "r < 64" "length t = r" by (simp_all add: r_def t_def)
  have da: "64 dvd length a" by (simp add: a_def r_def min_absorb2 dvd_minus_mod)
  have h: "length buf = 64" "count = word_of_nat (length m)" "st = absorb T h0 m" "take r buf = t"
    using assms(1) by (simp_all add: md_holds_def ctx r_def t_def)
  have partial: "unat (count mod 64) = r"
    using assms(1) by (simp add: h(2) r_def unat_of_nat_mod64 md_holds_def ctx)
  have count: "count + word_of_nat (length data) = word_of_nat (length (m @ data))"
    by (simp add: h(2))
  have st: "absorb T h0 (m @ data) = absorb T st (t @ data)"
    using absorb_split [of t a T h0 data] da r h(3) by (simp add: m)
  have len: "length (m @ data) mod 64 = (r + length data) mod 64"
    by (simp add: r_def mod_add_left_eq)
  show ?thesis
  proof (cases "64 \<le> r + length data")
    case True
    define b where "b = t @ take (64 - r) data"
    define k where "k = (r + length data) mod 64"
    define d where "d = length data - (length data - (64 - r)) mod 64"
    define buf1 where "buf1 = (if r \<noteq> 0 then mem_put buf r (take (64 - r) data) else buf)"
    have k: "k = (length data - (64 - r)) mod 64" "k < 64" "k \<le> length data"
    proof -
      have "r + length data - 64 = length data - (64 - r)" using True r(1) by simp
      then show "k = (length data - (64 - r)) mod 64"
        using True by (simp add: k_def le_mod_geq)
      then show "k \<le> length data" by (metis diff_le_self le_trans mod_less_eq_dividend)
    qed (simp add: k_def)
    have src: "(if r \<noteq> 0 then buf1 else take 64 data) = b"
      using True h(1,4) r by (auto simp: b_def buf1_def mem_put_def)
    have loop: "md_loop T (T st b) data (64 - r) = (absorb T (T st b) (drop (64 - r) data), d)"
      using True r(1) by (simp add: md_loop_absorb d_def)
    have u: "md_update T ctx data =
        (word_of_nat (length (m @ data)), absorb T (T st b) (drop (64 - r) data),
         mem_put buf1 0 (drop d data))"
      by (simp only: md_update_def ctx prod.case Let_def partial buf1_def [symmetric] src loop
          count True if_True)
    have "absorb T st (t @ data) = absorb T (T st b) (drop (64 - r) data)"
      using absorb_block [of b T st "drop (64 - r) data"] True r by (simp add: b_def)
    moreover have "drop d data = drop (length (m @ data) - k) (m @ data)"
    proof -
      have "length (m @ data) - k = length m + d" using k(1,3) by (simp add: d_def)
      then show ?thesis by simp
    qed
    moreover have "length (drop d data) = k" "length buf1 = 64"
      using k r(1) h(1) by (simp_all add: d_def buf1_def)
    ultimately show ?thesis
      using assms(2) k(2) unfolding md_holds_def u len k_def [symmetric]
      by (simp add: st mem_put_def)
  next
    case False
    then have "md_update T ctx data = (word_of_nat (length (m @ data)), st, mem_put buf r data)"
      by (simp only: md_update_def ctx prod.case Let_def partial count if_False)
    moreover have "take (r + length data) (mem_put buf r data) = t @ data"
      using False h(1,4) r(2) by (simp add: mem_put_def)
    moreover have "drop (length (m @ data) - (r + length data)) (m @ data) = t @ data"
      using r by (simp add: m)
    ultimately show ?thesis
      using assms(2) False st h(1) r unfolding md_holds_def len by simp
  qed
qed

section \<open>Finalisation\<close>

lemma count_and_3f: "unat (c AND 0x3f) = unat (c mod 64)" for c :: u64
proof -
  have "c AND 0x3f = take_bit 6 c"
    by (simp add: take_bit_eq_mask mask_eq_exp_minus_1)
  then show ?thesis by (simp add: take_bit_eq_mod)
qed

definition md_final :: "('s \<Rightarrow> bytes \<Rightarrow> 's) \<Rightarrow> u64 \<times> 's \<times> bytes \<Rightarrow> 's" where
  "md_final T ctx =
     (let count = fst ctx;
          bits = put_unaligned_be64 (push_bit 3 count);
          index = unat (count mod 64);
          padlen = (if index < 56 then 56 - index else (64 + 56) - index);
          ctx1 = md_update T ctx (take padlen (0x80 # replicate 63 0));
          ctx2 = md_update T ctx1 bits
      in fst (snd ctx2))"

lemma push_bit_3_count: "push_bit 3 (word_of_nat n :: u64) = word_of_nat (8 * n)"
  by (simp add: push_bit_eq_mult)

lemma md_final_holds:
  assumes "md_holds T h0 ctx m" and "length m + 72 < 2 ^ 61"
  shows "md_final T ctx = absorb T h0 (fips_pad m)"
proof -
  let ?n = "length m"
  have count: "fst ctx = word_of_nat ?n" "?n < 2 ^ 61"
    using assms(1) by (auto simp: md_holds_def split: prod.splits)
  have index: "unat (word_of_nat ?n mod 64 :: u64) = ?n mod 64"
    using count(2) by (rule unat_of_nat_mod64)
  have padlen: "(if ?n mod 64 < 56 then 56 - ?n mod 64 else (64 + 56) - ?n mod 64) = pad_len ?n"
    by (simp add: pad_len_def)
  let ?p = "take (pad_len ?n) (0x80 # replicate 63 0) :: bytes"
  let ?b = "put_unaligned_be64 (word_of_nat (8 * ?n))"
  have p: "?p = 0x80 # replicate (pad_len ?n - 1) 0"
    using pad_len_bounds [of ?n] by (cases "pad_len ?n") auto
  have lp: "length ?p = pad_len ?n" "pad_len ?n \<le> 64"
    using pad_len_bounds [of ?n] by auto
  have h1: "md_holds T h0 (md_update T ctx ?p) (m @ ?p)"
    by (rule md_update_holds [OF assms(1)]) (use assms(2) lp in simp)
  have h2: "md_holds T h0 (md_update T (md_update T ctx ?p) ?b) ((m @ ?p) @ ?b)"
    by (rule md_update_holds [OF h1]) (use assms(2) lp in simp)
  have "(m @ ?p) @ ?b = fips_pad m" by (simp add: fips_pad_def p)
  then have "fst (snd (md_update T (md_update T ctx ?p) ?b)) = absorb T h0 (fips_pad m)"
    using h2 by (auto simp: md_holds_def split: prod.splits)
  then show ?thesis
    unfolding md_final_def Let_def count(1) index padlen push_bit_3_count .
qed

section \<open>The interface of a streaming hash\<close>

text \<open>
  \<open>view\<close> reads a digest context as (byte count, chaining value, block buffer).  The laws say that the
  operations of a digest implementation act on this view as the shared update and finalisation do.
\<close>

locale md_hash =
  fixes T :: "'s \<Rightarrow> bytes \<Rightarrow> 's" and h0 :: 's and out :: "'s \<Rightarrow> bytes"
    and view :: "'c \<Rightarrow> u64 \<times> 's \<times> bytes"
    and init :: "'c \<Rightarrow> 'c" and update :: "'c \<Rightarrow> bytes \<Rightarrow> 'c" and finish :: "'c \<Rightarrow> bytes \<times> 'c"
  assumes view_init: "view (init c) = (0, h0, snd (snd (view c)))"
    and view_update: "view (update c d) = md_update T (view c) d"
    and finish_out: "fst (finish c) = out (md_final T (view c))"
    and finish_buf: "length (snd (snd (view (snd (finish c))))) = 64"
begin

definition ready :: "'c \<Rightarrow> bool" where
  "ready c \<longleftrightarrow> length (snd (snd (view c))) = 64"

definition hash :: "bytes \<Rightarrow> bytes" where
  "hash m = out (absorb T h0 (fips_pad m))"

definition holds :: "'c \<Rightarrow> bytes \<Rightarrow> bool" where
  "holds c m \<longleftrightarrow> md_holds T h0 (view c) m"

lemma holds_init: "ready c \<Longrightarrow> holds (init c) []"
  by (simp add: ready_def holds_def view_init md_holds_def)

lemma holds_update:
  "holds c m \<Longrightarrow> length m + length d < 2 ^ 61 \<Longrightarrow> holds (update c d) (m @ d)"
  by (simp add: holds_def view_update md_update_holds)

lemma holds_finish:
  "holds c m \<Longrightarrow> length m + 72 < 2 ^ 61 \<Longrightarrow> fst (finish c) = hash m"
  by (simp add: holds_def finish_out hash_def md_final_holds)

lemma ready_finish: "ready (snd (finish c))"
  by (simp add: ready_def finish_buf)

lemma holds_chunks:
  "holds c m \<Longrightarrow> length m + length (concat ds) < 2 ^ 61 \<Longrightarrow> holds (foldl update c ds) (m @ concat ds)"
proof (induction ds arbitrary: c m)
  case (Cons d ds)
  then have "holds (update c d) (m @ d)" by (intro holds_update) auto
  with Cons.IH [of "update c d" "m @ d"] Cons.prems(2) show ?case by simp
qed simp

lemma finish_chunks:
  assumes "ready c" and "length (concat ds) + 72 < 2 ^ 61"
  shows "fst (finish (foldl update (init c) ds)) = hash (concat ds)"
proof -
  have "holds (foldl update (init c) ds) ([] @ concat ds)"
    by (rule holds_chunks [OF holds_init [OF assms(1)]]) (use assms(2) in simp)
  then show ?thesis using assms(2) by (simp add: holds_finish)
qed

end

end
