(* ===== verification/Sha1.thy ===== *)
theory Sha1
  imports Sha_Blocks
begin

text \<open>
  \<open>src/crypto/sha1.c\<close>: the SHA-1 digest.  The model keeps the 16 word rolling workspace and the rotating
  register roles of the unrolled rounds; the reference is FIPS 180-4 with its 80 word schedule.  The
  lemmas relate the two and interpret the streaming interface \<open>md_hash\<close> on the code's operations.
\<close>

section \<open>The code\<close>

record sha1_state =
  sha1_count :: u64
  sha1_st :: "u32 list"
  sha1_buffer :: bytes

definition SHA1_H :: "u32 list" where
  "SHA1_H = [0x67452301, 0xefcdab89, 0x98badcfe, 0x10325476, 0xc3d2e1f0]"

definition sha1_init :: "sha1_state \<Rightarrow> sha1_state" where
  "sha1_init ctx = ctx\<lparr>sha1_count := 0, sha1_st := SHA1_H\<rparr>"

text \<open>
  \<open>SHA_SRC\<close> reads word \<open>t\<close> of the block; \<open>SHA_MIX\<close> mixes four words of the rolling array, indexed
  modulo 16 by the macro \<open>W\<close>.
\<close>

definition SHA_SRC :: "bytes \<Rightarrow> nat \<Rightarrow> u32" where
  "SHA_SRC data t = get_unaligned_be32 (drop (4 * t) data)"

definition SHA_MIX :: "u32 list \<Rightarrow> nat \<Rightarrow> u32" where
  "SHA_MIX array t =
     rol32 (array ! ((t + 13) mod 16) XOR array ! ((t + 8) mod 16) XOR array ! ((t + 2) mod 16)
       XOR array ! (t mod 16)) 1"

type_synonym sha1_regs = "u32 \<times> u32 \<times> u32 \<times> u32 \<times> u32"

text \<open>
  \<open>SHA_ROUND\<close> stores its input word in the array, adds to \<open>E\<close> and rotates \<open>B\<close>.  The next call of the
  unrolled code names the registers rotated by one place, so the result lists them in that order.
\<close>

definition SHA_ROUND ::
    "nat \<Rightarrow> u32 \<Rightarrow> (u32 \<Rightarrow> u32 \<Rightarrow> u32 \<Rightarrow> u32) \<Rightarrow> u32 \<Rightarrow> u32 list \<times> sha1_regs \<Rightarrow> u32 list \<times> sha1_regs" where
  "SHA_ROUND t inp fn constant s = (case s of (array, (A, B, C, D, E)) \<Rightarrow>
     (array[t mod 16 := inp],
      (E + (inp + rol32 A 5 + fn B C D + constant), A, ror32 B 2, C, D)))"

definition T_0_15 :: "bytes \<Rightarrow> nat \<Rightarrow> u32 list \<times> sha1_regs \<Rightarrow> u32 list \<times> sha1_regs" where
  "T_0_15 data t s = SHA_ROUND t (SHA_SRC data t) (\<lambda>B C D. ((C XOR D) AND B) XOR D) 0x5a827999 s"

definition T_16_19 :: "nat \<Rightarrow> u32 list \<times> sha1_regs \<Rightarrow> u32 list \<times> sha1_regs" where
  "T_16_19 t s = SHA_ROUND t (SHA_MIX (fst s) t) (\<lambda>B C D. ((C XOR D) AND B) XOR D) 0x5a827999 s"

definition T_20_39 :: "nat \<Rightarrow> u32 list \<times> sha1_regs \<Rightarrow> u32 list \<times> sha1_regs" where
  "T_20_39 t s = SHA_ROUND t (SHA_MIX (fst s) t) (\<lambda>B C D. B XOR C XOR D) 0x6ed9eba1 s"

definition T_40_59 :: "nat \<Rightarrow> u32 list \<times> sha1_regs \<Rightarrow> u32 list \<times> sha1_regs" where
  "T_40_59 t s =
     SHA_ROUND t (SHA_MIX (fst s) t) (\<lambda>B C D. (B AND C) + (D AND (B XOR C))) 0x8f1bbcdc s"

definition T_60_79 :: "nat \<Rightarrow> u32 list \<times> sha1_regs \<Rightarrow> u32 list \<times> sha1_regs" where
  "T_60_79 t s = SHA_ROUND t (SHA_MIX (fst s) t) (\<lambda>B C D. B XOR C XOR D) 0xca62c1d6 s"

text \<open>
  The 80 macro calls of \<open>sha_transform\<close>.  Eighty is a multiple of five, so after the last call the
  registers have their first names again and are added to the digest in order.
\<close>

definition sha_transform :: "u32 list \<Rightarrow> bytes \<Rightarrow> u32 list \<Rightarrow> u32 list" where
  "sha_transform digest data array =
     (let s0 = (array, (digest ! 0, digest ! 1, digest ! 2, digest ! 3, digest ! 4));
          s1 = fold (T_0_15 data) [0..<16] s0;
          s2 = fold T_16_19 [16..<20] s1;
          s3 = fold T_20_39 [20..<40] s2;
          s4 = fold T_40_59 [40..<60] s3;
          (array', (A, B, C, D, E)) = fold T_60_79 [60..<80] s4
      in [digest ! 0 + A, digest ! 1 + B, digest ! 2 + C, digest ! 3 + D, digest ! 4 + E])"

text \<open>
  \<open>sha1_update\<close>.  The workspace \<open>temp\<close> is uninitialised in the code; \<open>sha_transform_workspace\<close> below shows
  that its content does not matter.  \<open>done\<close> starts at \<open>-partial\<close> and is \<open>64 - partial\<close> after the first
  pass of the \<open>do\<close> loop; it is a natural number from then on.
\<close>

function sha1_update_loop :: "u32 list \<Rightarrow> bytes \<Rightarrow> nat \<Rightarrow> u32 list \<times> nat" where
  "sha1_update_loop st data done =
     (if done + 64 \<le> length data
      then sha1_update_loop (sha_transform st (take 64 (drop done data)) (replicate 16 0)) data (done + 64)
      else (st, done))"
  by pat_completeness auto
termination
  by (relation "measure (\<lambda>(st, data, done). length data - done)") auto

declare sha1_update_loop.simps [simp del]

definition sha1_update :: "sha1_state \<Rightarrow> bytes \<Rightarrow> sha1_state" where
  "sha1_update sctx data =
     (let partial = unat (sha1_count sctx mod 64);
          len = length data;
          sctx1 = sctx\<lparr>sha1_count := sha1_count sctx + word_of_nat len\<rparr>
      in if 64 \<le> partial + len then
           let buffer1 = (if partial \<noteq> 0
                 then mem_put (sha1_buffer sctx) partial (take (64 - partial) data)
                 else sha1_buffer sctx);
               src = (if partial \<noteq> 0 then buffer1 else take 64 data);
               (st', done) = sha1_update_loop (sha_transform (sha1_st sctx) src (replicate 16 0)) data
                 (64 - partial)
           in sctx1\<lparr>sha1_st := st', sha1_buffer := mem_put buffer1 0 (drop done data)\<rparr>
         else sctx1\<lparr>sha1_buffer := mem_put (sha1_buffer sctx) partial data\<rparr>)"

text \<open>\<open>sha1_final\<close> returns the digest bytes and the wiped context.\<close>

definition sha1_final :: "sha1_state \<Rightarrow> bytes \<times> sha1_state" where
  "sha1_final sctx =
     (let bits = put_unaligned_be64 (push_bit 3 (sha1_count sctx));
          index = unat (sha1_count sctx AND 0x3f);
          padlen = (if index < 56 then 56 - index else (64 + 56) - index);
          sctx1 = sha1_update sctx (take padlen (0x80 # replicate 63 0));
          sctx2 = sha1_update sctx1 bits
      in (concat (map put_unaligned_be32 (sha1_st sctx2)),
          \<lparr>sha1_count = 0, sha1_st = replicate 5 0, sha1_buffer = replicate 64 0\<rparr>))"

section \<open>FIPS 180-4\<close>

fun fips_sha1_W :: "bytes \<Rightarrow> nat \<Rightarrow> u32" where
  "fips_sha1_W M t =
     (if t < 16 then get_unaligned_be32 (drop (4 * t) M)
      else rol32 (fips_sha1_W M (t - 3) XOR fips_sha1_W M (t - 8) XOR fips_sha1_W M (t - 14)
        XOR fips_sha1_W M (t - 16)) 1)"

declare fips_sha1_W.simps [simp del]

definition fips_sha1_f :: "nat \<Rightarrow> u32 \<Rightarrow> u32 \<Rightarrow> u32 \<Rightarrow> u32" where
  "fips_sha1_f t x y z =
     (if t < 20 then (x AND y) XOR (NOT x AND z)
      else if t < 40 then x XOR y XOR z
      else if t < 60 then (x AND y) XOR (x AND z) XOR (y AND z)
      else x XOR y XOR z)"

definition fips_sha1_K :: "nat \<Rightarrow> u32" where
  "fips_sha1_K t =
     (if t < 20 then 0x5a827999 else if t < 40 then 0x6ed9eba1
      else if t < 60 then 0x8f1bbcdc else 0xca62c1d6)"

definition fips_sha1_round :: "bytes \<Rightarrow> nat \<Rightarrow> sha1_regs \<Rightarrow> sha1_regs" where
  "fips_sha1_round M t r = (case r of (a, b, c, d, e) \<Rightarrow>
     (rol32 a 5 + fips_sha1_f t b c d + e + fips_sha1_K t + fips_sha1_W M t,
      a, rol32 b 30, c, d))"

definition fips_sha1_compress :: "u32 list \<Rightarrow> bytes \<Rightarrow> u32 list" where
  "fips_sha1_compress H M =
     (case fold (fips_sha1_round M) [0..<80] (H ! 0, H ! 1, H ! 2, H ! 3, H ! 4) of (a, b, c, d, e) \<Rightarrow>
        [H ! 0 + a, H ! 1 + b, H ! 2 + c, H ! 3 + d, H ! 4 + e])"

definition fips_sha1 :: "bytes \<Rightarrow> bytes" where
  "fips_sha1 m = concat (map put_unaligned_be32 (absorb fips_sha1_compress SHA1_H (fips_pad m)))"

section \<open>The rounds\<close>

lemma ch_eq: "((c XOR d) AND b) XOR d = (b AND c) XOR (NOT b AND (d :: u32))"
  by (rule bit_word_eqI) (auto simp: bit_simps)

lemma maj_eq: "(b AND c) + (d AND (b XOR c)) = (b AND c) XOR (b AND d) XOR (c AND (d :: u32))"
proof -
  have "(b AND c) AND (d AND (b XOR c)) = 0"
    by (rule bit_word_eqI) (auto simp: bit_simps)
  then have "(b AND c) + (d AND (b XOR c)) = (b AND c) OR (d AND (b XOR c))"
    using word_plus_and_or [of "b AND c" "d AND (b XOR c)"] by simp
  also have "\<dots> = (b AND c) XOR (b AND d) XOR (c AND d)"
    by (rule bit_word_eqI) (auto simp: bit_simps)
  finally show ?thesis .
qed

text \<open>
  After round \<open>t\<close> the rolling array holds the last sixteen schedule words; before round 16 it need
  only hold the words written so far, whatever the workspace contained.
\<close>

definition window :: "bytes \<Rightarrow> nat \<Rightarrow> u32 list \<Rightarrow> bool" where
  "window M t array \<longleftrightarrow> length array = 16 \<and>
     (\<forall>j < t. t \<le> j + 16 \<longrightarrow> array ! (j mod 16) = fips_sha1_W M j)"

lemma window_step:
  assumes "window M t array"
  shows "window M (Suc t) (array[t mod 16 := fips_sha1_W M t])"
proof -
  have "array[t mod 16 := fips_sha1_W M t] ! (j mod 16) = fips_sha1_W M j"
    if j: "j < Suc t" "Suc t \<le> j + 16" for j
  proof (cases "j = t")
    case True
    then show ?thesis using assms by (simp add: window_def)
  next
    case False
    then have "j < t" "t \<le> j + 16" "t - j < 16" using j by auto
    moreover have "j mod 16 \<noteq> t mod 16"
    proof
      assume "j mod 16 = t mod 16"
      then have "16 dvd t - j" using \<open>j < t\<close> by (metis mod_eq_dvd_iff_nat less_imp_le)
      with \<open>j < t\<close> \<open>t - j < 16\<close> show False by (auto dest: dvd_imp_le)
    qed
    ultimately show ?thesis using assms by (simp add: window_def)
  qed
  with assms show ?thesis by (simp add: window_def)
qed

lemma SHA_MIX_window:
  assumes "window M t array" and "16 \<le> t"
  shows "SHA_MIX array t = fips_sha1_W M t"
proof -
  have m: "(t + 13) mod 16 = (t - 3) mod 16" "(t + 8) mod 16 = (t - 8) mod 16"
    "(t + 2) mod 16 = (t - 14) mod 16" "t mod 16 = (t - 16) mod 16"
    using assms(2) by (simp_all add: mod_eq_dvd_iff_nat)
  have "array ! ((t - k) mod 16) = fips_sha1_W M (t - k)" if "0 < k" "k \<le> 16" for k
    using assms that by (simp add: window_def)
  then show ?thesis
    using assms(2) unfolding SHA_MIX_def m by (simp add: fips_sha1_W.simps [of M t])
qed

lemma SHA_SRC_W: "t < 16 \<Longrightarrow> SHA_SRC M t = fips_sha1_W M t"
  by (simp add: SHA_SRC_def fips_sha1_W.simps)

lemma SHA_ROUND_fips:
  assumes "\<And>x y z. fn x y z = fips_sha1_f t x y z" and "k = fips_sha1_K t" and "w = fips_sha1_W M t"
  shows "SHA_ROUND t w fn k (array, r) = (array[t mod 16 := fips_sha1_W M t], fips_sha1_round M t r)"
  using assms by (cases r) (simp add: SHA_ROUND_def fips_sha1_round_def ror32_rol32 ac_simps)

lemma fold_rounds:
  assumes "\<And>t array r. a \<le> t \<Longrightarrow> t < b \<Longrightarrow> window M t array \<Longrightarrow>
      F t (array, r) = (array[t mod 16 := fips_sha1_W M t], fips_sha1_round M t r)"
    and "a \<le> b" and "window M a array"
  shows "\<exists>array'. window M b array' \<and>
    fold F [a..<b] (array, r) = (array', fold (fips_sha1_round M) [a..<b] r)"
  using assms(2,1)
proof (induction b rule: dec_induct)
  case base
  then show ?case using assms(3) by simp
next
  case (step n)
  then obtain array' where "window M n array'"
    "fold F [a..<n] (array, r) = (array', fold (fips_sha1_round M) [a..<n] r)"
    by force
  then show ?case using step by (simp add: window_step)
qed

lemma sha1_segments:
  "window M t a \<Longrightarrow> t < 16 \<Longrightarrow>
     T_0_15 M t (a, r) = (a[t mod 16 := fips_sha1_W M t], fips_sha1_round M t r)"
  "window M t a \<Longrightarrow> 16 \<le> t \<Longrightarrow> t < 20 \<Longrightarrow>
     T_16_19 t (a, r) = (a[t mod 16 := fips_sha1_W M t], fips_sha1_round M t r)"
  "window M t a \<Longrightarrow> 20 \<le> t \<Longrightarrow> t < 40 \<Longrightarrow>
     T_20_39 t (a, r) = (a[t mod 16 := fips_sha1_W M t], fips_sha1_round M t r)"
  "window M t a \<Longrightarrow> 40 \<le> t \<Longrightarrow> t < 60 \<Longrightarrow>
     T_40_59 t (a, r) = (a[t mod 16 := fips_sha1_W M t], fips_sha1_round M t r)"
  "window M t a \<Longrightarrow> 60 \<le> t \<Longrightarrow>
     T_60_79 t (a, r) = (a[t mod 16 := fips_sha1_W M t], fips_sha1_round M t r)"
  unfolding T_0_15_def T_16_19_def T_20_39_def T_40_59_def T_60_79_def
  by (rule SHA_ROUND_fips;
      simp add: fips_sha1_f_def fips_sha1_K_def ch_eq maj_eq SHA_SRC_W SHA_MIX_window)+

lemma upt_80: "[0..<80] = [0..<16] @ [16..<20] @ [20..<40] @ [40..<60] @ [60..<80]"
  by (simp add: upt_rec)

lemma sha_transform_fips:
  assumes "length array = 16"
  shows "sha_transform H M array = fips_sha1_compress H M"
proof -
  let ?r0 = "(H ! 0, H ! 1, H ! 2, H ! 3, H ! 4)" and ?F = "fold (fips_sha1_round M)"
  have w0: "window M 0 array" using assms by (simp add: window_def)
  have "\<exists>a. window M 16 a \<and> fold (T_0_15 M) [0..<16] (array, ?r0) = (a, ?F [0..<16] ?r0)"
    by (rule fold_rounds [OF _ _ w0]) (simp_all add: sha1_segments(1))
  then obtain a1 where 1: "window M 16 a1"
    "fold (T_0_15 M) [0..<16] (array, ?r0) = (a1, ?F [0..<16] ?r0)" by blast
  have "\<exists>a. window M 20 a \<and> fold T_16_19 [16..<20] (a1, r) = (a, ?F [16..<20] r)" for r
    by (rule fold_rounds [OF _ _ 1(1)]) (simp_all add: sha1_segments(2))
  then obtain a2 where 2: "window M 20 a2"
    "fold T_16_19 [16..<20] (a1, ?F [0..<16] ?r0) = (a2, ?F [16..<20] (?F [0..<16] ?r0))" by blast
  have "\<exists>a. window M 40 a \<and> fold T_20_39 [20..<40] (a2, r) = (a, ?F [20..<40] r)" for r
    by (rule fold_rounds [OF _ _ 2(1)]) (simp_all add: sha1_segments(3))
  then obtain a3 where 3: "window M 40 a3"
    "fold T_20_39 [20..<40] (a2, ?F [16..<20] (?F [0..<16] ?r0)) =
       (a3, ?F [20..<40] (?F [16..<20] (?F [0..<16] ?r0)))" by blast
  have "\<exists>a. window M 60 a \<and> fold T_40_59 [40..<60] (a3, r) = (a, ?F [40..<60] r)" for r
    by (rule fold_rounds [OF _ _ 3(1)]) (simp_all add: sha1_segments(4))
  then obtain a4 where 4: "window M 60 a4"
    "fold T_40_59 [40..<60] (a3, ?F [20..<40] (?F [16..<20] (?F [0..<16] ?r0))) =
       (a4, ?F [40..<60] (?F [20..<40] (?F [16..<20] (?F [0..<16] ?r0))))" by blast
  have "\<exists>a. window M 80 a \<and> fold T_60_79 [60..<80] (a4, r) = (a, ?F [60..<80] r)" for r
    by (rule fold_rounds [OF _ _ 4(1)]) (simp_all add: sha1_segments(5))
  then obtain a5 where 5: "fold T_60_79 [60..<80]
      (a4, ?F [40..<60] (?F [20..<40] (?F [16..<20] (?F [0..<16] ?r0)))) =
      (a5, ?F [60..<80] (?F [40..<60] (?F [20..<40] (?F [16..<20] (?F [0..<16] ?r0)))))" by blast
  have "?F [0..<80] ?r0 =
      ?F [60..<80] (?F [40..<60] (?F [20..<40] (?F [16..<20] (?F [0..<16] ?r0))))"
    unfolding upt_80 fold_append o_apply ..
  then show ?thesis
    unfolding sha_transform_def Let_def 1(2) 2(2) 3(2) 4(2) 5 fips_sha1_compress_def prod.case
    by (simp split: prod.splits)
qed

lemma sha_transform_workspace:
  "length array = 16 \<Longrightarrow> length array' = 16 \<Longrightarrow> sha_transform H M array = sha_transform H M array'"
  by (simp add: sha_transform_fips)

section \<open>Streaming\<close>

abbreviation sha1_view :: "sha1_state \<Rightarrow> u64 \<times> u32 list \<times> bytes" where
  "sha1_view c \<equiv> (sha1_count c, sha1_st c, sha1_buffer c)"

lemma sha1_update_loop_md:
  "sha1_update_loop st data d = md_loop fips_sha1_compress st data d"
proof (induction st data d rule: sha1_update_loop.induct)
  case (1 st data d)
  then show ?case
    by (subst sha1_update_loop.simps, subst md_loop.simps) (simp add: sha_transform_fips)
qed

lemma sha1_update_md: "sha1_view (sha1_update c d) = md_update fips_sha1_compress (sha1_view c) d"
  unfolding sha1_update_def md_update_def Let_def
  by (simp add: sha1_update_loop_md sha_transform_fips split: prod.splits)

lemma sha1_final_md:
  "fst (sha1_final c) = concat (map put_unaligned_be32 (md_final fips_sha1_compress (sha1_view c)))"
proof -
  have "sha1_st (sha1_update (sha1_update c a) b) =
      fst (snd (md_update fips_sha1_compress (md_update fips_sha1_compress (sha1_view c) a) b))" for a b
    by (simp only: sha1_update_md [symmetric] fst_conv snd_conv)
  then show ?thesis
    by (simp only: sha1_final_def md_final_def Let_def count_and_3f fst_conv)
qed

interpretation sha1: md_hash fips_sha1_compress SHA1_H "\<lambda>st. concat (map put_unaligned_be32 st)"
    sha1_view sha1_init sha1_update sha1_final
  by unfold_locales
    (simp_all add: sha1_init_def sha1_update_md sha1_final_md, simp add: sha1_final_def Let_def)

lemma sha1_hash_fips: "sha1.hash m = fips_sha1 m"
  by (simp add: sha1.hash_def fips_sha1_def)

text \<open>
  SHA-1 is implemented correctly however the message is split: after \<open>sha1_init\<close>, feeding the pieces
  \<open>ds\<close> with any number of \<open>sha1_update\<close> calls and finishing with \<open>sha1_final\<close> writes the FIPS 180-4 SHA-1
  of the concatenation.  The pieces are shorter than 4 GiB (the code counts inside one call with an
  \<open>unsigned int\<close>) and the message is below the 2^61 bytes whose bit count fits 64 bits.
\<close>

theorem sha1_streaming:
  assumes "length (sha1_buffer c) = 64"
    and "\<forall>d \<in> set ds. length d + 64 < 2 ^ 32" and "length (concat ds) + 72 < 2 ^ 61"
  shows "fst (sha1_final (foldl sha1_update (sha1_init c) ds)) = fips_sha1 (concat ds)"
  using sha1.finish_chunks [of c ds] assms(1,3) by (simp add: sha1.ready_def sha1_hash_fips)

theorem sha1_streaming_witness:
  "fst (sha1_final (foldl sha1_update
      (sha1_init \<lparr>sha1_count = 5, sha1_st = [], sha1_buffer = replicate 64 7\<rparr>)
      [[0x61], [], [0x62, 0x63]])) = fips_sha1 [0x61, 0x62, 0x63]"
  using sha1_streaming [of "\<lparr>sha1_count = 5, sha1_st = [], sha1_buffer = replicate 64 7\<rparr>"
      "[[0x61], [], [0x62, 0x63]]"] by simp

end
