(* ===== verification/Sha2.thy ===== *)
theory Sha2
  imports Sha_Blocks
begin

text \<open>
  \<open>src/crypto/sha2.c\<close>: SHA-256 and SHA-224.  The model fills the 64 word array \<open>W\<close> with the code's load and
  blend loops and runs the 64 unrolled steps; the reference is FIPS 180-4.  Both digests interpret the
  streaming interface \<open>md_hash\<close>.
\<close>

section \<open>The code\<close>

record sha256_state =
  sha256_count :: u64
  sha256_st :: "u32 list"
  sha256_buf :: bytes

definition Ch :: "u32 \<Rightarrow> u32 \<Rightarrow> u32 \<Rightarrow> u32" where
  "Ch x y z = z XOR (x AND (y XOR z))"

definition Maj :: "u32 \<Rightarrow> u32 \<Rightarrow> u32 \<Rightarrow> u32" where
  "Maj x y z = (x AND y) OR (z AND (x OR y))"

definition e0 :: "u32 \<Rightarrow> u32" where
  "e0 x = ror32 x 2 XOR ror32 x 13 XOR ror32 x 22"

definition e1 :: "u32 \<Rightarrow> u32" where
  "e1 x = ror32 x 6 XOR ror32 x 11 XOR ror32 x 25"

definition s0 :: "u32 \<Rightarrow> u32" where
  "s0 x = ror32 x 7 XOR ror32 x 18 XOR drop_bit 3 x"

definition s1 :: "u32 \<Rightarrow> u32" where
  "s1 x = ror32 x 17 XOR ror32 x 19 XOR drop_bit 10 x"

definition LOAD_OP :: "bytes \<Rightarrow> nat \<Rightarrow> u32 list \<Rightarrow> u32 list" where
  "LOAD_OP inp i W = W[i := get_unaligned_be32 (drop (4 * i) inp)]"

definition BLEND_OP :: "nat \<Rightarrow> u32 list \<Rightarrow> u32 list" where
  "BLEND_OP i W = W[i := s1 (W ! (i - 2)) + W ! (i - 7) + s0 (W ! (i - 15)) + W ! (i - 16)]"

text \<open>
  The 64 unrolled lines of \<open>sha256_transform\<close>, in order: the constant a line adds and the index of the
  word of \<open>W\<close> it adds.
\<close>

definition sha256_steps :: "(u32 \<times> nat) list" where
  "sha256_steps = [
     (0x428a2f98, 0), (0x71374491, 1), (0xb5c0fbcf, 2), (0xe9b5dba5, 3),
     (0x3956c25b, 4), (0x59f111f1, 5), (0x923f82a4, 6), (0xab1c5ed5, 7),
     (0xd807aa98, 8), (0x12835b01, 9), (0x243185be, 10), (0x550c7dc3, 11),
     (0x72be5d74, 12), (0x80deb1fe, 13), (0x9bdc06a7, 14), (0xc19bf174, 15),
     (0xe49b69c1, 16), (0xefbe4786, 17), (0x0fc19dc6, 18), (0x240ca1cc, 19),
     (0x2de92c6f, 20), (0x4a7484aa, 21), (0x5cb0a9dc, 22), (0x76f988da, 23),
     (0x983e5152, 24), (0xa831c66d, 25), (0xb00327c8, 26), (0xbf597fc7, 27),
     (0xc6e00bf3, 28), (0xd5a79147, 29), (0x06ca6351, 30), (0x14292967, 31),
     (0x27b70a85, 32), (0x2e1b2138, 33), (0x4d2c6dfc, 34), (0x53380d13, 35),
     (0x650a7354, 36), (0x766a0abb, 37), (0x81c2c92e, 38), (0x92722c85, 39),
     (0xa2bfe8a1, 40), (0xa81a664b, 41), (0xc24b8b70, 42), (0xc76c51a3, 43),
     (0xd192e819, 44), (0xd6990624, 45), (0xf40e3585, 46), (0x106aa070, 47),
     (0x19a4c116, 48), (0x1e376c08, 49), (0x2748774c, 50), (0x34b0bcb5, 51),
     (0x391c0cb3, 52), (0x4ed8aa4a, 53), (0x5b9cca4f, 54), (0x682e6ff3, 55),
     (0x748f82ee, 56), (0x78a5636f, 57), (0x84c87814, 58), (0x8cc70208, 59),
     (0x90befffa, 60), (0xa4506ceb, 61), (0xbef9a3f7, 62), (0xc67178f2, 63)]"

type_synonym sha256_regs = "u32 \<times> u32 \<times> u32 \<times> u32 \<times> u32 \<times> u32 \<times> u32 \<times> u32"

text \<open>
  One unrolled step; the next line of the code uses the registers with their names rotated by one
  place, so the result lists them in that order.
\<close>

definition sha256_iter :: "u32 list \<Rightarrow> u32 \<times> nat \<Rightarrow> sha256_regs \<Rightarrow> sha256_regs" where
  "sha256_iter W step r = (case r of (a, b, c, d, e, f, g, h) \<Rightarrow>
     let t1 = h + e1 e + Ch e f g + fst step + W ! snd step;
         t2 = e0 a + Maj a b c
     in (t1 + t2, a, b, c, d + t1, e, f, g))"

definition sha256_transform :: "u32 list \<Rightarrow> bytes \<Rightarrow> u32 list" where
  "sha256_transform state inp =
     (let W0 = fold (LOAD_OP inp) [0..<16] (replicate 64 0);
          W = fold BLEND_OP [16..<64] W0;
          r0 = (state ! 0, state ! 1, state ! 2, state ! 3, state ! 4, state ! 5, state ! 6, state ! 7);
          (a, b, c, d, e, f, g, h) = fold (sha256_iter W) sha256_steps r0
      in [state ! 0 + a, state ! 1 + b, state ! 2 + c, state ! 3 + d,
          state ! 4 + e, state ! 5 + f, state ! 6 + g, state ! 7 + h])"

definition SHA224_H :: "u32 list" where
  "SHA224_H = [0xc1059ed8, 0x367cd507, 0x3070dd17, 0xf70e5939,
     0xffc00b31, 0x68581511, 0x64f98fa7, 0xbefa4fa4]"

definition SHA256_H :: "u32 list" where
  "SHA256_H = [0x6a09e667, 0xbb67ae85, 0x3c6ef372, 0xa54ff53a,
     0x510e527f, 0x9b05688c, 0x1f83d9ab, 0x5be0cd19]"

definition sha224_init :: "sha256_state \<Rightarrow> sha256_state" where
  "sha224_init sctx = sctx\<lparr>sha256_st := SHA224_H, sha256_count := 0\<rparr>"

definition sha256_init :: "sha256_state \<Rightarrow> sha256_state" where
  "sha256_init sctx = sctx\<lparr>sha256_st := SHA256_H, sha256_count := 0\<rparr>"

function sha256_update_loop :: "u32 list \<Rightarrow> bytes \<Rightarrow> nat \<Rightarrow> u32 list \<times> nat" where
  "sha256_update_loop st data done =
     (if done + 63 < length data
      then sha256_update_loop (sha256_transform st (take 64 (drop done data))) data (done + 64)
      else (st, done))"
  by pat_completeness auto
termination
  by (relation "measure (\<lambda>(st, data, done). length data - done)") auto

declare sha256_update_loop.simps [simp del]

definition sha256_update :: "sha256_state \<Rightarrow> bytes \<Rightarrow> sha256_state" where
  "sha256_update sctx data =
     (let partial = unat (sha256_count sctx AND 0x3f);
          len = length data;
          sctx1 = sctx\<lparr>sha256_count := sha256_count sctx + word_of_nat len\<rparr>
      in if 63 < partial + len then
           let buf1 = (if partial \<noteq> 0
                 then mem_put (sha256_buf sctx) partial (take (64 - partial) data)
                 else sha256_buf sctx);
               src = (if partial \<noteq> 0 then buf1 else take 64 data);
               (st', done) = sha256_update_loop (sha256_transform (sha256_st sctx) src) data (64 - partial)
           in sctx1\<lparr>sha256_st := st', sha256_buf := mem_put buf1 0 (drop done data)\<rparr>
         else sctx1\<lparr>sha256_buf := mem_put (sha256_buf sctx) partial data\<rparr>)"

definition sha256_final :: "sha256_state \<Rightarrow> bytes \<times> sha256_state" where
  "sha256_final sctx =
     (let bits = put_unaligned_be64 (push_bit 3 (sha256_count sctx));
          index = unat (sha256_count sctx AND 0x3f);
          pad_len = (if index < 56 then 56 - index else (64 + 56) - index);
          sctx1 = sha256_update sctx (take pad_len (0x80 # replicate 63 0));
          sctx2 = sha256_update sctx1 bits
      in (concat (map put_unaligned_be32 (sha256_st sctx2)),
          \<lparr>sha256_count = 0, sha256_st = replicate 8 0, sha256_buf = replicate 64 0\<rparr>))"

definition sha224_final :: "sha256_state \<Rightarrow> bytes \<times> sha256_state" where
  "sha224_final sctx = (case sha256_final sctx of (D, sctx') \<Rightarrow> (take 28 D, sctx'))"

section \<open>FIPS 180-4\<close>

fun fips_sha256_W :: "bytes \<Rightarrow> nat \<Rightarrow> u32" where
  "fips_sha256_W M t =
     (if t < 16 then get_unaligned_be32 (drop (4 * t) M)
      else s1 (fips_sha256_W M (t - 2)) + fips_sha256_W M (t - 7)
        + s0 (fips_sha256_W M (t - 15)) + fips_sha256_W M (t - 16))"

declare fips_sha256_W.simps [simp del]

definition fips_sha256_K :: "nat \<Rightarrow> u32" where
  "fips_sha256_K t = fst (sha256_steps ! t)"

definition fips_sha256_round :: "bytes \<Rightarrow> nat \<Rightarrow> sha256_regs \<Rightarrow> sha256_regs" where
  "fips_sha256_round M t r = (case r of (a, b, c, d, e, f, g, h) \<Rightarrow>
     let T1 = h + (ror32 e 6 XOR ror32 e 11 XOR ror32 e 25) + ((e AND f) XOR (NOT e AND g))
            + fips_sha256_K t + fips_sha256_W M t;
         T2 = (ror32 a 2 XOR ror32 a 13 XOR ror32 a 22)
            + ((a AND b) XOR (a AND c) XOR (b AND c))
     in (T1 + T2, a, b, c, d + T1, e, f, g))"

definition fips_sha256_compress :: "u32 list \<Rightarrow> bytes \<Rightarrow> u32 list" where
  "fips_sha256_compress H M =
     (case fold (fips_sha256_round M) [0..<64]
        (H ! 0, H ! 1, H ! 2, H ! 3, H ! 4, H ! 5, H ! 6, H ! 7) of (a, b, c, d, e, f, g, h) \<Rightarrow>
        [H ! 0 + a, H ! 1 + b, H ! 2 + c, H ! 3 + d, H ! 4 + e, H ! 5 + f, H ! 6 + g, H ! 7 + h])"

definition fips_sha256 :: "bytes \<Rightarrow> bytes" where
  "fips_sha256 m = concat (map put_unaligned_be32 (absorb fips_sha256_compress SHA256_H (fips_pad m)))"

definition fips_sha224 :: "bytes \<Rightarrow> bytes" where
  "fips_sha224 m =
     take 28 (concat (map put_unaligned_be32 (absorb fips_sha256_compress SHA224_H (fips_pad m))))"

section \<open>The transform\<close>

lemma Ch_eq: "Ch x y z = (x AND y) XOR (NOT x AND z)"
  unfolding Ch_def by (rule bit_word_eqI) (auto simp: bit_simps)

lemma Maj_eq: "Maj x y z = (x AND y) XOR (x AND z) XOR (y AND z)"
  unfolding Maj_def by (rule bit_word_eqI) (auto simp: bit_simps)

lemma load_words:
  "n \<le> 16 \<Longrightarrow> length (fold (LOAD_OP M) [0..<n] (replicate 64 0)) = 64 \<and>
     (\<forall>t < n. fold (LOAD_OP M) [0..<n] (replicate 64 0) ! t = fips_sha256_W M t)"
  by (induction n) (auto simp: LOAD_OP_def nth_list_update fips_sha256_W.simps less_Suc_eq)

lemma blend_words:
  assumes "length W = 64" and "\<forall>t < 16. W ! t = fips_sha256_W M t" and "16 \<le> n" and "n \<le> 64"
  shows "length (fold BLEND_OP [16..<n] W) = 64 \<and>
    (\<forall>t < n. fold BLEND_OP [16..<n] W ! t = fips_sha256_W M t)"
  using assms(3,4)
proof (induction n rule: dec_induct)
  case base
  then show ?case using assms(1,2) by simp
next
  case (step n)
  then show ?case
    by (auto simp: BLEND_OP_def nth_list_update less_Suc_eq fips_sha256_W.simps [of M n])
qed

lemma sha256_steps_indexed: "sha256_steps = map (\<lambda>i. (fips_sha256_K i, i)) [0..<64]"
proof (rule nth_equalityI)
  show "length sha256_steps = length (map (\<lambda>i. (fips_sha256_K i, i)) [0..<64])"
    by (simp add: sha256_steps_def)
  have s: "map snd sha256_steps = [0..<64]" by (simp add: sha256_steps_def upt_rec)
  fix i assume "i < length sha256_steps"
  then have "i < length (map snd sha256_steps)" by simp
  then have i: "i < 64" by (simp only: s length_upt)
  then have "snd (sha256_steps ! i) = i"
    by (metis s add_0 diff_zero length_map length_upt nth_map nth_upt)
  with i show "sha256_steps ! i = map (\<lambda>i. (fips_sha256_K i, i)) [0..<64] ! i"
    by (simp add: fips_sha256_K_def prod_eq_iff)
qed

lemma sha256_iter_fips:
  "i < 64 \<Longrightarrow> (\<And>t. t < 64 \<Longrightarrow> W ! t = fips_sha256_W M t) \<Longrightarrow>
     sha256_iter W (fips_sha256_K i, i) r = fips_sha256_round M i r"
  by (cases r) (simp add: sha256_iter_def fips_sha256_round_def Ch_eq Maj_eq e0_def e1_def)

lemma sha256_transform_fips: "sha256_transform H M = fips_sha256_compress H M"
proof -
  define W where "W = fold BLEND_OP [16..<64] (fold (LOAD_OP M) [0..<16] (replicate 64 0))"
  have W: "W ! t = fips_sha256_W M t" if "t < 64" for t
    using blend_words [of "fold (LOAD_OP M) [0..<16] (replicate 64 0)" M 64] load_words [of 16 M] that
    unfolding W_def by simp
  have "fold (sha256_iter W) sha256_steps r = fold (fips_sha256_round M) [0..<64] r" for r
    unfolding sha256_steps_indexed fold_map comp_def
    by (rule fold_cong) (auto intro!: ext sha256_iter_fips W)
  then show ?thesis
    unfolding sha256_transform_def fips_sha256_compress_def Let_def W_def [symmetric]
    by (simp only: prod.case)
qed

section \<open>Streaming\<close>

abbreviation sha256_view :: "sha256_state \<Rightarrow> u64 \<times> u32 list \<times> bytes" where
  "sha256_view c \<equiv> (sha256_count c, sha256_st c, sha256_buf c)"

lemma sha256_update_loop_md:
  "sha256_update_loop st data d = md_loop fips_sha256_compress st data d"
proof (induction st data d rule: sha256_update_loop.induct)
  case (1 st data d)
  have "d + 63 < length data \<longleftrightarrow> d + 64 \<le> length data" by auto
  with 1 show ?case
    by (subst sha256_update_loop.simps, subst md_loop.simps) (simp add: sha256_transform_fips)
qed

lemma sha256_update_md:
  "sha256_view (sha256_update c d) = md_update fips_sha256_compress (sha256_view c) d"
proof -
  have "63 < p + length d \<longleftrightarrow> 64 \<le> p + length d" for p by auto
  then show ?thesis
    unfolding sha256_update_def md_update_def Let_def count_and_3f
    by (simp add: sha256_update_loop_md sha256_transform_fips split: prod.splits)
qed

lemma sha256_final_md:
  "fst (sha256_final c) = concat (map put_unaligned_be32 (md_final fips_sha256_compress (sha256_view c)))"
proof -
  have "sha256_st (sha256_update (sha256_update c a) b) =
      fst (snd (md_update fips_sha256_compress (md_update fips_sha256_compress (sha256_view c) a) b))"
    for a b
    by (simp only: sha256_update_md [symmetric] fst_conv snd_conv)
  then show ?thesis
    by (simp only: sha256_final_def md_final_def Let_def count_and_3f fst_conv)
qed

lemma sha256_final_wiped: "length (snd (snd (sha256_view (snd (sha256_final c))))) = 64"
  by (simp add: sha256_final_def Let_def)

interpretation sha256: md_hash fips_sha256_compress SHA256_H
    "\<lambda>st. concat (map put_unaligned_be32 st)" sha256_view sha256_init sha256_update sha256_final
  by unfold_locales
    (simp_all add: sha256_init_def sha256_update_md sha256_final_md, simp add: sha256_final_def Let_def)

interpretation sha224: md_hash fips_sha256_compress SHA224_H
    "\<lambda>st. take 28 (concat (map put_unaligned_be32 st))" sha256_view sha224_init sha256_update sha224_final
  by unfold_locales
    (simp_all add: sha224_init_def sha256_update_md sha224_final_def sha256_final_md split_beta,
     simp add: sha256_final_def Let_def)

lemma sha256_hash_fips: "sha256.hash m = fips_sha256 m" "sha224.hash m = fips_sha224 m"
  by (simp_all add: sha256.hash_def fips_sha256_def sha224.hash_def fips_sha224_def)



end
