(* ===== verification/Digest.thy ===== *)
theory Digest
  imports Sha1 Sha2
begin

text \<open>
  \<open>src/crypto/digest.c\<close>, \<open>src/digest.h\<close> and \<open>src/crypto/hmac.c\<close>: the registry of algorithms, the generic
  digest operations and the HMAC built on them.  An algorithm's function pointers are the datatype
  \<open>digest_ops\<close>; a \<open>struct digest\<close> carries its algorithm and its context.  The inner digest of an HMAC is a plain
  hash (\<open>digest_hmac_register\<close> is called for hash names only), which makes the model two layered:
  \<open>hash_digest\<close> for the hashes and \<open>digest\<close> for both.

  The locale \<open>stream_digest\<close> is what the users of a digest rely on; it is interpreted on the hashes and
  on the whole digest layer, where the specification is RFC 2104.
\<close>

section \<open>Algorithms\<close>

datatype hash_ops = Ops_sha1 | Ops_sha224 | Ops_sha256

text \<open>\<open>Ops_hmac name pad_length\<close> is \<open>struct digest_hmac\<close> around the shared \<open>hmac_algo\<close>.\<close>

datatype digest_ops = Ops_hash hash_ops | Ops_hmac string nat

record digest_algo =
  alg_name :: string
  alg_driver_name :: string
  alg_priority :: int
  alg_need_key :: bool
  alg_ops :: digest_ops
  alg_length :: nat

definition m_sha1 :: digest_algo where
  "m_sha1 = \<lparr>alg_name = ''sha1'', alg_driver_name = ''sha1-generic'', alg_priority = 0,
     alg_need_key = False, alg_ops = Ops_hash Ops_sha1, alg_length = 20\<rparr>"

definition m224 :: digest_algo where
  "m224 = \<lparr>alg_name = ''sha224'', alg_driver_name = ''sha224-generic'', alg_priority = 0,
     alg_need_key = False, alg_ops = Ops_hash Ops_sha224, alg_length = 28\<rparr>"

definition m256 :: digest_algo where
  "m256 = \<lparr>alg_name = ''sha256'', alg_driver_name = ''sha256-generic'', alg_priority = 0,
     alg_need_key = False, alg_ops = Ops_hash Ops_sha256, alg_length = 32\<rparr>"

definition hmac_algo :: "string \<Rightarrow> nat \<Rightarrow> digest_algo" where
  "hmac_algo name pad_length =
     \<lparr>alg_name = ''hmac('' @ name @ '')'', alg_driver_name = ''hmac('' @ name @ '')-generic'',
      alg_priority = 0, alg_need_key = True, alg_ops = Ops_hmac name pad_length, alg_length = 0\<rparr>"

text \<open>The list \<open>digests\<close>; every algorithm of the sources has a name, update, final and verify.\<close>

definition digest_algo_register :: "digest_algo list \<Rightarrow> digest_algo \<Rightarrow> digest_algo list" where
  "digest_algo_register digests d = digests @ [d]"

definition digest_hmac_register ::
    "digest_algo list \<Rightarrow> string option \<Rightarrow> nat \<Rightarrow> digest_algo list res" where
  "digest_hmac_register digests name pad_length =
     (case name of None \<Rightarrow> Inl EINVAL
      | Some n \<Rightarrow> if pad_length = 0 then Inl EINVAL
          else Inr (digest_algo_register digests (hmac_algo n pad_length)))"

definition digest_hmac_initcall :: "digest_algo list \<Rightarrow> digest_algo list" where
  "digest_hmac_initcall digests =
     fold (\<lambda>n ds. case digest_hmac_register ds (Some n) 64 of Inl _ \<Rightarrow> ds | Inr ds' \<Rightarrow> ds')
       [''sha1'', ''sha224'', ''sha256''] digests"

text \<open>The registry after all constructors ran.\<close>

definition digests :: "digest_algo list" where
  "digests = digest_hmac_initcall
     (digest_algo_register (digest_algo_register (digest_algo_register [] m_sha1) m224) m256)"

fun get_by_name_loop :: "string \<Rightarrow> digest_algo list \<Rightarrow> digest_algo option \<Rightarrow> int \<Rightarrow> digest_algo option" where
  "get_by_name_loop name [] d priority = d"
| "get_by_name_loop name (tmp # rest) d priority =
     (if alg_name tmp \<noteq> name then get_by_name_loop name rest d priority
      else if alg_priority tmp \<le> priority then get_by_name_loop name rest d priority
      else get_by_name_loop name rest (Some tmp) (alg_priority tmp))"

definition digest_algo_get_by_name :: "digest_algo list \<Rightarrow> string option \<Rightarrow> digest_algo option" where
  "digest_algo_get_by_name ds name =
     (case name of None \<Rightarrow> None | Some n \<Rightarrow> get_by_name_loop n ds None (- 1))"

section \<open>Plain hashes\<close>

datatype hash_ctx = Ctx_sha1 sha1_state | Ctx_sha256 sha256_state

record hash_digest =
  hd_algo :: digest_algo
  hd_ctx :: hash_ctx

text \<open>\<open>xzalloc (algo->ctx_length)\<close>: a zeroed context.\<close>

definition hash_zero_ctx :: "hash_ops \<Rightarrow> hash_ctx" where
  "hash_zero_ctx h = (case h of
     Ops_sha1 \<Rightarrow> Ctx_sha1 \<lparr>sha1_count = 0, sha1_st = replicate 5 0, sha1_buffer = replicate 64 0\<rparr>
   | _ \<Rightarrow> Ctx_sha256 \<lparr>sha256_count = 0, sha256_st = replicate 8 0, sha256_buf = replicate 64 0\<rparr>)"

text \<open>The dispatch through the function pointers of the algorithm.\<close>

definition hash_init :: "hash_digest \<Rightarrow> hash_digest res" where
  "hash_init d = (case (alg_ops (hd_algo d), hd_ctx d) of
     (Ops_hash Ops_sha1, Ctx_sha1 s) \<Rightarrow> Inr (d\<lparr>hd_ctx := Ctx_sha1 (sha1_init s)\<rparr>)
   | (Ops_hash Ops_sha224, Ctx_sha256 s) \<Rightarrow> Inr (d\<lparr>hd_ctx := Ctx_sha256 (sha224_init s)\<rparr>)
   | (Ops_hash Ops_sha256, Ctx_sha256 s) \<Rightarrow> Inr (d\<lparr>hd_ctx := Ctx_sha256 (sha256_init s)\<rparr>)
   | _ \<Rightarrow> Inl FAULT)"

definition hash_update :: "hash_digest \<Rightarrow> bytes \<Rightarrow> hash_digest res" where
  "hash_update d data = (case (alg_ops (hd_algo d), hd_ctx d) of
     (Ops_hash Ops_sha1, Ctx_sha1 s) \<Rightarrow> Inr (d\<lparr>hd_ctx := Ctx_sha1 (sha1_update s data)\<rparr>)
   | (Ops_hash Ops_sha224, Ctx_sha256 s) \<Rightarrow> Inr (d\<lparr>hd_ctx := Ctx_sha256 (sha256_update s data)\<rparr>)
   | (Ops_hash Ops_sha256, Ctx_sha256 s) \<Rightarrow> Inr (d\<lparr>hd_ctx := Ctx_sha256 (sha256_update s data)\<rparr>)
   | _ \<Rightarrow> Inl FAULT)"

definition hash_final :: "hash_digest \<Rightarrow> (bytes \<times> hash_digest) res" where
  "hash_final d = (case (alg_ops (hd_algo d), hd_ctx d) of
     (Ops_hash Ops_sha1, Ctx_sha1 s) \<Rightarrow>
       (case sha1_final s of (md, s') \<Rightarrow> Inr (md, d\<lparr>hd_ctx := Ctx_sha1 s'\<rparr>))
   | (Ops_hash Ops_sha224, Ctx_sha256 s) \<Rightarrow>
       (case sha224_final s of (md, s') \<Rightarrow> Inr (md, d\<lparr>hd_ctx := Ctx_sha256 s'\<rparr>))
   | (Ops_hash Ops_sha256, Ctx_sha256 s) \<Rightarrow>
       (case sha256_final s of (md, s') \<Rightarrow> Inr (md, d\<lparr>hd_ctx := Ctx_sha256 s'\<rparr>))
   | _ \<Rightarrow> Inl FAULT)"

section \<open>HMAC\<close>

text \<open>
  \<open>dh->key\<close> is null, points to freed memory, or to \<open>keylen\<close> bytes; the pads are buffers of
  \<open>pad_length\<close> bytes.
\<close>

datatype hmac_key = Key_null | Key_freed | Key_mem bytes

record digest_hmac_ctx =
  dh_d :: hash_digest
  dh_ipad :: bytes
  dh_opad :: bytes
  dh_key :: hmac_key
  dh_keylen :: nat

datatype digest_ctx = Ctx_hash hash_ctx | Ctx_hmac digest_hmac_ctx

record digest =
  d_algo :: digest_algo
  d_ctx :: digest_ctx
  d_length :: nat

definition digest_length :: "digest \<Rightarrow> nat" where
  "digest_length d = (if d_length d \<noteq> 0 then d_length d else alg_length (d_algo d))"

text \<open>\<open>digest_alloc\<close> of a hash name, as \<open>digest_hmac_alloc\<close> uses it for the inner digest.\<close>

definition hash_alloc :: "digest_algo list \<Rightarrow> string \<Rightarrow> hash_digest option" where
  "hash_alloc ds name = (case digest_algo_get_by_name ds (Some name) of
     None \<Rightarrow> None
   | Some a \<Rightarrow> (case alg_ops a of
         Ops_hash h \<Rightarrow> Some \<lparr>hd_algo = a, hd_ctx = hash_zero_ctx h\<rparr>
       | Ops_hmac _ _ \<Rightarrow> None))"

text \<open>\<open>xmalloc\<close> of \<open>dt/common.h\<close> returns zeroed memory.\<close>

definition digest_hmac_alloc :: "digest_algo list \<Rightarrow> digest_algo \<Rightarrow> string \<Rightarrow> nat \<Rightarrow> digest res" where
  "digest_hmac_alloc ds algo name pad_length = (case hash_alloc ds name of
     None \<Rightarrow> Inl EINVAL
   | Some h \<Rightarrow> Inr \<lparr>d_algo = algo,
       d_ctx = Ctx_hmac \<lparr>dh_d = h, dh_ipad = replicate pad_length 0, dh_opad = replicate pad_length 0,
         dh_key = Key_null, dh_keylen = 0\<rparr>,
       d_length = alg_length (hd_algo h)\<rparr>)"

definition digest_alloc :: "digest_algo list \<Rightarrow> string option \<Rightarrow> digest option" where
  "digest_alloc ds name = (case digest_algo_get_by_name ds name of
     None \<Rightarrow> None
   | Some a \<Rightarrow> (case alg_ops a of
         Ops_hash h \<Rightarrow> Some \<lparr>d_algo = a, d_ctx = Ctx_hash (hash_zero_ctx h), d_length = 0\<rparr>
       | Ops_hmac n p \<Rightarrow> (case digest_hmac_alloc ds a n p of Inl _ \<Rightarrow> None | Inr d \<Rightarrow> Some d)))"

text \<open>The two loops of \<open>digest_hmac_init\<close> that fold the key into the pads.\<close>

definition xor_key :: "u8 \<Rightarrow> nat \<Rightarrow> bytes \<Rightarrow> bytes" where
  "xor_key c pad_length key = map (\<lambda>k. c XOR k) key @ replicate (pad_length - length key) c"

definition key_bytes :: "digest_hmac_ctx \<Rightarrow> bytes res" where
  "key_bytes dh = (if dh_keylen dh = 0 then Inr [] else case dh_key dh of
     Key_mem k \<Rightarrow> if dh_keylen dh \<le> length k then Inr (take (dh_keylen dh) k) else Inl FAULT
   | _ \<Rightarrow> Inl FAULT)"

definition digest_hmac_init :: "nat \<Rightarrow> digest_hmac_ctx \<Rightarrow> digest_hmac_ctx res" where
  "digest_hmac_init pad_length dh = bindE (key_bytes dh) (\<lambda>key.
     if pad_length < length key then Inl FAULT else
     let dh1 = dh\<lparr>dh_ipad := xor_key 0x36 pad_length key, dh_opad := xor_key 0x5c pad_length key\<rparr> in
     bindE (hash_init (dh_d dh1)) (\<lambda>h. bindE (hash_update h (dh_ipad dh1)) (\<lambda>h'.
       Inr (dh1\<lparr>dh_d := h'\<rparr>))))"

definition digest_hmac_update :: "digest_hmac_ctx \<Rightarrow> bytes \<Rightarrow> digest_hmac_ctx res" where
  "digest_hmac_update dh data = bindE (hash_update (dh_d dh) data) (\<lambda>h. Inr (dh\<lparr>dh_d := h\<rparr>))"

text \<open>\<open>len\<close> is \<open>digest_length (d)\<close>, the size of \<open>tmp\<close>.\<close>

definition digest_hmac_final :: "nat \<Rightarrow> digest_hmac_ctx \<Rightarrow> (bytes \<times> digest_hmac_ctx) res" where
  "digest_hmac_final len dh =
     bindE (hash_final (dh_d dh)) (\<lambda>(tmp, h1).
     bindE (hash_init h1) (\<lambda>h2.
     bindE (hash_update h2 (dh_opad dh)) (\<lambda>h3.
     bindE (if length tmp = len then hash_update h3 tmp else Inl FAULT) (\<lambda>h4.
     bindE (hash_final h4) (\<lambda>(md, h5). Inr (md, dh\<lparr>dh_d := h5\<rparr>))))))"

section \<open>Generic operations\<close>

definition lift_hash :: "digest \<Rightarrow> hash_ctx \<Rightarrow> hash_digest" where
  "lift_hash d c = \<lparr>hd_algo = d_algo d, hd_ctx = c\<rparr>"

definition digest_init :: "digest \<Rightarrow> digest res" where
  "digest_init d = (case (alg_ops (d_algo d), d_ctx d) of
     (Ops_hash _, Ctx_hash c) \<Rightarrow>
       bindE (hash_init (lift_hash d c)) (\<lambda>h. Inr (d\<lparr>d_ctx := Ctx_hash (hd_ctx h)\<rparr>))
   | (Ops_hmac _ p, Ctx_hmac dh) \<Rightarrow>
       bindE (digest_hmac_init p dh) (\<lambda>dh'. Inr (d\<lparr>d_ctx := Ctx_hmac dh'\<rparr>))
   | _ \<Rightarrow> Inl FAULT)"

definition digest_update :: "digest \<Rightarrow> bytes \<Rightarrow> digest res" where
  "digest_update d data = (case (alg_ops (d_algo d), d_ctx d) of
     (Ops_hash _, Ctx_hash c) \<Rightarrow>
       bindE (hash_update (lift_hash d c) data) (\<lambda>h. Inr (d\<lparr>d_ctx := Ctx_hash (hd_ctx h)\<rparr>))
   | (Ops_hmac _ _, Ctx_hmac dh) \<Rightarrow>
       bindE (digest_hmac_update dh data) (\<lambda>dh'. Inr (d\<lparr>d_ctx := Ctx_hmac dh'\<rparr>))
   | _ \<Rightarrow> Inl FAULT)"

definition digest_final :: "digest \<Rightarrow> (bytes \<times> digest) res" where
  "digest_final d = (case (alg_ops (d_algo d), d_ctx d) of
     (Ops_hash _, Ctx_hash c) \<Rightarrow>
       bindE (hash_final (lift_hash d c)) (\<lambda>(md, h). Inr (md, d\<lparr>d_ctx := Ctx_hash (hd_ctx h)\<rparr>))
   | (Ops_hmac _ _, Ctx_hmac dh) \<Rightarrow>
       bindE (digest_hmac_final (digest_length d) dh)
         (\<lambda>(md, dh'). Inr (md, d\<lparr>d_ctx := Ctx_hmac dh'\<rparr>))
   | _ \<Rightarrow> Inl FAULT)"

text \<open>
  The outcome of a verification and the digest afterwards.  \<open>memcmp\<close> reads \<open>digest_length\<close> bytes from
  both operands, so a shorter \<open>md\<close> is a fault.
\<close>

definition digest_generic_verify :: "digest \<Rightarrow> bytes \<Rightarrow> unit res \<times> digest" where
  "digest_generic_verify d md = (case digest_final d of
     Inl e \<Rightarrow> (Inl e, d)
   | Inr (tmp, d') \<Rightarrow>
       let len = digest_length d in
       (if length md < len \<or> length tmp < len then Inl FAULT
        else if take len md \<noteq> take len tmp then Inl EINVAL else Inr (), d'))"

definition digest_generic_digest :: "digest \<Rightarrow> bytes option \<Rightarrow> (bytes \<times> digest) res" where
  "digest_generic_digest d data = (case data of
     None \<Rightarrow> Inl EINVAL
   | Some bs \<Rightarrow> if length bs = 0 then Inl EINVAL
       else bindE (digest_init d) (\<lambda>d1. bindE (digest_update d1 bs) digest_final))"

text \<open>The same on the inner digest, which is how \<open>digest_hmac_set_key\<close> hashes a long key.\<close>

definition hash_digest_generic :: "hash_digest \<Rightarrow> bytes option \<Rightarrow> (bytes \<times> hash_digest) res" where
  "hash_digest_generic d data = (case data of
     None \<Rightarrow> Inl EINVAL
   | Some bs \<Rightarrow> if length bs = 0 then Inl EINVAL
       else bindE (hash_init d) (\<lambda>d1. bindE (hash_update d1 bs) hash_final))"

text \<open>
  \<open>digest_hmac_set_key\<close>.  A key longer than the pad makes the code hash \<open>dh->key\<close>, which it has just
  freed, instead of \<open>key\<close>; on success it stores the sum and frees it.
\<close>

definition digest_hmac_set_key ::
    "nat \<Rightarrow> digest_hmac_ctx \<Rightarrow> bytes \<Rightarrow> unit res \<times> digest_hmac_ctx" where
  "digest_hmac_set_key pad_length dh key =
     (let freed = (case dh_key dh of Key_null \<Rightarrow> Key_null | _ \<Rightarrow> Key_freed);
          dh1 = dh\<lparr>dh_key := freed\<rparr>
      in if pad_length < length key then
           (if dh_key dh = Key_freed then (Inl FAULT, dh1)
            else if freed = Key_freed \<and> dh_keylen dh \<noteq> 0 then (Inl FAULT, dh1)
            else (case hash_digest_generic (dh_d dh) (if freed = Key_null then None else Some []) of
                Inl e \<Rightarrow> (Inl e, dh1)
              | Inr (md, h) \<Rightarrow>
                  (Inr (), dh1\<lparr>dh_d := h, dh_key := Key_freed, dh_keylen := alg_length (hd_algo h)\<rparr>)))
         else if dh_key dh = Key_freed then (Inl FAULT, dh1)
         else (Inr (), dh1\<lparr>dh_key := Key_mem key, dh_keylen := length key\<rparr>))"

definition digest_set_key :: "digest \<Rightarrow> bytes \<Rightarrow> unit res \<times> digest" where
  "digest_set_key d key = (case (alg_ops (d_algo d), d_ctx d) of
     (Ops_hmac _ p, Ctx_hmac dh) \<Rightarrow>
       (case digest_hmac_set_key p dh key of (r, dh') \<Rightarrow> (r, d\<lparr>d_ctx := Ctx_hmac dh'\<rparr>))
   | (Ops_hash _, _) \<Rightarrow> (Inl ENOTSUPP, d)
   | _ \<Rightarrow> (Inl FAULT, d))"

definition digest_is_flags :: "digest \<Rightarrow> bool" where
  "digest_is_flags d = alg_need_key (d_algo d)"


section \<open>The interface of a digest\<close>

text \<open>
  \<open>ready\<close> describes a digest that can be initialised, \<open>holds d m\<close> one that has absorbed the message \<open>m\<close>,
  and \<open>spec d\<close> the function it computes; an operation does not change the latter.
\<close>

locale stream_digest =
  fixes ready :: "'d \<Rightarrow> bool" and holds :: "'d \<Rightarrow> bytes \<Rightarrow> bool" and spec :: "'d \<Rightarrow> bytes \<Rightarrow> bytes"
    and init :: "'d \<Rightarrow> 'd res" and update :: "'d \<Rightarrow> bytes \<Rightarrow> 'd res"
    and finish :: "'d \<Rightarrow> (bytes \<times> 'd) res" and limit :: nat
  assumes init_law: "ready d \<Longrightarrow> \<exists>d'. init d = Inr d' \<and> holds d' [] \<and> spec d' = spec d"
    and update_law: "holds d m \<Longrightarrow> length m + length x \<le> limit \<Longrightarrow>
      \<exists>d'. update d x = Inr d' \<and> holds d' (m @ x) \<and> spec d' = spec d"
    and finish_law: "holds d m \<Longrightarrow> length m \<le> limit \<Longrightarrow>
      \<exists>d'. finish d = Inr (spec d m, d') \<and> ready d' \<and> spec d' = spec d"
begin

fun updates :: "'d \<Rightarrow> bytes list \<Rightarrow> 'd res" where
  "updates d [] = Inr d"
| "updates d (x # xs) = bindE (update d x) (\<lambda>d'. updates d' xs)"

lemma updates_law:
  "holds d m \<Longrightarrow> length m + length (concat xs) \<le> limit \<Longrightarrow>
     \<exists>d'. updates d xs = Inr d' \<and> holds d' (m @ concat xs) \<and> spec d' = spec d"
proof (induction xs arbitrary: d m)
  case (Cons x xs)
  obtain d1 where d1: "update d x = Inr d1" "holds d1 (m @ x)" "spec d1 = spec d"
    using update_law [OF Cons.prems(1), of x] Cons.prems(2) by auto
  from Cons.IH [OF d1(2)] Cons.prems(2) d1 show ?case by auto
qed simp

lemma run:
  assumes "ready d" and "length (concat xs) \<le> limit"
  shows "\<exists>d'. bindE (init d) (\<lambda>d1. bindE (updates d1 xs) finish) = Inr (spec d (concat xs), d')
    \<and> ready d' \<and> spec d' = spec d"
proof -
  obtain d1 where d1: "init d = Inr d1" "holds d1 []" "spec d1 = spec d"
    using init_law [OF assms(1)] by auto
  then obtain d2 where d2: "updates d1 xs = Inr d2" "holds d2 (concat xs)" "spec d2 = spec d"
    using updates_law [OF d1(2)] assms(2) by auto
  with finish_law [OF d2(2) assms(2)] d1 show ?thesis by auto
qed

lemma run_one:
  assumes "ready d" and "length x \<le> limit"
  shows "\<exists>d'. bindE (init d) (\<lambda>d1. bindE (update d1 x) finish) = Inr (spec d x, d')
    \<and> ready d' \<and> spec d' = spec d"
proof -
  have "bindE (update d1 x) finish = bindE (updates d1 [x]) finish" for d1
    by (cases "update d1 x") auto
  with run [OF assms(1), of "[x]"] assms(2) show ?thesis by simp
qed

end

section \<open>The hashes implement it\<close>

definition hash_spec :: "hash_digest \<Rightarrow> bytes \<Rightarrow> bytes" where
  "hash_spec d = (case alg_ops (hd_algo d) of
     Ops_hash Ops_sha1 \<Rightarrow> fips_sha1 | Ops_hash Ops_sha224 \<Rightarrow> fips_sha224 | _ \<Rightarrow> fips_sha256)"

definition hash_ready :: "hash_digest \<Rightarrow> bool" where
  "hash_ready d = (case (alg_ops (hd_algo d), hd_ctx d) of
     (Ops_hash Ops_sha1, Ctx_sha1 s) \<Rightarrow> sha1.ready s
   | (Ops_hash Ops_sha224, Ctx_sha256 s) \<Rightarrow> sha224.ready s
   | (Ops_hash Ops_sha256, Ctx_sha256 s) \<Rightarrow> sha256.ready s
   | _ \<Rightarrow> False)"

definition hash_holds :: "hash_digest \<Rightarrow> bytes \<Rightarrow> bool" where
  "hash_holds d m = (case (alg_ops (hd_algo d), hd_ctx d) of
     (Ops_hash Ops_sha1, Ctx_sha1 s) \<Rightarrow> sha1.holds s m
   | (Ops_hash Ops_sha224, Ctx_sha256 s) \<Rightarrow> sha224.holds s m
   | (Ops_hash Ops_sha256, Ctx_sha256 s) \<Rightarrow> sha256.holds s m
   | _ \<Rightarrow> False)"

text \<open>
  One call may pass fewer than 2^32 - 64 bytes (the hashes count inside a call with an
  \<open>unsigned int\<close>), and the message may have fewer than 2^61 - 72.  One limit covers both.
\<close>

definition hash_limit :: nat where
  "hash_limit = 2 ^ 32 - 65"

text \<open>The three well-formed combinations of an algorithm and a context.\<close>

lemma hash_cases:
  assumes "hash_ready d \<or> hash_holds d m"
  obtains (sha1) s where "alg_ops (hd_algo d) = Ops_hash Ops_sha1" "hd_ctx d = Ctx_sha1 s"
  | (sha224) s where "alg_ops (hd_algo d) = Ops_hash Ops_sha224" "hd_ctx d = Ctx_sha256 s"
  | (sha256) s where "alg_ops (hd_algo d) = Ops_hash Ops_sha256" "hd_ctx d = Ctx_sha256 s"
  using assms
  by (auto simp: hash_ready_def hash_holds_def split: digest_ops.splits hash_ops.splits hash_ctx.splits)

lemmas hash_dispatch = hash_init_def hash_update_def hash_final_def hash_ready_def hash_holds_def
  hash_spec_def

lemma hash_init_law:
  assumes "hash_ready d"
  shows "\<exists>d'. hash_init d = Inr d' \<and> hash_holds d' [] \<and> hash_spec d' = hash_spec d"
  using assms sha1.holds_init sha224.holds_init sha256.holds_init
  by (cases rule: hash_cases [OF disjI1 [OF assms]]) (simp_all add: hash_dispatch)

lemma hash_update_law:
  assumes "hash_holds d m" and "length m + length x \<le> hash_limit"
  shows "\<exists>d'. hash_update d x = Inr d' \<and> hash_holds d' (m @ x) \<and> hash_spec d' = hash_spec d"
proof -
  have "length m + length x < 2 ^ 61" using assms(2) by (simp add: hash_limit_def)
  then show ?thesis
    using assms(1) sha1.holds_update sha224.holds_update sha256.holds_update
    by (cases rule: hash_cases [OF disjI2 [OF assms(1)]]) (simp_all add: hash_dispatch)
qed

lemma hash_final_law:
  assumes "hash_holds d m" and "length m \<le> hash_limit"
  shows "\<exists>d'. hash_final d = Inr (hash_spec d m, d') \<and> hash_ready d' \<and> hash_spec d' = hash_spec d"
proof -
  have l: "length m + 72 < 2 ^ 61" using assms(2) by (simp add: hash_limit_def)
  show ?thesis
    using assms(1) sha1.holds_finish [OF _ l] sha224.holds_finish [OF _ l] sha256.holds_finish [OF _ l]
      sha1.ready_finish sha224.ready_finish sha256.ready_finish
    by (cases rule: hash_cases [OF disjI2 [OF assms(1)]])
      (simp_all add: hash_dispatch sha1_hash_fips sha256_hash_fips split_beta)
qed

interpretation hash: stream_digest hash_ready hash_holds hash_spec hash_init hash_update hash_final
    hash_limit
  by unfold_locales (rule hash_init_law hash_update_law hash_final_law; assumption)+

section \<open>HMAC implements RFC 2104\<close>

text \<open>RFC 2104 for a key of at most \<open>B\<close> bytes, over the hash function \<open>H\<close>.\<close>

definition rfc2104 :: "(bytes \<Rightarrow> bytes) \<Rightarrow> nat \<Rightarrow> bytes \<Rightarrow> bytes \<Rightarrow> bytes" where
  "rfc2104 H B K text =
     (let K0 = K @ replicate (B - length K) 0
      in H (map (\<lambda>k. k XOR 0x5c) K0 @ H (map (\<lambda>k. k XOR 0x36) K0 @ text)))"

lemma xor_key_rfc: "xor_key c B K = map (\<lambda>k. k XOR c) (K @ replicate (B - length K) 0)"
  by (simp add: xor_key_def xor.commute)

text \<open>The length of a hash value.\<close>

definition hash_len :: "digest_ops \<Rightarrow> nat" where
  "hash_len ops = (case ops of
     Ops_hash Ops_sha1 \<Rightarrow> 20 | Ops_hash Ops_sha224 \<Rightarrow> 28 | _ \<Rightarrow> 32)"

lemma length_concat_be32: "length (concat (map put_unaligned_be32 ws)) = 4 * length ws"
  by (induction ws) auto

lemma absorb_length:
  "(\<And>s b. length (T s b) = n) \<Longrightarrow> length s = n \<Longrightarrow> length (absorb T s bs) = n"
  by (induction T s bs rule: absorb.induct) (subst absorb.simps, simp)

lemma length_hash_spec: "length (hash_spec d m) = hash_len (alg_ops (hd_algo d))"
proof -
  have 1: "length (absorb fips_sha1_compress SHA1_H b) = 5" for b
    by (rule absorb_length) (simp_all add: fips_sha1_compress_def SHA1_H_def split: prod.splits)
  have 2: "length (absorb fips_sha256_compress SHA224_H b) = 8"
    "length (absorb fips_sha256_compress SHA256_H b) = 8" for b
    by (rule absorb_length; simp add: fips_sha256_compress_def SHA224_H_def SHA256_H_def
        split: prod.splits)+
  show ?thesis
    by (simp add: hash_spec_def hash_len_def fips_sha1_def fips_sha224_def fips_sha256_def
        length_concat_be32 1 2 split: digest_ops.splits hash_ops.splits)
qed

text \<open>
  The predicates of the interface for the whole layer.  An HMAC is ready once its inner hash is and its
  key is readable and no longer than the pad.
\<close>

definition key_ok :: "nat \<Rightarrow> digest_hmac_ctx \<Rightarrow> bool" where
  "key_ok p dh = (case key_bytes dh of Inl _ \<Rightarrow> False | Inr k \<Rightarrow> length k \<le> p)"

definition the_key :: "digest_hmac_ctx \<Rightarrow> bytes" where
  "the_key dh = (case key_bytes dh of Inl _ \<Rightarrow> [] | Inr k \<Rightarrow> k)"

definition digest_ready :: "digest \<Rightarrow> bool" where
  "digest_ready d = (case (alg_ops (d_algo d), d_ctx d) of
     (Ops_hash h, Ctx_hash c) \<Rightarrow> hash_ready (lift_hash d c) \<and> digest_length d = hash_len (Ops_hash h)
   | (Ops_hmac _ p, Ctx_hmac dh) \<Rightarrow> hash_ready (dh_d dh) \<and> key_ok p dh \<and> p \<le> 128
       \<and> digest_length d = hash_len (alg_ops (hd_algo (dh_d dh)))
   | _ \<Rightarrow> False)"

definition digest_holds :: "digest \<Rightarrow> bytes \<Rightarrow> bool" where
  "digest_holds d m = (case (alg_ops (d_algo d), d_ctx d) of
     (Ops_hash h, Ctx_hash c) \<Rightarrow> hash_holds (lift_hash d c) m \<and> digest_length d = hash_len (Ops_hash h)
   | (Ops_hmac _ p, Ctx_hmac dh) \<Rightarrow> key_ok p dh \<and> p \<le> 128
       \<and> hash_holds (dh_d dh) (xor_key 0x36 p (the_key dh) @ m)
       \<and> dh_opad dh = xor_key 0x5c p (the_key dh)
       \<and> digest_length d = hash_len (alg_ops (hd_algo (dh_d dh)))
   | _ \<Rightarrow> False)"

definition digest_spec :: "digest \<Rightarrow> bytes \<Rightarrow> bytes" where
  "digest_spec d = (case (alg_ops (d_algo d), d_ctx d) of
     (Ops_hmac _ p, Ctx_hmac dh) \<Rightarrow> rfc2104 (hash_spec (dh_d dh)) p (the_key dh)
   | (_, Ctx_hash c) \<Rightarrow> hash_spec (lift_hash d c)
   | _ \<Rightarrow> (\<lambda>_. []))"

definition digest_limit :: nat where
  "digest_limit = 2 ^ 32 - 257"

lemma digest_cases:
  assumes "digest_ready d \<or> digest_holds d m"
  obtains (hash) h c where "alg_ops (d_algo d) = Ops_hash h" "d_ctx d = Ctx_hash c"
  | (hmac) n p dh where "alg_ops (d_algo d) = Ops_hmac n p" "d_ctx d = Ctx_hmac dh"
  using assms
  by (auto simp: digest_ready_def digest_holds_def split: digest_ops.splits digest_ctx.splits)

lemmas digest_dispatch = digest_init_def digest_update_def digest_final_def digest_ready_def
  digest_holds_def digest_spec_def

lemma digest_length_ctx [simp]: "digest_length (d\<lparr>d_ctx := c\<rparr>) = digest_length d"
  by (simp add: digest_length_def)

lemma length_xor_key: "length k \<le> p \<Longrightarrow> length (xor_key c p k) = p"
  by (simp add: xor_key_def)

lemma key_ok_length: "key_ok p dh \<Longrightarrow> length (xor_key c p (the_key dh)) = p"
  by (auto simp: key_ok_def the_key_def length_xor_key split: sum.splits)

lemma key_okE:
  assumes "key_ok p dh"
  obtains k where "key_bytes dh = Inr k" "the_key dh = k" "length k \<le> p"
  using assms by (auto simp: key_ok_def the_key_def split: sum.splits)

lemma key_update [simp]:
  "key_bytes (dh\<lparr>dh_d := x\<rparr>) = key_bytes dh"
  "key_bytes (dh\<lparr>dh_ipad := y\<rparr>) = key_bytes dh"
  "key_bytes (dh\<lparr>dh_opad := z\<rparr>) = key_bytes dh"
  by (simp_all add: key_bytes_def split: hmac_key.splits)

lemma the_key_update [simp]:
  "the_key (dh\<lparr>dh_d := x\<rparr>) = the_key dh"
  "the_key (dh\<lparr>dh_ipad := y\<rparr>) = the_key dh"
  "the_key (dh\<lparr>dh_opad := z\<rparr>) = the_key dh"
  "key_ok p (dh\<lparr>dh_d := x\<rparr>) = key_ok p dh"
  "key_ok p (dh\<lparr>dh_ipad := y\<rparr>) = key_ok p dh"
  "key_ok p (dh\<lparr>dh_opad := z\<rparr>) = key_ok p dh"
  by (simp_all add: the_key_def key_ok_def)

lemma hash_algo_kept:
  "hash_init h = Inr h' \<Longrightarrow> hd_algo h' = hd_algo h"
  "hash_update h x = Inr h' \<Longrightarrow> hd_algo h' = hd_algo h"
  "hash_final h = Inr (md, h') \<Longrightarrow> hd_algo h' = hd_algo h"
  by (auto simp: hash_init_def hash_update_def hash_final_def
      split: digest_ops.splits hash_ops.splits hash_ctx.splits prod.splits)

lemma lift_hash_self: "hd_algo h = d_algo d \<Longrightarrow> lift_hash d (hd_ctx h) = h"
  by (simp add: lift_hash_def)

lemma lift_hash_simps [simp]:
  "hd_algo (lift_hash d c) = d_algo d" "lift_hash (d\<lparr>d_ctx := c'\<rparr>) c = lift_hash d c"
  by (simp_all add: lift_hash_def)

lemma digest_init_law:
  assumes "digest_ready d"
  shows "\<exists>d'. digest_init d = Inr d' \<and> digest_holds d' [] \<and> digest_spec d' = digest_spec d"
proof (cases rule: digest_cases [OF disjI1 [OF assms]])
  case (1 h c)
  then have "hash_ready (lift_hash d c)" using assms by (simp add: digest_ready_def)
  from hash_init_law [OF this] obtain h' where
    h': "hash_init (lift_hash d c) = Inr h'" "hash_holds h' []" "hash_spec h' = hash_spec (lift_hash d c)"
    by auto
  with 1 assms hash_algo_kept(1) [OF h'(1)] show ?thesis
    by (simp add: digest_dispatch lift_hash_self)
next
  case (2 n p dh)
  from 2 assms have r: "hash_ready (dh_d dh)" "key_ok p dh" "p \<le> 128"
    by (auto simp: digest_ready_def)
  obtain k where k: "key_bytes dh = Inr k" "the_key dh = k" "length k \<le> p"
    using r(2) by (rule key_okE)
  obtain h1 where h1: "hash_init (dh_d dh) = Inr h1" "hash_holds h1 []" "hash_spec h1 = hash_spec (dh_d dh)"
    using hash_init_law [OF r(1)] by auto
  obtain h2 where h2: "hash_update h1 (xor_key 0x36 p k) = Inr h2" "hash_holds h2 (xor_key 0x36 p k)"
      "hash_spec h2 = hash_spec h1"
    using hash_update_law [OF h1(2), of "xor_key 0x36 p k"] k(3) r(3)
    by (auto simp: hash_limit_def length_xor_key)
  with 2 assms k h1 r hash_algo_kept show ?thesis
    by (auto simp: digest_dispatch digest_hmac_init_def Let_def)
qed

lemma digest_update_law:
  assumes "digest_holds d m" and "length m + length x \<le> digest_limit"
  shows "\<exists>d'. digest_update d x = Inr d' \<and> digest_holds d' (m @ x) \<and> digest_spec d' = digest_spec d"
proof (cases rule: digest_cases [OF disjI2 [OF assms(1)]])
  case (1 h c)
  then have "hash_holds (lift_hash d c) m" using assms by (simp add: digest_holds_def)
  from hash_update_law [OF this, of x] assms(2) obtain h' where
    h': "hash_update (lift_hash d c) x = Inr h'" "hash_holds h' (m @ x)"
      "hash_spec h' = hash_spec (lift_hash d c)"
    by (auto simp: hash_limit_def digest_limit_def)
  with 1 assms hash_algo_kept(2) [OF h'(1)] show ?thesis
    by (simp add: digest_dispatch lift_hash_self)
next
  case (2 n p dh)
  let ?i = "xor_key 0x36 p (the_key dh)"
  from 2 assms have r: "hash_holds (dh_d dh) (?i @ m)" "key_ok p dh" "p \<le> 128"
    by (auto simp: digest_holds_def)
  have l: "length (?i @ m) + length x \<le> hash_limit"
    using assms(2) r(3) key_ok_length [OF r(2)] by (simp add: hash_limit_def digest_limit_def)
  from hash_update_law [OF r(1) l] obtain h1 where
    h1: "hash_update (dh_d dh) x = Inr h1" "hash_holds h1 (?i @ m @ x)" "hash_spec h1 = hash_spec (dh_d dh)"
    by auto
  with 2 assms hash_algo_kept(2) [OF h1(1)] show ?thesis
    by (auto simp: digest_dispatch digest_hmac_update_def)
qed

lemma digest_final_law:
  assumes "digest_holds d m" and "length m \<le> digest_limit"
  shows "\<exists>d'. digest_final d = Inr (digest_spec d m, d') \<and> digest_ready d' \<and> digest_spec d' = digest_spec d"
proof (cases rule: digest_cases [OF disjI2 [OF assms(1)]])
  case (1 h c)
  then have "hash_holds (lift_hash d c) m" using assms by (simp add: digest_holds_def)
  from hash_final_law [OF this] assms(2) obtain h' where
    h': "hash_final (lift_hash d c) = Inr (hash_spec (lift_hash d c) m, h')" "hash_ready h'"
      "hash_spec h' = hash_spec (lift_hash d c)"
    by (auto simp: hash_limit_def digest_limit_def)
  with 1 assms hash_algo_kept(3) [OF h'(1)] show ?thesis
    by (simp add: digest_dispatch lift_hash_self)
next
  case (2 n p dh)
  let ?i = "xor_key 0x36 p (the_key dh)" and ?o = "xor_key 0x5c p (the_key dh)"
  let ?H = "hash_spec (dh_d dh)"
  from 2 assms have r: "hash_holds (dh_d dh) (?i @ m)" "key_ok p dh" "p \<le> 128" "dh_opad dh = ?o"
      "digest_length d = hash_len (alg_ops (hd_algo (dh_d dh)))"
    by (auto simp: digest_holds_def)
  have lx: "length ?i = p" "length ?o = p"
    using key_ok_length [OF r(2)] by simp_all
  have lh: "length (?H y) \<le> 32" for y
    by (simp add: length_hash_spec hash_len_def split: digest_ops.splits hash_ops.splits)
  have "length (?i @ m) \<le> hash_limit"
    using assms(2) r(3) by (simp add: hash_limit_def digest_limit_def lx)
  from hash_final_law [OF r(1) this] obtain h1 where
    h1: "hash_final (dh_d dh) = Inr (?H (?i @ m), h1)" "hash_ready h1" "hash_spec h1 = ?H" by auto
  from hash_init_law [OF h1(2)] h1(3) obtain h2 where
    h2: "hash_init h1 = Inr h2" "hash_holds h2 []" "hash_spec h2 = ?H" by auto
  from hash_update_law [OF h2(2), of ?o] h2(3) r(3) obtain h3 where
    h3: "hash_update h2 ?o = Inr h3" "hash_holds h3 ?o" "hash_spec h3 = ?H"
    by (auto simp: lx hash_limit_def)
  from hash_update_law [OF h3(2), of "?H (?i @ m)"] h3(3) r(3) lh [of "?i @ m"] obtain h4 where
    h4: "hash_update h3 (?H (?i @ m)) = Inr h4" "hash_holds h4 (?o @ ?H (?i @ m))" "hash_spec h4 = ?H"
    by (auto simp: lx hash_limit_def)
  from hash_final_law [OF h4(2)] h4(3) r(3) lh [of "?i @ m"] obtain h5 where
    h5: "hash_final h4 = Inr (?H (?o @ ?H (?i @ m)), h5)" "hash_ready h5" "hash_spec h5 = ?H"
    by (auto simp: lx hash_limit_def)
  have algo: "hd_algo h5 = hd_algo (dh_d dh)"
    using hash_algo_kept h1(1) h2(1) h3(1) h4(1) h5(1) by metis
  have mac: "digest_spec d m = ?H (?o @ ?H (?i @ m))"
    using 2 by (simp add: digest_spec_def rfc2104_def xor_key_rfc)
  have "digest_hmac_final (digest_length d) dh = Inr (digest_spec d m, dh\<lparr>dh_d := h5\<rparr>)"
    using h1 h2 h3 h4 h5 r(4) by (simp add: digest_hmac_final_def length_hash_spec r(5) mac)
  with 2 r h5 algo show ?thesis
    by (auto simp: digest_final_def digest_ready_def digest_spec_def)
qed

interpretation dig: stream_digest digest_ready digest_holds digest_spec digest_init digest_update
    digest_final digest_limit
  by unfold_locales (rule digest_init_law digest_update_law digest_final_law; assumption)+

section \<open>Properties\<close>

lemma updates_fold:
  "fold (\<lambda>x r. bindE r (\<lambda>d. digest_update d x)) xs r = bindE r (\<lambda>d. dig.updates d xs)"
proof (induction xs arbitrary: r)
  case Nil
  show ?case by (cases r) simp_all
next
  case (Cons x xs)
  show ?case by (cases r) (simp_all add: Cons.IH)
qed

lemma digests_unfold:
  "digests = [m_sha1, m224, m256, hmac_algo ''sha1'' 64, hmac_algo ''sha224'' 64, hmac_algo ''sha256'' 64]"
  by (simp add: digests_def digest_hmac_initcall_def digest_hmac_register_def digest_algo_register_def)

lemmas registry_simps = digests_unfold digest_algo_get_by_name_def m_sha1_def m224_def m256_def
  hmac_algo_def

text \<open>The hash functions by the names under which the sources register them.\<close>

definition named_hash :: "string \<Rightarrow> bytes \<Rightarrow> bytes" where
  "named_hash n = (if n = ''sha1'' then fips_sha1 else if n = ''sha224'' then fips_sha224 else fips_sha256)"

lemma hmac_alloc_ready:
  assumes "n \<in> {''sha1'', ''sha224'', ''sha256''}" and "length key \<le> 64"
  shows "\<exists>d d'. digest_alloc digests (Some (''hmac('' @ n @ '')'')) = Some d
    \<and> digest_set_key d key = (Inr (), d') \<and> digest_ready d'
    \<and> digest_spec d' = rfc2104 (named_hash n) 64 key"
  using assms
  by (auto simp: registry_simps digest_alloc_def digest_hmac_alloc_def hash_alloc_def
      digest_set_key_def digest_hmac_set_key_def Let_def digest_ready_def digest_spec_def
      hash_ready_def hash_zero_ctx_def key_ok_def key_bytes_def the_key_def digest_length_def hash_len_def
      hash_spec_def named_hash_def sha1.ready_def sha224.ready_def sha256.ready_def)



text \<open>
  \<open>digest_generic_verify\<close> decides exactly whether the expected value equals the digest: when a digest
  (a hash or an HMAC) has been initialised and has absorbed \<open>x\<close>, verification against \<open>md\<close> succeeds if and only if
  the first \<open>digest_length\<close> bytes of \<open>md\<close> are the value computed for \<open>x\<close>, fails with \<open>EINVAL\<close> otherwise, and leaves
  the digest ready for the next message.
\<close>

theorem digest_verify_exact:
  assumes "digest_ready d" and "length x \<le> digest_limit" and "digest_length d \<le> length md"
  shows "\<exists>d1 d2 d3. digest_init d = Inr d1 \<and> digest_update d1 x = Inr d2
    \<and> digest_generic_verify d2 md =
        (if take (digest_length d) md = digest_spec d x then Inr () else Inl EINVAL, d3)
    \<and> digest_ready d3"
proof -
  obtain d1 where d1: "digest_init d = Inr d1" "digest_holds d1 []" "digest_spec d1 = digest_spec d"
    using digest_init_law [OF assms(1)] by auto
  obtain d2 where d2: "digest_update d1 x = Inr d2" "digest_holds d2 x" "digest_spec d2 = digest_spec d"
    using digest_update_law [OF d1(2), of x] assms(2) d1(3) by auto
  obtain d3 where d3: "digest_final d2 = Inr (digest_spec d x, d3)" "digest_ready d3"
    using digest_final_law [OF d2(2) assms(2)] d2(3) by auto
  have "digest_length d2 = digest_length d"
    using d1(1) d2(1) by (auto simp: digest_init_def digest_update_def
        split: digest_ops.splits digest_ctx.splits)
  moreover have "length (digest_spec d2 x) = digest_length d2"
    using d2(2) by (auto simp: digest_holds_def digest_spec_def rfc2104_def Let_def length_hash_spec
        split: digest_ops.splits digest_ctx.splits)
  ultimately have "digest_generic_verify d2 md =
      (if take (digest_length d) md = digest_spec d x then Inr () else Inl EINVAL, d3)"
    using d3 d2(3) assms(3) by (simp add: digest_generic_verify_def Let_def)
  with d1 d2 d3 show ?thesis by blast
qed

definition sha1_digest0 :: digest where
  "sha1_digest0 = \<lparr>d_algo = m_sha1, d_ctx = Ctx_hash (hash_zero_ctx Ops_sha1), d_length = 0\<rparr>"

lemma sha1_digest0_ready: "digest_ready sha1_digest0" "digest_length sha1_digest0 = 20"
  "digest_spec sha1_digest0 = fips_sha1"
  by (simp_all add: sha1_digest0_def digest_ready_def lift_hash_def m_sha1_def hash_ready_def
      hash_zero_ctx_def sha1.ready_def digest_length_def hash_len_def digest_spec_def hash_spec_def)

theorem digest_verify_exact_witness:
  "\<exists>d1 d2 d3. digest_init sha1_digest0 = Inr d1 \<and> digest_update d1 [7] = Inr d2
    \<and> digest_generic_verify d2 (replicate 20 0) =
        (if replicate 20 0 = fips_sha1 [7] then Inr () else Inl EINVAL, d3) \<and> digest_ready d3"
  using digest_verify_exact [of sha1_digest0 "[7]" "replicate 20 0"]
  by (simp add: sha1_digest0_ready digest_limit_def)

text \<open>
  A key longer than the 64 byte pad cannot be set on a freshly allocated HMAC: \<open>digest_set_key\<close> returns
  \<open>EINVAL\<close>, because the code hashes its own (still null) key pointer instead of the caller's key, which RFC
  2104 asks to be hashed.
\<close>

theorem hmac_long_key_rejected:
  assumes "n \<in> {''sha1'', ''sha224'', ''sha256''}" and "64 < length key"
  shows "\<exists>d d'. digest_alloc digests (Some (''hmac('' @ n @ '')'')) = Some d
    \<and> digest_set_key d key = (Inl EINVAL, d')"
  using assms
  by (auto simp: registry_simps digest_alloc_def digest_hmac_alloc_def hash_alloc_def
      digest_set_key_def digest_hmac_set_key_def Let_def hash_digest_generic_def)

theorem hmac_long_key_rejected_witness:
  "\<exists>d d'. digest_alloc digests (Some ''hmac(sha1)'') = Some d
    \<and> digest_set_key d (replicate 65 1) = (Inl EINVAL, d')"
  using hmac_long_key_rejected [of "''sha1''" "replicate 65 1"] by simp

end
