(* ===== verification/Base64.thy ===== *)
theory Base64
  imports DT_Prelude
begin

text \<open>
  \<open>src/base64.c\<close>: the decoder used for the key blobs.  The source text is a C string, here the characters
  before its terminator.  The result is the returned length together with the bytes stored through
  \<open>dst\<close>, in order.
\<close>

section \<open>The code\<close>

definition uuenc_tbl_base64 :: string where
  "uuenc_tbl_base64 = ''ABCDEFGHIJKLMNOPQRSTUVWXYZabcdefghijklmnopqrstuvwxyz0123456789+/=''"

text \<open>\<open>strchr (tbl, ch) - tbl\<close>, or nothing when the character is not in the table.\<close>

fun strchr_index :: "string \<Rightarrow> char \<Rightarrow> nat option" where
  "strchr_index [] c = None"
| "strchr_index (t # ts) c = (if t = c then Some 0 else map_option Suc (strchr_index ts c))"

text \<open>
  The inner loop: collect up to four six bit values.  \<open>None\<close> is the jump to \<open>ret\<close> at the end of the
  string.
\<close>

fun fetch_six :: "string \<Rightarrow> u8 list \<Rightarrow> (u8 list \<times> string) option" where
  "fetch_six [] six_bit = (if length six_bit < 4 then None else Some (six_bit, []))"
| "fetch_six (c # src) six_bit =
     (if length six_bit < 4 then
        (case strchr_index uuenc_tbl_base64 c of
           None \<Rightarrow> fetch_six src six_bit
         | Some ch \<Rightarrow> if ch = 64 then Some (six_bit, src) else fetch_six src (six_bit @ [word_of_nat ch]))
      else Some (six_bit, c # src))"

definition store_six :: "u8 list \<Rightarrow> bytes" where
  "store_six s =
     (if 1 < length s then [push_bit 2 (s ! 0) OR drop_bit 4 (s ! 1)] else [])
     @ (if 2 < length s then [push_bit 4 (s ! 1) OR drop_bit 2 (s ! 2)] else [])
     @ (if 3 < length s then [push_bit 6 (s ! 2) OR s ! 3] else [])"

lemma fetch_six_shrinks:
  "fetch_six src s = Some (s', src') \<Longrightarrow> length s < 4 \<Longrightarrow> length src' < length src"
proof (induction src s rule: fetch_six.induct)
  case (2 c src s)
  show ?case
  proof (cases "strchr_index uuenc_tbl_base64 c")
    case None
    with 2 show ?thesis by force
  next
    case (Some ch)
    show ?thesis
    proof (cases "ch = 64")
      case False
      with 2 Some have *: "fetch_six src (s @ [word_of_nat ch]) = Some (s', src')" by simp
      show ?thesis
      proof (cases "length (s @ [word_of_nat ch :: u8]) < 4")
        case True
        with 2 Some False * show ?thesis by fastforce
      next
        case False
        with * have "src' = src" by (cases src) auto
        then show ?thesis by simp
      qed
    qed (use 2 Some in simp)
  qed
qed simp

function decode_loop :: "int \<Rightarrow> string \<Rightarrow> int \<times> bytes \<Rightarrow> int \<times> bytes" where
  "decode_loop dst_len src acc =
     (if 0 < dst_len then
        (case fetch_six src [] of
           None \<Rightarrow> acc
         | Some (s, src') \<Rightarrow>
             let count = int (length s);
                 len = (if count \<noteq> 0 then fst acc + (count - 1) else fst acc)
             in decode_loop (dst_len - (count - 1)) src' (len, snd acc @ store_six s))
      else acc)"
  by pat_completeness auto
termination
  by (relation "measure (\<lambda>(dst_len, src, acc). length src)") (auto dest: fetch_six_shrinks)

declare decode_loop.simps [simp del]

definition decode_base64 :: "int \<Rightarrow> string \<Rightarrow> int \<times> bytes" where
  "decode_base64 dst_len src = decode_loop dst_len src (0, [])"

section \<open>Bounds\<close>

lemma fetch_six_length: "fetch_six src s = Some (s', src') \<Longrightarrow> length s \<le> 4 \<Longrightarrow> length s' \<le> 4"
  by (induction src s rule: fetch_six.induct) (auto split: if_splits option.splits)

lemma length_store_six: "length s \<le> 4 \<Longrightarrow> length (store_six s) = length s - 1"
  by (auto simp: store_six_def)

text \<open>What one group consumes: its values, and the \<open>'='\<close> that ended it if it has fewer than four.\<close>

lemma fetch_six_consumes:
  "fetch_six src s = Some (s', src') \<Longrightarrow> length s \<le> 4 \<Longrightarrow>
     length s' + length src' \<le> length s + length src
     \<and> (length s' < 4 \<longrightarrow> count_list src' CHR ''='' < count_list src CHR ''='')
     \<and> count_list src' CHR ''='' \<le> count_list src CHR ''=''"
proof (induction src s rule: fetch_six.induct)
  case (2 c src s)
  have eq: "strchr_index uuenc_tbl_base64 c = Some 64 \<Longrightarrow> c = CHR ''=''"
    by (auto simp: uuenc_tbl_base64_def split: if_splits)
  show ?case
    using 2 eq by (cases "strchr_index uuenc_tbl_base64 c") (auto split: if_splits)
qed (auto split: if_splits)

lemma decode_loop_grows:
  "\<exists>bs. decode_loop n src acc = (fst acc + int (length bs), snd acc @ bs)
     \<and> int (length bs) \<le> max 0 n + 2 + int (count_list src CHR ''='')
     \<and> 4 * length bs \<le> 3 * length src"
proof (induction n src acc rule: decode_loop.induct)
  case (1 n src acc)
  obtain l out where acc: "acc = (l, out)" by (cases acc)
  show ?case
  proof (cases "0 < n \<and> fetch_six src [] \<noteq> None")
    case False
    then have "decode_loop n src (l, out) = (l, out)"
      by (subst decode_loop.simps) (auto split: option.splits)
    then show ?thesis by (intro exI [of _ "[]"]) (simp add: acc)
  next
    case True
    then obtain s src' where f: "fetch_six src [] = Some (s, src')" by auto
    let ?l = "if int (length s) \<noteq> 0 then l + (int (length s) - 1) else l"
    let ?n = "n - (int (length s) - 1)"
    have u: "decode_loop n src (l, out) = decode_loop ?n src' (?l, out @ store_six s)"
      using True f by (subst decode_loop.simps) (simp add: Let_def)
    have s: "length s \<le> 4" "length (store_six s) = length s - 1"
      using fetch_six_length [OF f] length_store_six by auto
    have c: "length s + length src' \<le> length src"
        "length s < 4 \<longrightarrow> count_list src' CHR ''='' < count_list src CHR ''=''"
        "count_list src' CHR ''='' \<le> count_list src CHR ''=''"
      using fetch_six_consumes [OF f] by auto
    obtain bs where bs: "decode_loop ?n src' (?l, out @ store_six s)
          = (?l + int (length bs), (out @ store_six s) @ bs)"
        "int (length bs) \<le> max 0 ?n + 2 + int (count_list src' CHR ''='')"
        "4 * length bs \<le> 3 * length src'"
      using "1.IH" [OF conjunct1 [OF True] f refl refl refl] unfolding acc fst_conv snd_conv by blast
    have "?l + int (length bs) = l + int (length (store_six s @ bs))"
      using s by (cases s) auto
    moreover have "4 * length (store_six s @ bs) \<le> 3 * length src"
      using s c(1) bs(3) by simp
    moreover have "int (length (store_six s @ bs)) \<le> max 0 n + 2 + int (count_list src CHR ''='')"
    proof (cases "?n \<le> 0")
      case True
      then have "decode_loop ?n src' (?l, out @ store_six s) = (?l, out @ store_six s)"
        by (subst decode_loop.simps) simp
      with bs(1) have "bs = []" by simp
      moreover have "int (length (store_six s)) \<le> 3" using s by linarith
      ultimately show ?thesis using \<open>0 < n \<and> _\<close> by simp
    next
      case False
      with bs(2) s c \<open>0 < n \<and> _\<close> show ?thesis by (cases "length s") auto
    qed
    ultimately show ?thesis using u bs(1) by (intro exI [of _ "store_six s @ bs"]) (simp add: acc)
  qed
qed

text \<open>
  C40: \<open>decode_base64\<close> always terminates and returns exactly the number of bytes it has stored.  That number is
  at most three quarters of the length of the source text, so a destination as long as the text (what the
  key store allocates) is never overrun, and exceeds the given size by at most two plus the number of
  \<open>'='\<close> signs.
\<close>

theorem decode_base64_bounds:
  "fst (decode_base64 n src) = int (length (snd (decode_base64 n src)))
   \<and> 4 * length (snd (decode_base64 n src)) \<le> 3 * length src
   \<and> int (length (snd (decode_base64 n src))) \<le> max 0 n + 2 + int (count_list src CHR ''='')"
  using decode_loop_grows [of n src "(0, [])"] unfolding decode_base64_def by auto

text \<open>The size alone is not a bound: one group is stored whatever remains of it.\<close>

lemma decode_base64_overrun: "decode_base64 1 ''QUJD'' = (3, [0x41, 0x42, 0x43])"
  by (simp add: decode_base64_def decode_loop.simps uuenc_tbl_base64_def store_six_def)

section \<open>The encoding\<close>

text \<open>The base64 text of RFC 4648.\<close>

definition b64_char :: "u8 \<Rightarrow> char" where
  "b64_char v = uuenc_tbl_base64 ! unat v"

definition sextets :: "u8 \<Rightarrow> u8 \<Rightarrow> u8 \<Rightarrow> u8 list" where
  "sextets x y z = [drop_bit 2 x, push_bit 4 (take_bit 2 x) OR drop_bit 4 y,
     push_bit 2 (take_bit 4 y) OR drop_bit 6 z, take_bit 6 z]"

fun encode_base64 :: "bytes \<Rightarrow> string" where
  "encode_base64 (x # y # z # r) = map b64_char (sextets x y z) @ encode_base64 r"
| "encode_base64 [x, y] = map b64_char (take 3 (sextets x y 0)) @ ''=''"
| "encode_base64 [x] = map b64_char (take 2 (sextets x 0 0)) @ ''==''"
| "encode_base64 [] = []"

lemma strchr_index_nth: "distinct t \<Longrightarrow> i < length t \<Longrightarrow> strchr_index t (t ! i) = Some i"
  by (induction t arbitrary: i) (auto simp: nth_Cons split: nat.splits)

lemma distinct_tbl: "distinct uuenc_tbl_base64" "length uuenc_tbl_base64 = 65"
  by (simp_all add: uuenc_tbl_base64_def)

lemma tbl_eq_sign: "strchr_index uuenc_tbl_base64 CHR ''='' = Some 64"
  by (simp add: uuenc_tbl_base64_def)

lemma strchr_b64_char: "v < 64 \<Longrightarrow> strchr_index uuenc_tbl_base64 (b64_char v) = Some (unat v)"
  unfolding b64_char_def
  by (rule strchr_index_nth) (simp_all add: distinct_tbl, simp add: word_less_nat_alt)

lemma bit_u8_high [simp]: "8 \<le> n \<Longrightarrow> \<not> bit (w :: u8) n"
  using bit_u8D [of w n] by auto

lemma u8_eqI:
  assumes "bit a 0 = bit b 0" "bit a 1 = bit b 1" "bit a 2 = bit b 2" "bit a 3 = bit b 3"
    "bit a 4 = bit b 4" "bit a 5 = bit b 5" "bit a 6 = bit b 6" "bit a 7 = bit b 7"
  shows "a = (b :: u8)"
proof (rule bit_word_eqI)
  fix n :: nat assume "n < LENGTH(8)"
  then consider "n = 0" | "n = 1" | "n = 2" | "n = 3" | "n = 4" | "n = 5" | "n = 6" | "n = 7" by force
  then show "bit a n = bit b n" by cases (use assms in simp_all)
qed

lemma sextets_bound: "v \<in> set (sextets x y z) \<Longrightarrow> v < 64"
proof -
  have lt: "v < 64" if "v = take_bit 6 w" for v w :: u8
  proof -
    have "unat v = take_bit 6 (unat w)" by (simp add: that unsigned_take_bit_eq)
    then have "unat v < 2 ^ 6" by (simp only: take_bit_nat_less_exp)
    then show ?thesis by (simp add: word_less_nat_alt)
  qed
  assume "v \<in> set (sextets x y z)"
  then consider "v = drop_bit 2 x" | "v = push_bit 4 (take_bit 2 x) OR drop_bit 4 y"
    | "v = push_bit 2 (take_bit 4 y) OR drop_bit 6 z" | "v = take_bit 6 z"
    by (auto simp: sextets_def)
  then have "v = take_bit 6 v"
    by cases (rule u8_eqI; simp add: bit_simps)+
  then show "v < 64" by (rule lt)
qed

lemma store_sextets:
  "store_six (sextets x y z) = [x, y, z]"
  "store_six (take 3 (sextets x y 0)) = [x, y]"
  "store_six (take 2 (sextets x 0 0)) = [x]"
proof -
  have 1: "push_bit 2 (drop_bit 2 x) OR drop_bit 4 (push_bit 4 (take_bit 2 x) OR drop_bit 4 y) = x"
    for x y :: u8
    by (rule u8_eqI; simp add: bit_simps)
  have 2: "push_bit 4 (push_bit 4 (take_bit 2 x) OR drop_bit 4 y) OR
      drop_bit 2 (push_bit 2 (take_bit 4 y) OR drop_bit 6 z) = y" for x y z :: u8
    by (rule u8_eqI; simp add: bit_simps)
  have 3: "push_bit 6 (push_bit 2 (take_bit 4 y) OR drop_bit 6 z) OR take_bit 6 z = z" for y z :: u8
    by (rule u8_eqI; simp add: bit_simps)
  show "store_six (sextets x y z) = [x, y, z]"
    using 1 [of x y] 2 [of x y z] 3 [of y z] by (simp add: store_six_def sextets_def)
  show "store_six (take 3 (sextets x y 0)) = [x, y]"
    using 1 [of x y] 2 [of x y 0] by (simp add: store_six_def sextets_def)
  show "store_six (take 2 (sextets x 0 0)) = [x]"
    using 1 [of x 0] by (simp add: store_six_def sextets_def)
qed

section \<open>Round trip\<close>

text \<open>A character the decoder does not skip.\<close>

definition b64_valid :: "char \<Rightarrow> bool" where
  "b64_valid c \<longleftrightarrow> strchr_index uuenc_tbl_base64 c \<noteq> None"

lemma fetch_six_full: "\<not> length s < 4 \<Longrightarrow> fetch_six r s = Some (s, r)"
  by (cases r) auto

lemma fetch_six_filter:
  "fetch_six (filter b64_valid src) s =
     map_option (\<lambda>(s', r). (s', filter b64_valid r)) (fetch_six src s)"
  by (induction src s rule: fetch_six.induct) (auto simp: b64_valid_def fetch_six_full split: option.splits)

lemma decode_loop_filter: "decode_loop n (filter b64_valid src) acc = decode_loop n src acc"
proof (induction n src acc rule: decode_loop.induct)
  case (1 n src acc)
  show ?case
    using "1.IH"
    by (subst (1 2) decode_loop.simps) (auto simp: fetch_six_filter Let_def split: option.splits)
qed

lemma fetch_six_chars:
  assumes "\<forall>v \<in> set vs. v < 64" and "length s + length vs \<le> 4"
  shows "fetch_six (map b64_char vs @ r) s = fetch_six r (s @ vs)"
  using assms
proof (induction vs arbitrary: s)
  case (Cons v vs)
  have "unat v \<noteq> 64" using Cons.prems(1) by (auto simp: word_less_nat_alt)
  with Cons show ?case by (simp add: strchr_b64_char)
qed simp

lemma decode_step:
  assumes "0 < n" and "fetch_six src [] = Some (s, src')" and "s \<noteq> []"
  shows "decode_loop n src (l, out) =
    decode_loop (n - (int (length s) - 1)) src' (l + (int (length s) - 1), out @ store_six s)"
  using assms by (subst decode_loop.simps) (simp add: Let_def)

text \<open>The padding left over at the end is read without any effect.\<close>

lemma decode_padding: "decode_loop n (replicate k CHR ''='') (l, out) = (l, out)"
proof (induction k arbitrary: n)
  case 0
  show ?case by (subst decode_loop.simps) simp
next
  case (Suc k)
  show ?case by (subst decode_loop.simps) (simp add: tbl_eq_sign store_six_def Suc)
qed

lemma fetch_six_group:
  "fetch_six (encode_base64 (x # y # z # r)) [] = Some (sextets x y z, encode_base64 r)"
  "fetch_six (encode_base64 [x, y]) [] = Some (take 3 (sextets x y 0), [])"
  "fetch_six (encode_base64 [x]) [] = Some (take 2 (sextets x 0 0), ''='')"
proof -
  have l: "length (sextets x y z) = 4" for x y z by (simp add: sextets_def)
  show "fetch_six (encode_base64 (x # y # z # r)) [] = Some (sextets x y z, encode_base64 r)"
    using fetch_six_chars [of "sextets x y z" "[]" "encode_base64 r"] sextets_bound
    by (simp add: l fetch_six_full)
  show "fetch_six (encode_base64 [x, y]) [] = Some (take 3 (sextets x y 0), [])"
    using fetch_six_chars [of "take 3 (sextets x y 0)" "[]" "''=''"] sextets_bound [OF in_set_takeD]
    by (simp add: l tbl_eq_sign)
  show "fetch_six (encode_base64 [x]) [] = Some (take 2 (sextets x 0 0), ''='')"
    using fetch_six_chars [of "take 2 (sextets x 0 0)" "[]" "''==''"] sextets_bound [OF in_set_takeD]
    by (simp add: l tbl_eq_sign)
qed

lemma decode_encode:
  "int (length bs) \<le> n \<Longrightarrow> decode_loop n (encode_base64 bs) (l, out) = (l + int (length bs), out @ bs)"
proof (induction bs arbitrary: n l out rule: encode_base64.induct)
  case (1 x y z r)
  have "length (sextets x y z) = 4" "sextets x y z \<noteq> []" by (simp_all add: sextets_def)
  with decode_step [OF _ fetch_six_group(1)] 1 show ?case by (simp add: store_sextets del: encode_base64.simps)
next
  case (2 x y)
  have "length (take 3 (sextets x y 0)) = 3" "take 3 (sextets x y 0) \<noteq> []" by (simp_all add: sextets_def)
  with decode_step [OF _ fetch_six_group(2)] 2 decode_padding [of _ 0] show ?case
    by (simp add: store_sextets del: encode_base64.simps)
next
  case (3 x)
  have "length (take 2 (sextets x 0 0)) = 2" "take 2 (sextets x 0 0) \<noteq> []" by (simp_all add: sextets_def)
  with decode_step [OF _ fetch_six_group(3)] 3 decode_padding [of _ 1] show ?case
    by (simp add: store_sextets del: encode_base64.simps)
next
  case 4
  then show ?case by (subst decode_loop.simps) simp
qed



end
