(* ===== verification/Device_Tree.thy ===== *)
theory Device_Tree
  imports DT_Prelude
begin

text \<open>
  The device tree of \<open>src/libdt.c\<close> and \<open>src/dt/dt.h\<close>: nodes, properties, the typed accessors and the string
  list functions.  A node is a value; a function of the source that changes a node returns the changed
  node.  A property's \<open>length\<close> is the length of its value.  The C functions take node pointers; a null
  node is not modelled, except where the tree functions of theory \<open>Dt_Nodes\<close> return one.
\<close>

section \<open>Data\<close>

record property =
  pp_name :: string
  pp_value :: "bytes option"

definition pp_length :: "property \<Rightarrow> nat" where
  "pp_length p = (case pp_value p of None \<Rightarrow> 0 | Some v \<Rightarrow> length v)"

datatype device_node = Node
  (dn_name: string) (dn_full_name: string) (dn_phandle: u32)
  (dn_properties: "property list") (dn_children: "device_node list")

fun set_properties :: "device_node \<Rightarrow> property list \<Rightarrow> device_node" where
  "set_properties (Node n f h ps cs) ps' = Node n f h ps' cs"

fun set_children :: "device_node \<Rightarrow> device_node list \<Rightarrow> device_node" where
  "set_children (Node n f h ps cs) cs' = Node n f h ps cs'"

fun set_phandle :: "device_node \<Rightarrow> u32 \<Rightarrow> device_node" where
  "set_phandle (Node n f h ps cs) h' = Node n f h' ps cs"

lemma set_simps [simp]:
  "dn_properties (set_properties np ps) = ps" "dn_children (set_properties np ps) = dn_children np"
  "dn_name (set_properties np ps) = dn_name np" "dn_full_name (set_properties np ps) = dn_full_name np"
  "dn_phandle (set_properties np ps) = dn_phandle np"
  "dn_properties (set_children np cs) = dn_properties np" "dn_children (set_children np cs) = cs"
  "dn_name (set_children np cs) = dn_name np" "dn_full_name (set_children np cs) = dn_full_name np"
  "dn_phandle (set_children np cs) = dn_phandle np"
  "dn_properties (set_phandle np h) = dn_properties np" "dn_children (set_phandle np h) = dn_children np"
  "dn_name (set_phandle np h) = dn_name np" "dn_full_name (set_phandle np h) = dn_full_name np"
  "dn_phandle (set_phandle np h) = h"
  by (cases np; simp)+

section \<open>Finding, creating and deleting properties\<close>

definition of_find_property :: "device_node \<Rightarrow> string \<Rightarrow> property option" where
  "of_find_property np name = find (\<lambda>pp. pp_name pp = name) (dn_properties np)"

definition of_get_property :: "device_node \<Rightarrow> string \<Rightarrow> bytes option" where
  "of_get_property np name =
     (case of_find_property np name of None \<Rightarrow> None | Some pp \<Rightarrow> pp_value pp)"

text \<open>\<open>data\<close> is the content copied in; for a null \<open>data\<close> pointer of the C call it is zeros.\<close>

definition of_new_property :: "device_node \<Rightarrow> string \<Rightarrow> bytes \<Rightarrow> device_node" where
  "of_new_property node name data =
     set_properties node (dn_properties node @ [\<lparr>pp_name = name, pp_value = Some data\<rparr>])"

text \<open>The property a pointer designates is the first of its name.\<close>

fun delete_first :: "('a \<Rightarrow> bool) \<Rightarrow> 'a list \<Rightarrow> 'a list" where
  "delete_first P [] = []"
| "delete_first P (x # xs) = (if P x then xs else x # delete_first P xs)"

definition of_delete_property :: "device_node \<Rightarrow> string \<Rightarrow> device_node" where
  "of_delete_property np name =
     set_properties np (delete_first (\<lambda>pp. pp_name pp = name) (dn_properties np))"

definition of_set_property :: "device_node \<Rightarrow> string \<Rightarrow> bytes \<Rightarrow> bool \<Rightarrow> device_node res" where
  "of_set_property np name val create =
     (if of_find_property np name = None \<and> \<not> create then Inl ENOENT
      else Inr (of_new_property (of_delete_property np name) name val))"

section \<open>Typed reads\<close>

definition of_find_property_value_of_size :: "device_node \<Rightarrow> string \<Rightarrow> nat \<Rightarrow> bytes res" where
  "of_find_property_value_of_size np propname len =
     (case of_find_property np propname of
        None \<Rightarrow> Inl EINVAL
      | Some prop \<Rightarrow> (case pp_value prop of
            None \<Rightarrow> Inl ENODATA
          | Some v \<Rightarrow> if pp_length prop < len then Inl EOVERFLOW else Inr v))"

definition of_property_read_u32_index :: "device_node \<Rightarrow> string \<Rightarrow> nat \<Rightarrow> u32 res" where
  "of_property_read_u32_index np propname index =
     bindE (of_find_property_value_of_size np propname ((index + 1) * 4))
       (\<lambda>val. Inr (get_unaligned_be32 (drop (4 * index) val)))"

definition of_property_read_u8_array :: "device_node \<Rightarrow> string \<Rightarrow> nat \<Rightarrow> u8 list res" where
  "of_property_read_u8_array np propname sz =
     bindE (of_find_property_value_of_size np propname sz) (\<lambda>val. Inr (take sz val))"

definition of_property_read_u16_array :: "device_node \<Rightarrow> string \<Rightarrow> nat \<Rightarrow> u16 list res" where
  "of_property_read_u16_array np propname sz =
     bindE (of_find_property_value_of_size np propname (sz * 2))
       (\<lambda>val. Inr (map (\<lambda>i. get_unaligned_be16 (drop (2 * i) val)) [0..<sz]))"

definition of_property_read_u32_array :: "device_node \<Rightarrow> string \<Rightarrow> nat \<Rightarrow> u32 list res" where
  "of_property_read_u32_array np propname sz =
     bindE (of_find_property_value_of_size np propname (sz * 4))
       (\<lambda>val. Inr (map (\<lambda>i. get_unaligned_be32 (drop (4 * i) val)) [0..<sz]))"

fun read_number_loop :: "bytes \<Rightarrow> nat \<Rightarrow> u64 \<Rightarrow> u64" where
  "read_number_loop cell 0 r = r"
| "read_number_loop cell (Suc n) r =
     read_number_loop (drop 4 cell) n (push_bit 32 r OR ucast (get_unaligned_be32 cell))"

definition of_read_number :: "bytes \<Rightarrow> nat \<Rightarrow> u64" where
  "of_read_number cell n = read_number_loop cell n 0"

fun of_write_number :: "u64 \<Rightarrow> nat \<Rightarrow> bytes" where
  "of_write_number val 0 = []"
| "of_write_number val (Suc n) = of_write_number (drop_bit 32 val) n @ put_unaligned_be32 (ucast val)"

definition of_property_read_u64 :: "device_node \<Rightarrow> string \<Rightarrow> u64 res" where
  "of_property_read_u64 np propname =
     bindE (of_find_property_value_of_size np propname 8) (\<lambda>val. Inr (of_read_number val 2))"

definition of_property_read_bool :: "device_node \<Rightarrow> string \<Rightarrow> bool" where
  "of_property_read_bool np propname \<longleftrightarrow> of_find_property np propname \<noteq> None"

definition of_property_read_u8 :: "device_node \<Rightarrow> string \<Rightarrow> u8 res" where
  "of_property_read_u8 np propname =
     bindE (of_property_read_u8_array np propname 1) (\<lambda>vs. Inr (vs ! 0))"

definition of_property_read_u16 :: "device_node \<Rightarrow> string \<Rightarrow> u16 res" where
  "of_property_read_u16 np propname =
     bindE (of_property_read_u16_array np propname 1) (\<lambda>vs. Inr (vs ! 0))"

definition of_property_read_u32 :: "device_node \<Rightarrow> string \<Rightarrow> u32 res" where
  "of_property_read_u32 np propname =
     bindE (of_property_read_u32_array np propname 1) (\<lambda>vs. Inr (vs ! 0))"

section \<open>Strings\<close>

definition string_prop :: "device_node \<Rightarrow> string \<Rightarrow> bytes res" where
  "string_prop np propname =
     (case of_find_property np propname of
        None \<Rightarrow> Inl EINVAL
      | Some prop \<Rightarrow> (case pp_value prop of
            None \<Rightarrow> Inl ENODATA
          | Some v \<Rightarrow> if pp_length prop \<le> strnlen v then Inl EILSEQ else Inr v))"

definition of_property_read_string :: "device_node \<Rightarrow> string \<Rightarrow> string res" where
  "of_property_read_string np propname = bindE (string_prop np propname) (\<lambda>v. Inr (cstr_at v))"

text \<open>
  The loops over the strings of a property.  \<open>p\<close> is the rest of the value; \<open>strlen (p)\<close> on a rest without a
  NUL runs past the property, which only the first string is checked for.
\<close>

function string_index_loop :: "bytes \<Rightarrow> int \<Rightarrow> int \<Rightarrow> string res" where
  "string_index_loop p i index =
     (if p = [] then Inl ENODATA
      else if 0 \<notin> set p then Inl FAULT
      else if i = index then Inr (cstr_at p)
      else string_index_loop (drop (strnlen p + 1) p) (i + 1) index)"
  by pat_completeness auto
termination
  by (relation "measure (\<lambda>(p, i, index). length p)") auto

definition of_property_read_string_index :: "device_node \<Rightarrow> string \<Rightarrow> int \<Rightarrow> string res" where
  "of_property_read_string_index np propname index =
     bindE (string_prop np propname) (\<lambda>v. string_index_loop v 0 index)"

function match_loop :: "bytes \<Rightarrow> nat \<Rightarrow> string \<Rightarrow> nat res" where
  "match_loop p i s =
     (if p = [] then Inl ENODATA
      else if 0 \<notin> set p then Inl FAULT
      else if s = cstr_at p then Inr i
      else match_loop (drop (strnlen p + 1) p) (i + 1) s)"
  by pat_completeness auto
termination
  by (relation "measure (\<lambda>(p, i, s). length p)") auto

definition of_property_match_string :: "device_node \<Rightarrow> string \<Rightarrow> string \<Rightarrow> nat res" where
  "of_property_match_string np propname s =
     (case of_find_property np propname of
        None \<Rightarrow> Inl EINVAL
      | Some prop \<Rightarrow> (case pp_value prop of None \<Rightarrow> Inl ENODATA | Some v \<Rightarrow> match_loop v 0 s))"

function count_loop :: "bytes \<Rightarrow> nat \<Rightarrow> nat res" where
  "count_loop p i =
     (if p = [] then Inr i
      else if 0 \<notin> set p then Inl FAULT
      else count_loop (drop (strnlen p + 1) p) (i + 1))"
  by pat_completeness auto
termination
  by (relation "measure (\<lambda>(p, i). length p)") auto

declare string_index_loop.simps [simp del] match_loop.simps [simp del] count_loop.simps [simp del]

definition of_property_count_strings :: "device_node \<Rightarrow> string \<Rightarrow> nat res" where
  "of_property_count_strings np propname = bindE (string_prop np propname) (\<lambda>v. count_loop v 0)"

text \<open>The iterators, with the position in the value in place of the pointer.\<close>

definition of_prop_next_u32 :: "property \<Rightarrow> nat option \<Rightarrow> (nat \<times> u32) option res" where
  "of_prop_next_u32 prop cur = (case pp_value prop of
     None \<Rightarrow> Inl FAULT
   | Some v \<Rightarrow>
       let pos = (case cur of None \<Rightarrow> 0 | Some c \<Rightarrow> c + 4) in
       if cur \<noteq> None \<and> pp_length prop \<le> pos then Inr None
       else if length v < pos + 4 then Inl FAULT
       else Inr (Some (pos, get_unaligned_be32 (drop pos v))))"

definition of_prop_next_string :: "property \<Rightarrow> nat option \<Rightarrow> nat option res" where
  "of_prop_next_string prop cur = (case (pp_value prop, cur) of
     (None, None) \<Rightarrow> Inr None
   | (None, Some _) \<Rightarrow> Inl FAULT
   | (Some v, None) \<Rightarrow> Inr (Some 0)
   | (Some v, Some c) \<Rightarrow>
       if 0 \<notin> set (drop c v) then Inl FAULT
       else let curv = c + strnlen (drop c v) + 1 in
         if pp_length prop \<le> curv then Inr None else Inr (Some curv))"

section \<open>Typed writes\<close>

text \<open>The pattern the array writers share: drop an existing property, create one, store the elements.\<close>

definition write_array :: "device_node \<Rightarrow> string \<Rightarrow> bytes \<Rightarrow> device_node res" where
  "write_array np propname bs =
     Inr (of_new_property
       (if of_find_property np propname \<noteq> None then of_delete_property np propname else np) propname bs)"

definition of_property_write_bool :: "device_node \<Rightarrow> string \<Rightarrow> bool \<Rightarrow> device_node res" where
  "of_property_write_bool np propname value =
     (if \<not> value then
        Inr (if of_find_property np propname \<noteq> None then of_delete_property np propname else np)
      else Inr (if of_find_property np propname = None then of_new_property np propname [] else np))"

definition of_property_write_u8_array :: "device_node \<Rightarrow> string \<Rightarrow> u8 list \<Rightarrow> device_node res" where
  "of_property_write_u8_array np propname values = write_array np propname values"

definition of_property_write_u16_array :: "device_node \<Rightarrow> string \<Rightarrow> u16 list \<Rightarrow> device_node res" where
  "of_property_write_u16_array np propname values =
     write_array np propname (concat (map put_unaligned_be16 values))"

definition of_property_write_u32_array :: "device_node \<Rightarrow> string \<Rightarrow> u32 list \<Rightarrow> device_node res" where
  "of_property_write_u32_array np propname values =
     write_array np propname (concat (map put_unaligned_be32 values))"

definition of_property_write_u64_array :: "device_node \<Rightarrow> string \<Rightarrow> u64 list \<Rightarrow> device_node res" where
  "of_property_write_u64_array np propname values =
     write_array np propname (concat (map (\<lambda>v. of_write_number v 2) values))"

definition of_property_write_u32 :: "device_node \<Rightarrow> string \<Rightarrow> u32 \<Rightarrow> device_node res" where
  "of_property_write_u32 np propname v = of_property_write_u32_array np propname [v]"

definition of_property_write_strings :: "device_node \<Rightarrow> string \<Rightarrow> string list \<Rightarrow> device_node res" where
  "of_property_write_strings np propname vals =
     (let buf = concat (map (\<lambda>s. str_bytes s @ [0]) vals)
      in if buf = [] then Inl EINVAL else of_set_property np propname buf True)"

definition of_property_write_string :: "device_node \<Rightarrow> string \<Rightarrow> string \<Rightarrow> device_node res" where
  "of_property_write_string np propname v = of_set_property np propname (str_bytes v @ [0]) True"

section \<open>What a write does\<close>

text \<open>
  Every writer replaces the first property of the name by one at the end of the list.  The property is
  found again when the names of the node are distinct.
\<close>

definition put_prop :: "device_node \<Rightarrow> string \<Rightarrow> bytes \<Rightarrow> device_node" where
  "put_prop np name bs = of_new_property (of_delete_property np name) name bs"

definition props_ok :: "device_node \<Rightarrow> bool" where
  "props_ok np \<longleftrightarrow> distinct (map pp_name (dn_properties np))"

lemma delete_first_none: "find P xs = None \<Longrightarrow> delete_first P xs = xs"
  by (induction xs) (auto split: if_splits)

lemma delete_first_distinct:
  "distinct (map f xs) \<Longrightarrow> delete_first (\<lambda>x. f x = k) xs = filter (\<lambda>x. f x \<noteq> k) xs"
proof (induction xs)
  case (Cons x xs)
  then show ?case by (cases "f x = k") (auto intro!: filter_True [symmetric] simp: image_iff)
qed simp

lemma find_delete_first_other: "k' \<noteq> k \<Longrightarrow>
    find (\<lambda>x. f x = k') (delete_first (\<lambda>x. f x = k) xs) = find (\<lambda>x. f x = k') xs"
  by (induction xs) auto

lemma find_append: "find P (xs @ ys) = (case find P xs of None \<Rightarrow> find P ys | Some x \<Rightarrow> Some x)"
  by (induction xs) auto

lemma find_None_filter: "find (\<lambda>x. f x = k) (filter (\<lambda>x. f x \<noteq> k) xs) = None"
  by (simp add: find_None_iff)

lemma set_properties_same [simp]: "set_properties np (dn_properties np) = np"
  by (cases np) simp

lemma set_properties_twice [simp]: "set_properties (set_properties np ps) qs = set_properties np qs"
  by (cases np) simp

lemma write_array_put: "write_array np name bs = Inr (put_prop np name bs)"
  by (simp add: write_array_def put_prop_def of_delete_property_def of_find_property_def
      delete_first_none)

lemma set_property_put: "of_set_property np name bs True = Inr (put_prop np name bs)"
  by (simp add: of_set_property_def put_prop_def)

lemmas write_put = write_array_put set_property_put of_property_write_u8_array_def
  of_property_write_u16_array_def of_property_write_u32_array_def of_property_write_u64_array_def
  of_property_write_u32_def of_property_write_string_def

lemma put_prop_properties:
  "dn_properties (put_prop np name bs) =
     delete_first (\<lambda>pp. pp_name pp = name) (dn_properties np) @ [\<lparr>pp_name = name, pp_value = Some bs\<rparr>]"
  by (simp add: put_prop_def of_new_property_def of_delete_property_def)

lemma put_prop_node [simp]:
  "dn_name (put_prop np name bs) = dn_name np" "dn_full_name (put_prop np name bs) = dn_full_name np"
  "dn_phandle (put_prop np name bs) = dn_phandle np" "dn_children (put_prop np name bs) = dn_children np"
  by (simp_all add: put_prop_def of_new_property_def of_delete_property_def)

lemma find_put_same:
  "props_ok np \<Longrightarrow> of_find_property (put_prop np name bs) name = Some \<lparr>pp_name = name, pp_value = Some bs\<rparr>"
  by (simp add: of_find_property_def put_prop_properties props_ok_def delete_first_distinct find_append
      find_None_filter)

lemma find_put_other:
  "name' \<noteq> name \<Longrightarrow> of_find_property (put_prop np name bs) name' = of_find_property np name'"
  by (auto simp: of_find_property_def put_prop_properties find_append find_delete_first_other
      split: option.splits)

lemma props_ok_put: "props_ok np \<Longrightarrow> props_ok (put_prop np name bs)"
  by (auto simp: props_ok_def put_prop_properties delete_first_distinct distinct_map_filter)

lemma get_put_same: "props_ok np \<Longrightarrow> of_get_property (put_prop np name bs) name = Some bs"
  by (simp add: of_get_property_def find_put_same)

lemma value_of_size_put:
  "props_ok np \<Longrightarrow> of_find_property_value_of_size (put_prop np name bs) name n =
     (if length bs < n then Inl EOVERFLOW else Inr bs)"
  by (simp add: of_find_property_value_of_size_def find_put_same pp_length_def)

lemma string_prop_put:
  "props_ok np \<Longrightarrow> string_prop (put_prop np name bs) name =
     (if length bs \<le> strnlen bs then Inl EILSEQ else Inr bs)"
  by (simp add: string_prop_def find_put_same pp_length_def)

section \<open>The interface of a typed property\<close>

text \<open>
  A writer and a reader of one type of value: what is written is read back, other properties and the rest
  of the node are kept.
\<close>

locale of_accessor =
  fixes wr :: "device_node \<Rightarrow> string \<Rightarrow> 'v \<Rightarrow> device_node res" and rd :: "device_node \<Rightarrow> string \<Rightarrow> 'v res"
    and enc :: "'v \<Rightarrow> bytes" and ok :: "'v \<Rightarrow> bool"
  assumes wr_put: "wr np name v = Inr (put_prop np name (enc v))"
    and rd_put: "props_ok np \<Longrightarrow> ok v \<Longrightarrow> rd (put_prop np name (enc v)) name = Inr v"
    and rd_find: "of_find_property np name = of_find_property np' name \<Longrightarrow> rd np name = rd np' name"
begin

lemma roundtrip:
  assumes "props_ok np" and "ok v"
  shows "\<exists>np'. wr np name v = Inr np' \<and> props_ok np' \<and> rd np' name = Inr v
    \<and> (\<forall>name'. name' \<noteq> name \<longrightarrow> of_find_property np' name' = of_find_property np name')
    \<and> dn_children np' = dn_children np"
  using assms by (simp add: wr_put rd_put props_ok_put find_put_other)

lemma rd_other: "name' \<noteq> name \<Longrightarrow> rd (put_prop np name bs) name' = rd np name'"
  by (rule rd_find) (simp add: find_put_other)

end

lemma concat_be_drop:
  "i < length vs \<Longrightarrow> (\<And>v. length (f v) = k) \<Longrightarrow> drop (k * i) (concat (map f vs)) = concat (map f (drop i vs))"
proof (induction vs arbitrary: i)
  case (Cons v vs)
  then show ?case by (cases i) (auto simp: drop_append)
qed simp

lemma concat_be_length: "(\<And>v. length (f v) = k) \<Longrightarrow> length (concat (map f vs)) = k * length vs"
  by (induction vs) auto

lemma read_array_enc:
  assumes "\<And>v. length (f v) = k" and "\<And>v r. g (f v @ r) = v"
  shows "map (\<lambda>i. g (drop (k * i) (concat (map f vs)))) [0..<length vs] = vs"
proof (rule nth_equalityI)
  fix i assume "i < length (map (\<lambda>i. g (drop (k * i) (concat (map f vs)))) [0..<length vs])"
  then have i: "i < length vs" by simp
  have "drop (k * i) (concat (map f vs)) = f (vs ! i) @ concat (map f (drop (Suc i) vs))"
    using concat_be_drop [of i vs f k] i assms(1) by (simp add: Cons_nth_drop_Suc [symmetric])
  with i assms(2) show "map (\<lambda>i. g (drop (k * i) (concat (map f vs)))) [0..<length vs] ! i = vs ! i"
    by simp
qed simp

interpretation prop_u8s: of_accessor of_property_write_u8_array "\<lambda>np name. of_property_read_u8_array np name n"
    "\<lambda>vs. vs" "\<lambda>vs. length vs = n" for n
proof
  show "of_property_read_u8_array np name n = of_property_read_u8_array np' name n"
    if "of_find_property np name = of_find_property np' name" for np np' name
    by (simp only: of_property_read_u8_array_def of_find_property_value_of_size_def that)
qed (simp_all add: write_put of_property_read_u8_array_def value_of_size_put)

interpretation prop_u16s: of_accessor of_property_write_u16_array "\<lambda>np name. of_property_read_u16_array np name n"
    "\<lambda>vs. concat (map put_unaligned_be16 vs)" "\<lambda>vs. length vs = n" for n
proof
  show "of_property_read_u16_array np name n = of_property_read_u16_array np' name n"
    if "of_find_property np name = of_find_property np' name" for np np' name
    by (simp only: of_property_read_u16_array_def of_find_property_value_of_size_def that)
qed (auto simp: write_put of_property_read_u16_array_def value_of_size_put
    concat_be_length [where k = 2] intro!: read_array_enc)

interpretation prop_u32s: of_accessor of_property_write_u32_array "\<lambda>np name. of_property_read_u32_array np name n"
    "\<lambda>vs. concat (map put_unaligned_be32 vs)" "\<lambda>vs. length vs = n" for n
proof
  show "of_property_read_u32_array np name n = of_property_read_u32_array np' name n"
    if "of_find_property np name = of_find_property np' name" for np np' name
    by (simp only: of_property_read_u32_array_def of_find_property_value_of_size_def that)
qed (auto simp: write_put of_property_read_u32_array_def value_of_size_put
    concat_be_length [where k = 4] intro!: read_array_enc)

interpretation prop_u32: of_accessor of_property_write_u32 of_property_read_u32 put_unaligned_be32 "\<lambda>_. True"
proof
  show "of_property_read_u32 np name = of_property_read_u32 np' name"
    if "of_find_property np name = of_find_property np' name" for np np' name
    using prop_u32s.rd_find [OF that] by (simp add: of_property_read_u32_def)
  show "of_property_read_u32 (put_prop np name (put_unaligned_be32 v)) name = Inr v"
    if "props_ok np" for np name v
    using prop_u32s.rd_put [OF that, of "[v]" 1 name] by (simp add: of_property_read_u32_def)
qed (simp add: write_put)

interpretation prop_string: of_accessor of_property_write_string of_property_read_string
    "\<lambda>s. str_bytes s @ [0]" nul_free
proof
  show "of_property_read_string np name = of_property_read_string np' name"
    if "of_find_property np name = of_find_property np' name" for np np' name
    by (simp add: of_property_read_string_def string_prop_def that)
  show "of_property_read_string (put_prop np name (str_bytes v @ [0])) name = Inr v"
    if "props_ok np" "nul_free v" for np name v
    using that strnlen_append_nul [of "str_bytes v" "[]"] cstr_at_append_nul [of "str_bytes v" "[]"]
    by (simp add: of_property_read_string_def string_prop_put)
qed (simp add: write_put)

section \<open>String lists\<close>

definition strings_bytes :: "string list \<Rightarrow> bytes" where
  "strings_bytes ss = concat (map (\<lambda>s. str_bytes s @ [0]) ss)"

lemma strings_bytes_simps [simp]:
  "strings_bytes [] = []" "strings_bytes (s # ss) = str_bytes s @ 0 # strings_bytes ss"
  by (simp_all add: strings_bytes_def)

lemma strnlen_string: "nul_free s \<Longrightarrow> strnlen (str_bytes s @ 0 # r) = length s"
  using strnlen_append_nul [of "str_bytes s" r] by simp

lemma cstr_at_string: "nul_free s \<Longrightarrow> cstr_at (str_bytes s @ 0 # r) = s"
  using cstr_at_append_nul [of "str_bytes s" r] by simp

lemma drop_string: "drop (length s + 1) (str_bytes s @ 0 # r) = r"
  by simp

lemma count_loop_strings:
  "\<forall>s \<in> set ss. nul_free s \<Longrightarrow> count_loop (strings_bytes ss) i = Inr (i + length ss)"
proof (induction ss arbitrary: i)
  case (Cons s ss)
  then show ?case by (subst count_loop.simps) (simp add: strnlen_string)
qed (simp add: count_loop.simps)

lemma string_index_loop_strings:
  assumes "\<forall>s \<in> set ss. nul_free s" and "i \<le> k"
  shows "string_index_loop (strings_bytes ss) i k =
    (if k - i < int (length ss) then Inr (ss ! nat (k - i)) else Inl ENODATA)"
  using assms
proof (induction ss arbitrary: i)
  case (Cons s ss)
  show ?case
  proof (cases "i = k")
    case True
    then show ?thesis using Cons.prems by (subst string_index_loop.simps) (simp add: cstr_at_string)
  next
    case False
    with Cons.prems have l: "i + 1 \<le> k" by simp
    have n: "nat (k - i) = Suc (nat (k - (i + 1)))" using l by simp
    have "string_index_loop (strings_bytes (s # ss)) i k = string_index_loop (strings_bytes ss) (i + 1) k"
      using False Cons.prems by (subst string_index_loop.simps) (simp add: strnlen_string)
    also have "\<dots> = (if k - (i + 1) < int (length ss) then Inr (ss ! nat (k - (i + 1))) else Inl ENODATA)"
      using Cons l by simp
    finally show ?thesis using n by auto
  qed
qed (simp add: string_index_loop.simps)

lemma match_loop_strings:
  assumes "\<forall>s \<in> set ss. nul_free s"
  shows "match_loop (strings_bytes ss) i s =
    (if s \<in> set ss then Inr (i + length (takeWhile (\<lambda>t. t \<noteq> s) ss)) else Inl ENODATA)"
  using assms
proof (induction ss arbitrary: i)
  case (Cons t ss)
  then show ?case
    by (subst match_loop.simps) (auto simp: cstr_at_string strnlen_string)
qed (simp add: match_loop.simps)

lemma strings_bytes_nonempty: "ss \<noteq> [] \<Longrightarrow> strings_bytes ss \<noteq> []"
  by (cases ss) auto

lemma strnlen_strings: "ss \<noteq> [] \<Longrightarrow> nul_free (hd ss) \<Longrightarrow> strnlen (strings_bytes ss) < length (strings_bytes ss)"
  by (cases ss) (auto simp: strnlen_string)

text \<open>
  C34: A list of C strings written with \<open>of_property_write_strings\<close> is read back exactly: the write succeeds,
  \<open>of_property_count_strings\<close> returns the number of strings, \<open>of_property_read_string_index\<close> the string at every valid
  index and \<open>ENODATA\<close> past the end, and \<open>of_property_match_string\<close> the first index at which a string stands, or
  \<open>ENODATA\<close> when it is not in the list.
\<close>

theorem of_property_strings_roundtrip:
  assumes "props_ok np" and "ss \<noteq> []" and "\<forall>s \<in> set ss. nul_free s"
  shows "\<exists>np'. of_property_write_strings np name ss = Inr np'
    \<and> of_property_count_strings np' name = Inr (length ss)
    \<and> (\<forall>i. of_property_read_string_index np' name (int i) =
          (if i < length ss then Inr (ss ! i) else Inl ENODATA))
    \<and> (\<forall>s. of_property_match_string np' name s =
          (if s \<in> set ss then Inr (length (takeWhile (\<lambda>t. t \<noteq> s) ss)) else Inl ENODATA))"
proof -
  let ?np = "put_prop np name (strings_bytes ss)"
  have "of_property_write_strings np name ss = Inr ?np"
    using strings_bytes_nonempty [OF assms(2)]
    by (simp add: of_property_write_strings_def set_property_put strings_bytes_def)
  moreover have sp: "string_prop ?np name = Inr (strings_bytes ss)"
    using assms strnlen_strings [OF assms(2)] by (simp add: string_prop_put not_le)
  moreover have "of_property_match_string ?np name s = match_loop (strings_bytes ss) 0 s" for s
    using assms(1) by (simp add: of_property_match_string_def find_put_same)
  ultimately show ?thesis
    using assms(3)
    by (simp add: of_property_count_strings_def of_property_read_string_index_def sp count_loop_strings
        string_index_loop_strings match_loop_strings)
qed

theorem of_property_strings_roundtrip_witness:
  "\<exists>np'. of_property_write_strings (Node ''n'' ''/n'' 0 [] []) ''names'' [''a'', ''bc''] = Inr np'
    \<and> of_property_read_string_index np' ''names'' 1 = Inr ''bc''"
  using of_property_strings_roundtrip [of "Node ''n'' ''/n'' 0 [] []" "[''a'', ''bc'']" "''names''"]
  by (force simp: props_ok_def nul_free_def dest: spec [of _ 1])

text \<open>
  The typed property writers and readers agree, and a write touches nothing else: after
  \<open>of_property_write_u32_array\<close>, \<open>of_property_read_u32_array\<close> of the same size returns the same words, every other property of
  the node is found unchanged, and the node keeps its children and the distinctness of its property names.
  The same holds of the byte arrays, of the 16 bit arrays and of strings.
\<close>

theorem of_property_write_read:
  assumes "props_ok np"
  shows "(\<exists>np'. of_property_write_u32_array np name ws = Inr np' \<and> props_ok np'
      \<and> of_property_read_u32_array np' name (length ws) = Inr ws
      \<and> (\<forall>other. other \<noteq> name \<longrightarrow> of_find_property np' other = of_find_property np other)
      \<and> dn_children np' = dn_children np)
    \<and> (\<exists>np'. of_property_write_u16_array np name hs = Inr np' \<and> props_ok np'
      \<and> of_property_read_u16_array np' name (length hs) = Inr hs
      \<and> (\<forall>other. other \<noteq> name \<longrightarrow> of_find_property np' other = of_find_property np other)
      \<and> dn_children np' = dn_children np)
    \<and> (\<exists>np'. of_property_write_u8_array np name bs = Inr np' \<and> props_ok np'
      \<and> of_property_read_u8_array np' name (length bs) = Inr bs
      \<and> (\<forall>other. other \<noteq> name \<longrightarrow> of_find_property np' other = of_find_property np other)
      \<and> dn_children np' = dn_children np)
    \<and> (nul_free s \<longrightarrow> (\<exists>np'. of_property_write_string np name s = Inr np' \<and> props_ok np'
      \<and> of_property_read_string np' name = Inr s
      \<and> (\<forall>other. other \<noteq> name \<longrightarrow> of_find_property np' other = of_find_property np other)
      \<and> dn_children np' = dn_children np))"
  using prop_u32s.roundtrip [OF assms refl, of name ws] prop_u16s.roundtrip [OF assms refl, of name hs]
    prop_u8s.roundtrip [OF assms refl, of name bs] prop_string.roundtrip [OF assms, of s name]
  by blast

theorem of_property_write_read_witness:
  "\<exists>np'. of_property_write_u32_array (Node ''n'' ''/n'' 0 [\<lparr>pp_name = ''reg'', pp_value = Some [1]\<rparr>] [])
      ''reg'' [4, 0xffffffff] = Inr np'
    \<and> of_property_read_u32_array np' ''reg'' 2 = Inr [4, 0xffffffff]"
proof -
  have "props_ok (Node ''n'' ''/n'' 0 [\<lparr>pp_name = ''reg'', pp_value = Some [1]\<rparr>] [])"
    by (simp add: props_ok_def)
  from of_property_write_read [OF this, of "''reg''" "[4, 0xffffffff]" "[]" "[]" "[]"]
  show ?thesis by (auto simp: numeral_2_eq_2)
qed

end
