(* ===== verification/State_Vars.thy ===== *)
theory State_Vars
  imports Device_Tree
begin

text \<open>
  \<open>src/barebox-state/state_variables.c\<close> and the variable part of \<open>state.h\<close>: the five variable types with their
  create, import and export operations, and the list of variables of a state, sorted by position.  A variable's
  \<open>raw\<close> pointer designates \<open>size\<close> bytes inside its value; \<open>sv_raw\<close> and \<open>sv_set_raw\<close> read and write them.  The
  \<open>dev_add_param\<close> calls of the create functions are the stubs of \<open>dt/common.h\<close> and cannot fail.
\<close>

section \<open>Data\<close>

datatype state_variable_type =
    STATE_VARIABLE_TYPE_UINT8 | STATE_VARIABLE_TYPE_UINT32 | STATE_VARIABLE_TYPE_ENUM32
  | STATE_VARIABLE_TYPE_MAC | STATE_VARIABLE_TYPE_STRING

text \<open>\<open>struct state_uint32\<close>, \<open>state_enum32\<close>, \<open>state_mac\<close> and \<open>state_string\<close> around the common part.\<close>

datatype var_data =
    Var_u32 (vd_value: u32) (vd_default: u32)
  | Var_enum32 (vd_value: u32) (vd_default: u32) (vd_names: "string list")
  | Var_mac (vd_mac: bytes) (vd_mac_default: bytes)
  | Var_string (vd_string: "string option") (vd_string_default: "string option") (vd_raw: bytes)

record state_variable =
  sv_type :: state_variable_type
  sv_name :: string
  sv_start :: u32
  sv_size :: u32
  sv_data :: var_data

datatype state_convert =
  STATE_CONVERT_FROM_NODE | STATE_CONVERT_FROM_NODE_CREATE | STATE_CONVERT_TO_NODE | STATE_CONVERT_FIXUP

text \<open>The bytes behind \<open>sv->raw\<close>, on a little endian host.\<close>

definition sv_raw :: "state_variable \<Rightarrow> bytes" where
  "sv_raw sv = (case sv_data sv of
     Var_u32 v _ \<Rightarrow> take (unat (sv_size sv)) (put_le32 v)
   | Var_enum32 v _ _ \<Rightarrow> put_le32 v
   | Var_mac m _ \<Rightarrow> m
   | Var_string _ _ r \<Rightarrow> r)"

definition sv_set_raw :: "state_variable \<Rightarrow> bytes \<Rightarrow> state_variable" where
  "sv_set_raw sv bs = sv\<lparr>sv_data := (case sv_data sv of
     Var_u32 v d \<Rightarrow> Var_u32 (get_le32 (mem_put (put_le32 v) 0 bs)) d
   | Var_enum32 v d ns \<Rightarrow> Var_enum32 (get_le32 (mem_put (put_le32 v) 0 bs)) d ns
   | Var_mac m d \<Rightarrow> Var_mac (mem_put m 0 bs) d
   | Var_string s d r \<Rightarrow> Var_string s d (mem_put r 0 bs))\<rparr>"

section \<open>The list of variables\<close>

definition state_var_compare :: "state_variable \<Rightarrow> state_variable \<Rightarrow> int" where
  "state_var_compare va vb = (if sv_start va < sv_start vb then - 1 else 1)"

text \<open>\<open>list_add_sort\<close>: insert before the first element that does not compare below the new one.\<close>

fun list_add_sort :: "('a \<Rightarrow> 'a \<Rightarrow> int) \<Rightarrow> 'a \<Rightarrow> 'a list \<Rightarrow> 'a list" where
  "list_add_sort compare new [] = [new]"
| "list_add_sort compare new (pos # rest) =
     (if compare pos new < 0 then pos # list_add_sort compare new rest else new # pos # rest)"

definition state_add_var :: "state_variable list \<Rightarrow> state_variable \<Rightarrow> state_variable list" where
  "state_add_var variables var = list_add_sort state_var_compare var variables"

definition state_find_var :: "state_variable list \<Rightarrow> string \<Rightarrow> state_variable res" where
  "state_find_var variables name = (case find (\<lambda>sv. sv_name sv = name) variables of
     None \<Rightarrow> Inl ENOENT | Some sv \<Rightarrow> Inr sv)"

text \<open>
  \<open>state_set_var\<close> of the model: the variable a pointer designates (the first of its name) is replaced.
\<close>

fun update_var :: "string \<Rightarrow> state_variable \<Rightarrow> state_variable list \<Rightarrow> state_variable list" where
  "update_var name sv' [] = []"
| "update_var name sv' (sv # rest) =
     (if sv_name sv = name then sv' # rest else sv # update_var name sv' rest)"

section \<open>Strings\<close>

definition state_string_copy_to_raw :: "state_variable \<Rightarrow> string \<Rightarrow> state_variable res" where
  "state_string_copy_to_raw sv src = (case sv_data sv of
     Var_string v d r \<Rightarrow>
       (let len = length src in
        if unat (sv_size sv) < len then Inl EILSEQ
        else Inr (sv\<lparr>sv_data := Var_string v d (str_bytes src @ replicate (unat (sv_size sv) - len) 0)\<rparr>))
   | _ \<Rightarrow> Inl FAULT)"

section \<open>Creation\<close>

definition new_var :: "state_variable_type \<Rightarrow> u32 \<Rightarrow> var_data \<Rightarrow> state_variable" where
  "new_var ty n d = \<lparr>sv_type = ty, sv_name = [], sv_start = 0, sv_size = n, sv_data = d\<rparr>"

definition state_uint8_create :: "device_node \<Rightarrow> state_variable res" where
  "state_uint8_create node = Inr (new_var STATE_VARIABLE_TYPE_UINT8 1 (Var_u32 0 0))"

definition state_uint32_create :: "device_node \<Rightarrow> state_variable res" where
  "state_uint32_create node = Inr (new_var STATE_VARIABLE_TYPE_UINT32 4 (Var_u32 0 0))"

text \<open>The loop that duplicates the names; \<open>i\<close> is the next index.\<close>

fun enum_names :: "device_node \<Rightarrow> nat \<Rightarrow> nat \<Rightarrow> string list res" where
  "enum_names node i 0 = Inr []"
| "enum_names node i (Suc n) =
     bindE (of_property_read_string_index node ''names'' (int i)) (\<lambda>name.
       bindE (enum_names node (Suc i) n) (\<lambda>names. Inr (name # names)))"

definition state_enum32_create :: "device_node \<Rightarrow> state_variable res" where
  "state_enum32_create node = (case of_property_count_strings node ''names'' of
     Inl FAULT \<Rightarrow> Inl FAULT
   | Inl _ \<Rightarrow> Inl EINVAL
   | Inr num_names \<Rightarrow> bindE (enum_names node 0 num_names) (\<lambda>names.
       Inr (new_var STATE_VARIABLE_TYPE_ENUM32 4 (Var_enum32 0 0 names))))"

definition state_mac_create :: "device_node \<Rightarrow> state_variable res" where
  "state_mac_create node =
     Inr (new_var STATE_VARIABLE_TYPE_MAC 6 (Var_mac (replicate 6 0) (replicate 6 0)))"

definition state_string_create :: "device_node \<Rightarrow> state_variable res" where
  "state_string_create node = bindE (of_property_read_u32_array node ''reg'' 2) (\<lambda>start_size.
     if 4096 < start_size ! 1 then Inl EILSEQ
     else Inr (new_var STATE_VARIABLE_TYPE_STRING (start_size ! 1)
       (Var_string None None (replicate (unat (start_size ! 1)) 0))))"

section \<open>Import\<close>

text \<open>
  An import changes the variable even when it fails half way, so the result is the outcome together with
  the variable afterwards.
\<close>

definition or_else :: "'e + 'a \<Rightarrow> 'a \<Rightarrow> 'a" where
  "or_else r d = (case r of Inl _ \<Rightarrow> d | Inr v \<Rightarrow> v)"

definition state_uint32_import :: "state_variable \<Rightarrow> device_node \<Rightarrow> unit res \<times> state_variable" where
  "state_uint32_import sv node = (case sv_data sv of
     Var_u32 v d \<Rightarrow>
       (let d' = or_else (of_property_read_u32 node ''default'') d;
            v' = or_else (of_property_read_u32 node ''value'') d'
        in (Inr (), sv\<lparr>sv_data := Var_u32 v' d'\<rparr>))
   | _ \<Rightarrow> (Inl FAULT, sv))"

definition state_enum32_import :: "state_variable \<Rightarrow> device_node \<Rightarrow> unit res \<times> state_variable" where
  "state_enum32_import sv node = (case sv_data sv of
     Var_enum32 v d ns \<Rightarrow>
       (let pv = of_get_property node ''value''; pd = of_get_property node ''default'' in
        if (case pv of None \<Rightarrow> False | Some b \<Rightarrow> length b \<noteq> 4) then (Inl EINVAL, sv)
        else if (case pd of None \<Rightarrow> False | Some b \<Rightarrow> length b \<noteq> 4) then (Inl EINVAL, sv)
        else
          let d' = (case pd of None \<Rightarrow> d | Some b \<Rightarrow> get_unaligned_be32 b);
              v' = (case pv of None \<Rightarrow> d' | Some b \<Rightarrow> get_unaligned_be32 b)
          in (Inr (), sv\<lparr>sv_data := Var_enum32 v' d' ns\<rparr>))
   | _ \<Rightarrow> (Inl FAULT, sv))"

definition state_mac_import :: "state_variable \<Rightarrow> device_node \<Rightarrow> unit res \<times> state_variable" where
  "state_mac_import sv node = (case sv_data sv of
     Var_mac m d \<Rightarrow>
       (let d' = or_else (of_property_read_u8_array node ''default'' 6) d;
            m' = or_else (of_property_read_u8_array node ''value'' 6) d'
        in (Inr (), sv\<lparr>sv_data := Var_mac m' d'\<rparr>))
   | _ \<Rightarrow> (Inl FAULT, sv))"

definition state_string_import :: "state_variable \<Rightarrow> device_node \<Rightarrow> unit res \<times> state_variable" where
  "state_string_import sv node = (case sv_data sv of
     Var_string s d r \<Rightarrow>
       (let d' = (case of_property_read_string node ''default'' of Inl _ \<Rightarrow> d | Inr x \<Rightarrow> Some x);
            sv1 = sv\<lparr>sv_data := Var_string s d' r\<rparr>
        in if (case d' of None \<Rightarrow> False | Some x \<Rightarrow> unat (sv_size sv) < length x) then (Inl EILSEQ, sv1)
           else
             let value = (case of_property_read_string node ''value'' of Inl _ \<Rightarrow> d' | Inr x \<Rightarrow> Some x)
             in (case value of
                   None \<Rightarrow> (Inr (), sv1)
                 | Some x \<Rightarrow> (case state_string_copy_to_raw sv1 x of
                       Inl e \<Rightarrow> (Inl e, sv1) | Inr sv2 \<Rightarrow> (Inr (), sv2))))
   | _ \<Rightarrow> (Inl FAULT, sv))"

section \<open>Export\<close>

definition state_uint32_export :: "state_variable \<Rightarrow> device_node \<Rightarrow> state_convert \<Rightarrow> device_node res" where
  "state_uint32_export sv node conv = (case sv_data sv of
     Var_u32 v d \<Rightarrow>
       bindE (if d \<noteq> 0 then of_property_write_u32 node ''default'' d else Inr node) (\<lambda>node1.
         if conv = STATE_CONVERT_FIXUP then Inr node1 else of_property_write_u32 node1 ''value'' v)
   | _ \<Rightarrow> Inl FAULT)"

definition state_enum32_export :: "state_variable \<Rightarrow> device_node \<Rightarrow> state_convert \<Rightarrow> device_node res" where
  "state_enum32_export sv node conv = (case sv_data sv of
     Var_enum32 v d ns \<Rightarrow>
       bindE (if d \<noteq> 0 then of_property_write_u32 node ''default'' d else Inr node) (\<lambda>node1.
       bindE (of_set_property node1 ''names'' (strings_bytes ns) True) (\<lambda>node2.
         if conv = STATE_CONVERT_FIXUP then Inr node2 else of_property_write_u32 node2 ''value'' v))
   | _ \<Rightarrow> Inl FAULT)"

definition is_zero_ether_addr :: "bytes \<Rightarrow> bool" where
  "is_zero_ether_addr addr \<longleftrightarrow>
     (addr ! 0 OR addr ! 1 OR addr ! 2 OR addr ! 3 OR addr ! 4 OR addr ! 5) = 0"

definition state_mac_export :: "state_variable \<Rightarrow> device_node \<Rightarrow> state_convert \<Rightarrow> device_node res" where
  "state_mac_export sv node conv = (case sv_data sv of
     Var_mac m d \<Rightarrow>
       bindE (if \<not> is_zero_ether_addr d then of_property_write_u8_array node ''default'' d else Inr node)
        (\<lambda>node1. if conv = STATE_CONVERT_FIXUP then Inr node1
          else of_property_write_u8_array node1 ''value'' m)
   | _ \<Rightarrow> Inl FAULT)"

definition state_string_export :: "state_variable \<Rightarrow> device_node \<Rightarrow> state_convert \<Rightarrow> device_node res" where
  "state_string_export sv node conv = (case sv_data sv of
     Var_string s d r \<Rightarrow>
       bindE (case d of None \<Rightarrow> Inr node | Some x \<Rightarrow> of_property_write_string node ''default'' x) (\<lambda>node1.
         if conv = STATE_CONVERT_FIXUP then Inr node1
         else (case s of None \<Rightarrow> Inr node1 | Some x \<Rightarrow> of_property_write_string node1 ''value'' x))
   | _ \<Rightarrow> Inl FAULT)"

section \<open>The table of types\<close>

record variable_type =
  vt_name :: string
  vt_type :: state_variable_type

definition types :: "variable_type list" where
  "types = [
     \<lparr>vt_name = ''uint8'', vt_type = STATE_VARIABLE_TYPE_UINT8\<rparr>,
     \<lparr>vt_name = ''uint32'', vt_type = STATE_VARIABLE_TYPE_UINT32\<rparr>,
     \<lparr>vt_name = ''enum32'', vt_type = STATE_VARIABLE_TYPE_ENUM32\<rparr>,
     \<lparr>vt_name = ''mac'', vt_type = STATE_VARIABLE_TYPE_MAC\<rparr>,
     \<lparr>vt_name = ''string'', vt_type = STATE_VARIABLE_TYPE_STRING\<rparr>]"

definition state_find_type_by_name :: "string \<Rightarrow> variable_type option" where
  "state_find_type_by_name name = find (\<lambda>t. name = vt_name t) types"

text \<open>The calls through the function pointers of the table.\<close>

definition vt_create :: "variable_type \<Rightarrow> device_node \<Rightarrow> state_variable res" where
  "vt_create vt = (case vt_type vt of
     STATE_VARIABLE_TYPE_UINT8 \<Rightarrow> state_uint8_create
   | STATE_VARIABLE_TYPE_UINT32 \<Rightarrow> state_uint32_create
   | STATE_VARIABLE_TYPE_ENUM32 \<Rightarrow> state_enum32_create
   | STATE_VARIABLE_TYPE_MAC \<Rightarrow> state_mac_create
   | STATE_VARIABLE_TYPE_STRING \<Rightarrow> state_string_create)"

definition vt_import :: "variable_type \<Rightarrow> state_variable \<Rightarrow> device_node \<Rightarrow> unit res \<times> state_variable" where
  "vt_import vt = (case vt_type vt of
     STATE_VARIABLE_TYPE_UINT8 \<Rightarrow> state_uint32_import
   | STATE_VARIABLE_TYPE_UINT32 \<Rightarrow> state_uint32_import
   | STATE_VARIABLE_TYPE_ENUM32 \<Rightarrow> state_enum32_import
   | STATE_VARIABLE_TYPE_MAC \<Rightarrow> state_mac_import
   | STATE_VARIABLE_TYPE_STRING \<Rightarrow> state_string_import)"

definition vt_export :: "variable_type \<Rightarrow> state_variable \<Rightarrow> device_node \<Rightarrow> state_convert \<Rightarrow> device_node res" where
  "vt_export vt = (case vt_type vt of
     STATE_VARIABLE_TYPE_UINT8 \<Rightarrow> state_uint32_export
   | STATE_VARIABLE_TYPE_UINT32 \<Rightarrow> state_uint32_export
   | STATE_VARIABLE_TYPE_ENUM32 \<Rightarrow> state_enum32_export
   | STATE_VARIABLE_TYPE_MAC \<Rightarrow> state_mac_export
   | STATE_VARIABLE_TYPE_STRING \<Rightarrow> state_string_export)"

section \<open>Well-formed variables\<close>

definition wf_var :: "state_variable \<Rightarrow> bool" where
  "wf_var sv = (case (sv_type sv, sv_data sv) of
     (STATE_VARIABLE_TYPE_UINT8, Var_u32 _ _) \<Rightarrow> sv_size sv = 1
   | (STATE_VARIABLE_TYPE_UINT32, Var_u32 _ _) \<Rightarrow> sv_size sv = 4
   | (STATE_VARIABLE_TYPE_ENUM32, Var_enum32 _ _ _) \<Rightarrow> sv_size sv = 4
   | (STATE_VARIABLE_TYPE_MAC, Var_mac m d) \<Rightarrow> sv_size sv = 6 \<and> length m = 6 \<and> length d = 6
   | (STATE_VARIABLE_TYPE_STRING, Var_string _ _ r) \<Rightarrow> sv_size sv \<le> 4096 \<and> length r = unat (sv_size sv)
   | _ \<Rightarrow> False)"

lemma wf_var_cases:
  assumes "wf_var sv"
  obtains (u8) v d where "sv_type sv = STATE_VARIABLE_TYPE_UINT8" "sv_data sv = Var_u32 v d" "sv_size sv = 1"
  | (u32) v d where "sv_type sv = STATE_VARIABLE_TYPE_UINT32" "sv_data sv = Var_u32 v d" "sv_size sv = 4"
  | (enum) v d ns where "sv_type sv = STATE_VARIABLE_TYPE_ENUM32" "sv_data sv = Var_enum32 v d ns"
      "sv_size sv = 4"
  | (mac) m d where "sv_type sv = STATE_VARIABLE_TYPE_MAC" "sv_data sv = Var_mac m d" "sv_size sv = 6"
      "length m = 6" "length d = 6"
  | (str) s d r where "sv_type sv = STATE_VARIABLE_TYPE_STRING" "sv_data sv = Var_string s d r"
      "sv_size sv \<le> 4096" "length r = unat (sv_size sv)"
  using assms by (auto simp: wf_var_def split: state_variable_type.splits var_data.splits)

lemma length_sv_raw: "wf_var sv \<Longrightarrow> length (sv_raw sv) = unat (sv_size sv)"
  by (erule wf_var_cases) (simp_all add: sv_raw_def)

text \<open>
  The size of a variable is what distinguishes the views: raw bytes written through the pointer are the
  raw bytes read through it.
\<close>

lemma set_raw_kind [simp]:
  "sv_type (sv_set_raw sv bs) = sv_type sv" "sv_name (sv_set_raw sv bs) = sv_name sv"
  "sv_start (sv_set_raw sv bs) = sv_start sv" "sv_size (sv_set_raw sv bs) = sv_size sv"
  by (simp_all add: sv_set_raw_def)

lemma wf_set_raw: "wf_var sv \<Longrightarrow> wf_var (sv_set_raw sv bs)"
  by (erule wf_var_cases) (simp_all add: wf_var_def sv_set_raw_def)

lemma get_put_le32_exact [simp]: "get_le32 (put_le32 v) = v"
  using get_put_le32 [of v "[]"] by simp

lemma raw_set_raw:
  assumes "wf_var sv" and "length bs = unat (sv_size sv)"
  shows "sv_raw (sv_set_raw sv bs) = bs"
  using assms(1)
  by (cases rule: wf_var_cases)
    (simp_all add: sv_raw_def sv_set_raw_def assms(2) mem_put_fits put_get_le32)

lemma set_raw_same: "wf_var sv \<Longrightarrow> sv_set_raw sv (sv_raw sv) = sv"
  by (erule wf_var_cases) (simp_all add: sv_set_raw_def sv_raw_def mem_put_def)

lemma wf_create:
  assumes "vt_create vt node = Inr sv"
  shows "wf_var sv \<and> sv_type sv = vt_type vt"
  using assms
  by (auto simp: vt_create_def wf_var_def new_var_def state_uint8_create_def state_uint32_create_def
      state_enum32_create_def state_mac_create_def state_string_create_def not_less
      split: state_variable_type.splits sum.splits errno.splits if_splits)

lemma read_u8_length: "of_property_read_u8_array np name n = Inr vs \<Longrightarrow> length vs = n"
  by (auto simp: of_property_read_u8_array_def of_find_property_value_of_size_def pp_length_def
      split: option.splits if_splits)

lemma copy_to_raw_wf:
  "wf_var sv \<Longrightarrow> state_string_copy_to_raw sv s = Inr sv' \<Longrightarrow>
     wf_var sv' \<and> sv_type sv' = sv_type sv \<and> sv_name sv' = sv_name sv \<and> sv_start sv' = sv_start sv
     \<and> sv_size sv' = sv_size sv"
  by (erule wf_var_cases) (auto simp: state_string_copy_to_raw_def wf_var_def Let_def split: if_splits)

lemma wf_import:
  assumes "wf_var sv" and "sv_type sv = vt_type vt"
  shows "wf_var (snd (vt_import vt sv node))"
  using assms(1)
proof (cases rule: wf_var_cases)
  case (mac m d)
  then show ?thesis
    using assms(2) read_u8_length
    by (auto simp: vt_import_def state_mac_import_def wf_var_def Let_def or_else_def split: sum.splits)
next
  case (str s d r)
  have w: "wf_var (sv\<lparr>sv_data := Var_string s d' r\<rparr>)" for d'
    using str by (simp add: wf_var_def)
  show ?thesis
    using assms(2) str w
    by (auto simp: vt_import_def state_string_import_def Let_def dest: copy_to_raw_wf
        split: sum.splits option.splits)
qed (use assms(2) in \<open>auto simp: vt_import_def state_uint32_import_def state_enum32_import_def wf_var_def Let_def\<close>)

section \<open>The sorted list\<close>

lemma add_var_takeWhile:
  "state_add_var vars v =
     takeWhile (\<lambda>p. sv_start p < sv_start v) vars @ v # dropWhile (\<lambda>p. sv_start p < sv_start v) vars"
  by (induction vars) (auto simp: state_add_var_def state_var_compare_def)

lemma set_add_var: "set (state_add_var vars v) = insert v (set vars)"
  by (induction vars) (auto simp: state_add_var_def state_var_compare_def)

lemma sorted_add_var:
  "sorted (map sv_start vars) \<Longrightarrow> sorted (map sv_start (state_add_var vars v))"
proof (induction vars)
  case (Cons x xs)
  have "set (state_add_var xs v) = insert v (set xs)" by (rule set_add_var)
  with Cons show ?case by (auto simp: state_add_var_def state_var_compare_def not_less)
qed (simp add: state_add_var_def)

text \<open>
  The overlap check of \<open>state_from_node\<close>: every variable starts behind the last byte of its predecessor, in the
  32 bit arithmetic of the code.
\<close>

fun overlap_ok :: "state_variable list \<Rightarrow> bool" where
  "overlap_ok (last_sv # sv # rest) \<longleftrightarrow>
     sv_start last_sv + sv_size last_sv - 1 < sv_start sv \<and> overlap_ok (sv # rest)"
| "overlap_ok _ \<longleftrightarrow> True"

definition var_end :: "state_variable \<Rightarrow> nat" where
  "var_end sv = unat (sv_start sv) + unat (sv_size sv)"

text \<open>The layout the check means: consecutive, disjoint ranges.\<close>

fun laid_out :: "state_variable list \<Rightarrow> bool" where
  "laid_out (a # b # rest) \<longleftrightarrow> var_end a \<le> unat (sv_start b) \<and> laid_out (b # rest)"
| "laid_out _ \<longleftrightarrow> True"

lemma overlap_step:
  assumes "a + n - 1 < b" and "unat a + unat n \<le> 2 ^ 32"
  shows "unat a + unat n \<le> unat (b :: u32)"
proof (cases "unat a + unat n = 0")
  case False
  have "unat (a + n - 1) = unat a + unat n - 1"
  proof (cases "unat a + unat n = 2 ^ 32")
    case True
    then have "unat (a + n) = 0" by (simp add: unat_word_ariths)
    then have "a + n = 0" by (simp only: unat_eq_0)
    then have "a + n - 1 = - 1" by simp
    with True show ?thesis by (simp add: unsigned_minus_1_eq_mask mask_eq_exp_minus_1)
  next
    case lt: False
    then have s: "unat (a + n) = unat a + unat n"
      using assms(2) by (intro unat_add_lem [THEN iffD1]) simp
    with False have "a + n \<noteq> 0" by (metis unat_0)
    then show ?thesis using s by (simp add: unat_minus_one)
  qed
  with assms(1) show ?thesis by (simp add: word_less_nat_alt)
qed simp

lemma overlap_laid_out:
  "overlap_ok vars \<Longrightarrow> \<forall>v \<in> set vars. var_end v \<le> 2 ^ 32 \<Longrightarrow> laid_out vars"
  by (induction vars rule: overlap_ok.induct) (auto simp: var_end_def intro: overlap_step)

lemma laid_out_Cons: "laid_out (a # vs) \<Longrightarrow> v \<in> set vs \<Longrightarrow> var_end a \<le> unat (sv_start v)"
proof (induction vs arbitrary: a)
  case (Cons b vs)
  then have ab: "var_end a \<le> unat (sv_start b)" by simp
  show ?case
  proof (cases "v = b")
    case False
    with Cons have "var_end b \<le> unat (sv_start v)" by auto
    with ab show ?thesis by (simp add: var_end_def)
  qed (use ab in simp)
qed simp

lemma laid_out_tl: "laid_out (a # vs) \<Longrightarrow> laid_out vs"
  by (cases vs) auto

lemma laid_out_disjoint:
  "laid_out vs \<Longrightarrow> i < j \<Longrightarrow> j < length vs \<Longrightarrow> var_end (vs ! i) \<le> unat (sv_start (vs ! j))"
proof (induction vs arbitrary: i j)
  case (Cons a vs)
  then obtain k where k: "j = Suc k" by (cases j) auto
  show ?case
  proof (cases i)
    case 0
    with Cons.prems k laid_out_Cons [OF Cons.prems(1), of "vs ! k"] show ?thesis by simp
  next
    case (Suc l)
    with Cons k laid_out_tl show ?thesis by auto
  qed
qed simp

lemma laid_out_last: "laid_out vs \<Longrightarrow> v \<in> set vs \<Longrightarrow> var_end v \<le> var_end (last vs)"
proof (induction vs)
  case (Cons a vs)
  show ?case
  proof (cases "vs = []")
    case False
    then have "last vs \<in> set vs" by simp
    with Cons.prems(1) have "var_end a \<le> unat (sv_start (last vs))" by (rule laid_out_Cons)
    then have "var_end a \<le> var_end (last vs)" by (simp add: var_end_def)
    with Cons False laid_out_tl show ?thesis by auto
  qed (use Cons in auto)
qed simp

text \<open>
  C25: A list of variables that passes the overlap check of \<open>state_from_node\<close> is laid out without overlap, and the
  last variable of the list ends last: for variables within the 32 bit address space the ranges of any two
  of them are disjoint in list order.
\<close>

theorem overlap_check_sound:
  assumes "overlap_ok vars" and "\<forall>v \<in> set vars. var_end v \<le> 2 ^ 32" and "i < j" and "j < length vars"
  shows "var_end (vars ! i) \<le> unat (sv_start (vars ! j)) \<and> var_end (vars ! i) \<le> var_end (last vars)"
  using laid_out_disjoint [OF overlap_laid_out [OF assms(1,2)] assms(3,4)]
    laid_out_last [OF overlap_laid_out [OF assms(1,2)], of "vars ! i"] assms(3,4)
  by simp

theorem overlap_check_sound_witness:
  "let vars = [new_var STATE_VARIABLE_TYPE_UINT32 4 (Var_u32 0 0),
      (new_var STATE_VARIABLE_TYPE_UINT8 1 (Var_u32 0 0))\<lparr>sv_start := 4\<rparr>]
   in var_end (vars ! 0) \<le> unat (sv_start (vars ! 1)) \<and> var_end (vars ! 0) \<le> var_end (last vars)"
  unfolding Let_def
  by (rule overlap_check_sound) (simp_all add: new_var_def var_end_def)

text \<open>
  \<open>state_add_var\<close> inserts in order: the list stays sorted by start offset and gains exactly the new variable, placed before
  the first variable that does not start below it.
\<close>

theorem state_add_var_sorted:
  assumes "sorted (map sv_start vars)"
  shows "sorted (map sv_start (state_add_var vars v))
    \<and> set (state_add_var vars v) = insert v (set vars)
    \<and> length (state_add_var vars v) = Suc (length vars)"
proof -
  have "length (state_add_var vars v) = Suc (length (takeWhile (\<lambda>p. sv_start p < sv_start v) vars
      @ dropWhile (\<lambda>p. sv_start p < sv_start v) vars))"
    by (simp add: add_var_takeWhile del: takeWhile_dropWhile_id)
  then show ?thesis using assms by (simp add: sorted_add_var set_add_var)
qed

theorem state_add_var_sorted_witness:
  "sorted (map sv_start (state_add_var [new_var STATE_VARIABLE_TYPE_UINT32 4 (Var_u32 0 0)]
     ((new_var STATE_VARIABLE_TYPE_UINT8 1 (Var_u32 0 0))\<lparr>sv_start := 4\<rparr>)))"
  using state_add_var_sorted [of "[new_var STATE_VARIABLE_TYPE_UINT32 4 (Var_u32 0 0)]"] by simp

section \<open>Export and import\<close>

lemma read_u32_none: "of_find_property np name = None \<Longrightarrow> of_property_read_u32 np name = Inl EINVAL"
  by (simp add: of_property_read_u32_def of_property_read_u32_array_def of_find_property_value_of_size_def)

lemma read_u8s_none: "of_find_property np name = None \<Longrightarrow> of_property_read_u8_array np name n = Inl EINVAL"
  by (simp add: of_property_read_u8_array_def of_find_property_value_of_size_def)

lemma get_put_other: "name' \<noteq> name \<Longrightarrow> of_get_property (put_prop np name bs) name' = of_get_property np name'"
  by (simp add: of_get_property_def find_put_other)

lemmas put_simps = write_put props_ok_put get_put_same get_put_other find_put_other find_put_same
  prop_u32.rd_put prop_u32.rd_other prop_u8s.rd_put prop_u8s.rd_other read_u32_none read_u8s_none
  prop_string.rd_put prop_string.rd_other

text \<open>
  A variable survives the way through a device tree node: exporting a well-formed integer, enum or MAC
  variable into a fresh node and importing that node, into the same variable with any other contents,
  gives back the variable with its value and its default.
\<close>

theorem var_export_import:
  assumes "wf_var sv" and "sv_type sv = vt_type vt" and "vt_type vt \<noteq> STATE_VARIABLE_TYPE_STRING"
    and "props_ok node" and "of_find_property node ''default'' = None"
  shows "\<exists>node'. vt_export vt sv node STATE_CONVERT_TO_NODE = Inr node'
    \<and> vt_import vt (sv_set_raw sv bs) node' = (Inr (), sv)"
  using assms(1)
proof (cases rule: wf_var_cases)
  case (u8 v d)
  with assms show ?thesis
    by (cases "d = 0") (simp_all add: vt_export_def vt_import_def state_uint32_export_def
        state_uint32_import_def sv_set_raw_def put_simps or_else_def)
next
  case (u32 v d)
  with assms show ?thesis
    by (cases "d = 0") (simp_all add: vt_export_def vt_import_def state_uint32_export_def
        state_uint32_import_def sv_set_raw_def put_simps or_else_def)
next
  case (enum v d ns)
  from assms(5) have g: "of_get_property node ''default'' = None" by (simp add: of_get_property_def)
  from enum assms g show ?thesis
    by (cases "d = 0") (simp_all add: vt_export_def vt_import_def state_enum32_export_def
        state_enum32_import_def sv_set_raw_def put_simps)
next
  case (mac m d)
  with assms show ?thesis
    by (cases "is_zero_ether_addr d") (simp_all add: vt_export_def vt_import_def state_mac_export_def
        state_mac_import_def sv_set_raw_def put_simps or_else_def)
next
  case (str s d r)
  with assms show ?thesis by simp
qed

theorem var_export_import_witness:
  "\<exists>node'. vt_export \<lparr>vt_name = ''uint32'', vt_type = STATE_VARIABLE_TYPE_UINT32\<rparr>
      (new_var STATE_VARIABLE_TYPE_UINT32 4 (Var_u32 7 3)) (Node ''v'' ''/v'' 0 [] []) STATE_CONVERT_TO_NODE
        = Inr node'
    \<and> vt_import \<lparr>vt_name = ''uint32'', vt_type = STATE_VARIABLE_TYPE_UINT32\<rparr>
      (sv_set_raw (new_var STATE_VARIABLE_TYPE_UINT32 4 (Var_u32 7 3)) [1, 2, 3, 4]) node'
        = (Inr (), new_var STATE_VARIABLE_TYPE_UINT32 4 (Var_u32 7 3))"
  by (rule var_export_import)
    (simp_all add: wf_var_def new_var_def props_ok_def of_find_property_def)

text \<open>
  A string variable is not exported by its stored contents: \<open>state_string_export\<close> writes the \<open>value\<close> pointer, which is set only
  by the parameter callbacks and these are never installed in this program, so for a freshly created and
  then modified string the node is left as it was, whatever the raw contents are.
\<close>

theorem string_export_drops_contents:
  assumes "state_string_create node0 = Inr sv0" and "state_string_copy_to_raw sv0 s = Inr sv"
  shows "state_string_export sv node STATE_CONVERT_TO_NODE = Inr node"
  using assms
  by (auto simp: state_string_create_def new_var_def state_string_copy_to_raw_def state_string_export_def
      Let_def split: if_splits)

definition reg_node :: device_node where
  "reg_node = put_prop (Node ''s'' ''/s'' 0 [] []) ''reg'' (concat (map put_unaligned_be32 [0, 8]))"

theorem string_export_drops_contents_witness:
  "state_string_export (new_var STATE_VARIABLE_TYPE_STRING 8 (Var_string None None (str_bytes ''hi'' @ replicate 6 0)))
      (Node ''s'' ''/s'' 0 [] []) STATE_CONVERT_TO_NODE = Inr (Node ''s'' ''/s'' 0 [] [])"
proof (rule string_export_drops_contents [where s = "''hi''"])
  have r: "of_property_read_u32_array reg_node ''reg'' 2 = Inr [0, 8]"
    using prop_u32s.rd_put [of "Node ''s'' ''/s'' 0 [] []" "[0, 8]" 2 "''reg''"]
    by (simp add: reg_node_def props_ok_def)
  show "state_string_create reg_node = Inr (new_var STATE_VARIABLE_TYPE_STRING 8 (Var_string None None (replicate 8 0)))"
    by (simp add: state_string_create_def r new_var_def)
qed (simp add: state_string_copy_to_raw_def new_var_def Let_def)

end
