(* ===== verification/Format_Raw.thy ===== *)
theory Format_Raw
  imports Crc32 Digest State_Vars
begin

text \<open>
  \<open>src/barebox-state/backend_format_raw.c\<close>: the raw format.  A packed state is a 16 byte header (magic,
  reserved, data length, CRC of the data, CRC of the header), the data with every variable at its offset, and
  an HMAC over header and data when the state has an \<open>algo\<close>.

  \<open>keystore_get_secret\<close> reads a key from the machine's key store; it is the parameter \<open>ks\<close> of the functions that use it.

  The locale \<open>state_format\<close> is the contract of \<open>struct state_backend_format\<close> the rest of the state framework relies
  on; it is interpreted on the raw format, with and without authentication.
\<close>

section \<open>The code\<close>

record format_raw =
  fr_digest :: "digest option"
  fr_digest_length :: nat
  fr_secret_name :: string
  fr_algo :: "string option"

type_synonym keystore = "string \<Rightarrow> bytes res"

record backend_raw_header =
  h_magic :: u32
  h_reserved :: u16
  h_data_len :: u16
  h_data_crc :: u32
  h_header_crc :: u32

text \<open>The packed structure in memory.\<close>

definition header_bytes :: "backend_raw_header \<Rightarrow> bytes" where
  "header_bytes h = put_le32 (h_magic h) @ put_le16 (h_reserved h) @ put_le16 (h_data_len h)
     @ put_le32 (h_data_crc h) @ put_le32 (h_header_crc h)"

definition header_of :: "bytes \<Rightarrow> backend_raw_header" where
  "header_of b = \<lparr>h_magic = get_le32 b, h_reserved = get_le16 (drop 4 b), h_data_len = get_le16 (drop 6 b),
     h_data_crc = get_le32 (drop 8 b), h_header_crc = get_le32 (drop 12 b)\<rparr>"

definition format_raw_min_length :: nat where
  "format_raw_min_length = 16"

definition backend_raw_digest_init :: "keystore \<Rightarrow> format_raw \<Rightarrow> unit res \<times> format_raw" where
  "backend_raw_digest_init ks raw =
     (let opened = (case fr_digest raw of
            Some d \<Rightarrow> Some (d, raw)
          | None \<Rightarrow> (case digest_alloc digests (fr_algo raw) of
              None \<Rightarrow> None
            | Some d \<Rightarrow> Some (d, raw\<lparr>fr_digest := Some d, fr_digest_length := digest_length d\<rparr>)))
      in case opened of
           None \<Rightarrow> (Inl ENODEV, raw)
         | Some (d, raw1) \<Rightarrow> (case ks (fr_secret_name raw) of
               Inl e \<Rightarrow> (Inl e, raw1)
             | Inr key \<Rightarrow> (case digest_set_key d key of
                   (Inl e, d1) \<Rightarrow> (Inl e, raw1\<lparr>fr_digest := Some d1\<rparr>)
                 | (Inr _, d1) \<Rightarrow> (case digest_init d1 of
                       Inl e \<Rightarrow> (Inl e, raw1\<lparr>fr_digest := Some d1\<rparr>)
                     | Inr d2 \<Rightarrow> (Inr (), raw1\<lparr>fr_digest := Some d2\<rparr>)))))"

text \<open>
  \<open>verify\<close>: the outcome, the value of \<open>*lenp\<close> afterwards and the format.  \<open>len\<close> is \<open>*lenp\<close> before the call, \<open>buf\<close> the
  buffer of at least that many bytes.
\<close>

definition raw_verify_hmac :: "format_raw \<Rightarrow> bytes \<Rightarrow> nat \<Rightarrow> unit res \<times> format_raw" where
  "raw_verify_hmac raw buf data_len = (case fr_digest raw of
     None \<Rightarrow> (Inl FAULT, raw)
   | Some d \<Rightarrow> (case digest_update d (take (16 + data_len) buf) of
         Inl e \<Rightarrow> (Inl e, raw)
       | Inr d1 \<Rightarrow> (case digest_generic_verify d1 (drop (16 + data_len) buf) of
             (r, d2) \<Rightarrow> (r, raw\<lparr>fr_digest := Some d2\<rparr>))))"

definition backend_format_raw_verify ::
    "keystore \<Rightarrow> format_raw \<Rightarrow> u32 \<Rightarrow> bytes \<Rightarrow> nat \<Rightarrow> bool \<Rightarrow> (unit res \<times> nat) \<times> format_raw" where
  "backend_format_raw_verify ks raw magic buf len no_auth =
     (if len < format_raw_min_length then ((Inl EINVAL, len), raw) else
      let header = header_of buf;
          auth = (fr_algo raw \<noteq> None \<and> \<not> no_auth)
      in if crc32 0 (take 12 buf) \<noteq> h_header_crc header then ((Inl EINVAL, len), raw)
         else if magic \<noteq> 0 \<and> magic \<noteq> h_magic header then ((Inl EINVAL, len), raw)
         else
           (case (if auth then backend_raw_digest_init ks raw else (Inr (), raw)) of
              (Inl e, raw1) \<Rightarrow> ((Inl e, len), raw1)
            | (Inr _, raw1) \<Rightarrow>
                let d_len = (if auth then (case fr_digest raw1 of None \<Rightarrow> 0 | Some d \<Rightarrow> digest_length d) else 0);
                    data_len = unat (h_data_len header)
                in if len < data_len + d_len + format_raw_min_length then ((Inl EINVAL, len), raw1)
                   else if crc32 0 (take data_len (drop 16 buf)) \<noteq> h_data_crc header
                   then ((Inl EINVAL, len), raw1)
                   else if auth
                     then (case raw_verify_hmac raw1 buf data_len of (r, raw2) \<Rightarrow> ((r, data_len + 16), raw2))
                   else ((Inr (), data_len + 16), raw1)))"

text \<open>
  The loop of \<open>unpack\<close>.  The bound is checked in 32 bit arithmetic; a copy that would leave the buffer is a
  fault.
\<close>

fun unpack_loop :: "bytes \<Rightarrow> state_variable list \<Rightarrow> unit res \<Rightarrow> unit res \<times> state_variable list" where
  "unpack_loop buf [] ret = (ret, [])"
| "unpack_loop buf (sv # rest) ret =
     (if unat (h_data_len (header_of buf)) < unat (sv_start sv + sv_size sv) then
        (case unpack_loop buf rest (Inl ENOSPC) of (r, vs) \<Rightarrow> (r, sv # vs))
      else if length buf < 16 + unat (sv_start sv) + unat (sv_size sv) then (Inl FAULT, sv # rest)
      else (case unpack_loop buf rest ret of (r, vs) \<Rightarrow>
        (r, sv_set_raw sv (take (unat (sv_size sv)) (drop (16 + unat (sv_start sv)) buf)) # vs)))"

definition backend_format_raw_unpack ::
    "format_raw \<Rightarrow> state_variable list \<Rightarrow> bytes \<Rightarrow> unit res \<times> state_variable list" where
  "backend_format_raw_unpack raw variables buf = unpack_loop buf variables (Inr ())"

text \<open>The loop of \<open>pack\<close>: copy the raw bytes of every variable into the data part.\<close>

fun pack_loop :: "bytes \<Rightarrow> state_variable list \<Rightarrow> bytes res" where
  "pack_loop buf [] = Inr buf"
| "pack_loop buf (sv # rest) =
     (if length buf < 16 + unat (sv_start sv) + unat (sv_size sv) then Inl FAULT
      else pack_loop (mem_put buf (16 + unat (sv_start sv)) (sv_raw sv)) rest)"

definition pack_header :: "u32 \<Rightarrow> bytes \<Rightarrow> u32 \<Rightarrow> bytes" where
  "pack_header magic buf size_data =
     (let h0 = \<lparr>h_magic = magic, h_reserved = get_le16 (drop 4 buf), h_data_len = ucast size_data,
            h_data_crc = crc32 0 (take (unat size_data) (drop 16 buf)), h_header_crc = 0\<rparr>;
          h1 = h0\<lparr>h_header_crc := crc32 0 (take 12 (header_bytes h0))\<rparr>
      in mem_put buf 0 (header_bytes h1))"

definition pack_hmac :: "format_raw \<Rightarrow> bytes \<Rightarrow> u32 \<Rightarrow> bytes res \<times> format_raw" where
  "pack_hmac raw buf size_data = (case fr_digest raw of
     None \<Rightarrow> (Inl FAULT, raw)
   | Some d \<Rightarrow> (case digest_update d (take (16 + unat size_data) buf) of
         Inl e \<Rightarrow> (Inl e, raw)
       | Inr d1 \<Rightarrow> (case digest_final d1 of
             Inl e \<Rightarrow> (Inl e, raw\<lparr>fr_digest := Some d1\<rparr>)
           | Inr (md, d2) \<Rightarrow>
               (if length buf < 16 + unat size_data + length md then Inl FAULT
                else Inr (mem_put buf (16 + unat size_data) md), raw\<lparr>fr_digest := Some d2\<rparr>))))"

definition backend_format_raw_pack ::
    "keystore \<Rightarrow> format_raw \<Rightarrow> u32 \<Rightarrow> state_variable list \<Rightarrow> bytes res \<times> format_raw" where
  "backend_format_raw_pack ks raw magic variables =
     (case (if fr_algo raw \<noteq> None then backend_raw_digest_init ks raw else (Inr (), raw)) of
        (Inl e, raw1) \<Rightarrow> (Inl e, raw1)
      | (Inr _, raw1) \<Rightarrow>
          if variables = [] then (Inl FAULT, raw1) else
          let sv = last variables;
              size_data = sv_start sv + sv_size sv;
              size_full = size_data + 16 + word_of_nat (fr_digest_length raw1);
              buf = replicate (unat size_full) 0
          in (case pack_loop buf variables of
                Inl e \<Rightarrow> (Inl e, raw1)
              | Inr buf1 \<Rightarrow>
                  if length buf1 < 16 + unat size_data then (Inl FAULT, raw1) else
                  let buf2 = pack_header magic buf1 size_data
                  in if fr_algo raw \<noteq> None then pack_hmac raw1 buf2 size_data else (Inr buf2, raw1)))"

definition backend_format_raw_init_digest :: "format_raw \<Rightarrow> device_node \<Rightarrow> format_raw res" where
  "backend_format_raw_init_digest raw root =
     (if of_find_property root ''algo'' = None then Inr raw
      else bindE (of_property_read_string root ''algo'') (\<lambda>algo. Inr (raw\<lparr>fr_algo := Some algo\<rparr>)))"

definition backend_format_raw_create :: "device_node \<Rightarrow> string \<Rightarrow> format_raw res" where
  "backend_format_raw_create node secret_name =
     bindE (backend_format_raw_init_digest
         \<lparr>fr_digest = None, fr_digest_length = 0, fr_secret_name = [], fr_algo = None\<rparr> node)
       (\<lambda>raw. Inr (raw\<lparr>fr_secret_name := secret_name\<rparr>))"

section \<open>The header\<close>

lemma length_header [simp]: "length (header_bytes h) = 16"
  by (simp add: header_bytes_def)

lemma header_of_bytes [simp]: "header_of (header_bytes h @ r) = h"
  by (cases h) (simp add: header_of_def header_bytes_def drop_append)

lemma take_12_header: "take 12 (header_bytes h @ r) = take 12 (header_bytes h)"
  by simp

lemma take_12_header_crc: "take 12 (header_bytes (h\<lparr>h_header_crc := c\<rparr>)) = take 12 (header_bytes h)"
  by (simp add: header_bytes_def)

section \<open>Packing\<close>

text \<open>What the variables must satisfy to be packed: a layout within 16 bits.\<close>

definition packable :: "state_variable list \<Rightarrow> bool" where
  "packable vars \<longleftrightarrow> vars \<noteq> [] \<and> (\<forall>v \<in> set vars. wf_var v) \<and> laid_out vars \<and> var_end (last vars) < 2 ^ 16"

lemma packable_end: "packable vars \<Longrightarrow> v \<in> set vars \<Longrightarrow> var_end v < 2 ^ 16"
  unfolding packable_def using laid_out_last le_less_trans by blast

lemma unat_var_end: "var_end v < 2 ^ 32 \<Longrightarrow> unat (sv_start v + sv_size v) = var_end v"
  unfolding var_end_def by (intro unat_add_lem [THEN iffD1]) simp

text \<open>The slice of a buffer a variable occupies.\<close>

definition var_slice :: "bytes \<Rightarrow> state_variable \<Rightarrow> bytes" where
  "var_slice buf v = take (unat (sv_size v)) (drop (16 + unat (sv_start v)) buf)"

lemma pack_loop_ok:
  assumes "\<forall>v \<in> set vars. wf_var v \<and> 16 + var_end v \<le> length buf" and "laid_out vars"
  shows "\<exists>buf'. pack_loop buf vars = Inr buf' \<and> length buf' = length buf
    \<and> (\<forall>v \<in> set vars. var_slice buf' v = sv_raw v)
    \<and> (\<forall>n a. (\<forall>v \<in> set vars. a + n \<le> 16 + unat (sv_start v) \<or> 16 + var_end v \<le> a)
        \<longrightarrow> take n (drop a buf') = take n (drop a buf))"
  using assms
proof (induction vars arbitrary: buf)
  case (Cons v vars)
  let ?s = "16 + unat (sv_start v)"
  let ?b = "mem_put buf ?s (sv_raw v)"
  have v: "length (sv_raw v) = unat (sv_size v)" "?s + length (sv_raw v) \<le> length buf"
    using Cons.prems(1) length_sv_raw by (auto simp: var_end_def)
  have l: "length ?b = length buf" using v by simp
  have "\<forall>w \<in> set vars. wf_var w \<and> 16 + var_end w \<le> length ?b"
    using Cons.prems(1) l by auto
  from Cons.IH [OF this laid_out_tl [OF Cons.prems(2)]] obtain buf' where
    b: "pack_loop ?b vars = Inr buf'" "length buf' = length ?b" "\<forall>w \<in> set vars. var_slice buf' w = sv_raw w"
    and frame: "\<And>n a. \<forall>w \<in> set vars. a + n \<le> 16 + unat (sv_start w) \<or> 16 + var_end w \<le> a \<Longrightarrow>
        take n (drop a buf') = take n (drop a ?b)"
    by blast
  have "var_slice buf' v = var_slice ?b v"
    unfolding var_slice_def
    by (rule frame) (use laid_out_Cons [OF Cons.prems(2)] in \<open>auto simp: var_end_def\<close>)
  also have "\<dots> = sv_raw v"
    using take_drop_mem_put_same [OF v(2)] v(1) by (simp add: var_slice_def)
  finally have s: "var_slice buf' v = sv_raw v" .
  have "take n (drop a buf') = take n (drop a buf)"
    if "\<forall>w \<in> set (v # vars). a + n \<le> 16 + unat (sv_start w) \<or> 16 + var_end w \<le> a" for n a
  proof -
    have "take n (drop a buf') = take n (drop a ?b)" by (rule frame) (use that in simp)
    also have "\<dots> = take n (drop a buf)"
      by (rule take_drop_mem_put_other [OF v(2)]) (use that v(1) in \<open>auto simp: var_end_def\<close>)
    finally show ?thesis .
  qed
  moreover have "pack_loop buf (v # vars) = Inr buf'"
    using b(1) v by simp
  ultimately show ?case using b l s by (intro exI [of _ buf']) auto
qed simp

text \<open>The header of a packed buffer of \<open>n\<close> data bytes, and what a buffer must hold to be accepted.\<close>

definition good_header :: "u32 \<Rightarrow> nat \<Rightarrow> bytes \<Rightarrow> bool" where
  "good_header magic n buf \<longleftrightarrow> 16 + n \<le> length buf
     \<and> h_header_crc (header_of buf) = crc32 0 (take 12 buf) \<and> h_magic (header_of buf) = magic
     \<and> unat (h_data_len (header_of buf)) = n
     \<and> h_data_crc (header_of buf) = crc32 0 (take n (drop 16 buf))"

lemma pack_header_good:
  assumes "16 + unat size_data \<le> length buf" and "unat size_data < 2 ^ 16"
  shows "good_header magic (unat size_data) (pack_header magic buf size_data)
    \<and> length (pack_header magic buf size_data) = length buf
    \<and> drop 16 (pack_header magic buf size_data) = drop 16 buf"
proof -
  define h0 where "h0 = \<lparr>h_magic = magic, h_reserved = get_le16 (drop 4 buf), h_data_len = ucast size_data,
      h_data_crc = crc32 0 (take (unat size_data) (drop 16 buf)), h_header_crc = 0\<rparr>"
  define h1 where "h1 = h0\<lparr>h_header_crc := crc32 0 (take 12 (header_bytes h0))\<rparr>"
  have p: "pack_header magic buf size_data = header_bytes h1 @ drop 16 buf"
    using assms(1) by (simp add: pack_header_def Let_def h0_def h1_def mem_put_fits)
  have "unat (ucast size_data :: u16) = unat size_data"
    using assms(2) by (simp add: unsigned_ucast_eq take_bit_nat_eq_self)
  moreover have "take 12 (header_bytes h1) = take 12 (header_bytes h0)"
    by (simp add: h1_def take_12_header_crc)
  ultimately show ?thesis
    unfolding p good_header_def header_of_bytes using assms(1)
    by (simp add: h1_def) (simp add: h0_def)
qed

lemma header_of_append: "16 \<le> length b \<Longrightarrow> header_of (b @ r) = header_of b"
  by (simp add: header_of_def get_le32_def get_le16_def)

lemma good_header_append: "good_header magic n buf \<Longrightarrow> good_header magic n (buf @ r)"
  by (simp add: good_header_def header_of_append)

lemma good_header_prefix:
  "length p = 16 + n \<Longrightarrow> good_header magic n (p @ r) \<longleftrightarrow> good_header magic n p"
  by (simp add: good_header_def header_of_append)

lemma good_header_frame:
  assumes "good_header magic n buf" and "take (16 + n) buf' = take (16 + n) buf"
  shows "good_header magic n buf'"
proof -
  have l: "length (take (16 + n) buf) = 16 + n" using assms(1) by (simp add: good_header_def)
  have "good_header magic n (take (16 + n) buf @ drop (16 + n) buf)" using assms(1) by simp
  then have "good_header magic n (take (16 + n) buf)" by (simp only: good_header_prefix [OF l])
  then have "good_header magic n (take (16 + n) buf @ drop (16 + n) buf')"
    by (simp only: good_header_prefix [OF l])
  then show ?thesis by (simp only: assms(2) [symmetric] append_take_drop_id)
qed

section \<open>A keyed digest across calls\<close>

text \<open>
  The format keeps one digest and keys it again for every buffer.  \<open>hmac_of n d\<close> says that \<open>d\<close> is an HMAC over the
  hash named \<open>n\<close> that can be keyed.
\<close>

definition named_ops :: "string \<Rightarrow> hash_ops" where
  "named_ops n = (if n = ''sha1'' then Ops_sha1 else if n = ''sha224'' then Ops_sha224 else Ops_sha256)"

definition hmac_of :: "string \<Rightarrow> digest \<Rightarrow> bool" where
  "hmac_of n d \<longleftrightarrow> alg_ops (d_algo d) = Ops_hmac n 64 \<and> (\<exists>dh. d_ctx d = Ctx_hmac dh
     \<and> alg_ops (hd_algo (dh_d dh)) = Ops_hash (named_ops n) \<and> dh_key dh \<noteq> Key_freed
     \<and> hash_ready (dh_d dh) \<and> digest_length d = hash_len (Ops_hash (named_ops n)))"

lemma hash_holds_ready: "hash_holds d m \<Longrightarrow> hash_ready d"
  by (auto simp: hash_holds_def hash_ready_def sha1.holds_def sha224.holds_def sha256.holds_def
      sha1.ready_def sha224.ready_def sha256.ready_def md_holds_def
      split: digest_ops.splits hash_ops.splits hash_ctx.splits prod.splits)

lemma hash_spec_named:
  "alg_ops (hd_algo h) = Ops_hash (named_ops n) \<Longrightarrow> hash_spec h = named_hash n"
  by (simp add: hash_spec_def named_ops_def named_hash_def split: if_splits)

lemma hmac_of_set_key:
  assumes "hmac_of n d" and "length key \<le> 64"
  shows "\<exists>d'. digest_set_key d key = (Inr (), d') \<and> hmac_of n d' \<and> digest_ready d'
    \<and> digest_spec d' = rfc2104 (named_hash n) 64 key \<and> digest_length d' = digest_length d"
proof -
  obtain dh where d: "alg_ops (d_algo d) = Ops_hmac n 64" "d_ctx d = Ctx_hmac dh"
      "alg_ops (hd_algo (dh_d dh)) = Ops_hash (named_ops n)" "dh_key dh \<noteq> Key_freed" "hash_ready (dh_d dh)"
      "digest_length d = hash_len (Ops_hash (named_ops n))"
    using assms(1) by (auto simp: hmac_of_def)
  let ?dh = "dh\<lparr>dh_key := Key_mem key, dh_keylen := length key\<rparr>"
  let ?d = "d\<lparr>d_ctx := Ctx_hmac ?dh\<rparr>"
  have k: "key_bytes ?dh = Inr key" by (simp add: key_bytes_def)
  have "digest_set_key d key = (Inr (), ?d)"
    using d assms(2) by (simp add: digest_set_key_def digest_hmac_set_key_def Let_def)
  moreover have "hmac_of n ?d" using d by (simp add: hmac_of_def)
  moreover have "digest_ready ?d" using d assms(2) k by (simp add: digest_ready_def key_ok_def)
  moreover have "digest_spec ?d = rfc2104 (named_hash n) 64 key"
    using d k hash_spec_named [OF d(3)] by (simp add: digest_spec_def the_key_def)
  ultimately show ?thesis by (intro exI [of _ ?d]) simp
qed

text \<open>Whatever operation a keyed HMAC goes through, it can be keyed again.\<close>

lemma hmac_static:
  assumes "hmac_of n d" and "digest_init d = Inr d' \<or> digest_update d x = Inr d' \<or> digest_final d = Inr (md, d')"
    and "digest_ready d' \<or> digest_holds d' m"
  shows "hmac_of n d'"
proof -
  obtain dh where d: "alg_ops (d_algo d) = Ops_hmac n 64" "d_ctx d = Ctx_hmac dh"
      "alg_ops (hd_algo (dh_d dh)) = Ops_hash (named_ops n)" "dh_key dh \<noteq> Key_freed"
      "digest_length d = hash_len (Ops_hash (named_ops n))"
    using assms(1) by (auto simp: hmac_of_def)
  from assms(2) d(1,2) obtain dh' where
    d': "d' = d\<lparr>d_ctx := Ctx_hmac dh'\<rparr>" "dh_key dh' = dh_key dh" "hd_algo (dh_d dh') = hd_algo (dh_d dh)"
    by (auto simp: digest_init_def digest_update_def digest_final_def digest_hmac_init_def
        digest_hmac_update_def digest_hmac_final_def Let_def split: if_splits
        dest!: hash_algo_kept)
  have "hash_ready (dh_d dh')"
    using assms(3) d(1) d'(1) hash_holds_ready by (auto simp: digest_ready_def digest_holds_def)
  with d d' show ?thesis by (simp add: hmac_of_def)
qed

lemma hmac_alloc_of:
  "n \<in> {''sha1'', ''sha224'', ''sha256''} \<Longrightarrow>
     \<exists>d. digest_alloc digests (Some (''hmac('' @ n @ '')'')) = Some d \<and> hmac_of n d"
  by (auto simp: registry_simps digest_alloc_def digest_hmac_alloc_def hash_alloc_def hmac_of_def
      named_ops_def hash_ready_def hash_zero_ctx_def digest_length_def hash_len_def
      sha1.ready_def sha224.ready_def sha256.ready_def)

text \<open>
  The invariant of the format: no algorithm, or one of the three HMACs with a key of at most 64 bytes in the
  key store.
\<close>

definition raw_ok :: "keystore \<Rightarrow> format_raw \<Rightarrow> bool" where
  "raw_ok ks raw = (case fr_algo raw of
     None \<Rightarrow> fr_digest_length raw = 0
   | Some algo \<Rightarrow> (\<exists>n key. n \<in> {''sha1'', ''sha224'', ''sha256''} \<and> algo = ''hmac('' @ n @ '')''
       \<and> ks (fr_secret_name raw) = Inr key \<and> length key \<le> 64
       \<and> (case fr_digest raw of None \<Rightarrow> True | Some d \<Rightarrow> hmac_of n d \<and> fr_digest_length raw = digest_length d)))"

text \<open>The authentication code the format computes over a message.\<close>

definition raw_mac :: "keystore \<Rightarrow> format_raw \<Rightarrow> bytes \<Rightarrow> bytes" where
  "raw_mac ks raw m = (case (fr_algo raw, ks (fr_secret_name raw)) of
     (Some algo, Inr key) \<Rightarrow> rfc2104 (named_hash (butlast (drop 5 algo))) 64 key m
   | _ \<Rightarrow> [])"

lemma hmac_name: "butlast (drop 5 (''hmac('' @ n @ '')'')) = n"
  by simp

lemma raw_digest_init_ok:
  assumes "raw_ok ks raw" and "fr_algo raw = Some algo"
  shows "\<exists>d. backend_raw_digest_init ks raw = (Inr (), raw\<lparr>fr_digest := Some d, fr_digest_length := digest_length d\<rparr>)
    \<and> digest_holds d [] \<and> digest_spec d = raw_mac ks raw
    \<and> raw_ok ks (raw\<lparr>fr_digest := Some d, fr_digest_length := digest_length d\<rparr>)"
proof -
  obtain n key where n: "n \<in> {''sha1'', ''sha224'', ''sha256''}" "algo = ''hmac('' @ n @ '')''"
      "ks (fr_secret_name raw) = Inr key" "length key \<le> 64"
      "case fr_digest raw of None \<Rightarrow> True | Some d \<Rightarrow> hmac_of n d \<and> fr_digest_length raw = digest_length d"
    using assms by (auto simp: raw_ok_def)
  obtain d0 where d0: "hmac_of n d0"
      "(case fr_digest raw of
            Some d \<Rightarrow> Some (d, raw)
          | None \<Rightarrow> (case digest_alloc digests (fr_algo raw) of
              None \<Rightarrow> None
            | Some d \<Rightarrow> Some (d, raw\<lparr>fr_digest := Some d, fr_digest_length := digest_length d\<rparr>)))
        = Some (d0, raw\<lparr>fr_digest := Some d0, fr_digest_length := digest_length d0\<rparr>)"
  proof (cases "fr_digest raw")
    case None
    with hmac_alloc_of [OF n(1)] n(2) assms(2) that show ?thesis by auto
  next
    case (Some d)
    then have "raw\<lparr>fr_digest := Some d, fr_digest_length := digest_length d\<rparr> = raw"
      using n(5) by simp
    with Some n(5) that [of d] show ?thesis by simp
  qed
  obtain d1 where d1: "digest_set_key d0 key = (Inr (), d1)" "hmac_of n d1" "digest_ready d1"
      "digest_spec d1 = rfc2104 (named_hash n) 64 key" "digest_length d1 = digest_length d0"
    using hmac_of_set_key [OF d0(1) n(4)] by auto
  obtain d2 where d2: "digest_init d1 = Inr d2" "digest_holds d2 []" "digest_spec d2 = digest_spec d1"
    using digest_init_law [OF d1(3)] by auto
  have k: "hmac_of n d2" using hmac_static [OF d1(2)] d2 by blast
  have l: "digest_length d2 = digest_length d0"
    using d1(2) d0(1) k by (auto simp: hmac_of_def)
  have mac: "raw_mac ks raw = rfc2104 (named_hash n) 64 key"
    using assms(2) n(2,3) hmac_name [of n] by (intro ext) (simp only: raw_mac_def prod.case option.case sum.case)
  have "backend_raw_digest_init ks raw = (Inr (), raw\<lparr>fr_digest := Some d2, fr_digest_length := digest_length d2\<rparr>)"
    using d1 d2 n(3) l by (simp add: backend_raw_digest_init_def d0(2) Let_def)
  moreover have "raw_ok ks (raw\<lparr>fr_digest := Some d2, fr_digest_length := digest_length d2\<rparr>)"
    using assms(2) n k by (simp add: raw_ok_def)
  ultimately show ?thesis using d2 d1(4) mac by auto
qed

text \<open>The length of a code, and the limit of a message.\<close>

definition raw_mac_len :: "format_raw \<Rightarrow> nat" where
  "raw_mac_len raw = (case fr_algo raw of None \<Rightarrow> 0
     | Some algo \<Rightarrow> hash_len (Ops_hash (named_ops (butlast (drop 5 algo)))))"

lemma raw_ok_algo:
  assumes "raw_ok ks raw" and "fr_algo raw = Some algo"
  obtains n key where "n \<in> {''sha1'', ''sha224'', ''sha256''}" "algo = ''hmac('' @ n @ '')''"
    "ks (fr_secret_name raw) = Inr key" "length key \<le> 64"
    "raw_mac_len raw = hash_len (Ops_hash (named_ops n))"
    "\<forall>d. fr_digest raw = Some d \<longrightarrow> hmac_of n d \<and> fr_digest_length raw = raw_mac_len raw"
proof -
  from assms obtain n key where n: "n \<in> {''sha1'', ''sha224'', ''sha256''}" "algo = ''hmac('' @ n @ '')''"
    "ks (fr_secret_name raw) = Inr key" "length key \<le> 64"
    "case fr_digest raw of None \<Rightarrow> True | Some d \<Rightarrow> hmac_of n d \<and> fr_digest_length raw = digest_length d"
    by (auto simp: raw_ok_def)
  have l: "raw_mac_len raw = hash_len (Ops_hash (named_ops n))"
    using assms(2) n(2) hmac_name [of n] by (simp only: raw_mac_len_def option.case)
  show thesis
    by (rule that [OF n(1-4) l]) (use n(5) l in \<open>auto simp: hmac_of_def\<close>)
qed

text \<open>
  The digest of an opened format: finishing a message gives its code, and the format stays well-formed.
\<close>

lemma raw_digest_run:
  assumes "raw_ok ks raw" and "fr_algo raw = Some algo" and "length x \<le> digest_limit"
  shows "\<exists>d d1 d2 raw'. backend_raw_digest_init ks raw = (Inr (), raw') \<and> fr_digest raw' = Some d
    \<and> fr_algo raw' = fr_algo raw \<and> fr_secret_name raw' = fr_secret_name raw
    \<and> digest_length d = raw_mac_len raw \<and> fr_digest_length raw' = raw_mac_len raw
    \<and> digest_update d x = Inr d1 \<and> digest_length d1 = raw_mac_len raw
    \<and> digest_final d1 = Inr (raw_mac ks raw x, d2) \<and> length (raw_mac ks raw x) = raw_mac_len raw
    \<and> raw_ok ks (raw'\<lparr>fr_digest := Some d2\<rparr>) \<and> raw_ok ks raw'"
proof -
  obtain d where d: "backend_raw_digest_init ks raw = (Inr (), raw\<lparr>fr_digest := Some d, fr_digest_length := digest_length d\<rparr>)"
      "digest_holds d []" "digest_spec d = raw_mac ks raw"
      "raw_ok ks (raw\<lparr>fr_digest := Some d, fr_digest_length := digest_length d\<rparr>)"
    using raw_digest_init_ok [OF assms(1,2)] by auto
  let ?raw = "raw\<lparr>fr_digest := Some d, fr_digest_length := digest_length d\<rparr>"
  have a: "fr_algo ?raw = Some algo" using assms(2) by simp
  obtain n key where n0: "n \<in> {''sha1'', ''sha224'', ''sha256''}"
      "algo = ''hmac('' @ n @ '')''" "ks (fr_secret_name ?raw) = Inr key" "length key \<le> 64"
      "raw_mac_len ?raw = hash_len (Ops_hash (named_ops n))"
      "\<forall>e. fr_digest ?raw = Some e \<longrightarrow> hmac_of n e \<and> fr_digest_length ?raw = raw_mac_len ?raw"
    by (rule raw_ok_algo [OF d(4) a])
  then have n: "n \<in> {''sha1'', ''sha224'', ''sha256''}" "algo = ''hmac('' @ n @ '')''"
      "ks (fr_secret_name raw) = Inr key" "length key \<le> 64"
      "raw_mac_len ?raw = hash_len (Ops_hash (named_ops n))" "hmac_of n d"
      "digest_length d = raw_mac_len ?raw"
    by simp_all
  have ml: "raw_mac_len ?raw = raw_mac_len raw" by (simp add: raw_mac_len_def)
  obtain d1 where d1: "digest_update d x = Inr d1" "digest_holds d1 x" "digest_spec d1 = digest_spec d"
    using digest_update_law [OF d(2), of x] assms(3) by auto
  have k1: "hmac_of n d1" using hmac_static [OF n(6)] d1 by blast
  obtain d2 where d2: "digest_final d1 = Inr (raw_mac ks raw x, d2)" "digest_ready d2"
    using digest_final_law [OF d1(2) assms(3)] d1(3) d(3) by auto
  have k2: "hmac_of n d2" using hmac_static [OF k1] d2 by blast
  have "length (digest_spec d1 x) = digest_length d1"
    using d1(2) by (auto simp: digest_holds_def digest_spec_def rfc2104_def Let_def length_hash_spec
        split: digest_ops.splits digest_ctx.splits)
  moreover have "digest_length d1 = raw_mac_len raw" "digest_length d2 = raw_mac_len raw"
    using k1 k2 n(5) ml by (auto simp: hmac_of_def)
  moreover have "raw_ok ks (?raw\<lparr>fr_digest := Some d2\<rparr>)"
    using n k2 calculation ml assms(2) by (simp add: raw_ok_def)
  ultimately show ?thesis
    using d d1 d2 n(7) ml by (intro exI [of _ d] exI [of _ d1] exI [of _ d2] exI [of _ ?raw]) simp
qed

section \<open>Round trip\<close>

text \<open>A buffer that carries a valid state of \<open>n\<close> data bytes for this format.\<close>

definition raw_valid :: "keystore \<Rightarrow> format_raw \<Rightarrow> u32 \<Rightarrow> nat \<Rightarrow> bytes \<Rightarrow> bool" where
  "raw_valid ks raw magic n buf \<longleftrightarrow> good_header magic n buf
     \<and> 16 + n + raw_mac_len raw \<le> length buf
     \<and> take (raw_mac_len raw) (drop (16 + n) buf) = raw_mac ks raw (take (16 + n) buf)"

text \<open>Formats that differ in the state of their digest only.\<close>

definition same_format :: "format_raw \<Rightarrow> format_raw \<Rightarrow> bool" where
  "same_format raw raw' \<longleftrightarrow> fr_algo raw' = fr_algo raw \<and> fr_secret_name raw' = fr_secret_name raw"

lemma same_format_mac:
  "same_format raw raw' \<Longrightarrow> raw_mac ks raw' = raw_mac ks raw"
  "same_format raw raw' \<Longrightarrow> raw_mac_len raw' = raw_mac_len raw"
  by (simp_all add: same_format_def raw_mac_def raw_mac_len_def fun_eq_iff)

lemma data_len_small: "good_header magic n buf \<Longrightarrow> n < 2 ^ 16"
proof -
  assume "good_header magic n buf"
  then have "n = unat (h_data_len (header_of buf))" by (simp add: good_header_def)
  then show ?thesis using unsigned_less [of "h_data_len (header_of buf)", where ?'a = nat] by simp
qed

lemma raw_verify_valid:
  assumes "raw_ok ks raw" and "raw_valid ks raw magic n buf"
  shows "\<exists>raw'. backend_format_raw_verify ks raw magic buf (length buf) False = ((Inr (), 16 + n), raw')
    \<and> raw_ok ks raw' \<and> same_format raw raw'"
proof (cases "fr_algo raw")
  case None
  with assms show ?thesis
    by (auto simp: backend_format_raw_verify_def Let_def raw_valid_def good_header_def
        format_raw_min_length_def raw_mac_len_def same_format_def)
next
  case (Some algo)
  let ?x = "take (16 + n) buf"
  have v: "good_header magic n buf" "16 + n + raw_mac_len raw \<le> length buf"
      "take (raw_mac_len raw) (drop (16 + n) buf) = raw_mac ks raw ?x"
    using assms(2) by (auto simp: raw_valid_def)
  have "length ?x \<le> digest_limit"
    using data_len_small [OF v(1)] by (simp add: digest_limit_def)
  from raw_digest_run [OF assms(1) Some this] obtain d d1 d2 raw' where r:
      "backend_raw_digest_init ks raw = (Inr (), raw')" "fr_digest raw' = Some d"
      "fr_algo raw' = fr_algo raw" "fr_secret_name raw' = fr_secret_name raw"
      "digest_length d = raw_mac_len raw" "digest_update d ?x = Inr d1" "digest_length d1 = raw_mac_len raw"
      "digest_final d1 = Inr (raw_mac ks raw ?x, d2)" "length (raw_mac ks raw ?x) = raw_mac_len raw"
      "raw_ok ks (raw'\<lparr>fr_digest := Some d2\<rparr>)"
    by blast
  have "digest_generic_verify d1 (drop (16 + n) buf) = (Inr (), d2)"
    using r v by (simp add: digest_generic_verify_def Let_def)
  then have "raw_verify_hmac raw' buf n = (Inr (), raw'\<lparr>fr_digest := Some d2\<rparr>)"
    using r by (simp add: raw_verify_hmac_def)
  with r v Some show ?thesis
    by (auto simp: backend_format_raw_verify_def Let_def good_header_def format_raw_min_length_def
        same_format_def add.commute add.left_commute)
qed

lemma raw_valid_append: "raw_valid ks raw magic n buf \<Longrightarrow> raw_valid ks raw magic n (buf @ junk)"
  by (simp add: raw_valid_def good_header_append)

lemma raw_mac_len_le: "raw_mac_len raw \<le> 32"
  by (simp add: raw_mac_len_def hash_len_def split: option.splits hash_ops.splits)

lemma var_slice_drop: "drop 16 b = drop 16 b' \<Longrightarrow> var_slice b v = var_slice b' v"
  unfolding var_slice_def by (metis drop_drop add.commute)

lemma pack_core:
  assumes "packable vars" and "size_data = sv_start (last vars) + sv_size (last vars)"
  shows "\<exists>buf1. pack_loop (replicate (16 + var_end (last vars) + dl) 0) vars = Inr buf1
    \<and> length buf1 = 16 + var_end (last vars) + dl \<and> unat size_data = var_end (last vars)
    \<and> good_header magic (var_end (last vars)) (pack_header magic buf1 size_data)
    \<and> length (pack_header magic buf1 size_data) = 16 + var_end (last vars) + dl
    \<and> (\<forall>v \<in> set vars. var_slice (pack_header magic buf1 size_data) v = sv_raw v)"
proof -
  let ?E = "var_end (last vars)"
  have E: "?E < 2 ^ 16" "laid_out vars" "\<forall>v \<in> set vars. wf_var v"
    using assms(1) by (auto simp: packable_def)
  have sd: "unat size_data = ?E" unfolding assms(2) by (rule unat_var_end) (use E in simp)
  have "\<forall>v \<in> set vars. wf_var v \<and> 16 + var_end v \<le> length (replicate (16 + ?E + dl) (0 :: u8))"
    using E laid_out_last [OF E(2)] by force
  from pack_loop_ok [OF this E(2)] obtain buf1 where b:
      "pack_loop (replicate (16 + ?E + dl) 0) vars = Inr buf1" "length buf1 = 16 + ?E + dl"
      "\<forall>v \<in> set vars. var_slice buf1 v = sv_raw v"
    by auto
  have "good_header magic ?E (pack_header magic buf1 size_data)
      \<and> length (pack_header magic buf1 size_data) = length buf1
      \<and> drop 16 (pack_header magic buf1 size_data) = drop 16 buf1"
    using pack_header_good [of size_data buf1 magic] b(2) sd E(1) by simp
  with b sd show ?thesis by (auto simp: var_slice_drop [of "pack_header magic buf1 size_data" buf1])
qed

lemma size_full_unat:
  assumes "unat size_data < 2 ^ 16" and "dl \<le> 32"
  shows "unat (size_data + 16 + word_of_nat dl :: u32) = 16 + unat size_data + dl"
proof -
  have d: "unat (word_of_nat dl :: u32) = dl" using assms(2) by (simp add: unat_of_nat)
  have "unat (size_data + 16) = unat size_data + unat (16 :: u32)"
    by (intro unat_add_lem [THEN iffD1]) (use assms in simp)
  moreover have "unat (size_data + 16 + word_of_nat dl) = unat (size_data + 16) + unat (word_of_nat dl :: u32)"
    by (intro unat_add_lem [THEN iffD1]) (use assms calculation d in simp)
  ultimately show ?thesis using d by simp
qed

lemma take_mem_put: "ofs \<le> length buf \<Longrightarrow> take ofs (mem_put buf ofs src) = take ofs buf"
  by (simp add: mem_put_def)

lemma var_slice_mem_put:
  assumes "16 + var_end v \<le> ofs" and "ofs + length src \<le> length buf"
  shows "var_slice (mem_put buf ofs src) v = var_slice buf v"
  unfolding var_slice_def
  by (rule take_drop_mem_put_other) (use assms in \<open>simp_all add: var_end_def\<close>)

lemma raw_pack_valid:
  assumes "raw_ok ks raw" and "packable vars"
  shows "\<exists>buf raw'. backend_format_raw_pack ks raw magic vars = (Inr buf, raw')
    \<and> raw_ok ks raw' \<and> same_format raw raw' \<and> raw_valid ks raw magic (var_end (last vars)) buf
    \<and> length buf = 16 + var_end (last vars) + raw_mac_len raw
    \<and> (\<forall>v \<in> set vars. var_slice buf v = sv_raw v)"
proof -
  let ?E = "var_end (last vars)" and ?sd = "sv_start (last vars) + sv_size (last vars)"
  let ?dl = "raw_mac_len raw"
  obtain buf1 where b: "pack_loop (replicate (16 + ?E + ?dl) 0) vars = Inr buf1"
      "length buf1 = 16 + ?E + ?dl" "unat ?sd = ?E"
      "good_header magic ?E (pack_header magic buf1 ?sd)"
      "length (pack_header magic buf1 ?sd) = 16 + ?E + ?dl"
      "\<forall>v \<in> set vars. var_slice (pack_header magic buf1 ?sd) v = sv_raw v"
    using pack_core [OF assms(2) refl] by blast
  let ?b = "pack_header magic buf1 ?sd"
  have E: "vars \<noteq> []" "?E < 2 ^ 16" using assms(2) by (simp_all add: packable_def)
  have sf: "unat (?sd + 16 + word_of_nat ?dl) = 16 + ?E + ?dl"
    using size_full_unat [of ?sd ?dl] b(3) E(2) raw_mac_len_le by simp
  show ?thesis
  proof (cases "fr_algo raw")
    case None
    then have z: "fr_digest_length raw = 0" "?dl = 0" using assms(1) by (simp_all add: raw_ok_def raw_mac_len_def)
    then have "backend_format_raw_pack ks raw magic vars = (Inr ?b, raw)"
      using None b E sf by (simp add: backend_format_raw_pack_def Let_def)
    moreover have "raw_valid ks raw magic ?E ?b"
      using b z None by (simp add: raw_valid_def raw_mac_def)
    ultimately show ?thesis using assms(1) b z by (simp add: same_format_def)
  next
    case (Some algo)
    let ?x = "take (16 + ?E) ?b"
    have "length ?x \<le> digest_limit" using E(2) by (simp add: digest_limit_def)
    from raw_digest_run [OF assms(1) Some this] obtain d d1 d2 raw' where r:
        "backend_raw_digest_init ks raw = (Inr (), raw')" "fr_digest raw' = Some d"
        "fr_algo raw' = fr_algo raw" "fr_secret_name raw' = fr_secret_name raw"
        "fr_digest_length raw' = ?dl" "digest_update d ?x = Inr d1"
        "digest_final d1 = Inr (raw_mac ks raw ?x, d2)" "length (raw_mac ks raw ?x) = ?dl"
        "raw_ok ks (raw'\<lparr>fr_digest := Some d2\<rparr>)"
      by blast
    let ?m = "mem_put ?b (16 + ?E) (raw_mac ks raw ?x)"
    have fits: "16 + ?E + length (raw_mac ks raw ?x) \<le> length ?b" using b(5) r(8) by simp
    have "pack_hmac raw' ?b ?sd = (Inr ?m, raw'\<lparr>fr_digest := Some d2\<rparr>)"
      using r b(3) b(5) by (simp add: pack_hmac_def)
    then have p: "backend_format_raw_pack ks raw magic vars = (Inr ?m, raw'\<lparr>fr_digest := Some d2\<rparr>)"
      using Some r b E sf by (simp add: backend_format_raw_pack_def Let_def)
    have t: "take (16 + ?E) ?m = ?x" using b(5) by (simp add: take_mem_put)
    have "good_header magic ?E ?m" by (rule good_header_frame [OF b(4) t])
    moreover have "take ?dl (drop (16 + ?E) ?m) = raw_mac ks raw ?x"
      using take_drop_mem_put_same [OF fits] r(8) by simp
    ultimately have v: "raw_valid ks raw magic ?E ?m"
      using b(5) t r(8) by (simp add: raw_valid_def)
    have "\<forall>v \<in> set vars. var_slice ?m v = sv_raw v"
      using b(6) fits assms(2) laid_out_last by (auto simp: packable_def var_slice_mem_put)
    with p v r b(5) show ?thesis by (simp add: same_format_def)
  qed
qed

lemma unpack_loop_ok:
  assumes "\<forall>v \<in> set vars. var_end v \<le> n" and "unat (h_data_len (header_of buf)) = n" and "n < 2 ^ 16"
    and "16 + n \<le> length buf"
  shows "unpack_loop buf vars r = (r, map (\<lambda>v. sv_set_raw v (var_slice buf v)) vars)"
  using assms
proof (induction vars)
  case (Cons v vars)
  then have "unat (sv_start v + sv_size v) = var_end v" by (intro unat_var_end) auto
  with Cons show ?case by (auto simp: var_slice_def var_end_def)
qed simp

lemma raw_unpack_valid:
  assumes "good_header magic n buf" and "\<forall>v \<in> set vars. var_end v \<le> n"
  shows "backend_format_raw_unpack raw vars buf = (Inr (), map (\<lambda>v. sv_set_raw v (var_slice buf v)) vars)"
  unfolding backend_format_raw_unpack_def
  by (rule unpack_loop_ok) (use assms data_len_small [OF assms(1)] in \<open>auto simp: good_header_def\<close>)

section \<open>The contract of a format\<close>

definition var_layout :: "state_variable list \<Rightarrow> (u32 \<times> u32) list" where
  "var_layout vars = map (\<lambda>v. (sv_start v, sv_size v)) vars"

text \<open>
  \<open>carries f magic buf vars\<close>: the buffer holds the contents of \<open>vars\<close> in the format.  \<open>sim\<close> relates formats that differ in
  working state only.
\<close>

locale state_format =
  fixes fok :: "'f \<Rightarrow> bool" and sim :: "'f \<Rightarrow> 'f \<Rightarrow> bool"
    and pack :: "'f \<Rightarrow> u32 \<Rightarrow> state_variable list \<Rightarrow> bytes res \<times> 'f"
    and verify :: "'f \<Rightarrow> u32 \<Rightarrow> bytes \<Rightarrow> nat \<Rightarrow> bool \<Rightarrow> (unit res \<times> nat) \<times> 'f"
    and unpack :: "'f \<Rightarrow> state_variable list \<Rightarrow> bytes \<Rightarrow> unit res \<times> state_variable list"
    and packs :: "state_variable list \<Rightarrow> bool"
    and carries :: "'f \<Rightarrow> u32 \<Rightarrow> bytes \<Rightarrow> state_variable list \<Rightarrow> bool"
  assumes pack_law: "fok f \<Longrightarrow> packs vars \<Longrightarrow>
      \<exists>buf f'. pack f magic vars = (Inr buf, f') \<and> fok f' \<and> sim f f' \<and> carries f magic buf vars"
    and verify_law: "fok f \<Longrightarrow> carries f magic buf vars \<Longrightarrow>
      \<exists>len f'. verify f magic buf (length buf) False = ((Inr (), len), f') \<and> fok f' \<and> sim f f'
        \<and> len \<le> length buf"
    and carries_append: "carries f magic buf vars \<Longrightarrow> carries f magic (buf @ junk) vars"
    and carries_sim: "sim f f' \<Longrightarrow> carries f magic buf vars \<Longrightarrow> carries f' magic buf vars"
    and unpack_law: "carries f magic buf vars \<Longrightarrow> \<forall>v \<in> set vars0. wf_var v \<Longrightarrow>
      var_layout vars0 = var_layout vars \<Longrightarrow>
      \<exists>vars'. unpack f vars0 buf = (Inr (), vars') \<and> map sv_raw vars' = map sv_raw vars
        \<and> (\<forall>v \<in> set vars'. wf_var v) \<and> var_layout vars' = var_layout vars
        \<and> map sv_name vars' = map sv_name vars0"
begin

lemma roundtrip:
  assumes "fok f" and "packs vars" and "\<forall>v \<in> set vars0. wf_var v" and "var_layout vars0 = var_layout vars"
  shows "\<exists>buf f1 len f2 vars'. pack f magic vars = (Inr buf, f1)
    \<and> verify f1 magic (buf @ junk) (length (buf @ junk)) False = ((Inr (), len), f2)
    \<and> unpack f2 vars0 (buf @ junk) = (Inr (), vars') \<and> map sv_raw vars' = map sv_raw vars
    \<and> map sv_name vars' = map sv_name vars0"
proof -
  obtain buf f1 where 1: "pack f magic vars = (Inr buf, f1)" "fok f1" "sim f f1" "carries f magic buf vars"
    using pack_law [OF assms(1,2)] by blast
  then have c1: "carries f1 magic (buf @ junk) vars" by (blast intro: carries_append carries_sim)
  obtain len f2 where 2: "verify f1 magic (buf @ junk) (length (buf @ junk)) False = ((Inr (), len), f2)"
      "sim f1 f2"
    using verify_law [OF 1(2) c1] by blast
  have "carries f2 magic (buf @ junk) vars" using carries_sim [OF 2(2) c1] .
  from unpack_law [OF this assms(3,4)] 1 2 show ?thesis by blast
qed

end

definition raw_carries :: "keystore \<Rightarrow> format_raw \<Rightarrow> u32 \<Rightarrow> bytes \<Rightarrow> state_variable list \<Rightarrow> bool" where
  "raw_carries ks raw magic buf vars \<longleftrightarrow> packable vars \<and> raw_valid ks raw magic (var_end (last vars)) buf
     \<and> (\<forall>v \<in> set vars. var_slice buf v = sv_raw v)"

lemma var_slice_append: "16 + var_end v \<le> length buf \<Longrightarrow> var_slice (buf @ junk) v = var_slice buf v"
  by (simp add: var_slice_def var_end_def)

lemma layout_end: "var_layout vs = var_layout ws \<Longrightarrow> map var_end vs = map var_end ws"
proof -
  have "map var_end us = map (\<lambda>(a, b). unat a + unat b) (var_layout us)" for us
    by (simp add: var_layout_def var_end_def comp_def)
  then show "var_layout vs = var_layout ws \<Longrightarrow> map var_end vs = map var_end ws" by simp
qed

lemma raw_carries_append:
  assumes "raw_carries ks raw magic buf vars" shows "raw_carries ks raw magic (buf @ junk) vars"
proof -
  have "16 + var_end v \<le> length buf" if "v \<in> set vars" for v
    using assms laid_out_last [OF _ that] by (auto simp: raw_carries_def packable_def raw_valid_def good_header_def)
  with assms show ?thesis by (auto simp: raw_carries_def raw_valid_append var_slice_append)
qed

lemma raw_unpack_carries:
  assumes "raw_carries ks raw magic buf vars" and "\<forall>v \<in> set vars0. wf_var v"
    and "var_layout vars0 = var_layout vars"
  shows "\<exists>vars'. backend_format_raw_unpack raw vars0 buf = (Inr (), vars') \<and> map sv_raw vars' = map sv_raw vars
    \<and> (\<forall>v \<in> set vars'. wf_var v) \<and> var_layout vars' = var_layout vars \<and> map sv_name vars' = map sv_name vars0"
proof -
  let ?E = "var_end (last vars)" and ?vars = "map (\<lambda>v. sv_set_raw v (var_slice buf v)) vars0"
  have c: "packable vars" "good_header magic ?E buf" "\<forall>v \<in> set vars. var_slice buf v = sv_raw v"
    using assms(1) by (auto simp: raw_carries_def raw_valid_def)
  have len: "length vars0 = length vars" using assms(3) by (metis length_map var_layout_def)
  have pt: "sv_start (vars0 ! i) = sv_start (vars ! i)" "sv_size (vars0 ! i) = sv_size (vars ! i)"
    if "i < length vars" for i
    using assms(3) that len by (auto simp: var_layout_def list_eq_iff_nth_eq)
  have "\<forall>v \<in> set vars0. var_end v \<le> ?E"
  proof
    fix v assume "v \<in> set vars0"
    then obtain i where i: "i < length vars" "v = vars0 ! i" using len by (auto simp: in_set_conv_nth)
    have "var_end v = var_end (vars ! i)" using pt [OF i(1)] i(2) by (simp add: var_end_def)
    also have "\<dots> \<le> ?E" by (rule laid_out_last) (use c(1) i(1) in \<open>auto simp: packable_def\<close>)
    finally show "var_end v \<le> ?E" .
  qed
  then have u: "backend_format_raw_unpack raw vars0 buf = (Inr (), ?vars)"
    by (rule raw_unpack_valid [OF c(2)])
  have raws: "map sv_raw ?vars = map sv_raw vars"
  proof (rule nth_equalityI)
    fix i assume "i < length (map sv_raw ?vars)"
    then have i: "i < length vars" using len by simp
    have w: "wf_var (vars0 ! i)" "wf_var (vars ! i)"
      using assms(2) c(1) i len by (auto simp: packable_def)
    have s: "var_slice buf (vars0 ! i) = sv_raw (vars ! i)"
      using c(3) i pt [OF i] by (auto simp: var_slice_def)
    show "map sv_raw ?vars ! i = map sv_raw vars ! i"
      using i len raw_set_raw [OF w(1)] s length_sv_raw [OF w(2)] pt [OF i] by simp
  qed (simp add: len)
  have "var_layout ?vars = var_layout vars"
    using assms(3) by (simp add: var_layout_def comp_def)
  with u raws assms(2) show ?thesis by (auto simp: wf_set_raw comp_def)
qed

interpretation raw: state_format "raw_ok ks" same_format "backend_format_raw_pack ks"
    "backend_format_raw_verify ks" backend_format_raw_unpack packable "raw_carries ks" for ks
proof
  fix f f' :: format_raw and vars vars0 magic buf junk
  show "\<exists>buf f'. backend_format_raw_pack ks f magic vars = (Inr buf, f') \<and> raw_ok ks f' \<and> same_format f f'
      \<and> raw_carries ks f magic buf vars" if "raw_ok ks f" "packable vars"
    using raw_pack_valid [OF that, of magic] that(2) unfolding raw_carries_def by blast
  show "\<exists>len f'. backend_format_raw_verify ks f magic buf (length buf) False = ((Inr (), len), f')
      \<and> raw_ok ks f' \<and> same_format f f' \<and> len \<le> length buf" if "raw_ok ks f" "raw_carries ks f magic buf vars"
    using raw_verify_valid [OF that(1), of magic "var_end (last vars)" buf] that(2)
    by (auto simp: raw_carries_def raw_valid_def)
  show "raw_carries ks f magic (buf @ junk) vars" if "raw_carries ks f magic buf vars"
    using that by (rule raw_carries_append)
  show "raw_carries ks f' magic buf vars" if "same_format f f'" "raw_carries ks f magic buf vars"
    using that by (simp add: raw_carries_def raw_valid_def same_format_mac)
qed (rule raw_unpack_carries)

section \<open>Properties\<close>

text \<open>
  C6: The raw format round trips: a state whose variables are well-formed and laid out within 64 KiB is
  packed successfully, with or without an HMAC; the packed buffer, followed by arbitrary bytes as it comes back
  from a bucket, passes verification; and unpacking it into variables of the same layout but any contents
  restores the contents of every variable.
\<close>

theorem raw_pack_verify_unpack:
  assumes "raw_ok ks f" and "packable vars" and "\<forall>v \<in> set vars0. wf_var v"
    and "var_layout vars0 = var_layout vars"
  shows "\<exists>buf f1 len f2 vars'. backend_format_raw_pack ks f magic vars = (Inr buf, f1)
    \<and> backend_format_raw_verify ks f1 magic (buf @ junk) (length (buf @ junk)) False = ((Inr (), len), f2)
    \<and> backend_format_raw_unpack f2 vars0 (buf @ junk) = (Inr (), vars')
    \<and> map sv_raw vars' = map sv_raw vars \<and> map sv_name vars' = map sv_name vars0"
  using assms by (rule raw.roundtrip)

definition demo_vars :: "u32 \<Rightarrow> u32 \<Rightarrow> state_variable list" where
  "demo_vars a b = [(new_var STATE_VARIABLE_TYPE_UINT32 4 (Var_u32 a 0))\<lparr>sv_name := ''a''\<rparr>,
     (new_var STATE_VARIABLE_TYPE_UINT8 1 (Var_u32 b 0))\<lparr>sv_name := ''b'', sv_start := 4\<rparr>]"

definition demo_raw :: format_raw where
  "demo_raw = \<lparr>fr_digest = None, fr_digest_length = 0, fr_secret_name = ''state'',
     fr_algo = Some ''hmac(sha256)''\<rparr>"

lemma demo_vars_ok: "packable (demo_vars a b)" "\<forall>v \<in> set (demo_vars a b). wf_var v"
    "var_layout (demo_vars a b) = var_layout (demo_vars c d)"
  by (simp_all add: packable_def demo_vars_def new_var_def wf_var_def var_end_def var_layout_def)

lemma demo_raw_ok: "raw_ok (\<lambda>_. Inr [1, 2, 3]) demo_raw"
  by (simp add: raw_ok_def demo_raw_def)

theorem raw_pack_verify_unpack_witness:
  "\<exists>buf f1 len f2 vars'.
      backend_format_raw_pack (\<lambda>_. Inr [1, 2, 3]) demo_raw 0x1234 (demo_vars 7 9) = (Inr buf, f1)
    \<and> backend_format_raw_verify (\<lambda>_. Inr [1, 2, 3]) f1 0x1234 (buf @ [0xff]) (length (buf @ [0xff])) False
        = ((Inr (), len), f2)
    \<and> backend_format_raw_unpack f2 (demo_vars 0 0) (buf @ [0xff]) = (Inr (), vars')
    \<and> map sv_raw vars' = map sv_raw (demo_vars 7 9) \<and> map sv_name vars' = map sv_name (demo_vars 0 0)"
  by (rule raw_pack_verify_unpack [OF demo_raw_ok demo_vars_ok(1,2,3)])

lemma digest_verify_accepts:
  "digest_generic_verify d md = (Inr (), d') \<Longrightarrow> digest_final d = Inr (tmp, d'') \<Longrightarrow>
     take (digest_length d) md = take (digest_length d) tmp \<and> digest_length d \<le> length md"
  by (auto simp: digest_generic_verify_def Let_def not_less split: if_splits)

text \<open>
  C7: Verification accepts nothing but intact and authentic data: when \<open>verify\<close> succeeds, the header checksum and the
  data checksum hold, the data fits in the buffer, the magic is the expected one (unless none is expected), the
  returned length covers header and data, and, for a format with an algorithm, the bytes behind the data are
  the HMAC of header and data under the stored key.
\<close>

theorem raw_verify_sound:
  assumes "backend_format_raw_verify ks raw magic buf (length buf) False = ((Inr (), len), raw')"
    and "raw_ok ks raw"
  shows "len = 16 + unat (h_data_len (header_of buf)) \<and> len \<le> length buf
    \<and> crc32 0 (take 12 buf) = h_header_crc (header_of buf)
    \<and> crc32 0 (take (len - 16) (drop 16 buf)) = h_data_crc (header_of buf)
    \<and> (magic = 0 \<or> h_magic (header_of buf) = magic)
    \<and> take (raw_mac_len raw) (drop len buf) = raw_mac ks raw (take len buf)"
proof (cases "fr_algo raw")
  case None
  with assms show ?thesis
    by (auto simp: backend_format_raw_verify_def Let_def format_raw_min_length_def raw_mac_len_def
        raw_mac_def split: if_splits)
next
  case (Some algo)
  let ?n = "unat (h_data_len (header_of buf))"
  have "?n < 2 ^ 16" using unsigned_less [of "h_data_len (header_of buf)", where ?'a = nat] by simp
  then have "length (take (16 + ?n) buf) \<le> digest_limit" by (simp add: digest_limit_def)
  from raw_digest_run [OF assms(2) Some this] obtain d d1 d2 raw1 where r:
      "backend_raw_digest_init ks raw = (Inr (), raw1)" "fr_digest raw1 = Some d"
      "digest_length d = raw_mac_len raw" "digest_update d (take (16 + ?n) buf) = Inr d1"
      "digest_length d1 = raw_mac_len raw"
      "digest_final d1 = Inr (raw_mac ks raw (take (16 + ?n) buf), d2)"
      "length (raw_mac ks raw (take (16 + ?n) buf)) = raw_mac_len raw"
    by blast
  obtain d3 where v: "digest_generic_verify d1 (drop (16 + ?n) buf) = (Inr (), d3)"
      and rest: "len = ?n + 16" "16 + ?n \<le> length buf" "crc32 0 (take 12 buf) = h_header_crc (header_of buf)"
        "crc32 0 (take ?n (drop 16 buf)) = h_data_crc (header_of buf)"
        "magic = 0 \<or> h_magic (header_of buf) = magic"
    using assms(1) Some r
    by (auto simp: backend_format_raw_verify_def Let_def format_raw_min_length_def raw_verify_hmac_def
        split: if_splits prod.splits)
  from digest_verify_accepts [OF v r(6)] r(5,7) rest show ?thesis by (simp add: add.commute)
qed

definition demo_plain :: format_raw where
  "demo_plain = \<lparr>fr_digest = None, fr_digest_length = 0, fr_secret_name = [], fr_algo = None\<rparr>"

text \<open>The header of the one byte state \<open>2a\<close> with magic 1.\<close>

definition demo_header :: bytes where
  "demo_header = [0x01, 0x00, 0x00, 0x00, 0x00, 0x00, 0x01, 0x00, 0x5b, 0x26, 0xb9, 0x09, 0x01, 0x46, 0x3b, 0x47]"

lemma demo_header_ok:
  "header_of (demo_header @ r) = \<lparr>h_magic = 1, h_reserved = 0, h_data_len = 1, h_data_crc = 0x9b9265b,
     h_header_crc = 0x473b4601\<rparr>"
  "crc32 0 (take 12 demo_header) = 0x473b4601" "length demo_header = 16"
  "crc32 0 [0x2a] = 0x9b9265b"
  by (simp_all add: demo_header_def header_of_def get_le32_def get_le16_def get_unaligned_be32_def
      get_unaligned_be16_def crc32_eval crc_byte_def crc_eval)

lemma demo_verify:
  "backend_format_raw_verify (\<lambda>_. Inl ENOENT) demo_plain 1 (demo_header @ [0x2a]) 17 False = ((Inr (), 17), demo_plain)"
  by (simp add: backend_format_raw_verify_def Let_def demo_header_ok demo_plain_def format_raw_min_length_def)

theorem raw_verify_sound_witness:
  "crc32 0 (take 1 (drop 16 (demo_header @ [0x2a]))) = h_data_crc (header_of (demo_header @ [0x2a]))
    \<and> ((1 :: u32) = 0 \<or> h_magic (header_of (demo_header @ [0x2a])) = 1)"
  using raw_verify_sound [of "\<lambda>_. Inl ENOENT" demo_plain 1 "demo_header @ [0x2a]" 17 demo_plain] demo_verify
  by (simp add: demo_header_ok raw_ok_def demo_plain_def)

text \<open>
  Damage to the data is detected: if a buffer passed the data checksum, then the same buffer with any change
  confined to four consecutive bytes of its data part is rejected with \<open>EINVAL\<close>, with or without
  authentication.
\<close>

theorem raw_verify_detects_burst:
  assumes "crc32 0 (take n (drop 16 (p @ x @ s))) = h_data_crc (header_of (p @ x @ s))"
    and "n = unat (h_data_len (header_of (p @ x @ s)))" and "16 \<le> length p"
    and "length p + length x \<le> 16 + n" and "length x = length y" and "length x \<le> 4" and "x \<noteq> y"
    and "raw_ok ks raw" and "16 + n \<le> length (p @ x @ s)"
  shows "\<exists>len raw'. backend_format_raw_verify ks raw magic (p @ y @ s) (length (p @ y @ s)) na
    = ((Inl EINVAL, len), raw')"
proof -
  have h: "header_of (p @ z) = header_of p" for z using assms(3) by (rule header_of_append)
  define q where "q = drop 16 p"
  have sl: "take n (drop 16 (p @ z @ s)) = q @ z @ take (n - length q - length z) s"
    if "length z = length x" for z
    using that assms(3,4) by (simp add: q_def)
  have "crc32 0 (q @ x @ take (n - length q - length x) s) \<noteq> crc32 0 (q @ y @ take (n - length q - length x) s)"
    using assms(5,6,7) by (rule crc32_burst)
  then have bad: "crc32 0 (take n (drop 16 (p @ y @ s))) \<noteq> h_data_crc (header_of (p @ y @ s))"
    using assms(1,5) sl [of x] sl [of y] by (simp add: h)
  have n: "n = unat (h_data_len (header_of (p @ y @ s)))" using assms(2) by (simp add: h)
  have "\<exists>raw1. (if fr_algo raw \<noteq> None \<and> \<not> na then backend_raw_digest_init ks raw else (Inr (), raw)) = (Inr (), raw1)"
    using raw_digest_init_ok [OF assms(8)] by (cases "fr_algo raw") auto
  then obtain raw1 where
    "(if fr_algo raw \<noteq> None \<and> \<not> na then backend_raw_digest_init ks raw else (Inr (), raw)) = (Inr (), raw1)" by blast
  then show ?thesis
    using bad unfolding n by (simp add: backend_format_raw_verify_def Let_def)
qed

theorem raw_verify_detects_burst_witness:
  "\<exists>len raw'. backend_format_raw_verify (\<lambda>_. Inl ENOENT) demo_plain 1 (demo_header @ [0x2b] @ [])
     (length (demo_header @ [0x2b] @ [])) False = ((Inl EINVAL, len), raw')"
  by (rule raw_verify_detects_burst [where n = 1 and x = "[0x2a]"])
    (simp_all add: demo_header_ok raw_ok_def demo_plain_def)

lemma pack_loop_succeeds:
  "\<forall>v \<in> set vars. wf_var v \<and> 16 + var_end v \<le> length buf \<Longrightarrow>
     \<exists>buf'. pack_loop buf vars = Inr buf' \<and> length buf' = length buf"
proof (induction vars arbitrary: buf)
  case (Cons v vars)
  then have "16 + unat (sv_start v) \<le> length buf" by (auto simp: var_end_def)
  then have "\<forall>w \<in> set vars. wf_var w \<and> 16 + var_end w \<le> length (mem_put buf (16 + unat (sv_start v)) (sv_raw v))"
    using Cons.prems by auto
  from Cons.IH [OF this] Cons.prems \<open>16 + unat (sv_start v) \<le> length buf\<close> show ?case
    by (auto simp: var_end_def add.assoc)
qed simp

lemma unpack_loop_short:
  assumes "v \<in> set vars" and "unat (h_data_len (header_of buf)) < unat (sv_start v + sv_size v)"
  shows "\<exists>e. fst (unpack_loop buf vars r) = Inl e"
proof -
  have err: "\<exists>e. fst (unpack_loop buf us (Inl e0)) = Inl e" for us e0
    by (induction us arbitrary: e0) (auto split: prod.splits, (metis fst_conv)+)
  show ?thesis
    using assms(1)
  proof (induction vars arbitrary: r)
    case (Cons w vars)
    show ?case
    proof (cases "v = w")
      case True
      with assms(2) err [of vars ENOSPC] show ?thesis by (auto split: prod.splits)
    next
      case False
      with Cons have "\<exists>e. fst (unpack_loop buf vars r) = Inl e" for r by auto
      then show ?thesis using err by (auto split: prod.splits) (metis fst_conv)+
    qed
  qed simp
qed

text \<open>
  The data length of the header is 16 bits wide and is not checked when packing: a state of 64 KiB or
  more is packed without an error, but the header records its length modulo 65536, and unpacking the very buffer
  that was packed fails.
\<close>

theorem raw_pack_truncates_length:
  assumes "fr_algo raw = None" and "fr_digest_length raw = 0" and "vars \<noteq> []" and "\<forall>v \<in> set vars. wf_var v"
    and "laid_out vars" and "2 ^ 16 \<le> var_end (last vars)" and "var_end (last vars) < 2 ^ 31"
  shows "\<exists>buf. backend_format_raw_pack ks raw magic vars = (Inr buf, raw)
    \<and> unat (h_data_len (header_of buf)) = var_end (last vars) mod 2 ^ 16
    \<and> (\<exists>e. fst (backend_format_raw_unpack raw vars buf) = Inl e)"
proof -
  let ?E = "var_end (last vars)" and ?sd = "sv_start (last vars) + sv_size (last vars)"
  have sd: "unat ?sd = ?E" by (rule unat_var_end) (use assms(7) in simp)
  have "unat (?sd + 16) = unat ?sd + unat (16 :: u32)"
    by (intro unat_add_lem [THEN iffD1]) (use assms(7) sd in simp)
  then have sf: "unat (?sd + 16) = 16 + ?E" using sd by simp
  have "\<forall>v \<in> set vars. wf_var v \<and> 16 + var_end v \<le> length (replicate (16 + ?E) (0 :: u8))"
    using assms(4) laid_out_last [OF assms(5)] by auto
  from pack_loop_succeeds [OF this] obtain buf1 where
    b: "pack_loop (replicate (16 + ?E) 0) vars = Inr buf1" "length buf1 = 16 + ?E" by auto
  let ?b = "pack_header magic buf1 ?sd"
  have p: "backend_format_raw_pack ks raw magic vars = (Inr ?b, raw)"
    using assms(1,2,3) b sd sf by (simp add: backend_format_raw_pack_def Let_def)
  have "h_data_len (header_of ?b) = ucast ?sd"
    using b(2) by (simp add: pack_header_def Let_def mem_put_fits)
  then have len: "unat (h_data_len (header_of ?b)) = ?E mod 2 ^ 16"
    using sd by (simp add: unsigned_ucast_eq take_bit_eq_mod)
  then have "unat (h_data_len (header_of ?b)) < unat ?sd"
    using sd assms(6) by (simp add: less_le_trans [OF mod_less_divisor])
  from unpack_loop_short [OF last_in_set [OF assms(3)] this] p len show ?thesis
    by (auto simp: backend_format_raw_unpack_def)
qed

definition demo_big :: "state_variable list" where
  "demo_big = [(new_var STATE_VARIABLE_TYPE_UINT32 4 (Var_u32 1 0))\<lparr>sv_start := 65536\<rparr>]"

theorem raw_pack_truncates_length_witness:
  "\<exists>buf. backend_format_raw_pack (\<lambda>_. Inl ENOENT) demo_plain 1 demo_big = (Inr buf, demo_plain)
    \<and> unat (h_data_len (header_of buf)) = 4
    \<and> (\<exists>e. fst (backend_format_raw_unpack demo_plain demo_big buf) = Inl e)"
  using raw_pack_truncates_length [of demo_plain demo_big "\<lambda>_. Inl ENOENT" 1]
  by (simp add: demo_plain_def demo_big_def new_var_def wf_var_def var_end_def)

end
