(* ===== verification/Medium.thy ===== *)
theory Medium
  imports DT_Prelude
begin

text \<open>
  The storage device behind a file descriptor and the helpers of \<open>src/dt/common.h\<close> on it: \<open>read_full\<close>,
  \<open>write_full\<close>, \<open>flush\<close>, \<open>erase\<close> and \<open>mtd_buf_all_ff\<close>.

  A device is its content, whether it is flash memory (where programming can only clear bits and erasing
  sets them), and a script of outcomes for the system calls to come.  With an empty script every call does
  its work; a script can make a call transfer less than asked, transfer nothing, or fail.  A loss of power is
  a script whose outcomes are failures from some point on.  A descriptor's position is passed explicitly, as
  every function of the sources seeks first.  A failing \<open>read\<close> or \<open>write\<close> returns \<open>-1\<close>, which the callers use
  as an errno; that value is \<open>EPERM\<close>.
\<close>

datatype io_outcome = Io_ok | Io_part nat | Io_zero | Io_err errno

record medium =
  m_bytes :: bytes
  m_flash :: bool
  m_script :: "io_outcome list"

definition next_io :: "medium \<Rightarrow> io_outcome \<times> medium" where
  "next_io m = (case m_script m of [] \<Rightarrow> (Io_ok, m) | x # s \<Rightarrow> (x, m\<lparr>m_script := s\<rparr>))"

definition healthy :: "medium \<Rightarrow> bool" where
  "healthy m \<longleftrightarrow> m_script m = []"

text \<open>What a program operation leaves in a cell.\<close>

definition program :: "medium \<Rightarrow> nat \<Rightarrow> bytes \<Rightarrow> medium" where
  "program m pos bs =
     (if m_flash m
      then m\<lparr>m_bytes := mem_put (m_bytes m) pos (map2 (AND) (take (length bs) (drop pos (m_bytes m))) bs)\<rparr>
      else m\<lparr>m_bytes := mem_put (m_bytes m) pos bs\<rparr>)"

section \<open>System calls\<close>

text \<open>\<open>read\<close> of at most \<open>n\<close> bytes: at the end of the device it returns no bytes.\<close>

definition sys_read :: "medium \<Rightarrow> nat \<Rightarrow> nat \<Rightarrow> bytes res \<times> medium" where
  "sys_read m pos n = (case next_io m of (out, m') \<Rightarrow>
     (case out of
        Io_ok \<Rightarrow> (Inr (take n (drop pos (m_bytes m))), m')
      | Io_part k \<Rightarrow> (Inr (take (min n (Suc k)) (drop pos (m_bytes m))), m')
      | Io_zero \<Rightarrow> (Inr [], m')
      | Io_err e \<Rightarrow> (Inl EPERM, m')))"

text \<open>\<open>write\<close>: the number of bytes written; past the end of the device it fails.\<close>

definition sys_write :: "medium \<Rightarrow> nat \<Rightarrow> bytes \<Rightarrow> nat res \<times> medium" where
  "sys_write m pos buf = (case next_io m of (out, m') \<Rightarrow>
     (let put = (\<lambda>k. let bs = take (min k (length (m_bytes m) - pos)) buf in
            if bs = [] then (Inl EPERM, m') else (Inr (length bs), program m' pos bs))
      in case out of
        Io_ok \<Rightarrow> put (length buf)
      | Io_part k \<Rightarrow> put (Suc k)
      | Io_zero \<Rightarrow> (Inr 0, m')
      | Io_err e \<Rightarrow> (Inl EPERM, m')))"

text \<open>A call that only succeeds or fails (\<open>lseek\<close>, \<open>fsync\<close>, \<open>open\<close>); it returns \<open>-errno\<close>.\<close>

definition sys_simple :: "medium \<Rightarrow> unit res \<times> medium" where
  "sys_simple m = (case next_io m of (out, m') \<Rightarrow>
     (case out of Io_err e \<Rightarrow> (Inl e, m') | _ \<Rightarrow> (Inr (), m')))"

definition flush :: "medium \<Rightarrow> unit res \<times> medium" where
  "flush m = (case sys_simple m of
     (Inl e, m') \<Rightarrow> (if e = EINVAL then Inr () else Inl e, m') | (Inr _, m') \<Rightarrow> (Inr (), m'))"

text \<open>\<open>ioctl (MEMERASE)\<close> sets a range to ones; a failing call returns \<open>-1\<close>.\<close>

definition erase :: "medium \<Rightarrow> nat \<Rightarrow> nat \<Rightarrow> unit res \<times> medium" where
  "erase m count offset = (case next_io m of (out, m') \<Rightarrow>
     (case out of
        Io_err e \<Rightarrow> (Inl EPERM, m')
      | _ \<Rightarrow> (Inr (), m'\<lparr>m_bytes := mem_put (m_bytes m) offset (replicate count 0xff)\<rparr>)))"

section \<open>Full reads and writes\<close>

text \<open>The bytes read, fewer than asked only at the end of the file.\<close>

function read_full :: "medium \<Rightarrow> nat \<Rightarrow> nat \<Rightarrow> bytes \<Rightarrow> bytes res \<times> medium" where
  "read_full m pos n acc =
     (if n = 0 then (Inr acc, m)
      else (case sys_read m pos n of
         (Inl e, m') \<Rightarrow> (Inl e, m')
       | (Inr bs, m') \<Rightarrow> if bs = [] then (Inr acc, m')
           else read_full m' (pos + length bs) (n - length bs) (acc @ bs)))"
  by pat_completeness auto
termination
  by (relation "measure (\<lambda>(m, pos, n, acc). n)") auto

text \<open>A \<open>write\<close> that returns \<open>0\<close> ends the loop with the result \<open>0\<close>.\<close>

function write_full :: "medium \<Rightarrow> nat \<Rightarrow> bytes \<Rightarrow> nat \<Rightarrow> nat res \<times> medium" where
  "write_full m pos buf insize =
     (if buf = [] then (Inr insize, m)
      else (case sys_write m pos buf of
         (Inl e, m') \<Rightarrow> (Inl e, m')
       | (Inr now, m') \<Rightarrow> if now = 0 then (Inr 0, m')
           else write_full m' (pos + now) (drop now buf) insize))"
  by pat_completeness auto
termination
  by (relation "measure (\<lambda>(m, pos, buf, insize). length buf)") auto

declare read_full.simps [simp del] write_full.simps [simp del]

section \<open>Healthy devices\<close>

lemma next_io_healthy [simp]: "healthy m \<Longrightarrow> next_io m = (Io_ok, m)"
  by (simp add: next_io_def healthy_def)

lemma healthy_update [simp]:
  "healthy (m\<lparr>m_bytes := b\<rparr>) = healthy m" "healthy (program m pos bs) = healthy m"
  by (simp_all add: healthy_def program_def)

lemma sys_simple_healthy [simp]: "healthy m \<Longrightarrow> sys_simple m = (Inr (), m)"
  by (simp add: sys_simple_def)

lemma flush_healthy [simp]: "healthy m \<Longrightarrow> flush m = (Inr (), m)"
  by (simp add: flush_def)

lemma erase_healthy [simp]:
  "healthy m \<Longrightarrow> erase m n ofs = (Inr (), m\<lparr>m_bytes := mem_put (m_bytes m) ofs (replicate n 0xff)\<rparr>)"
  by (simp add: erase_def)

lemma read_full_healthy:
  assumes "healthy m"
  shows "read_full m pos n acc = (Inr (acc @ take n (drop pos (m_bytes m))), m)"
proof (cases "n = 0 \<or> drop pos (m_bytes m) = []")
  case True
  with assms show ?thesis
    by (auto simp: read_full.simps [of m pos n acc] sys_read_def)
next
  case False
  let ?b = "take n (drop pos (m_bytes m))"
  have r: "read_full m pos n acc = read_full m (pos + length ?b) (n - length ?b) (acc @ ?b)"
    using False assms by (subst read_full.simps) (auto simp: sys_read_def)
  have "read_full m (pos + length ?b) (n - length ?b) (acc @ ?b) = (Inr (acc @ ?b), m)"
  proof (cases "n \<le> length (m_bytes m) - pos")
    case True
    then show ?thesis by (subst read_full.simps) simp
  next
    case False
    with assms show ?thesis by (subst read_full.simps) (auto simp: sys_read_def)
  qed
  then show ?thesis using r by simp
qed

lemma write_full_healthy:
  assumes "healthy m" and "pos + length buf \<le> length (m_bytes m)"
  shows "write_full m pos buf insize = (Inr insize, if buf = [] then m else program m pos buf)"
proof (cases "buf = []")
  case False
  with assms show ?thesis
    by (subst write_full.simps) (auto simp: sys_write_def Let_def write_full.simps [of _ _ "[]"])
qed (simp add: write_full.simps)

section \<open>What a write can reach\<close>

text \<open>\<open>only_changes a n m m'\<close>: the devices agree in size and kind and outside the range \<open>a ..< a + n\<close>.\<close>

definition only_changes :: "nat \<Rightarrow> nat \<Rightarrow> medium \<Rightarrow> medium \<Rightarrow> bool" where
  "only_changes a n m m' \<longleftrightarrow> length (m_bytes m') = length (m_bytes m) \<and> m_flash m' = m_flash m
     \<and> (\<forall>i. i < a \<or> a + n \<le> i \<longrightarrow> m_bytes m' ! i = m_bytes m ! i)"

lemma only_changes_refl [simp]: "only_changes a n m m"
  by (simp add: only_changes_def)

lemma only_changes_trans:
  "only_changes a n m m' \<Longrightarrow> only_changes a n m' m'' \<Longrightarrow> only_changes a n m m''"
  by (simp add: only_changes_def)

lemma only_changes_widen:
  "only_changes a n m m' \<Longrightarrow> b \<le> a \<Longrightarrow> a + n \<le> b + k \<Longrightarrow> only_changes b k m m'"
  by (auto simp: only_changes_def)

lemma only_changes_script [simp]: "only_changes a n m (m\<lparr>m_script := s\<rparr>)"
  by (simp add: only_changes_def)

lemma next_io_changes: "next_io m = (out, m') \<Longrightarrow> m_bytes m' = m_bytes m \<and> m_flash m' = m_flash m"
  by (auto simp: next_io_def split: list.splits)

lemma only_changes_io: "m_bytes m' = m_bytes m \<Longrightarrow> m_flash m' = m_flash m \<Longrightarrow> only_changes a n m m'"
  by (simp add: only_changes_def)

lemma program_changes:
  assumes "pos + length bs \<le> length (m_bytes m)"
  shows "only_changes pos (length bs) m (program m pos bs)"
proof -
  have *: "only_changes pos (length bs) m (m\<lparr>m_bytes := mem_put (m_bytes m) pos cs\<rparr>)"
    if "length cs = length bs" for cs
    unfolding only_changes_def
  proof (intro conjI allI impI)
    fix i assume i: "i < pos \<or> pos + length bs \<le> i"
    show "m_bytes (m\<lparr>m_bytes := mem_put (m_bytes m) pos cs\<rparr>) ! i = m_bytes m ! i"
      using i assms that by (auto simp: mem_put_fits nth_append)
  qed (use assms in simp_all)
  show ?thesis unfolding program_def
    using assms by (auto intro!: * simp: min_absorb2)
qed

lemma sys_write_changes:
  "sys_write m pos buf = (r, m') \<Longrightarrow> only_changes pos (length buf) m m'"
proof -
  assume w: "sys_write m pos buf = (r, m')"
  obtain out m1 where n: "next_io m = (out, m1)" by fastforce
  have b: "m_bytes m1 = m_bytes m" "m_flash m1 = m_flash m" using next_io_changes [OF n] by auto
  have o1: "only_changes pos (length buf) m m1" using b by (simp add: only_changes_io)
  have put: "only_changes pos (length buf) m (program m1 pos (take (min k (length (m_bytes m) - pos)) buf))"
    if "take (min k (length (m_bytes m) - pos)) buf \<noteq> []" for k
  proof -
    let ?t = "take (min k (length (m_bytes m) - pos)) buf"
    have "pos + length ?t \<le> length (m_bytes m1)" using that b by auto
    from only_changes_widen [OF program_changes [OF this], of pos "length buf"]
    have "only_changes pos (length buf) m1 (program m1 pos ?t)" by simp
    with o1 show ?thesis by (rule only_changes_trans)
  qed
  show ?thesis
    using w put o1 unfolding sys_write_def n
    by (auto simp: Let_def split: io_outcome.splits if_splits)
qed

lemma write_full_changes:
  "write_full m pos buf insize = (r, m') \<Longrightarrow> only_changes pos (length buf) m m'"
proof (induction m pos buf insize rule: write_full.induct)
  case (1 m pos buf insize)
  obtain r1 m1 where w: "sys_write m pos buf = (r1, m1)" by fastforce
  have c: "only_changes pos (length buf) m m1" by (rule sys_write_changes [OF w])
  show ?case
  proof (cases "buf \<noteq> [] \<and> (\<exists>now. r1 = Inr now \<and> now \<noteq> 0)")
    case True
    then obtain now where now: "r1 = Inr now" "now \<noteq> 0" "buf \<noteq> []" by auto
    have le: "now \<le> length buf"
      using w now(1) by (auto simp: sys_write_def Let_def split: prod.splits io_outcome.splits if_splits)
    have "write_full m1 (pos + now) (drop now buf) insize = (r, m')"
      using "1.prems" now w by (subst (asm) write_full.simps) simp
    from "1.IH" [OF now(3) w [symmetric] now(1) now(2) this]
    have "only_changes (pos + now) (length (drop now buf)) m1 m'" .
    then have "only_changes pos (length buf) m1 m'"
      by (rule only_changes_widen) (use le in auto)
    with c show ?thesis by (rule only_changes_trans)
  next
    case False
    then show ?thesis
      using "1.prems" w c by (subst (asm) write_full.simps) (auto split: sum.splits if_splits)
  qed
qed

lemma sys_simple_changes: "sys_simple m = (r, m') \<Longrightarrow> only_changes a n m m'"
  by (auto simp: sys_simple_def split: prod.splits io_outcome.splits dest!: next_io_changes intro: only_changes_io)

lemma flush_changes: "flush m = (r, m') \<Longrightarrow> only_changes a n m m'"
  by (auto simp: flush_def split: prod.splits sum.splits dest!: sys_simple_changes [where a = a and n = n])

lemma erase_changes:
  assumes "erase m count ofs = (r, m')" and "ofs + count \<le> length (m_bytes m)"
  shows "only_changes ofs count m m'"
proof -
  obtain out m1 where n: "next_io m = (out, m1)" by fastforce
  have b: "m_bytes m1 = m_bytes m" "m_flash m1 = m_flash m" using next_io_changes [OF n] by auto
  have "only_changes ofs count m (m1\<lparr>m_bytes := mem_put (m_bytes m) ofs (replicate count 0xff)\<rparr>)"
    using assms(2) b by (auto simp: only_changes_def nth_append mem_put_fits)
  moreover have "only_changes ofs count m m1" using b by (simp add: only_changes_io)
  ultimately show ?thesis
    using assms(1) unfolding erase_def n by (auto split: io_outcome.splits)
qed

lemma read_full_changes:
  "read_full m pos n acc = (r, m') \<Longrightarrow> m_bytes m' = m_bytes m \<and> m_flash m' = m_flash m"
proof (induction m pos n acc rule: read_full.induct)
  case (1 m pos n acc)
  obtain r1 m1 where w: "sys_read m pos n = (r1, m1)" by fastforce
  have c: "m_bytes m1 = m_bytes m \<and> m_flash m1 = m_flash m"
    using w by (auto simp: sys_read_def split: prod.splits io_outcome.splits dest: next_io_changes)
  show ?case
  proof (cases "n \<noteq> 0 \<and> (\<exists>bs. r1 = Inr bs \<and> bs \<noteq> [])")
    case True
    then obtain bs where bs: "r1 = Inr bs" "bs \<noteq> []" "n \<noteq> 0" by auto
    have "read_full m1 (pos + length bs) (n - length bs) (acc @ bs) = (r, m')"
      using "1.prems" bs w by (subst (asm) read_full.simps) simp
    from "1.IH" [OF bs(3) w [symmetric] bs(1,2) this] c show ?thesis by simp
  next
    case False
    then show ?thesis
      using "1.prems" w c by (subst (asm) read_full.simps) (auto split: sum.splits if_splits)
  qed
qed

text \<open>
  The documentation of \<open>write_full\<close> says that it writes everything or returns an error; a \<open>write\<close> that
  returns \<open>0\<close> makes it return \<open>0\<close>, which its callers do not take for one.
\<close>

lemma write_full_zero:
  "buf \<noteq> [] \<Longrightarrow> m_script m = Io_zero # s \<Longrightarrow>
     write_full m pos buf insize = (Inr 0, m\<lparr>m_script := s\<rparr>)"
  by (subst write_full.simps) (simp add: sys_write_def next_io_def Let_def)

section \<open>Erased ranges\<close>

text \<open>
  \<open>mtd_buf_all_ff\<close>: bytes up to the first word boundary, then words, then bytes.  \<open>addr\<close> is the address of the
  buffer.
\<close>

fun ff_head :: "nat \<Rightarrow> bytes \<Rightarrow> bool + bytes" where
  "ff_head addr [] = Inl True"
| "ff_head addr (b # bs) =
     (if addr mod 4 = 0 then Inr (b # bs)
      else if b \<noteq> 0xff then Inl False
      else if bs = [] then Inl True else ff_head (Suc addr) bs)"

fun ff_words :: "bytes \<Rightarrow> bool + bytes" where
  "ff_words (a # b # c # d # bs) =
     (if get_le32 [a, b, c, d] \<noteq> 0xffffffff then Inl False
      else if bs = [] then Inl True else ff_words bs)"
| "ff_words bs = Inr bs"

definition mtd_buf_all_ff :: "nat \<Rightarrow> bytes \<Rightarrow> bool" where
  "mtd_buf_all_ff addr buf = (case ff_head addr buf of
     Inl r \<Rightarrow> r
   | Inr rest \<Rightarrow> (case ff_words rest of Inl r \<Rightarrow> r | Inr tail \<Rightarrow> list_all (\<lambda>b. b = 0xff) tail))"

lemma word_ff: "get_le32 [a, b, c, d] = 0xffffffff \<longleftrightarrow> a = 0xff \<and> b = 0xff \<and> c = 0xff \<and> d = 0xff"
proof -
  have f: "get_le32 [0xff, 0xff, 0xff, 0xff] = 0xffffffff"
    by (simp add: get_le32_def get_unaligned_be32_def)
  have "get_le32 [a, b, c, d] = get_le32 [0xff, 0xff, 0xff, 0xff] \<longleftrightarrow> [a, b, c, d] = [0xff, 0xff, 0xff, 0xff]"
    using put_get_le32 [of "[a, b, c, d]"] put_get_le32 [of "[0xff, 0xff, 0xff, 0xff]"] by auto
  then show ?thesis by (simp add: f)
qed

lemma ff_words_all:
  "(case ff_words bs of Inl r \<Rightarrow> r | Inr tail \<Rightarrow> list_all (\<lambda>b. b = 0xff) tail) = list_all (\<lambda>b. b = 0xff) bs"
  by (induction bs rule: ff_words.induct) (auto simp: word_ff)

lemma mtd_buf_all_ff_iff: "mtd_buf_all_ff addr buf \<longleftrightarrow> list_all (\<lambda>b. b = 0xff) buf"
proof -
  have "mtd_buf_all_ff addr buf = list_all (\<lambda>b. b = 0xff) buf"
    unfolding mtd_buf_all_ff_def
  proof (induction addr buf rule: ff_head.induct)
    case (2 addr b bs)
    then show ?case by (auto simp: ff_words_all simp del: ff_words.simps)
  qed simp
  then show ?thesis .
qed

end
