(* ===== verification/Bucket.thy ===== *)
theory Bucket
  imports Medium
begin

text \<open>
  The contract of a storage bucket (\<open>struct state_backend_storage_bucket\<close> of \<open>state.h\<close>), which the direct and
  the circular bucket implement and the storage layer uses.

  A bucket owns a region of the device.  \<open>holds b m data\<close> says that opening the bucket anew on the device \<open>m\<close>
  and reading it returns \<open>data\<close> (followed by padding); it depends on the bytes of the region only.
\<close>

definition same_region :: "nat \<times> nat \<Rightarrow> medium \<Rightarrow> medium \<Rightarrow> bool" where
  "same_region r m m' \<longleftrightarrow> length (m_bytes m') = length (m_bytes m) \<and> m_flash m' = m_flash m
     \<and> take (snd r) (drop (fst r) (m_bytes m')) = take (snd r) (drop (fst r) (m_bytes m))"

definition disjoint_regions :: "nat \<times> nat \<Rightarrow> nat \<times> nat \<Rightarrow> bool" where
  "disjoint_regions r s \<longleftrightarrow> fst r + snd r \<le> fst s \<or> fst s + snd s \<le> fst r"

lemma same_region_refl [simp]: "same_region r m m"
  by (simp add: same_region_def)

lemma same_region_trans: "same_region r m m' \<Longrightarrow> same_region r m' m'' \<Longrightarrow> same_region r m m''"
  by (simp add: same_region_def)

lemma same_region_script [simp]: "same_region r m (m\<lparr>m_script := s\<rparr>)"
  by (simp add: same_region_def)

lemma changes_elsewhere:
  assumes "only_changes a n m m'" and "disjoint_regions (a, n) r"
  shows "same_region r m m'"
  unfolding same_region_def
proof (intro conjI)
  show "take (snd r) (drop (fst r) (m_bytes m')) = take (snd r) (drop (fst r) (m_bytes m))"
  proof (rule nth_equalityI)
    fix i assume "i < length (take (snd r) (drop (fst r) (m_bytes m')))"
    then show "take (snd r) (drop (fst r) (m_bytes m')) ! i = take (snd r) (drop (fst r) (m_bytes m)) ! i"
      using assms by (auto simp: only_changes_def disjoint_regions_def)
  qed (use assms(1) in \<open>simp add: only_changes_def\<close>)
qed (use assms(1) in \<open>simp_all add: only_changes_def\<close>)

locale bucket_contract =
  fixes mk :: "'g \<Rightarrow> medium \<Rightarrow> 'b res \<times> medium"
    and wr :: "'b \<Rightarrow> medium \<Rightarrow> bytes \<Rightarrow> unit res \<times> 'b \<times> medium"
    and rd :: "'b \<Rightarrow> medium \<Rightarrow> bytes res \<times> 'b \<times> medium"
    and geo :: "'b \<Rightarrow> 'g" and region :: "'g \<Rightarrow> nat \<times> nat" and fits :: "'g \<Rightarrow> nat \<Rightarrow> bool"
    and binv :: "'b \<Rightarrow> medium \<Rightarrow> bool" and holds :: "'g \<Rightarrow> medium \<Rightarrow> bytes \<Rightarrow> bool"
  assumes write_law: "binv b m \<Longrightarrow> healthy m \<Longrightarrow> fits (geo b) (length data) \<Longrightarrow>
      \<exists>b' m'. wr b m data = (Inr (), b', m') \<and> healthy m' \<and> binv b' m' \<and> geo b' = geo b
        \<and> holds (geo b) m' data"
    and write_frame: "binv b m \<Longrightarrow> fits (geo b) (length data) \<Longrightarrow> wr b m data = (r, b', m') \<Longrightarrow>
      only_changes (fst (region (geo b))) (snd (region (geo b))) m m' \<and> geo b' = geo b \<and> binv b' m'"
    and open_law: "holds g m data \<Longrightarrow> healthy m \<Longrightarrow>
      \<exists>b b'. mk g m = (Inr b, m) \<and> geo b = g \<and> binv b m
        \<and> (\<exists>pad. rd b m = (Inr (data @ pad), b', m)) \<and> geo b' = g \<and> binv b' m"
    and binv_region: "same_region (region (geo b)) m m' \<Longrightarrow> binv b m \<Longrightarrow> binv b m'"
    and holds_region: "same_region (region g) m m' \<Longrightarrow> holds g m data \<Longrightarrow> holds g m' data"
begin

text \<open>A write to one bucket leaves what another bucket holds.\<close>

lemma holds_other:
  assumes "binv b m" and "fits (geo b) (length data)" and "wr b m data = (r, b', m')"
    and "disjoint_regions (region (geo b)) (region g)" and "holds g m d"
  shows "holds g m' d"
proof -
  have "only_changes (fst (region (geo b))) (snd (region (geo b))) m m'"
    using write_frame [OF assms(1-3)] by simp
  from changes_elsewhere [OF this] assms(4) have "same_region (region g) m m'" by simp
  then show ?thesis using assms(5) by (rule holds_region)
qed

lemma binv_other:
  assumes "binv b m" and "fits (geo b) (length data)" and "wr b m data = (r, b', m')"
    and "disjoint_regions (region (geo b)) (region (geo c))" and "binv c m"
  shows "binv c m'"
proof -
  have "only_changes (fst (region (geo b))) (snd (region (geo b))) m m'"
    using write_frame [OF assms(1-3)] by simp
  from changes_elsewhere [OF this] assms(4) have "same_region (region (geo c)) m m'" by simp
  then show ?thesis using assms(5) by (rule binv_region)
qed

text \<open>What is written is read back in the next session.\<close>

lemma write_open_read:
  assumes "binv b m" and "healthy m" and "fits (geo b) (length data)"
  shows "\<exists>b' m' b1 b2 pad. wr b m data = (Inr (), b', m') \<and> mk (geo b) m' = (Inr b1, m')
    \<and> rd b1 m' = (Inr (data @ pad), b2, m')"
  using write_law [OF assms] open_law by metis

end

end
