(* ===== verification/Bucket_Direct.thy ===== *)
theory Bucket_Direct
  imports Bucket
begin

text \<open>
  \<open>src/barebox-state/backend_bucket_direct.c\<close>: a bucket on a medium that needs no erase.  The data is preceded
  by a magic and its length when there is room for them; the option \<open>CONFIG_STATE_BACKWARD_COMPATIBLE\<close> (the parameter
  \<open>bcompat\<close>) also accepts media without that header.
\<close>

record bucket_direct =
  dir_offset :: nat
  dir_max_size :: nat
  dir_readonly :: bool

definition direct_magic :: u32 where
  "direct_magic = 0x2354fdf3"

definition direct_meta :: "u32 \<Rightarrow> bytes" where
  "direct_meta written_length = put_le32 direct_magic @ put_le32 written_length"

text \<open>Zero filled memory of \<open>n\<close> bytes into which \<open>bs\<close> was read.\<close>

definition read_into :: "nat \<Rightarrow> bytes \<Rightarrow> bytes" where
  "read_into n bs = bs @ replicate (n - length bs) 0"

text \<open>
  The result, whether \<open>bucket->wrong_magic\<close> is set, and the device.  \<open>stack\<close> is what the uninitialised \<open>meta\<close> holds
  before the read.
\<close>

definition direct_read_body :: "medium \<Rightarrow> nat \<Rightarrow> nat \<Rightarrow> bytes res \<times> medium" where
  "direct_read_body m pos read_len = (case read_full m pos read_len [] of
     (Inl e, m') \<Rightarrow> (Inl e, m') | (Inr bs, m') \<Rightarrow> (Inr (read_into read_len bs), m'))"

definition state_backend_bucket_direct_read ::
    "bool \<Rightarrow> bytes \<Rightarrow> bucket_direct \<Rightarrow> medium \<Rightarrow> (bytes res \<times> bool) \<times> medium" where
  "state_backend_bucket_direct_read bcompat stack direct m =
     (case sys_simple m of
        (Inl e, m1) \<Rightarrow> ((Inl e, False), m1)
      | (Inr _, m1) \<Rightarrow> (case read_full m1 (dir_offset direct) 8 [] of
            (Inl e, m2) \<Rightarrow> ((Inl e, False), m2)
          | (Inr bs, m2) \<Rightarrow>
              let meta = bs @ drop (length bs) stack;
                  magic = get_le32 meta
              in if magic = direct_magic then
                   (let read_len = unat (get_le32 (drop 4 meta)) in
                    if dir_max_size direct < read_len then ((Inl EINVAL, False), m2)
                    else (case direct_read_body m2 (dir_offset direct + length bs) read_len of
                        (r, m3) \<Rightarrow> ((r, False), m3)))
                 else
                   let wrong = (magic \<noteq> 0xffffffff \<and> magic \<noteq> 0) in
                   if \<not> bcompat then ((Inl EINVAL, wrong), m2)
                   else (case sys_simple m2 of
                       (Inl e, m3) \<Rightarrow> ((Inl e, wrong), m3)
                     | (Inr _, m3) \<Rightarrow> (case direct_read_body m3 (dir_offset direct) (dir_max_size direct) of
                           (r, m4) \<Rightarrow> ((r, wrong), m4)))))"

text \<open>\<open>len <= direct->max_size - sizeof (meta)\<close> is an unsigned comparison: the right side wraps below 8.\<close>

definition direct_head_room :: "bucket_direct \<Rightarrow> nat \<Rightarrow> bool" where
  "direct_head_room direct len \<longleftrightarrow> dir_max_size direct < 8 \<or> len \<le> dir_max_size direct - 8"

text \<open>\<open>write_full\<close> on the descriptor of the bucket: a \<open>write\<close> to one that was opened for reading only fails.\<close>

definition direct_write_full :: "bucket_direct \<Rightarrow> medium \<Rightarrow> nat \<Rightarrow> bytes \<Rightarrow> nat res \<times> medium" where
  "direct_write_full direct m pos buf =
     (if dir_readonly direct \<and> buf \<noteq> [] then (Inl EPERM, m) else write_full m pos buf (length buf))"

definition direct_write_data :: "bucket_direct \<Rightarrow> medium \<Rightarrow> nat \<Rightarrow> bytes \<Rightarrow> unit res \<times> medium" where
  "direct_write_data direct m pos buf = (case direct_write_full direct m pos buf of
     (Inl e, m1) \<Rightarrow> (Inl e, m1) | (Inr _, m1) \<Rightarrow> flush m1)"

definition state_backend_bucket_direct_write ::
    "bool \<Rightarrow> bucket_direct \<Rightarrow> medium \<Rightarrow> bytes \<Rightarrow> unit res \<times> medium" where
  "state_backend_bucket_direct_write bcompat direct m buf =
     (case sys_simple m of
        (Inl e, m1) \<Rightarrow> (Inl e, m1)
      | (Inr _, m1) \<Rightarrow>
          if direct_head_room direct (length buf) then
            (case direct_write_full direct m1 (dir_offset direct) (direct_meta (word_of_nat (length buf))) of
               (Inl e, m2) \<Rightarrow> (Inl e, m2)
             | (Inr n, m2) \<Rightarrow> direct_write_data direct m2 (dir_offset direct + n) buf)
          else if \<not> bcompat then (Inl EINVAL, m1)
          else direct_write_data direct m1 (dir_offset direct) buf)"

definition state_backend_bucket_direct_create :: "nat \<Rightarrow> nat \<Rightarrow> bool \<Rightarrow> medium \<Rightarrow> bucket_direct res \<times> medium" where
  "state_backend_bucket_direct_create offset max_size readonly m = (case sys_simple m of
     (Inl e, m1) \<Rightarrow> (Inl e, m1)
   | (Inr _, m1) \<Rightarrow> (Inr \<lparr>dir_offset = offset, dir_max_size = max_size, dir_readonly = readonly\<rparr>, m1))"

section \<open>The contract\<close>

text \<open>The bytes of a region that hold \<open>data\<close>; what can be written to a bucket.\<close>

definition direct_holds :: "bucket_direct \<Rightarrow> medium \<Rightarrow> bytes \<Rightarrow> bool" where
  "direct_holds d m data \<longleftrightarrow> 8 + length data \<le> dir_max_size d
     \<and> dir_offset d + dir_max_size d \<le> length (m_bytes m) \<and> dir_max_size d < 2 ^ 32
     \<and> take (8 + length data) (drop (dir_offset d) (m_bytes m)) = direct_meta (word_of_nat (length data)) @ data"

definition direct_inv :: "bucket_direct \<Rightarrow> medium \<Rightarrow> bool" where
  "direct_inv d m \<longleftrightarrow> \<not> m_flash m \<and> dir_offset d + dir_max_size d \<le> length (m_bytes m)
     \<and> dir_max_size d < 2 ^ 32"

definition direct_fits :: "bucket_direct \<Rightarrow> nat \<Rightarrow> bool" where
  "direct_fits d n \<longleftrightarrow> \<not> dir_readonly d \<and> 8 + n \<le> dir_max_size d"

lemma length_direct_meta [simp]: "length (direct_meta n) = 8"
  by (simp add: direct_meta_def)

lemma direct_meta_fields:
  "get_le32 (direct_meta n @ r) = direct_magic" "get_le32 (drop 4 (direct_meta n @ r)) = n"
  by (simp_all add: direct_meta_def)

lemma direct_read_holds:
  assumes "direct_holds d m data" and "healthy m"
  shows "state_backend_bucket_direct_read bcompat stack d m = ((Inr data, False), m)"
proof -
  let ?o = "dir_offset d"
  have h: "take (8 + length data) (drop ?o (m_bytes m)) = direct_meta (word_of_nat (length data)) @ data"
    and s: "8 + length data \<le> dir_max_size d" "dir_max_size d < 2 ^ 32"
    using assms(1) by (auto simp: direct_holds_def)
  have "take 8 (drop ?o (m_bytes m)) = take 8 (take (8 + length data) (drop ?o (m_bytes m)))" by simp
  then have meta: "take 8 (drop ?o (m_bytes m)) = direct_meta (word_of_nat (length data))"
    by (simp only: h) simp
  have "take (length data) (drop (?o + 8) (m_bytes m))
      = drop 8 (take (8 + length data) (drop ?o (m_bytes m)))"
    by (simp add: drop_take add.commute)
  then have body: "take (length data) (drop (?o + 8) (m_bytes m)) = data"
    by (simp only: h) simp
  have "unat (word_of_nat (length data) :: u32) = length data"
    using s by (simp add: unat_of_nat)
  then show ?thesis
    using assms(2) s direct_meta_fields [of "word_of_nat (length data)" "[]"] body
      direct_meta_fields(1) [of "word_of_nat (length data)" "drop 8 stack"]
      direct_meta_fields(2) [of "word_of_nat (length data)" "drop 8 stack"]
    by (simp add: state_backend_bucket_direct_read_def read_full_healthy meta Let_def direct_read_body_def
        read_into_def)
qed

lemma program_plain: "\<not> m_flash m \<Longrightarrow> program m pos bs = m\<lparr>m_bytes := mem_put (m_bytes m) pos bs\<rparr>"
  by (simp add: program_def)

lemma mem_put_append:
  assumes "pos + length a + length b \<le> length buf"
  shows "mem_put (mem_put buf pos a) (pos + length a) b = mem_put buf pos (a @ b)"
  using assms by (simp add: mem_put_fits ac_simps)

lemma direct_write_ok:
  assumes "direct_inv d m" and "healthy m" and "direct_fits d (length data)"
  shows "state_backend_bucket_direct_write bcompat d m data =
      (Inr (), m\<lparr>m_bytes := mem_put (m_bytes m) (dir_offset d)
         (direct_meta (word_of_nat (length data)) @ data)\<rparr>)"
proof -
  let ?o = "dir_offset d" and ?meta = "direct_meta (word_of_nat (length data))"
  have f: "?o + (8 + length data) \<le> length (m_bytes m)" "\<not> m_flash m" "direct_head_room d (length data)"
    using assms by (auto simp: direct_inv_def direct_fits_def direct_head_room_def)
  have nz: "?meta \<noteq> []" by (metis length_direct_meta list.size(3) zero_neq_numeral)
  let ?m1 = "m\<lparr>m_bytes := mem_put (m_bytes m) ?o ?meta\<rparr>"
  have ro: "\<not> dir_readonly d" using assms(3) by (simp add: direct_fits_def)
  have w1: "direct_write_full d m ?o ?meta = (Inr 8, ?m1)"
    using write_full_healthy [OF assms(2), of ?o ?meta 8] f nz ro by (simp add: program_plain direct_write_full_def)
  have w2: "direct_write_full d ?m1 (?o + 8) data =
      (Inr (length data), m\<lparr>m_bytes := mem_put (m_bytes m) ?o (?meta @ data)\<rparr>)"
  proof (cases "data = []")
    case True
    then show ?thesis by (simp add: write_full.simps direct_write_full_def)
  next
    case False
    then show ?thesis
      using write_full_healthy [of ?m1 "?o + 8" data "length data"] assms(2) f
        mem_put_append [of ?o ?meta data "m_bytes m"] ro
      by (simp add: program_plain direct_write_full_def)
  qed
  show ?thesis
    using assms(2) f(3) by (simp add: state_backend_bucket_direct_write_def w1 direct_write_data_def w2)
qed

lemma direct_write_full_changes:
  "direct_write_full d m pos buf = (r, m') \<Longrightarrow> only_changes pos (length buf) m m'"
  by (auto simp: direct_write_full_def split: if_splits dest!: write_full_changes)

lemma direct_write_data_changes:
  "direct_write_data d m pos buf = (r, m') \<Longrightarrow> only_changes pos (length buf) m m'"
  by (auto simp: direct_write_data_def split: prod.splits sum.splits
      dest!: direct_write_full_changes flush_changes [where a = pos and n = "length buf"] intro: only_changes_trans)

lemma write_full_count:
  "write_full m pos buf k = (Inr n, m') \<Longrightarrow> n = k \<or> n = 0"
  by (induction m pos buf k rule: write_full.induct)
    (subst (asm) (2) write_full.simps, auto split: prod.splits sum.splits if_splits)

lemma direct_write_changes:
  assumes "state_backend_bucket_direct_write bcompat d m data = (r, m')" and "direct_fits d (length data)"
  shows "only_changes (dir_offset d) (dir_max_size d) m m'"
proof -
  have hr: "direct_head_room d (length data)" using assms(2) by (auto simp: direct_fits_def direct_head_room_def)
  obtain r1 m1 where s: "sys_simple m = (r1, m1)" by fastforce
  have c1: "only_changes (dir_offset d) (dir_max_size d) m m1" by (rule sys_simple_changes [OF s])
  obtain r2 m2 where w: "direct_write_full d m1 (dir_offset d) (direct_meta (word_of_nat (length data))) = (r2, m2)"
    by fastforce
  have c2: "only_changes (dir_offset d) (dir_max_size d) m1 m2"
    by (rule only_changes_widen [OF direct_write_full_changes [OF w]]) (use assms(2) in \<open>auto simp: direct_fits_def\<close>)
  have c3: "only_changes (dir_offset d) (dir_max_size d) m2 m'"
    if "direct_write_data d m2 (dir_offset d + n) data = (r, m')" "r2 = Inr n" for n
    by (rule only_changes_widen [OF direct_write_data_changes [OF that(1)]])
      (use assms(2) w that(2) in \<open>auto simp: direct_fits_def direct_write_full_def dest!: write_full_count\<close>)
  show ?thesis
    using assms(1) hr s w c1 c2 c3
    by (auto simp: state_backend_bucket_direct_write_def split: sum.splits intro: only_changes_trans)
qed

lemma direct_holds_written:
  assumes "direct_inv d m" and "direct_fits d (length data)"
  shows "direct_holds d (m\<lparr>m_bytes := mem_put (m_bytes m) (dir_offset d)
      (direct_meta (word_of_nat (length data)) @ data)\<rparr>) data"
proof -
  let ?x = "direct_meta (word_of_nat (length data)) @ data"
  have "dir_offset d + length ?x \<le> length (m_bytes m)"
    using assms by (auto simp: direct_inv_def direct_fits_def)
  from take_drop_mem_put_same [OF this] show ?thesis
    using assms by (auto simp: direct_holds_def direct_inv_def direct_fits_def)
qed

lemma take_prefix_eq: "take n xs = take n ys \<Longrightarrow> k \<le> n \<Longrightarrow> take k xs = take k ys"
  by (metis min.absorb1 take_take)

lemma direct_create_same: "\<lparr>dir_offset = dir_offset d, dir_max_size = dir_max_size d, dir_readonly = dir_readonly d\<rparr> = d"
  by (cases d) simp

abbreviation direct_read_op where
  "direct_read_op bcompat stack d m \<equiv>
     (case state_backend_bucket_direct_read bcompat stack d m of ((r, _), m') \<Rightarrow> (r, d, m'))"

abbreviation direct_write_op where
  "direct_write_op bcompat d m data \<equiv>
     (case state_backend_bucket_direct_write bcompat d m data of (r, m') \<Rightarrow> (r, d, m'))"

abbreviation direct_create_op where
  "direct_create_op d m \<equiv> state_backend_bucket_direct_create (dir_offset d) (dir_max_size d) (dir_readonly d) m"

interpretation dir: bucket_contract direct_create_op "direct_write_op bcompat" "direct_read_op bcompat stack"
    "\<lambda>d. d" "\<lambda>d. (dir_offset d, dir_max_size d)" direct_fits direct_inv
    "\<lambda>d m data. \<not> m_flash m \<and> direct_holds d m data" for bcompat stack
proof
  fix d :: bucket_direct and m m' data r d'
  show "\<exists>b' m'. direct_write_op bcompat d m data = (Inr (), b', m') \<and> healthy m' \<and> direct_inv b' m' \<and> b' = d
      \<and> \<not> m_flash m' \<and> direct_holds d m' data"
    if "direct_inv d m" "healthy m" "direct_fits d (length data)"
    using direct_write_ok [OF that] direct_holds_written [OF that(1,3)] that
    by (auto simp: direct_inv_def direct_fits_def)
  show "only_changes (fst (dir_offset d, dir_max_size d)) (snd (dir_offset d, dir_max_size d)) m m'
      \<and> d' = d \<and> direct_inv d' m'"
    if "direct_inv d m" "direct_fits d (length data)" "direct_write_op bcompat d m data = (r, d', m')"
    using direct_write_changes [of bcompat d m data r m'] that
    by (auto split: prod.splits simp: direct_inv_def only_changes_def)
  show "\<exists>b b'. direct_create_op d m = (Inr b, m) \<and> b = d \<and> direct_inv b m
      \<and> (\<exists>pad. direct_read_op bcompat stack b m = (Inr (data @ pad), b', m)) \<and> b' = d \<and> direct_inv b' m"
    if "\<not> m_flash m \<and> direct_holds d m data" "healthy m"
    using that direct_read_holds [of d m data]
    by (auto simp: state_backend_bucket_direct_create_def direct_create_same direct_inv_def direct_holds_def)
  show "direct_inv d m'" if "same_region (dir_offset d, dir_max_size d) m m'" "direct_inv d m"
    using that by (simp add: same_region_def direct_inv_def)
  show "\<not> m_flash m' \<and> direct_holds d m' data"
    if "same_region (dir_offset d, dir_max_size d) m m'" "\<not> m_flash m \<and> direct_holds d m data"
    using that take_prefix_eq [of "dir_max_size d" "drop (dir_offset d) (m_bytes m')"
        "drop (dir_offset d) (m_bytes m)" "8 + length data"]
    by (auto simp: same_region_def direct_holds_def)
qed

section \<open>Properties\<close>

text \<open>A bucket that was opened for reading only cannot change the device.\<close>

lemma direct_readonly_write:
  assumes "dir_readonly d" and "data \<noteq> []" and "state_backend_bucket_direct_write bcompat d m data = (r, m')"
  shows "r \<noteq> Inr () \<and> m_bytes m' = m_bytes m"
proof -
  have "direct_meta n \<noteq> []" for n by (metis length_direct_meta list.size(3) zero_neq_numeral)
  then show ?thesis
    using assms
    by (auto simp: state_backend_bucket_direct_write_def direct_write_full_def direct_write_data_def sys_simple_def
        split: prod.splits sum.splits if_splits io_outcome.splits dest: next_io_changes)
qed

definition demo_disk :: medium where
  "demo_disk = \<lparr>m_bytes = replicate 40 0xff, m_flash = False, m_script = []\<rparr>"

definition demo_direct :: "nat \<Rightarrow> bucket_direct" where
  "demo_direct ofs = \<lparr>dir_offset = ofs, dir_max_size = 12, dir_readonly = False\<rparr>"

text \<open>
  C13: on a device that works, data that fits a direct bucket together with its eight byte header is written
  without error, and opening the bucket again and reading it returns exactly that data.
\<close>

theorem direct_write_reopen_read:
  assumes "direct_inv d m" and "healthy m" and "direct_fits d (length data)"
  shows "\<exists>m'. state_backend_bucket_direct_write bcompat d m data = (Inr (), m')
    \<and> state_backend_bucket_direct_create (dir_offset d) (dir_max_size d) False m' = (Inr d, m')
    \<and> state_backend_bucket_direct_read bcompat' stack d m' = ((Inr data, False), m')"
proof -
  have "\<not> dir_readonly d" using assms(3) by (simp add: direct_fits_def)
  then have "\<lparr>dir_offset = dir_offset d, dir_max_size = dir_max_size d, dir_readonly = False\<rparr> = d" by (cases d) simp
  then show ?thesis
    using direct_write_ok [OF assms] direct_holds_written [OF assms(1,3)] assms(2)
    by (simp add: direct_read_holds state_backend_bucket_direct_create_def)
qed

lemma direct_write_reopen_read_witness:
  "\<exists>m'. state_backend_bucket_direct_write False (demo_direct 12) demo_disk [1, 2, 3] = (Inr (), m')
    \<and> state_backend_bucket_direct_create 12 12 False m' = (Inr (demo_direct 12), m')
    \<and> state_backend_bucket_direct_read False [] (demo_direct 12) m' = ((Inr [1, 2, 3], False), m')"
  using direct_write_reopen_read [of "demo_direct 12" demo_disk "[1, 2, 3]" False False "[]"]
  by (simp add: direct_inv_def healthy_def direct_fits_def demo_direct_def demo_disk_def)

text \<open>
  A write to one direct bucket, however the system calls behave (short transfers, errors, a loss of
  power in the middle), leaves what any bucket in a disjoint range holds, provided the data and its header fit the
  written bucket.
\<close>

theorem direct_torn_write_spares_others:
  assumes "state_backend_bucket_direct_write bcompat d m data = (r, m')"
    and "direct_inv d m" and "direct_fits d (length data)"
    and "dir_offset d + dir_max_size d \<le> dir_offset e \<or> dir_offset e + dir_max_size e \<le> dir_offset d"
    and "direct_holds e m kept"
  shows "direct_holds e m' kept"
proof -
  have w: "direct_write_op bcompat d m data = (r, d, m')" using assms(1) by simp
  have dis: "disjoint_regions (dir_offset d, dir_max_size d) (dir_offset e, dir_max_size e)"
    using assms(4) by (simp add: disjoint_regions_def)
  from dir.holds_other [OF assms(2,3) w dis] assms(2,5) show ?thesis by (simp add: direct_inv_def)
qed

lemma direct_torn_write_spares_others_witness:
  "direct_holds (demo_direct 12)
     (snd (state_backend_bucket_direct_write False (demo_direct 0)
        \<lparr>m_bytes = replicate 12 0 @ direct_meta 2 @ [7, 8, 0, 0], m_flash = False,
          m_script = [Io_ok, Io_part 2, Io_err EIO]\<rparr> [1, 2, 3])) [7, 8]"
proof -
  let ?m = "\<lparr>m_bytes = replicate 12 0 @ direct_meta 2 @ [7, 8, 0, 0], m_flash = False,
      m_script = [Io_ok, Io_part 2, Io_err EIO]\<rparr>"
  obtain r m' where w: "state_backend_bucket_direct_write False (demo_direct 0) ?m [1, 2, 3] = (r, m')" by fastforce
  show ?thesis
    using direct_torn_write_spares_others [OF w, of "demo_direct 12" "[7, 8]"]
    by (simp add: w) (simp add: direct_inv_def direct_fits_def demo_direct_def direct_holds_def)
qed

text \<open>
  With the backward compatibility option a direct bucket writes data that leaves no room for the header
  from its first byte and without any limit: the bytes past its size replace those of the next bucket and the
  write reports success.
\<close>

theorem direct_write_overruns:
  assumes "healthy m" and "\<not> m_flash m" and "\<not> dir_readonly d" and "8 \<le> dir_max_size d" and "dir_max_size d < length data"
    and "dir_offset d + length data \<le> length (m_bytes m)"
  shows "\<exists>m'. state_backend_bucket_direct_write True d m data = (Inr (), m')
    \<and> take (length data - dir_max_size d) (drop (dir_offset d + dir_max_size d) (m_bytes m'))
       = drop (dir_max_size d) data"
proof -
  let ?m = "m\<lparr>m_bytes := mem_put (m_bytes m) (dir_offset d) data\<rparr>"
  have hr: "\<not> direct_head_room d (length data)" and ne: "data \<noteq> []"
    using assms(4,5) by (auto simp: direct_head_room_def)
  have "direct_write_data d m (dir_offset d) data = (Inr (), ?m)"
    using assms(1-3) write_full_healthy [OF assms(1,6), of "length data"] ne
    by (simp add: direct_write_data_def direct_write_full_def program_plain)
  then have "state_backend_bucket_direct_write True d m data = (Inr (), ?m)"
    using assms(1) hr by (simp add: state_backend_bucket_direct_write_def)
  moreover have "take (length data - dir_max_size d) (drop (dir_offset d + dir_max_size d) (m_bytes ?m))
       = drop (dir_max_size d) data"
    using assms(4-6) by (simp add: mem_put_fits)
  ultimately show ?thesis by blast
qed

lemma direct_write_overruns_witness:
  "\<exists>m'. state_backend_bucket_direct_write True (demo_direct 0) demo_disk (replicate 12 0 @ [0xaa]) = (Inr (), m')
    \<and> take 1 (drop 12 (m_bytes m')) = [0xaa]"
  using direct_write_overruns [of demo_disk "demo_direct 0" "replicate 12 0 @ [0xaa]"]
  by (simp add: demo_direct_def demo_disk_def healthy_def)

end
