(* ===== verification/Bucket_Circular.thy ===== *)
theory Bucket_Circular
  imports Bucket
begin

text \<open>
  \<open>src/barebox-state/backend_bucket_circular.c\<close>, the branch for Linux: a bucket is one eraseblock of an MTD device
  to which records are appended until it is full and has to be erased.  Each record is the data, zeros up to the
  alignment of writes, and a magic with the length of the record in its last eight bytes; opening a bucket
  searches the last record from the end of the block.

  Sub offsets are C \<open>int\<close>s in the sources and integers here: eraseblocks of two GiB and more are not modelled.
\<close>

record bucket_circular =
  circ_eraseblock :: u32
  circ_erasesize :: u32
  circ_writesize :: nat
  circ_max_size :: nat
  circ_write_area :: nat
  circ_last_written_length :: u32
  circ_wrong_magic :: bool

definition circular_magic :: u32 where
  "circular_magic = 0x14fa2d02"

definition roundup :: "nat \<Rightarrow> nat \<Rightarrow> nat" where
  "roundup x y = (x + (y - 1)) div y * y"

section \<open>Access to the eraseblock\<close>

definition circ_base :: "bucket_circular \<Rightarrow> nat" where
  "circ_base c = unat (circ_eraseblock c) * unat (circ_erasesize c)"

text \<open>A product of two 32 bit numbers, without the cast to \<open>off_t\<close> that the other accesses have.\<close>

definition circ_write_base :: "bucket_circular \<Rightarrow> nat" where
  "circ_write_base c = unat (circ_eraseblock c * circ_erasesize c)"

text \<open>The errno, the buffer of \<open>len\<close> bytes (zero filled when it was allocated), and the device.\<close>

definition state_mtd_peb_read :: "bucket_circular \<Rightarrow> medium \<Rightarrow> nat \<Rightarrow> nat \<Rightarrow> (errno option \<times> bytes) \<times> medium" where
  "state_mtd_peb_read c m offset len = (case sys_simple m of
     (Inl e, m1) \<Rightarrow> ((Some e, replicate len 0), m1)
   | (Inr _, m1) \<Rightarrow> (case read_full m1 (circ_base c + offset) len [] of
         (Inl e, m2) \<Rightarrow> ((Some e, replicate len 0), m2)
       | (Inr bs, m2) \<Rightarrow> ((None, bs @ replicate (len - length bs) 0), m2)))"

definition state_mtd_peb_write :: "bucket_circular \<Rightarrow> medium \<Rightarrow> nat \<Rightarrow> bytes \<Rightarrow> unit res \<times> medium" where
  "state_mtd_peb_write c m offset buf = (case sys_simple m of
     (Inl e, m1) \<Rightarrow> (Inl e, m1)
   | (Inr _, m1) \<Rightarrow> (case write_full m1 (circ_write_base c + offset) buf (length buf) of
         (Inl e, m2) \<Rightarrow> (Inl e, m2)
       | (Inr _, m2) \<Rightarrow> (Inr (), snd (flush m2))))"

definition state_mtd_peb_erase :: "bucket_circular \<Rightarrow> medium \<Rightarrow> unit res \<times> medium" where
  "state_mtd_peb_erase c m = erase m (unat (circ_erasesize c)) (circ_base c)"

section \<open>Reading\<close>

definition circ_read_at ::
    "bucket_circular \<Rightarrow> medium \<Rightarrow> nat \<Rightarrow> nat \<Rightarrow> (errno option \<times> bytes option) \<times> bucket_circular \<times> medium" where
  "circ_read_at c m offset read_len = (case state_mtd_peb_read c m offset read_len of
     ((ret, buf), m1) \<Rightarrow>
       (if ret \<noteq> None \<and> ret \<noteq> Some EUCLEAN then ((ret, None), c, m1)
        else let n = (if circ_last_written_length c \<noteq> 0 then read_len - 8 else read_len)
             in ((ret, Some (take n buf)), c, m1)))"

text \<open>The errno (\<open>EUCLEAN\<close> comes with a buffer), the buffer, the bucket, the device.\<close>

definition state_backend_bucket_circular_read ::
    "bucket_circular \<Rightarrow> medium \<Rightarrow> (errno option \<times> bytes option) \<times> bucket_circular \<times> medium" where
  "state_backend_bucket_circular_read c m =
     (if circ_write_area c = 0 then ((Some ENODATA, None), c, m)
      else if circ_last_written_length c = 0 then
        circ_read_at (c\<lparr>circ_write_area := 0\<rparr>) m 0 (min (circ_write_area c) (circ_max_size c - 8))
      else if circ_write_area c < unat (circ_last_written_length c)
            \<or> unat (circ_last_written_length c) mod circ_writesize c \<noteq> 0 then
        ((Some EINVAL, None), c\<lparr>circ_write_area := 0\<rparr>, m)
      else circ_read_at c m (circ_write_area c - unat (circ_last_written_length c))
             (unat (circ_last_written_length c)))"

section \<open>Writing\<close>

definition circ_meta :: "u32 \<Rightarrow> bytes" where
  "circ_meta written_length = put_le32 circular_magic @ put_le32 written_length"

definition circ_record :: "nat \<Rightarrow> bytes \<Rightarrow> bytes" where
  "circ_record written_length buf =
     buf @ replicate (written_length - 8 - length buf) 0 @ circ_meta (word_of_nat written_length)"

definition circ_append :: "bucket_circular \<Rightarrow> medium \<Rightarrow> bytes \<Rightarrow> unit res \<times> bucket_circular \<times> medium" where
  "circ_append c m write_buf =
     (let offset = circ_write_area c;
          c1 = c\<lparr>circ_write_area := offset + length write_buf\<rparr>
      in case state_mtd_peb_write c1 m offset write_buf of (ret, m1) \<Rightarrow> (ret, c1, m1))"

text \<open>A length that does not fit \<open>uint32_t\<close> makes the buffer too small for the data.\<close>

definition state_backend_bucket_circular_write ::
    "bucket_circular \<Rightarrow> medium \<Rightarrow> bytes \<Rightarrow> unit res \<times> bucket_circular \<times> medium" where
  "state_backend_bucket_circular_write c m buf =
     (let written_length = unat (word_of_nat (roundup (length buf + 8) (circ_writesize c)) :: u32)
      in if circ_max_size c < written_length then (Inl E2BIG, c, m)
         else if written_length < length buf + 8 then (Inl FAULT, c, m)
         else
           let c1 = (if circ_max_size c \<le> circ_write_area c + written_length
                     then c\<lparr>circ_write_area := 0\<rparr> else c);
               write_buf = circ_record written_length buf
           in if circ_write_area c1 = 0 then
                (case state_mtd_peb_erase c1 m of
                   (Inl e, m1) \<Rightarrow> (Inl e, c1, m1)
                 | (Inr _, m1) \<Rightarrow> circ_append c1 m1 write_buf)
              else circ_append c1 m write_buf)"

section \<open>Opening\<close>

text \<open>The sub offset of the last page that is not erased, or the negative value that ends the loop.\<close>

function circ_scan :: "bytes \<Rightarrow> nat \<Rightarrow> int \<Rightarrow> int" where
  "circ_scan buf ws sub_offset =
     (if sub_offset < 0 \<or> ws = 0 then sub_offset
      else if mtd_buf_all_ff (nat sub_offset) (take ws (drop (nat sub_offset) buf))
      then circ_scan buf ws (sub_offset - int ws)
      else sub_offset)"
  by pat_completeness auto
termination
  by (relation "measure (\<lambda>(buf, ws, sub_offset). nat (sub_offset + 1))") auto

declare circ_scan.simps [simp del]

definition circ_found :: "bucket_circular \<Rightarrow> bytes \<Rightarrow> bucket_circular" where
  "circ_found c buf =
     (let ws = circ_writesize c;
          sub_offset = circ_scan buf ws (int (circ_max_size c) - int ws);
          c1 = c\<lparr>circ_write_area := nat (sub_offset + int ws)\<rparr>
      in if sub_offset < 0 then c1\<lparr>circ_last_written_length := 0\<rparr>
         else
           let meta = drop (nat sub_offset + ws - 8) buf;
               magic = get_le32 meta
           in if magic \<noteq> circular_magic
              then c1\<lparr>circ_last_written_length := 0,
                      circ_wrong_magic := circ_wrong_magic c \<or> (magic \<noteq> 0xffffffff \<and> magic \<noteq> 0)\<rparr>
              else c1\<lparr>circ_last_written_length := get_le32 (drop 4 meta)\<rparr>)"

definition state_backend_bucket_circular_init ::
    "bucket_circular \<Rightarrow> medium \<Rightarrow> bucket_circular res \<times> medium" where
  "state_backend_bucket_circular_init c m = (case state_mtd_peb_read c m 0 (circ_max_size c) of
     ((ret, buf), m1) \<Rightarrow>
       (case ret of
          None \<Rightarrow> (Inr (circ_found c buf), m1)
        | Some e \<Rightarrow> if e = EUCLEAN then (Inr (circ_found c buf), m1) else (Inl e, m1)))"

text \<open>
  The answer of \<open>ioctl (MEMGETBADBLOCK)\<close> for an offset is the parameter \<open>bad\<close>; the offset is again a 32 bit
  product.
\<close>

definition bucket_circular_is_block_bad :: "(nat \<Rightarrow> bool) \<Rightarrow> bucket_circular \<Rightarrow> medium \<Rightarrow> bool res \<times> medium" where
  "bucket_circular_is_block_bad bad c m = (case sys_simple m of
     (Inl e, m1) \<Rightarrow> (Inl EPERM, m1)
   | (Inr _, m1) \<Rightarrow> (Inr (bad (circ_write_base c)), m1))"

definition circ_new :: "u32 \<Rightarrow> nat \<Rightarrow> u32 \<Rightarrow> bucket_circular" where
  "circ_new eraseblock writesize erasesize =
     \<lparr>circ_eraseblock = eraseblock, circ_erasesize = erasesize,
      circ_writesize = (if writesize < 8 then 8 else writesize),
      circ_max_size = unat erasesize, circ_write_area = 0, circ_last_written_length = 0,
      circ_wrong_magic = False\<rparr>"

definition state_backend_bucket_circular_create ::
    "(nat \<Rightarrow> bool) \<Rightarrow> u32 \<Rightarrow> nat \<Rightarrow> u32 \<Rightarrow> medium \<Rightarrow> bucket_circular res \<times> medium" where
  "state_backend_bucket_circular_create bad eraseblock writesize erasesize m =
     (let c = circ_new eraseblock writesize erasesize
      in case sys_simple m of
           (Inl e, m1) \<Rightarrow> (Inl e, m1)
         | (Inr _, m1) \<Rightarrow> (case bucket_circular_is_block_bad bad c m1 of
               (Inl e, m2) \<Rightarrow> (Inl EIO, m2)
             | (Inr b, m2) \<Rightarrow> if b then (Inl EIO, m2) else state_backend_bucket_circular_init c m2))"

section \<open>The written part of a block\<close>

text \<open>The content of the eraseblock and what it means for a page to be erased.\<close>

definition circ_block :: "bucket_circular \<Rightarrow> medium \<Rightarrow> bytes" where
  "circ_block c m = take (circ_max_size c) (drop (circ_base c) (m_bytes m))"

abbreviation all_ff :: "bytes \<Rightarrow> bool" where
  "all_ff \<equiv> list_all (\<lambda>b. b = 0xff)"

definition circ_geo_ok :: "bucket_circular \<Rightarrow> medium \<Rightarrow> bool" where
  "circ_geo_ok c m \<longleftrightarrow> 8 \<le> circ_writesize c \<and> circ_max_size c = unat (circ_erasesize c)
     \<and> 0 < circ_max_size c \<and> circ_max_size c < 2 ^ 31 \<and> circ_writesize c dvd circ_max_size c
     \<and> circ_base c + circ_max_size c \<le> length (m_bytes m)
     \<and> circ_base c < 2 ^ 32"

text \<open>Everything from the write area on is erased, unless the next write erases the block anyway.\<close>

definition circ_inv :: "bucket_circular \<Rightarrow> medium \<Rightarrow> bool" where
  "circ_inv c m \<longleftrightarrow> circ_geo_ok c m \<and> circ_write_area c \<le> circ_max_size c
     \<and> circ_writesize c dvd circ_write_area c
     \<and> (circ_write_area c \<noteq> 0 \<longrightarrow> all_ff (drop (circ_write_area c) (circ_block c m)))"

lemma circ_write_base_eq: "circ_geo_ok c m \<Longrightarrow> circ_write_base c = circ_base c"
  using unat_mult_lem [of "circ_eraseblock c" "circ_erasesize c"]
  by (auto simp: circ_geo_ok_def circ_write_base_def circ_base_def)

lemma length_circ_block: "circ_geo_ok c m \<Longrightarrow> length (circ_block c m) = circ_max_size c"
  by (auto simp: circ_geo_ok_def circ_block_def)

lemma roundup_ge: "0 < y \<Longrightarrow> x \<le> roundup x y"
proof -
  assume "0 < y"
  then have "x + (y - 1) < roundup x y + y"
    unfolding roundup_def by (metis add.commute mod_div_mult_eq mod_less_divisor nat_add_left_cancel_less)
  then show ?thesis by simp
qed

lemma roundup_dvd [simp]: "y dvd roundup x y"
  by (simp add: roundup_def)

lemma length_circ_meta [simp]: "length (circ_meta n) = 8"
  by (simp add: circ_meta_def)

lemma length_circ_record: "length buf + 8 \<le> n \<Longrightarrow> length (circ_record n buf) = n"
  by (simp add: circ_record_def)

lemma circ_scan_stop:
  "0 < ws \<Longrightarrow> 0 \<le> s \<Longrightarrow> \<not> all_ff (take ws (drop (nat s) buf)) \<Longrightarrow> circ_scan buf ws s = s"
  by (subst circ_scan.simps) (simp add: mtd_buf_all_ff_iff)

lemma circ_scan_step:
  "0 < ws \<Longrightarrow> 0 \<le> s \<Longrightarrow> all_ff (take ws (drop (nat s) buf)) \<Longrightarrow>
     circ_scan buf ws s = circ_scan buf ws (s - int ws)"
  by (subst circ_scan.simps) (simp add: mtd_buf_all_ff_iff)

lemma circ_scan_neg: "s < 0 \<Longrightarrow> circ_scan buf ws s = s"
  by (subst circ_scan.simps) simp

text \<open>Erased pages at the end are skipped.\<close>

lemma all_ff_take_drop: "all_ff (drop a xs) \<Longrightarrow> a \<le> b \<Longrightarrow> all_ff (take n (drop b xs))"
  by (metis list.pred_set in_set_takeD set_drop_subset_set_drop subsetD)

lemma circ_scan_skip:
  assumes "0 < ws" and "all_ff (drop (a * ws) buf)"
  shows "circ_scan buf ws (int ((a + n) * ws) - int ws) = circ_scan buf ws (int (a * ws) - int ws)"
proof (induction n)
  case (Suc n)
  have "all_ff (take ws (drop (nat (int ((a + n) * ws))) buf))"
    by (rule all_ff_take_drop [OF assms(2)]) (simp add: nat_mult_distrib del: of_nat_mult)
  from circ_scan_step [OF assms(1) _ this] Suc.IH show ?case
    by (simp add: algebra_simps)
qed simp

text \<open>The position where the scan ends, for a block whose tail from \<open>wa\<close> is erased.\<close>

lemma circ_scan_at:
  assumes "0 < ws" and "ws dvd wa" and "ws dvd n" and "wa \<le> n" and "all_ff (drop wa buf)"
    and "wa = 0 \<or> \<not> all_ff (take ws (drop (wa - ws) buf))"
  shows "circ_scan buf ws (int n - int ws) = int wa - int ws"
proof -
  obtain a where a: "wa = a * ws" using assms(2) by (metis dvd_def mult.commute)
  obtain k where k: "n = k * ws" using assms(3) by (metis dvd_def mult.commute)
  have "a \<le> k" using assms(1,4) a k by simp
  then have n: "n = (a + (k - a)) * ws" using k by simp
  have s: "circ_scan buf ws (int n - int ws) = circ_scan buf ws (int wa - int ws)"
    unfolding n a by (rule circ_scan_skip) (use assms(1,5) a in auto)
  show ?thesis
  proof (cases "wa = 0")
    case True
    then show ?thesis using s assms(1) by (simp add: circ_scan_neg)
  next
    case False
    then have "ws \<le> wa" using a assms(1) by (cases a) auto
    then have "nat (int wa - int ws) = wa - ws" by simp
    then show ?thesis using s False \<open>ws \<le> wa\<close> assms(1,6) circ_scan_stop [of ws "int wa - int ws" buf] by simp
  qed
qed

text \<open>Every block has such a position.\<close>

lemma circ_scan_bounds:
  assumes "0 < ws" and "ws dvd n" and "n = length buf"
  obtains wa where "circ_scan buf ws (int n - int ws) = int wa - int ws" and "wa \<le> n" and "ws dvd wa"
    and "all_ff (drop wa buf)" and "wa = 0 \<or> \<not> all_ff (take ws (drop (wa - ws) buf))"
proof -
  obtain k where k: "n = k * ws" using assms(2) by (metis dvd_def mult.commute)
  have "\<exists>a \<le> j. all_ff (drop (a * ws) buf) \<and> (a = 0 \<or> \<not> all_ff (take ws (drop (a * ws - ws) buf)))"
    if "all_ff (drop (j * ws) buf)" for j
    using that
  proof (induction j)
    case (Suc j)
    show ?case
    proof (cases "all_ff (take ws (drop (j * ws) buf))")
      case True
      have "drop (j * ws) buf = take ws (drop (j * ws) buf) @ drop (Suc j * ws) buf"
        by (metis append_take_drop_id drop_drop mult_Suc)
      then have "all_ff (drop (j * ws) buf)" using True Suc.prems by (metis list_all_append)
      from Suc.IH [OF this] obtain a where "a \<le> j" "all_ff (drop (a * ws) buf)"
        "a = 0 \<or> \<not> all_ff (take ws (drop (a * ws - ws) buf))" by blast
      then show ?thesis by (intro exI [of _ a]) auto
    next
      case False
      then show ?thesis using Suc.prems by (intro exI [of _ "Suc j"]) auto
    qed
  qed (intro exI [of _ 0], simp)
  from this [of k] obtain a where a: "a \<le> k" "all_ff (drop (a * ws) buf)"
    "a = 0 \<or> \<not> all_ff (take ws (drop (a * ws - ws) buf))"
    using k assms(3) by auto
  show ?thesis
  proof (rule that [of "a * ws"])
    show "circ_scan buf ws (int n - int ws) = int (a * ws) - int ws"
      by (rule circ_scan_at) (use a assms k in auto)
  qed (use a k in auto)
qed


text \<open>What opening finds in a block whose tail from \<open>wa\<close> is erased.\<close>

definition circ_last :: "bytes \<Rightarrow> nat \<Rightarrow> u32" where
  "circ_last buf wa = (if wa \<noteq> 0 \<and> get_le32 (drop (wa - 8) buf) = circular_magic
     then get_le32 (drop 4 (drop (wa - 8) buf)) else 0)"

lemma circ_found_at:
  assumes "8 \<le> circ_writesize c" and "circ_writesize c dvd wa"
    and "circ_scan buf (circ_writesize c) (int (circ_max_size c) - int (circ_writesize c))
      = int wa - int (circ_writesize c)"
  shows "\<exists>w. circ_found c buf = c\<lparr>circ_write_area := wa, circ_last_written_length := circ_last buf wa,
      circ_wrong_magic := w\<rparr>"
proof (cases "wa = 0")
  case True
  then show ?thesis
    using assms by (auto simp: circ_found_def circ_last_def Let_def intro!: exI [of _ "circ_wrong_magic c"])
next
  case False
  then have w: "circ_writesize c \<le> wa" using assms(2) by (auto dest: dvd_imp_le)
  then have s: "\<not> int wa - int (circ_writesize c) < 0" "nat (int wa - int (circ_writesize c)) = wa - circ_writesize c"
    by auto
  have m: "wa - circ_writesize c + circ_writesize c - 8 = wa - 8" using w by simp
  show ?thesis
    unfolding circ_found_def assms(3) Let_def using s False m by (cases c) (auto simp: circ_last_def)
qed

text \<open>A read returns a part of what is there.\<close>

lemma read_full_prefix:
  "read_full m pos n acc = (Inr bs, m') \<Longrightarrow> \<exists>k \<le> n. bs = acc @ take k (drop pos (m_bytes m))"
proof (induction m pos n acc rule: read_full.induct)
  case (1 m pos n acc)
  obtain r1 m1 where w: "sys_read m pos n = (r1, m1)" by fastforce
  have c: "m_bytes m1 = m_bytes m"
    using w by (auto simp: sys_read_def split: prod.splits io_outcome.splits dest: next_io_changes)
  show ?case
  proof (cases "n \<noteq> 0 \<and> (\<exists>b. r1 = Inr b \<and> b \<noteq> [])")
    case True
    then obtain b where b: "r1 = Inr b" "b \<noteq> []" "n \<noteq> 0" by auto
    obtain j where j: "b = take j (drop pos (m_bytes m))" "j \<le> n"
      using w b(1) by (auto simp: sys_read_def split: prod.splits io_outcome.splits)
    have "read_full m1 (pos + length b) (n - length b) (acc @ b) = (Inr bs, m')"
      using "1.prems" b w by (subst (asm) read_full.simps) simp
    from "1.IH" [OF b(3) w [symmetric] b(1,2) this] obtain k where
      k: "k \<le> n - length b" "bs = acc @ b @ take k (drop (pos + length b) (m_bytes m))"
      using c by auto
    have "b @ take k (drop (pos + length b) (m_bytes m)) = take (length b + k) (drop pos (m_bytes m))"
      using j by (metis add.commute append_take_drop_id drop_drop length_take take_add append_eq_conv_conj take_drop)
    then show ?thesis using k j by (intro exI [of _ "length b + k"]) auto
  next
    case False
    then show ?thesis
      using "1.prems" w by (subst (asm) read_full.simps) (auto split: sum.splits if_splits)
  qed
qed

lemma peb_read_prefix:
  assumes "state_mtd_peb_read c m 0 n = ((ret, buf), m')"
    and "circ_base c + n \<le> length (m_bytes m)"
  shows "\<exists>k \<le> n. buf = take k (drop (circ_base c) (m_bytes m)) @ replicate (n - k) 0"
proof -
  obtain r1 m1 where s: "sys_simple m = (r1, m1)" by fastforce
  have b: "m_bytes m1 = m_bytes m" "length (m_bytes m1) = length (m_bytes m)"
    using sys_simple_changes [OF s, where a = 0 and n = 0] s
    by (auto simp: sys_simple_def split: prod.splits io_outcome.splits dest: next_io_changes)
  obtain r2 m2 where r: "read_full m1 (circ_base c) n [] = (r2, m2)" by fastforce
  show ?thesis
  proof (cases r1)
    case (Inl e)
    then show ?thesis using assms s by (auto simp: state_mtd_peb_read_def intro: exI [of _ 0])
  next
    case (Inr u)
    show ?thesis
    proof (cases r2)
      case (Inl e)
      then show ?thesis using assms s r Inr by (auto simp: state_mtd_peb_read_def intro: exI [of _ 0])
    next
      case bs: (Inr bs)
      then obtain k where k: "k \<le> n" "bs = take k (drop (circ_base c) (m_bytes m))"
        using read_full_prefix [OF r [unfolded bs]] b by auto
      then have "length bs = k" using assms(2) by simp
      then show ?thesis using assms(1) s r Inr bs k by (auto simp: state_mtd_peb_read_def)
    qed
  qed
qed

section \<open>The invariant\<close>

text \<open>Opening a bucket establishes the invariant whatever the system calls do.\<close>

lemma circ_found_inv:
  assumes "circ_geo_ok c m" and "k \<le> circ_max_size c"
    and "buf = take k (drop (circ_base c) (m_bytes m)) @ replicate (circ_max_size c - k) 0"
  shows "circ_inv (circ_found c buf) m \<and> circ_base (circ_found c buf) = circ_base c"
proof -
  have len: "length buf = circ_max_size c" using assms by (auto simp: circ_geo_ok_def)
  have ws: "0 < circ_writesize c" "8 \<le> circ_writesize c" "circ_writesize c dvd circ_max_size c"
    using assms(1) by (auto simp: circ_geo_ok_def)
  obtain wa where wa: "circ_scan buf (circ_writesize c) (int (circ_max_size c) - int (circ_writesize c))
      = int wa - int (circ_writesize c)" "wa \<le> circ_max_size c" "circ_writesize c dvd wa" "all_ff (drop wa buf)"
    using circ_scan_bounds [OF ws(1,3) len [symmetric]] by blast
  from circ_found_at [OF ws(2) wa(3,1)] obtain w where
    f: "circ_found c buf = c\<lparr>circ_write_area := wa, circ_last_written_length := circ_last buf wa, circ_wrong_magic := w\<rparr>"
    by blast
  have "all_ff (drop wa (circ_block c m))"
  proof (cases "k = circ_max_size c")
    case True
    then show ?thesis using wa(4) assms(3) by (simp add: circ_block_def)
  next
    case False
    have "wa = circ_max_size c"
    proof (rule ccontr)
      assume "wa \<noteq> circ_max_size c"
      then have "last (drop wa buf) = 0" "drop wa buf \<noteq> []"
        using False assms(2,3) wa(2) len by (auto simp: last_append)
      then have "0 \<in> set (drop wa buf)" by (metis last_in_set)
      with wa(4) have "(0 :: u8) = 0xff" by (auto simp: list_all_iff)
      then show False by simp
    qed
    then show ?thesis by (simp add: circ_block_def)
  qed
  then show ?thesis
    using assms(1) wa by (auto simp: f circ_inv_def circ_geo_ok_def circ_base_def circ_block_def)
qed

lemma only_changes_take_drop:
  assumes "only_changes a n m m'"
  shows "k \<le> a \<Longrightarrow> take k (m_bytes m') = take k (m_bytes m)"
    and "a + n \<le> k \<Longrightarrow> drop k (m_bytes m') = drop k (m_bytes m)"
  using assms by (auto simp: only_changes_def intro!: nth_equalityI)

lemma circ_block_outside:
  assumes "only_changes (circ_base c + w) n m m'" and "w + n \<le> circ_max_size c"
  shows "drop (w + n) (circ_block c m') = drop (w + n) (circ_block c m)"
    and "take w (circ_block c m') = take w (circ_block c m)"
proof -
  have "drop (circ_base c + (w + n)) (m_bytes m') = drop (circ_base c + (w + n)) (m_bytes m)"
    using only_changes_take_drop(2) [OF assms(1)] by simp
  then show "drop (w + n) (circ_block c m') = drop (w + n) (circ_block c m)"
    by (simp add: circ_block_def drop_take add.commute)
  have "take (circ_base c + w) (m_bytes m') = take (circ_base c + w) (m_bytes m)"
    using only_changes_take_drop(1) [OF assms(1)] by simp
  then have "take w (drop (circ_base c) (m_bytes m')) = take w (drop (circ_base c) (m_bytes m))"
    by (metis add.commute drop_take take_drop)
  then show "take w (circ_block c m') = take w (circ_block c m)"
    using assms(2) by (simp add: circ_block_def min_absorb2 min_absorb1)
qed

lemma peb_write_changes:
  assumes "state_mtd_peb_write c m ofs buf = (r, m')" and "circ_geo_ok c m"
  shows "only_changes (circ_base c + ofs) (length buf) m m'"
proof -
  obtain r1 m1 where s: "sys_simple m = (r1, m1)" by fastforce
  have c1: "only_changes (circ_base c + ofs) (length buf) m m1" by (rule sys_simple_changes [OF s])
  obtain r2 m2 where w: "write_full m1 (circ_base c + ofs) buf (length buf) = (r2, m2)" by fastforce
  obtain r3 m3 where f: "flush m2 = (r3, m3)" by fastforce
  have c3: "only_changes (circ_base c + ofs) (length buf) m2 m3" by (rule flush_changes [OF f])
  show ?thesis
    using assms s w f c1 c3 write_full_changes [OF w]
    by (auto simp: state_mtd_peb_write_def circ_write_base_eq split: sum.splits intro: only_changes_trans)
qed

lemma peb_erase_changes:
  assumes "state_mtd_peb_erase c m = (r, m')" and "circ_geo_ok c m"
  shows "only_changes (circ_base c) (circ_max_size c) m m'"
    and "r = Inr () \<Longrightarrow> all_ff (circ_block c m')"
proof -
  have g: "circ_base c + circ_max_size c \<le> length (m_bytes m)" "unat (circ_erasesize c) = circ_max_size c"
    using assms(2) by (auto simp: circ_geo_ok_def)
  show "only_changes (circ_base c) (circ_max_size c) m m'"
    using erase_changes assms(1) g unfolding state_mtd_peb_erase_def by metis
  show "all_ff (circ_block c m')" if "r = Inr ()"
    using assms(1) g that
    by (auto simp: state_mtd_peb_erase_def erase_def circ_block_def mem_put_fits list_all_iff
        split: prod.splits io_outcome.splits dest!: next_io_changes)
qed

text \<open>The parts of a write: the room found for the record, then the append.\<close>

definition circ_room :: "bucket_circular \<Rightarrow> medium \<Rightarrow> nat \<Rightarrow> bool" where
  "circ_room c m n \<longleftrightarrow> circ_geo_ok c m \<and> circ_write_area c + n \<le> circ_max_size c
     \<and> circ_writesize c dvd circ_write_area c \<and> circ_writesize c dvd n
     \<and> all_ff (drop (circ_write_area c) (circ_block c m))"

lemma circ_geo_ok_changes:
  "circ_geo_ok c m \<Longrightarrow> only_changes a n m m' \<Longrightarrow> circ_geo_ok c m'"
  by (auto simp: circ_geo_ok_def only_changes_def)

lemma circ_write_area_simps [simp]:
  "circ_geo_ok (c\<lparr>circ_write_area := w\<rparr>) m = circ_geo_ok c m"
  "circ_base (c\<lparr>circ_write_area := w\<rparr>) = circ_base c"
  "circ_block (c\<lparr>circ_write_area := w\<rparr>) m = circ_block c m"
  by (simp_all add: circ_geo_ok_def circ_base_def circ_block_def)

lemma circ_append_inv:
  assumes "circ_append c m buf = (r, c', m')" and "circ_room c m (length buf)"
  shows "circ_inv c' m' \<and> c' = c\<lparr>circ_write_area := circ_write_area c + length buf\<rparr>
    \<and> only_changes (circ_base c) (circ_max_size c) m m'"
proof -
  let ?w = "circ_write_area c"
  have c': "c' = c\<lparr>circ_write_area := ?w + length buf\<rparr>"
    and p: "state_mtd_peb_write c' m ?w buf = (r, m')"
    using assms(1) by (auto simp: circ_append_def Let_def split: prod.splits)
  have room: "circ_geo_ok c m" "?w + length buf \<le> circ_max_size c" "circ_writesize c dvd ?w"
    "circ_writesize c dvd length buf" "all_ff (drop ?w (circ_block c m))"
    using assms(2) by (auto simp: circ_room_def)
  have oc: "only_changes (circ_base c + ?w) (length buf) m m'"
    using peb_write_changes [OF p] room(1) by (simp add: c')
  have "all_ff (drop (?w + length buf) (circ_block c m))"
    using room(5) by (metis add.commute drop_drop list.pred_set set_drop_subset subsetD)
  then have "all_ff (drop (?w + length buf) (circ_block c m'))"
    using circ_block_outside(1) [OF oc room(2)] by simp
  moreover have "only_changes (circ_base c) (circ_max_size c) m m'"
    by (rule only_changes_widen [OF oc]) (use room(2) in auto)
  moreover have "circ_geo_ok c m'" by (rule circ_geo_ok_changes [OF room(1) oc])
  ultimately show ?thesis
    using room by (simp add: circ_inv_def c')
qed


abbreviation circ_wl :: "bucket_circular \<Rightarrow> bytes \<Rightarrow> nat" where
  "circ_wl c data \<equiv> roundup (length data + 8) (circ_writesize c)"

lemma circ_fits_length:
  assumes "circ_geo_ok c m" and "circ_wl c data \<le> circ_max_size c"
  shows "unat (word_of_nat (circ_wl c data) :: u32) = circ_wl c data" and "length data + 8 \<le> circ_wl c data"
    and "length (circ_record (circ_wl c data) data) = circ_wl c data"
proof -
  show l: "length data + 8 \<le> circ_wl c data"
    by (rule roundup_ge) (use assms(1) in \<open>auto simp: circ_geo_ok_def\<close>)
  show "unat (word_of_nat (circ_wl c data) :: u32) = circ_wl c data"
    using assms by (simp add: circ_geo_ok_def unat_of_nat)
  show "length (circ_record (circ_wl c data) data) = circ_wl c data"
    by (rule length_circ_record [OF l])
qed

lemma circ_write_parts:
  assumes "state_backend_bucket_circular_write c m data = (r, c', m')"
    and "circ_inv c m" and "circ_wl c data \<le> circ_max_size c"
  shows "(r \<noteq> Inr () \<and> c' = c\<lparr>circ_write_area := 0\<rparr> \<and> only_changes (circ_base c) (circ_max_size c) m m')
    \<or> (\<exists>c1 m1. (c1 = c \<or> c1 = c\<lparr>circ_write_area := 0\<rparr>) \<and> circ_room c1 m1 (circ_wl c data)
         \<and> only_changes (circ_base c) (circ_max_size c) m m1
         \<and> circ_append c1 m1 (circ_record (circ_wl c data) data) = (r, c', m'))"
proof -
  let ?n = "circ_wl c data" and ?rec = "circ_record (circ_wl c data) data"
  have g: "circ_geo_ok c m" using assms(2) by (simp add: circ_inv_def)
  note f = circ_fits_length [OF g assms(3)]
  define c1 where "c1 = (if circ_max_size c \<le> circ_write_area c + ?n then c\<lparr>circ_write_area := 0\<rparr> else c)"
  have c1: "c1 = c \<or> c1 = c\<lparr>circ_write_area := 0\<rparr>" by (simp add: c1_def)
  have w: "(if circ_write_area c1 = 0 then
                (case state_mtd_peb_erase c1 m of
                   (Inl e, m1) \<Rightarrow> (Inl e, c1, m1)
                 | (Inr _, m1) \<Rightarrow> circ_append c1 m1 ?rec)
              else circ_append c1 m ?rec) = (r, c', m')"
    using assms(1) f(2) assms(3) unfolding state_backend_bucket_circular_write_def Let_def c1_def f(1)
    by (simp add: not_less)
  have g1: "circ_geo_ok c1 m" "circ_base c1 = circ_base c" "circ_max_size c1 = circ_max_size c"
    "circ_writesize c1 = circ_writesize c"
    using c1 g by auto
  show ?thesis
  proof (cases "circ_write_area c1 = 0")
    case False
    then have "c1 = c" "circ_write_area c + ?n \<le> circ_max_size c"
      by (auto simp: c1_def split: if_splits)
    then have "circ_room c1 m ?n" using assms(2) False by (simp add: circ_room_def circ_inv_def)
    moreover have "circ_append c m ?rec = (r, c', m')" using w False \<open>c1 = c\<close> by simp
    ultimately show ?thesis using \<open>c1 = c\<close> by (intro disjI2 exI [of _ c] exI [of _ m]) simp
  next
    case True
    obtain r1 m1 where e: "state_mtd_peb_erase c1 m = (r1, m1)" by fastforce
    have oc: "only_changes (circ_base c) (circ_max_size c) m m1"
      using peb_erase_changes(1) [OF e g1(1)] g1 by simp
    show ?thesis
    proof (cases r1)
      case (Inl x)
      have "c1 = c\<lparr>circ_write_area := 0\<rparr>" using c1 True by (cases c) auto
      then show ?thesis using w e Inl oc True by auto
    next
      case (Inr u)
      have "all_ff (circ_block c1 m1)" using peb_erase_changes(2) [OF e g1(1)] Inr by simp
      then have "circ_room c1 m1 ?n"
        using True assms(3) g1 circ_geo_ok_changes [OF g1(1) oc] by (simp add: circ_room_def)
      moreover have "circ_append c1 m1 ?rec = (r, c', m')" using w e Inr True by simp
      ultimately show ?thesis using oc c1 by (intro disjI2 exI [of _ c1] exI [of _ m1]) simp
    qed
  qed
qed

lemma circ_geo_same:
  assumes "circ_append c1 m1 buf = (r, c', m')" and "c1 = c \<or> c1 = c\<lparr>circ_write_area := 0\<rparr>"
  shows "\<exists>w. c' = c\<lparr>circ_write_area := w\<rparr>"
  using assms by (auto simp: circ_append_def Let_def split: prod.splits)

text \<open>Whatever the system calls do, a write keeps the invariant and stays inside its eraseblock.\<close>

lemma circ_write_inv:
  assumes "state_backend_bucket_circular_write c m data = (r, c', m')"
    and "circ_inv c m" and "circ_wl c data \<le> circ_max_size c"
  shows "circ_inv c' m' \<and> only_changes (circ_base c) (circ_max_size c) m m' \<and> (\<exists>w. c' = c\<lparr>circ_write_area := w\<rparr>)"
proof -
  consider (fail) "c' = c\<lparr>circ_write_area := 0\<rparr>" "only_changes (circ_base c) (circ_max_size c) m m'"
    | (app) c1 m1 where "c1 = c \<or> c1 = c\<lparr>circ_write_area := 0\<rparr>" "circ_room c1 m1 (circ_wl c data)"
      "only_changes (circ_base c) (circ_max_size c) m m1"
      "circ_append c1 m1 (circ_record (circ_wl c data) data) = (r, c', m')"
    using circ_write_parts [OF assms] by blast
  then show ?thesis
  proof cases
    case fail
    then show ?thesis
      using assms(2) circ_geo_ok_changes [of c m _ _ m'] by (auto simp: circ_inv_def)
  next
    case app
    note c1 = app(1) and room = app(2) and oc = app(3) and app = app(4)
  have g: "circ_geo_ok c m" using assms(2) by (simp add: circ_inv_def)
  have "circ_room c1 m1 (length (circ_record (circ_wl c data) data))"
    using room circ_fits_length(3) [OF g assms(3)] by simp
  from circ_append_inv [OF app this] have "circ_inv c' m'" "only_changes (circ_base c1) (circ_max_size c1) m1 m'"
    by auto
  moreover have "circ_base c1 = circ_base c" "circ_max_size c1 = circ_max_size c" using c1 by auto
  ultimately show ?thesis
    using circ_geo_same [OF app c1] only_changes_trans [OF oc] by simp
  qed
qed

section \<open>Flash memory\<close>

text \<open>Programming erased cells stores the bytes; flash memory then behaves like memory that can be overwritten.\<close>

lemma map2_and_ff: "all_ff xs \<Longrightarrow> length xs = length bs \<Longrightarrow> map2 (AND) xs (bs :: bytes) = bs"
proof (induction bs arbitrary: xs)
  case (Cons b bs)
  then obtain x xs' where "xs = x # xs'" "x = 0xff" "all_ff xs'" "length xs' = length bs"
    by (cases xs) auto
  moreover have "(0xff :: u8) AND b = b" by (rule bit_word_eqI) (auto simp: bit_simps less_Suc_eq numeral_eq_Suc)
  ultimately show ?case using Cons.IH by simp
qed simp

lemma program_erased:
  assumes "all_ff (take (length bs) (drop pos (m_bytes m)))" and "pos + length bs \<le> length (m_bytes m)"
  shows "program m pos bs = m\<lparr>m_bytes := mem_put (m_bytes m) pos bs\<rparr>"
  using map2_and_ff [OF assms(1)] assms(2) by (simp add: program_def)

lemma circ_append_healthy:
  assumes "circ_room c m (length buf)" and "healthy m" and "buf \<noteq> []"
  shows "circ_append c m buf = (Inr (), c\<lparr>circ_write_area := circ_write_area c + length buf\<rparr>,
      m\<lparr>m_bytes := mem_put (m_bytes m) (circ_base c + circ_write_area c) buf\<rparr>)"
proof -
  let ?w = "circ_write_area c" and ?c = "c\<lparr>circ_write_area := circ_write_area c + length buf\<rparr>"
  have room: "circ_geo_ok c m" "?w + length buf \<le> circ_max_size c" "all_ff (drop ?w (circ_block c m))"
    using assms(1) by (auto simp: circ_room_def)
  have fit: "circ_base c + ?w + length buf \<le> length (m_bytes m)"
    using room by (simp add: circ_geo_ok_def)
  have "take (length buf) (drop (circ_base c + ?w) (m_bytes m)) = take (length buf) (drop ?w (circ_block c m))"
    using room(2) by (simp add: circ_block_def drop_take add.commute min_absorb1)
  then have "all_ff (take (length buf) (drop (circ_base c + ?w) (m_bytes m)))"
    using room(3) by (metis list.pred_set set_take_subset subsetD)
  from program_erased [OF this fit] write_full_healthy [OF assms(2) fit, of "length buf"] assms(3)
  have "write_full m (circ_base c + ?w) buf (length buf) =
      (Inr (length buf), m\<lparr>m_bytes := mem_put (m_bytes m) (circ_base c + ?w) buf\<rparr>)"
    by simp
  then show ?thesis
    using assms(2) circ_write_base_eq [of ?c m] room(1)
    by (simp add: circ_append_def state_mtd_peb_write_def Let_def)
qed

section \<open>What a block holds\<close>

definition circ_holds :: "bucket_circular \<Rightarrow> medium \<Rightarrow> bytes \<Rightarrow> bool" where
  "circ_holds c m data \<longleftrightarrow> circ_geo_ok c m \<and> (let n = circ_wl c data in
     n \<le> circ_max_size c \<and> (\<exists>wa. n \<le> wa \<and> wa \<le> circ_max_size c \<and> circ_writesize c dvd wa
       \<and> all_ff (drop wa (circ_block c m))
       \<and> take n (drop (wa - n) (circ_block c m)) = circ_record n data))"

lemma circ_append_holds:
  assumes "circ_room c m (circ_wl c data)" and "healthy m"
  shows "\<exists>c' m'. circ_append c m (circ_record (circ_wl c data) data) = (Inr (), c', m') \<and> healthy m'
     \<and> circ_holds c m' data"
proof -
  let ?n = "circ_wl c data" and ?w = "circ_write_area c"
  let ?rec = "circ_record ?n data"
  let ?m = "m\<lparr>m_bytes := mem_put (m_bytes m) (circ_base c + ?w) ?rec\<rparr>"
  have room: "circ_geo_ok c m" "?w + ?n \<le> circ_max_size c" "circ_writesize c dvd ?w"
    using assms(1) by (auto simp: circ_room_def)
  have fit: "circ_base c + ?w + ?n \<le> length (m_bytes m)"
    using room by (simp add: circ_geo_ok_def)
  note f = circ_fits_length [OF room(1)]
  have len: "length ?rec = ?n" using f(3) room(2) by simp
  have room': "circ_room c m (length ?rec)" using assms(1) len by simp
  have n0: "0 < ?n" using f(2) [of data] room(2) by simp
  then have "?rec \<noteq> []" using len by (metis length_0_conv less_nat_zero_code)
  from circ_append_healthy [OF room' assms(2) this]
  have a: "circ_append c m ?rec = (Inr (), c\<lparr>circ_write_area := ?w + ?n\<rparr>, ?m)" by (simp add: len)
  from circ_append_inv [OF a room'] have inv: "circ_inv (c\<lparr>circ_write_area := ?w + ?n\<rparr>) ?m" by blast
  have ff: "all_ff (drop (?w + ?n) (circ_block c ?m))" using inv n0 by (auto simp: circ_inv_def)
  have "take ?n (drop ?w (circ_block c ?m)) = take ?n (drop (circ_base c + ?w) (m_bytes ?m))"
    using room(2) by (simp add: circ_block_def drop_take add.commute min_absorb1)
  also have "\<dots> = ?rec"
    using take_drop_mem_put_same [of "circ_base c + ?w" ?rec "m_bytes m"] fit len by simp
  finally have "circ_holds c ?m data"
    using room ff inv unfolding circ_holds_def Let_def
    by (intro conjI exI [of _ "?w + ?n"]) (auto simp: circ_inv_def)
  then show ?thesis using a assms(2) by auto
qed


section \<open>The contract\<close>

lemma get_le32_erased: "take 4 bs = replicate 4 0xff \<Longrightarrow> get_le32 bs = 0xffffffff"
proof -
  have "replicate 4 x = [x, x, x, x]" for x :: u8 by (simp add: numeral_eq_Suc)
  moreover assume "take 4 bs = replicate 4 0xff"
  ultimately have "get_le32 bs = get_le32 [0xff, 0xff, 0xff, 0xff]" by (simp add: get_le32_def)
  then show ?thesis by (simp add: word_ff)
qed

lemma circ_record_tail:
  assumes "length data + 8 \<le> n"
  shows "drop (n - 8) (circ_record n data) = circ_meta (word_of_nat n)"
    and "take (n - 8) (circ_record n data) = data @ replicate (n - 8 - length data) 0"
  using assms by (auto simp: circ_record_def)

lemma circ_meta_not_ff: "\<not> all_ff (circ_meta n @ r)"
  by (simp add: circ_meta_def put_le32_def put_unaligned_be32_def put_unaligned_be16_def circular_magic_def)

lemma circ_meta_fields:
  "get_le32 (circ_meta n @ r) = circular_magic" "get_le32 (drop 4 (circ_meta n @ r)) = n"
  by (simp_all add: circ_meta_def)

text \<open>Opening a block that holds data finds the record, and reading returns the data and its padding.\<close>

lemma circ_holds_found:
  assumes "circ_holds c m data"
  shows "\<exists>wa w. circ_found c (circ_block c m) = c\<lparr>circ_write_area := wa,
        circ_last_written_length := word_of_nat (circ_wl c data), circ_wrong_magic := w\<rparr>
     \<and> circ_wl c data \<le> wa \<and> wa \<le> circ_max_size c \<and> circ_writesize c dvd wa
     \<and> all_ff (drop wa (circ_block c m))
     \<and> take (circ_wl c data) (drop (wa - circ_wl c data) (circ_block c m)) = circ_record (circ_wl c data) data"
proof -
  let ?n = "circ_wl c data" and ?b = "circ_block c m"
  obtain wa where g: "circ_geo_ok c m" and n: "?n \<le> circ_max_size c"
    and wa: "?n \<le> wa" "wa \<le> circ_max_size c" "circ_writesize c dvd wa" "all_ff (drop wa ?b)"
      "take ?n (drop (wa - ?n) ?b) = circ_record ?n data"
    using assms by (auto simp: circ_holds_def Let_def)
  note f = circ_fits_length [OF g n]
  have ws: "8 \<le> circ_writesize c" "0 < circ_writesize c" "circ_writesize c dvd circ_max_size c"
    using g by (auto simp: circ_geo_ok_def)
  have wan: "circ_writesize c \<le> ?n" using f(2) by (auto intro!: dvd_imp_le)
  have "drop (?n - 8) (take ?n (drop (wa - ?n) ?b)) = take 8 (drop (wa - 8) ?b)"
    using f(2) wa(1) by (simp add: drop_take)
  then have meta: "take 8 (drop (wa - 8) ?b) = circ_meta (word_of_nat ?n)"
    unfolding wa(5) by (simp add: circ_record_tail(1) [OF f(2)])
  have d8: "drop (wa - 8) ?b = circ_meta (word_of_nat ?n) @ drop wa ?b"
    using append_take_drop_id [of 8 "drop (wa - 8) ?b"] f(2) wa(1) by (simp add: meta)
  have "\<not> all_ff (take (circ_writesize c) (drop (wa - circ_writesize c) ?b))"
  proof
    assume "all_ff (take (circ_writesize c) (drop (wa - circ_writesize c) ?b))"
    then have "all_ff (drop (circ_writesize c - 8) (take (circ_writesize c) (drop (wa - circ_writesize c) ?b)))"
      by (metis list.pred_set set_drop_subset subsetD)
    also have "drop (circ_writesize c - 8) (take (circ_writesize c) (drop (wa - circ_writesize c) ?b)) =
        take 8 (drop (wa - 8) ?b)"
      using ws(1) wan wa(1) by (simp add: drop_take)
    finally show False using circ_meta_not_ff [of _ "[]"] by (simp add: meta)
  qed
  from circ_scan_at [OF ws(2) wa(3) ws(3) wa(2,4) disjI2 [OF this]]
  have "circ_scan ?b (circ_writesize c) (int (circ_max_size c) - int (circ_writesize c)) = int wa - int (circ_writesize c)" .
  from circ_found_at [OF ws(1) wa(3) this] obtain w where
    fd: "circ_found c ?b = c\<lparr>circ_write_area := wa, circ_last_written_length := circ_last ?b wa, circ_wrong_magic := w\<rparr>"
    by blast
  have "circ_last ?b wa = word_of_nat ?n"
    using f(2) wa(1) circ_meta_fields [of "word_of_nat ?n" "drop wa ?b"] by (simp add: circ_last_def d8 del: drop_drop)
  then show ?thesis using fd wa by auto
qed

lemma circ_read_holds:
  assumes "circ_geo_ok c m" and "healthy m" and "circ_last_written_length c = word_of_nat (circ_wl c data)"
    and "circ_wl c data \<le> circ_write_area c" and "circ_write_area c \<le> circ_max_size c"
    and "take (circ_wl c data) (drop (circ_write_area c - circ_wl c data) (circ_block c m)) =
      circ_record (circ_wl c data) data"
  shows "state_backend_bucket_circular_read c m =
      ((None, Some (data @ replicate (circ_wl c data - 8 - length data) 0)), c, m)"
proof -
  let ?n = "circ_wl c data" and ?w = "circ_write_area c"
  have "?n \<le> circ_max_size c" using assms(4,5) by simp
  note f = circ_fits_length [OF assms(1) this]
  have n0: "0 < ?n" "?w \<noteq> 0" using f(2) assms(4) by auto
  then have l0: "circ_last_written_length c \<noteq> 0" using f(1) assms(3) by (metis unat_0 less_numeral_extra(3))
  have "take ?n (drop (circ_base c + (?w - ?n)) (m_bytes m)) = circ_record ?n data"
    unfolding assms(6) [symmetric]
    using assms(4,5) by (simp add: circ_block_def drop_take add.commute min_absorb1)
  then have "state_mtd_peb_read c m (?w - ?n) ?n = ((None, circ_record ?n data), m)"
    using assms(2) f(3) by (simp add: state_mtd_peb_read_def read_full_healthy)
  then have "circ_read_at c m (?w - ?n) ?n = ((None, Some (take (?n - 8) (circ_record ?n data))), c, m)"
    using l0 by (simp add: circ_read_at_def Let_def)
  then show ?thesis
    using n0 l0 assms(3,4) f(1) circ_record_tail(2) [OF f(2)]
    by (simp add: state_backend_bucket_circular_read_def mod_eq_0_iff_dvd)
qed


lemma circ_geo_only:
  "circ_geo_ok (c\<lparr>circ_last_written_length := l\<rparr>) m = circ_geo_ok c m"
  "circ_geo_ok (c\<lparr>circ_wrong_magic := w\<rparr>) m = circ_geo_ok c m"
  "circ_block (c\<lparr>circ_last_written_length := l\<rparr>) m = circ_block c m"
  "circ_block (c\<lparr>circ_wrong_magic := w\<rparr>) m = circ_block c m"
  "circ_base (c\<lparr>circ_last_written_length := l\<rparr>) = circ_base c"
  "circ_base (c\<lparr>circ_wrong_magic := w\<rparr>) = circ_base c"
  by (simp_all add: circ_geo_ok_def circ_block_def circ_base_def)

lemma circ_holds_only:
  "circ_holds (c\<lparr>circ_write_area := a\<rparr>) m data = circ_holds c m data"
  "circ_holds (c\<lparr>circ_last_written_length := l\<rparr>) m data = circ_holds c m data"
  "circ_holds (c\<lparr>circ_wrong_magic := w\<rparr>) m data = circ_holds c m data"
  by (simp_all add: circ_holds_def circ_geo_only)

type_synonym circ_geometry = "u32 \<times> nat \<times> u32"

definition circ_geo :: "bucket_circular \<Rightarrow> circ_geometry" where
  "circ_geo c = (circ_eraseblock c, circ_writesize c, circ_erasesize c)"

definition circ_region :: "circ_geometry \<Rightarrow> nat \<times> nat" where
  "circ_region g = (case g of (eb, ws, es) \<Rightarrow> (unat eb * unat es, unat es))"

definition circ_of :: "circ_geometry \<Rightarrow> bucket_circular" where
  "circ_of g = (case g of (eb, ws, es) \<Rightarrow> circ_new eb ws es)"

definition circ_binv :: "(nat \<Rightarrow> bool) \<Rightarrow> bucket_circular \<Rightarrow> medium \<Rightarrow> bool" where
  "circ_binv bad c m \<longleftrightarrow> circ_inv c m \<and> \<not> bad (circ_base c)"

definition circ_geo_holds :: "(nat \<Rightarrow> bool) \<Rightarrow> circ_geometry \<Rightarrow> medium \<Rightarrow> bytes \<Rightarrow> bool" where
  "circ_geo_holds bad g m data \<longleftrightarrow> 8 \<le> fst (snd g) \<and> \<not> bad (circ_base (circ_of g)) \<and> circ_holds (circ_of g) m data"

definition circ_fits :: "circ_geometry \<Rightarrow> nat \<Rightarrow> bool" where
  "circ_fits g n \<longleftrightarrow> roundup (n + 8) (fst (snd g)) \<le> unat (snd (snd g))"

abbreviation circ_create_op where
  "circ_create_op bad g m \<equiv> state_backend_bucket_circular_create bad (fst g) (fst (snd g)) (snd (snd g)) m"

definition circ_read_op :: "bucket_circular \<Rightarrow> medium \<Rightarrow> bytes res \<times> bucket_circular \<times> medium" where
  "circ_read_op c m = (case state_backend_bucket_circular_read c m of
     ((ret, buf), c', m') \<Rightarrow>
       ((case ret of Some e \<Rightarrow> Inl e | None \<Rightarrow> (case buf of Some b \<Rightarrow> Inr b | None \<Rightarrow> Inl FAULT)), c', m'))"

lemma circ_of_geo:
  "circ_geo_ok c m \<Longrightarrow> circ_of (circ_geo c) = c\<lparr>circ_write_area := 0, circ_last_written_length := 0, circ_wrong_magic := False\<rparr>"
  by (cases c) (simp add: circ_of_def circ_geo_def circ_new_def circ_geo_ok_def)

lemma circ_holds_of_geo:
  assumes "circ_holds c m data"
  shows "circ_holds (circ_of (circ_geo c)) m data"
proof -
  have "circ_geo_ok c m" using assms by (simp add: circ_holds_def)
  from circ_of_geo [OF this] show ?thesis using assms by (simp add: circ_holds_only)
qed

lemma circ_base_of: "circ_base (circ_of (circ_geo c)) = circ_base c"
  by (simp add: circ_of_def circ_geo_def circ_new_def circ_base_def)

lemma circ_region_geo: "circ_geo_ok c m \<Longrightarrow> circ_region (circ_geo c) = (circ_base c, circ_max_size c)"
  by (simp add: circ_region_def circ_geo_def circ_base_def circ_geo_ok_def)

lemma circ_write_holds:
  assumes "circ_inv c m" and "healthy m" and "circ_wl c data \<le> circ_max_size c"
  shows "\<exists>c' m'. state_backend_bucket_circular_write c m data = (Inr (), c', m') \<and> healthy m' \<and> circ_holds c' m' data"
proof -
  obtain r c' m' where w: "state_backend_bucket_circular_write c m data = (r, c', m')" by (metis prod_cases3)
  have g: "circ_geo_ok c m" using assms(1) by (simp add: circ_inv_def)
  define c1 where "c1 = (if circ_max_size c \<le> circ_write_area c + circ_wl c data then c\<lparr>circ_write_area := 0\<rparr> else c)"
  have c1: "c1 = c \<or> c1 = c\<lparr>circ_write_area := 0\<rparr>" by (simp add: c1_def)
  have g1: "circ_geo_ok c1 m" "circ_writesize c1 = circ_writesize c" "circ_max_size c1 = circ_max_size c"
    using c1 g by auto
  note f = circ_fits_length [OF g assms(3)]
  obtain m1 where m1: "circ_room c1 m1 (circ_wl c data)" "healthy m1"
    "circ_append c1 m1 (circ_record (circ_wl c data) data) = (r, c', m')"
  proof (cases "circ_write_area c1 = 0")
    case True
    obtain m1 where e: "state_mtd_peb_erase c1 m = (Inr (), m1)" "healthy m1"
      using assms(2) by (simp add: state_mtd_peb_erase_def)
    have "circ_geo_ok c1 m1" by (rule circ_geo_ok_changes [OF g1(1) peb_erase_changes(1) [OF e(1) g1(1)]])
    then have "circ_room c1 m1 (circ_wl c data)"
      using peb_erase_changes(2) [OF e(1) g1(1)] assms(3) True g1 by (simp add: circ_room_def)
    moreover have "circ_append c1 m1 (circ_record (circ_wl c data) data) = (r, c', m')"
      using w f(2) assms(3) True e(1) unfolding state_backend_bucket_circular_write_def Let_def f(1) c1_def
      by (simp add: not_less)
    ultimately show ?thesis using that e(2) by blast
  next
    case False
    then have cc: "c1 = c" "circ_write_area c + circ_wl c data \<le> circ_max_size c"
      by (auto simp: c1_def split: if_splits)
    then have "circ_room c1 m (circ_wl c data)"
      using assms(1) False by (auto simp: circ_room_def circ_inv_def)
    moreover have "circ_append c1 m (circ_record (circ_wl c data) data) = (r, c', m')"
      using w f(2) assms(3) False unfolding state_backend_bucket_circular_write_def Let_def f(1) c1_def
      by (simp add: not_less)
    ultimately show ?thesis using that assms(2) by blast
  qed
  have "\<exists>m2 c2. circ_append c1 m1 (circ_record (circ_wl c data) data) = (Inr (), c2, m2) \<and> healthy m2
     \<and> circ_holds c1 m2 data"
    using circ_append_holds [of c1 m1 data] m1(1,2) g1(2) by auto
  then have "r = Inr ()" "healthy m'" "circ_holds c1 m' data" using m1(3) by auto
  moreover obtain w' where "c' = c\<lparr>circ_write_area := w'\<rparr>" using circ_geo_same [OF m1(3) c1] by blast
  ultimately show ?thesis using w c1 by (auto simp: circ_holds_only)
qed


lemma circ_open_holds:
  assumes "circ_geo_holds bad g m data" and "healthy m"
  shows "\<exists>b. circ_create_op bad g m = (Inr b, m) \<and> circ_geo b = g \<and> circ_binv bad b m
    \<and> state_backend_bucket_circular_read b m =
        ((None, Some (data @ replicate (circ_wl b data - 8 - length data) 0)), b, m)"
proof -
  let ?c = "circ_of g"
  have h: "circ_holds ?c m data" "\<not> bad (circ_base ?c)" "8 \<le> fst (snd g)"
    using assms(1) by (auto simp: circ_geo_holds_def)
  have gok: "circ_geo_ok ?c m" using h(1) by (simp add: circ_holds_def)
  have cg: "circ_geo ?c = g" using h(3) by (cases g) (simp add: circ_of_def circ_new_def circ_geo_def)
  obtain wa w where fd: "circ_found ?c (circ_block ?c m) = ?c\<lparr>circ_write_area := wa,
        circ_last_written_length := word_of_nat (circ_wl ?c data), circ_wrong_magic := w\<rparr>"
      "circ_wl ?c data \<le> wa" "wa \<le> circ_max_size ?c" "circ_writesize ?c dvd wa"
      "all_ff (drop wa (circ_block ?c m))"
      "take (circ_wl ?c data) (drop (wa - circ_wl ?c data) (circ_block ?c m)) = circ_record (circ_wl ?c data) data"
    using circ_holds_found [OF h(1)] by blast
  let ?b = "circ_found ?c (circ_block ?c m)"
  have rd: "state_mtd_peb_read ?c m 0 (circ_max_size ?c) = ((None, circ_block ?c m), m)"
    using assms(2) length_circ_block [OF gok]
    by (simp add: state_mtd_peb_read_def read_full_healthy circ_block_def)
  have "circ_create_op bad g m = (Inr ?b, m)"
    using assms(2) h(2) rd circ_write_base_eq [OF gok]
    by (cases g) (simp add: state_backend_bucket_circular_create_def bucket_circular_is_block_bad_def
        state_backend_bucket_circular_init_def circ_of_def Let_def)
  moreover have "circ_geo ?b = g" using cg by (simp add: fd(1) circ_geo_def)
  moreover have "circ_geo_ok ?b m" "circ_base ?b = circ_base ?c" "circ_block ?b m = circ_block ?c m"
    using gok by (simp_all add: fd(1) circ_geo_only)
  moreover have "circ_binv bad ?b m"
    using h(2) gok fd(3-5) by (simp add: circ_binv_def circ_inv_def fd(1) circ_geo_only)
  moreover have "state_backend_bucket_circular_read ?b m =
        ((None, Some (data @ replicate (circ_wl ?b data - 8 - length data) 0)), ?b, m)"
    by (rule circ_read_holds) (use gok assms(2) fd in \<open>simp_all add: circ_geo_only\<close>)
  ultimately show ?thesis by blast
qed

lemma same_region_block:
  assumes "same_region (circ_base c, circ_max_size c) m m'"
  shows "circ_block c m' = circ_block c m" and "circ_geo_ok c m' = circ_geo_ok c m"
  using assms by (auto simp: same_region_def circ_block_def circ_geo_ok_def)

lemma circ_wl_geo: "circ_fits (circ_geo c) (length data) \<Longrightarrow> circ_geo_ok c m \<Longrightarrow> circ_wl c data \<le> circ_max_size c"
  by (simp add: circ_fits_def circ_geo_def circ_geo_ok_def)

interpretation circ: bucket_contract "circ_create_op bad" state_backend_bucket_circular_write circ_read_op
    circ_geo circ_region circ_fits "circ_binv bad" "circ_geo_holds bad" for bad
proof
  fix c :: bucket_circular and g m m' data r c'
  show "\<exists>c' m'. state_backend_bucket_circular_write c m data = (Inr (), c', m') \<and> healthy m' \<and> circ_binv bad c' m'
      \<and> circ_geo c' = circ_geo c \<and> circ_geo_holds bad (circ_geo c) m' data"
    if "circ_binv bad c m" "healthy m" "circ_fits (circ_geo c) (length data)"
  proof -
    note healthy = that(2)
    have i: "circ_inv c m" "\<not> bad (circ_base c)" using that(1) by (auto simp: circ_binv_def)
    then have g: "circ_geo_ok c m" by (simp add: circ_inv_def)
    note wl = circ_wl_geo [OF that(3) g]
    obtain c' m' where w: "state_backend_bucket_circular_write c m data = (Inr (), c', m')" "healthy m'"
      "circ_holds c' m' data"
      using circ_write_holds [OF i(1) healthy wl] by blast
    from circ_write_inv [OF w(1) i(1) wl] obtain a where
      c': "circ_inv c' m'" "c' = c\<lparr>circ_write_area := a\<rparr>" by blast
    have "circ_geo c' = circ_geo c" "circ_base c' = circ_base c" by (simp_all add: c'(2) circ_geo_def)
    moreover have "circ_geo_holds bad (circ_geo c) m' data"
      using circ_holds_of_geo [OF w(3)] i(2) g \<open>circ_geo c' = circ_geo c\<close>
      by (simp add: circ_geo_holds_def circ_base_of) (simp add: circ_geo_def circ_geo_ok_def)
    ultimately show ?thesis using w c'(1) i(2) by (auto simp: circ_binv_def)
  qed
  show "only_changes (fst (circ_region (circ_geo c))) (snd (circ_region (circ_geo c))) m m'
      \<and> circ_geo c' = circ_geo c \<and> circ_binv bad c' m'"
    if "circ_binv bad c m" "circ_fits (circ_geo c) (length data)"
      "state_backend_bucket_circular_write c m data = (r, c', m')"
  proof -
    have i: "circ_inv c m" "\<not> bad (circ_base c)" using that(1) by (auto simp: circ_binv_def)
    then have g: "circ_geo_ok c m" by (simp add: circ_inv_def)
    from circ_write_inv [OF that(3) i(1) circ_wl_geo [OF that(2) g]] obtain a where
      "circ_inv c' m'" "c' = c\<lparr>circ_write_area := a\<rparr>" "only_changes (circ_base c) (circ_max_size c) m m'" by blast
    then show ?thesis using i(2) by (simp add: circ_region_geo [OF g] circ_binv_def) (simp add: circ_geo_def)
  qed
  show "\<exists>b b'. circ_create_op bad g m = (Inr b, m) \<and> circ_geo b = g \<and> circ_binv bad b m
      \<and> (\<exists>pad. circ_read_op b m = (Inr (data @ pad), b', m)) \<and> circ_geo b' = g \<and> circ_binv bad b' m"
    if "circ_geo_holds bad g m data" "healthy m"
    using circ_open_holds [OF that] by (auto simp: circ_read_op_def)
  show "circ_binv bad c m'" if "same_region (circ_region (circ_geo c)) m m'" "circ_binv bad c m"
  proof -
    have "circ_geo_ok c m" using that(2) by (simp add: circ_binv_def circ_inv_def)
    from that(1) [unfolded circ_region_geo [OF this]] show ?thesis
      using that(2) same_region_block [of c m m'] by (simp add: circ_binv_def circ_inv_def)
  qed
  show "circ_geo_holds bad g m' data"
    if "same_region (circ_region g) m m'" "circ_geo_holds bad g m data"
  proof -
    have "circ_region g = (circ_base (circ_of g), circ_max_size (circ_of g))"
      by (cases g) (simp add: circ_region_def circ_of_def circ_new_def circ_base_def)
    from same_region_block [OF that(1) [unfolded this]] show ?thesis
      using that(2) by (simp add: circ_geo_holds_def circ_holds_def)
  qed
qed


section \<open>Properties\<close>

lemma circ_bytes_only:
  assumes "m_bytes m' = m_bytes m"
  shows "circ_geo_ok c m' = circ_geo_ok c m" and "circ_block c m' = circ_block c m"
    and "circ_inv c m' = circ_inv c m"
  using assms by (auto simp: circ_geo_ok_def circ_block_def circ_inv_def)

definition demo_circ :: bucket_circular where
  "demo_circ = circ_new 1 8 48"

definition demo_flash :: medium where
  "demo_flash = \<lparr>m_bytes = replicate 96 0xff, m_flash = True, m_script = []\<rparr>"

lemma demo_circ_ok:
  "circ_geo_ok demo_circ demo_flash" "circ_base demo_circ = 48" "circ_max_size demo_circ = 48"
  "circ_writesize demo_circ = 8" "circ_inv demo_circ demo_flash" "healthy demo_flash"
  by (simp_all add: demo_circ_def demo_flash_def circ_geo_ok_def circ_new_def circ_base_def circ_inv_def healthy_def)

text \<open>
  C11: on an MTD device that works, data whose record fits an eraseblock is written to a circular bucket
  without error, whatever the fill of the block, and opening the eraseblock again and reading it returns the data
  followed by the zeros of its padding.
\<close>

theorem circular_write_reopen_read:
  assumes "circ_inv c m" and "healthy m" and "circ_wl c data \<le> circ_max_size c" and "\<not> bad (circ_base c)"
  shows "\<exists>c' m' b. state_backend_bucket_circular_write c m data = (Inr (), c', m')
    \<and> state_backend_bucket_circular_create bad (circ_eraseblock c) (circ_writesize c) (circ_erasesize c) m' = (Inr b, m')
    \<and> state_backend_bucket_circular_read b m' =
        ((None, Some (data @ replicate (circ_wl c data - 8 - length data) 0)), b, m')"
proof -
  have g: "circ_geo_ok c m" using assms(1) by (simp add: circ_inv_def)
  have bi: "circ_binv bad c m" using assms(1,4) by (simp add: circ_binv_def)
  have fit: "circ_fits (circ_geo c) (length data)"
    using assms(3) g by (simp add: circ_fits_def circ_geo_def circ_geo_ok_def)
  obtain c' m' where w: "state_backend_bucket_circular_write c m data = (Inr (), c', m')" "healthy m'"
    "circ_geo_holds bad (circ_geo c) m' data"
    using circ.write_law [OF bi assms(2) fit] by blast
  obtain b where b: "circ_create_op bad (circ_geo c) m' = (Inr b, m')" "circ_geo b = circ_geo c"
    "state_backend_bucket_circular_read b m' =
        ((None, Some (data @ replicate (circ_wl b data - 8 - length data) 0)), b, m')"
    using circ_open_holds [OF w(3,2)] by blast
  then show ?thesis using w(1) by (auto simp: circ_geo_def)
qed

lemma circular_write_reopen_read_witness:
  "\<exists>c' m' b. state_backend_bucket_circular_write demo_circ demo_flash [1, 2, 3] = (Inr (), c', m')
    \<and> state_backend_bucket_circular_create (\<lambda>_. False) 1 8 48 m' = (Inr b, m')
    \<and> state_backend_bucket_circular_read b m' = ((None, Some [1, 2, 3, 0, 0, 0, 0, 0]), b, m')"
  using circular_write_reopen_read [of demo_circ demo_flash "[1, 2, 3]" "\<lambda>_. False"] demo_circ_ok
  by (simp add: roundup_def) (simp add: demo_circ_def circ_new_def numeral_eq_Suc)

text \<open>
  C12: however the system calls behave, a write to a circular bucket keeps its invariant (the alignment of
  the write area and that everything behind it is erased) and changes no byte outside its eraseblock.
\<close>

theorem circular_write_invariant:
  assumes "state_backend_bucket_circular_write c m data = (r, c', m')"
    and "circ_inv c m" and "circ_wl c data \<le> circ_max_size c"
  shows "circ_inv c' m' \<and> only_changes (circ_base c) (circ_max_size c) m m'"
  using circ_write_inv [OF assms] by blast

lemma circular_write_invariant_witness:
  "circ_inv (fst (snd (state_backend_bucket_circular_write demo_circ (demo_flash\<lparr>m_script := [Io_ok, Io_ok, Io_part 3]\<rparr>) [1, 2, 3])))
     (snd (snd (state_backend_bucket_circular_write demo_circ (demo_flash\<lparr>m_script := [Io_ok, Io_ok, Io_part 3]\<rparr>) [1, 2, 3])))"
proof -
  let ?m = "demo_flash\<lparr>m_script := [Io_ok, Io_ok, Io_part 3]\<rparr>"
  obtain r c' m' where w: "state_backend_bucket_circular_write demo_circ ?m [1, 2, 3] = (r, c', m')"
    by (metis prod_cases3)
  have "circ_inv demo_circ ?m" using demo_circ_ok(5) circ_bytes_only(3) [of ?m demo_flash] by simp
  then show ?thesis
    using circular_write_invariant [OF w] demo_circ_ok by (simp add: w roundup_def)
qed

text \<open>Opening establishes that invariant, whatever the reads return.\<close>

lemma circ_create_inv:
  assumes "state_backend_bucket_circular_create bad eb ws es m = (Inr b, m')"
    and "circ_geo_ok (circ_new eb ws es) m"
  shows "circ_inv b m'"
proof -
  let ?c = "circ_new eb ws es"
  obtain r1 m1 where s1: "sys_simple m = (r1, m1)" by fastforce
  obtain r2 m2 where s2: "bucket_circular_is_block_bad bad ?c m1 = (r2, m2)" by fastforce
  obtain ret buf m3 where s3: "state_mtd_peb_read ?c m2 0 (circ_max_size ?c) = ((ret, buf), m3)"
    by (metis prod.exhaust)
  have m1: "m_bytes m1 = m_bytes m" using s1
    by (auto simp: sys_simple_def split: prod.splits io_outcome.splits dest: next_io_changes)
  have m2: "m_bytes m2 = m_bytes m1" using s2
    by (auto simp: bucket_circular_is_block_bad_def sys_simple_def
        split: prod.splits sum.splits io_outcome.splits dest: next_io_changes)
  have m3: "m_bytes m3 = m_bytes m2" using s3
    by (auto simp: state_mtd_peb_read_def sys_simple_def
        split: prod.splits sum.splits io_outcome.splits dest!: next_io_changes read_full_changes)
  have b: "b = circ_found ?c buf" "m' = m3"
    using assms(1) s1 s2 s3
    by (auto simp: state_backend_bucket_circular_create_def Let_def state_backend_bucket_circular_init_def
        split: sum.splits if_splits option.splits)
  have g: "circ_geo_ok ?c m2" using assms(2) m1 m2 circ_bytes_only(1) [of m2 m] by simp
  then have "circ_base ?c + circ_max_size ?c \<le> length (m_bytes m2)" by (simp add: circ_geo_ok_def)
  from peb_read_prefix [OF s3 this] obtain k where
    "k \<le> circ_max_size ?c" "buf = take k (drop (circ_base ?c) (m_bytes m2)) @ replicate (circ_max_size ?c - k) 0"
    by blast
  from circ_found_inv [OF g this] have "circ_inv b m2" by (simp add: b)
  then show ?thesis using circ_bytes_only(3) [OF m3] by (simp add: b(2))
qed

lemma circ_found_keeps:
  "circ_eraseblock (circ_found c buf) = circ_eraseblock c" "circ_erasesize (circ_found c buf) = circ_erasesize c"
  by (simp_all add: circ_found_def Let_def)

lemma circ_init_keeps:
  "state_backend_bucket_circular_init c m = (Inr b, m') \<Longrightarrow>
     circ_eraseblock b = circ_eraseblock c \<and> circ_erasesize b = circ_erasesize c"
  by (auto simp: state_backend_bucket_circular_init_def circ_found_keeps split: prod.splits option.splits if_splits)

lemma circ_create_geo:
  assumes "state_backend_bucket_circular_create bad eb ws es m = (Inr b, m')"
  shows "circ_eraseblock b = eb \<and> circ_erasesize b = es"
proof -
  have "\<exists>m1. state_backend_bucket_circular_init (circ_new eb ws es) m1 = (Inr b, m')"
    using assms by (auto simp: state_backend_bucket_circular_create_def Let_def split: prod.splits sum.splits if_splits)
  then show ?thesis using circ_init_keeps by (fastforce simp: circ_new_def)
qed

lemma circ_create_medium:
  assumes "state_backend_bucket_circular_create bad eb ws es m = (r, m')" and "healthy m"
  shows "m' = m"
  using assms
  by (auto simp: state_backend_bucket_circular_create_def Let_def bucket_circular_is_block_bad_def
      state_backend_bucket_circular_init_def state_mtd_peb_read_def read_full_healthy split: if_splits)

text \<open>
  However the system calls behave, a circular bucket that was opened on an eraseblock satisfies the
  invariant: pages behind the position found are erased.
\<close>

theorem circular_create_invariant:
  assumes "state_backend_bucket_circular_create bad eb ws es m = (Inr b, m')"
    and "circ_geo_ok (circ_new eb ws es) m"
  shows "circ_inv b m'"
  by (rule circ_create_inv [OF assms])

lemma circular_create_invariant_witness:
  "\<exists>b. state_backend_bucket_circular_create (\<lambda>_. False) 1 8 48 (demo_flash\<lparr>m_script := [Io_ok, Io_ok, Io_ok, Io_zero]\<rparr>)
      = (Inr b, demo_flash) \<and> circ_inv b demo_flash"
proof -
  let ?m = "demo_flash\<lparr>m_script := [Io_ok, Io_ok, Io_ok, Io_zero]\<rparr>"
  have "\<exists>b. state_backend_bucket_circular_create (\<lambda>_. False) 1 8 48 ?m = (Inr b, demo_flash)"
    by (simp add: state_backend_bucket_circular_create_def bucket_circular_is_block_bad_def sys_simple_def next_io_def
        state_backend_bucket_circular_init_def state_mtd_peb_read_def Let_def read_full.simps sys_read_def circ_new_def)
      (simp add: demo_flash_def)
  then obtain b where b: "state_backend_bucket_circular_create (\<lambda>_. False) 1 8 48 ?m = (Inr b, demo_flash)" by blast
  have "circ_geo_ok (circ_new 1 8 48) ?m"
    using demo_circ_ok(1) circ_bytes_only(1) [of ?m demo_flash] by (simp add: demo_circ_def)
  from circular_create_invariant [OF b this] b show ?thesis by blast
qed


text \<open>The same system calls on flash memory and on memory whose cells can be overwritten.\<close>

abbreviation unflash :: "medium \<Rightarrow> medium" where
  "unflash m \<equiv> m\<lparr>m_flash := False\<rparr>"

lemma next_io_unflash: "next_io (unflash m) = (case next_io m of (out, m') \<Rightarrow> (out, unflash m'))"
  by (simp add: next_io_def split: list.splits)

lemma sys_simple_unflash: "sys_simple (unflash m) = (case sys_simple m of (r, m') \<Rightarrow> (r, unflash m'))"
  by (simp add: sys_simple_def next_io_unflash split: prod.splits io_outcome.splits)

lemma flush_unflash: "flush (unflash m) = (case flush m of (r, m') \<Rightarrow> (r, unflash m'))"
  by (simp add: flush_def sys_simple_unflash split: prod.splits sum.splits)

lemma erase_unflash: "erase (unflash m) n ofs = (case erase m n ofs of (r, m') \<Rightarrow> (r, unflash m'))"
  by (simp add: erase_def next_io_unflash split: prod.splits io_outcome.splits)

lemma program_unflash:
  assumes "all_ff (take (length bs) (drop pos (m_bytes m)))" and "pos + length bs \<le> length (m_bytes m)"
  shows "program (unflash m) pos bs = unflash (program m pos bs)"
  using program_erased [OF assms] by (simp add: program_def)

lemma all_ff_take: "all_ff (take n xs) \<Longrightarrow> k \<le> n \<Longrightarrow> all_ff (take k xs)"
  by (metis min.absorb1 take_take list_all_append append_take_drop_id)

lemma sys_write_unflash:
  assumes "all_ff (take (length buf) (drop pos (m_bytes m)))"
  shows "sys_write (unflash m) pos buf = (case sys_write m pos buf of (r, m') \<Rightarrow> (r, unflash m'))"
proof -
  obtain out m1 where n: "next_io m = (out, m1)" by fastforce
  have b: "m_bytes m1 = m_bytes m" using next_io_changes [OF n] by simp
  have p: "program (unflash m1) pos (take (min k (length (m_bytes m) - pos)) buf) =
      unflash (program m1 pos (take (min k (length (m_bytes m) - pos)) buf))"
    if "take (min k (length (m_bytes m) - pos)) buf \<noteq> []" for k
  proof (rule program_unflash)
    let ?t = "take (min k (length (m_bytes m) - pos)) buf"
    show "all_ff (take (length ?t) (drop pos (m_bytes m1)))"
      unfolding b by (rule all_ff_take [OF assms]) simp
    show "pos + length ?t \<le> length (m_bytes m1)" using that b by auto
  qed
  show ?thesis
    using p by (auto simp: sys_write_def next_io_unflash n Let_def simp del: take_eq_Nil take_eq_Nil2
        split: io_outcome.splits)
qed

lemma sys_write_now:
  assumes "sys_write m pos buf = (Inr now, m')"
  shows "now \<le> length buf \<and> only_changes pos now m m'"
proof -
  obtain out m1 where n: "next_io m = (out, m1)" by fastforce
  have b: "m_bytes m1 = m_bytes m" "m_flash m1 = m_flash m" using next_io_changes [OF n] by auto
  have o1: "only_changes pos k m m1" for k using b by (simp add: only_changes_io)
  have put: "only_changes pos (length (take (min k (length (m_bytes m) - pos)) buf)) m
      (program m1 pos (take (min k (length (m_bytes m) - pos)) buf))" (is "only_changes pos (length ?t) _ _")
    if "take (min k (length (m_bytes m) - pos)) buf \<noteq> []" for k
  proof -
    have "pos + length ?t \<le> length (m_bytes m1)" using that b by auto
    from program_changes [OF this] show ?thesis by (rule only_changes_trans [OF o1])
  qed
  have le: "length (take k buf) \<le> length buf" for k by simp
  show ?thesis
    using assms put o1 [of 0] le unfolding sys_write_def n Let_def prod.case
    by (auto split: io_outcome.splits if_splits simp del: length_take)
qed

lemma write_full_unflash:
  "all_ff (take (length buf) (drop pos (m_bytes m))) \<Longrightarrow>
   write_full (unflash m) pos buf k = (case write_full m pos buf k of (r, m') \<Rightarrow> (r, unflash m'))"
proof (induction m pos buf k rule: write_full.induct)
  case (1 m pos buf k)
  obtain r1 m1 where w: "sys_write m pos buf = (r1, m1)" by fastforce
  have u: "sys_write (unflash m) pos buf = (r1, unflash m1)"
    using sys_write_unflash [OF "1.prems"] w by simp
  show ?case
  proof (cases "buf \<noteq> [] \<and> (\<exists>now. r1 = Inr now \<and> now \<noteq> 0)")
    case True
    then obtain now where now: "r1 = Inr now" "now \<noteq> 0" "buf \<noteq> []" by auto
    have le: "now \<le> length buf" and oc: "only_changes pos now m m1"
      using sys_write_now w now(1) by auto
    have "drop (pos + now) (m_bytes m1) = drop (pos + now) (m_bytes m)"
      by (rule only_changes_take_drop(2) [OF oc]) simp
    then have "take (length (drop now buf)) (drop (pos + now) (m_bytes m1)) =
        drop now (take (length buf) (drop pos (m_bytes m)))"
      by (simp add: drop_take add.commute)
    then have "all_ff (take (length (drop now buf)) (drop (pos + now) (m_bytes m1)))"
      using "1.prems" by (metis list.pred_set set_drop_subset subsetD)
    from "1.IH" [OF now(3) w [symmetric] now(1,2) this]
    show ?thesis
      using w u now by (subst (1 2) write_full.simps) simp
  next
    case False
    then show ?thesis using w u by (subst (1 2) write_full.simps) (auto split: sum.splits)
  qed
qed

lemma peb_write_unflash:
  assumes "circ_room c m (length buf)"
  shows "state_mtd_peb_write (c\<lparr>circ_write_area := a\<rparr>) (unflash m) (circ_write_area c) buf =
    (case state_mtd_peb_write (c\<lparr>circ_write_area := a\<rparr>) m (circ_write_area c) buf of (r, m') \<Rightarrow> (r, unflash m'))"
proof -
  let ?w = "circ_write_area c"
  have room: "circ_geo_ok c m" "?w + length buf \<le> circ_max_size c" "all_ff (drop ?w (circ_block c m))"
    using assms by (auto simp: circ_room_def)
  have base: "circ_write_base (c\<lparr>circ_write_area := a\<rparr>) = circ_base c"
    using circ_write_base_eq [of "c\<lparr>circ_write_area := a\<rparr>" m] room(1) by simp
  obtain r1 m1 where s: "sys_simple m = (r1, m1)" by fastforce
  have m1: "m_bytes m1 = m_bytes m" using s
    by (auto simp: sys_simple_def split: prod.splits io_outcome.splits dest: next_io_changes)
  have "take (length buf) (drop (circ_base c + ?w) (m_bytes m1)) = take (length buf) (drop ?w (circ_block c m))"
    using room(2) by (simp add: m1 circ_block_def drop_take add.commute min_absorb1)
  then have ff: "all_ff (take (length buf) (drop (circ_base c + ?w) (m_bytes m1)))"
    using room(3) by (metis list.pred_set set_take_subset subsetD)
  show ?thesis
    using write_full_unflash [OF ff, of "length buf"]
    by (simp add: state_mtd_peb_write_def sys_simple_unflash s base flush_unflash split: prod.splits sum.splits)
qed

lemma circ_append_unflash:
  assumes "circ_room c m (length buf)"
  shows "circ_append c (unflash m) buf = (case circ_append c m buf of (r, c', m') \<Rightarrow> (r, c', unflash m'))"
  using peb_write_unflash [OF assms] by (simp add: circ_append_def Let_def split: prod.splits)

text \<open>
  C26: a circular bucket only programs erased cells: on flash memory, where programming can only clear
  bits, a write has the same outcome and leaves the same bytes as on memory that can be overwritten, however the
  system calls behave.
\<close>

theorem circular_write_programs_erased:
  assumes "circ_inv c m" and "circ_wl c data \<le> circ_max_size c"
  shows "state_backend_bucket_circular_write c (unflash m) data =
    (case state_backend_bucket_circular_write c m data of (r, c', m') \<Rightarrow> (r, c', unflash m'))"
proof -
  let ?n = "circ_wl c data" and ?rec = "circ_record (circ_wl c data) data"
  have g: "circ_geo_ok c m" using assms(1) by (simp add: circ_inv_def)
  note f = circ_fits_length [OF g assms(2)]
  define c1 where "c1 = (if circ_max_size c \<le> circ_write_area c + ?n then c\<lparr>circ_write_area := 0\<rparr> else c)"
  have g1: "circ_geo_ok c1 m" "circ_writesize c1 = circ_writesize c" "circ_max_size c1 = circ_max_size c"
    using g by (auto simp: c1_def)
  have w: "state_backend_bucket_circular_write c m' data = (if circ_write_area c1 = 0 then
                (case state_mtd_peb_erase c1 m' of
                   (Inl e, m1) \<Rightarrow> (Inl e, c1, m1)
                 | (Inr _, m1) \<Rightarrow> circ_append c1 m1 ?rec)
              else circ_append c1 m' ?rec)" for m'
    using f(2) assms(2) unfolding state_backend_bucket_circular_write_def Let_def c1_def f(1)
    by (simp add: not_less)
  show ?thesis
  proof (cases "circ_write_area c1 = 0")
    case False
    then have "c1 = c" "circ_write_area c + ?n \<le> circ_max_size c" by (auto simp: c1_def split: if_splits)
    then have "circ_room c1 m (length ?rec)"
      using assms(1) False f(3) by (auto simp: circ_room_def circ_inv_def)
    from circ_append_unflash [OF this] show ?thesis using False by (simp add: w)
  next
    case True
    obtain r1 m1 where e: "state_mtd_peb_erase c1 m = (r1, m1)" by fastforce
    have eu: "state_mtd_peb_erase c1 (unflash m) = (r1, unflash m1)"
      using e by (simp add: state_mtd_peb_erase_def erase_unflash)
    show ?thesis
    proof (cases r1)
      case (Inl x)
      then show ?thesis using True e eu by (simp add: w)
    next
      case (Inr u)
      then have "circ_room c1 m1 (length ?rec)"
        using peb_erase_changes(2) [OF e g1(1)] assms(2) True g1 f(3)
          circ_geo_ok_changes [OF g1(1) peb_erase_changes(1) [OF e g1(1)]] by (simp add: circ_room_def)
      from circ_append_unflash [OF this] show ?thesis using True e eu Inr by (simp add: w)
    qed
  qed
qed

lemma circular_write_programs_erased_witness:
  "state_backend_bucket_circular_write demo_circ (unflash demo_flash) [1, 2, 3] =
    (case state_backend_bucket_circular_write demo_circ demo_flash [1, 2, 3] of (r, c', m') \<Rightarrow> (r, c', unflash m'))"
  by (rule circular_write_programs_erased) (use demo_circ_ok in \<open>simp_all add: roundup_def\<close>)


text \<open>Where the last page has no magic, opening the bucket takes the whole of it for one record of the old format.\<close>

lemma circular_torn_found:
  assumes "circ_geo_ok (circ_new eb ws es) m" and "8 \<le> ws"
    and "circ_block (circ_new eb ws es) m = circ_record n oldest @ later @ torn @ replicate k 0xff"
    and "length oldest + 8 \<le> n" and "ws dvd n" and "ws dvd length later"
    and "\<not> all_ff torn" and "length torn + 8 \<le> ws" and "ws \<le> length torn + k"
  shows "\<exists>w. circ_found (circ_new eb ws es) (circ_block (circ_new eb ws es) m) =
    (circ_new eb ws es)\<lparr>circ_write_area := n + length later + ws, circ_last_written_length := 0, circ_wrong_magic := w\<rparr>"
proof -
  let ?c = "circ_new eb ws es"
  let ?b = "circ_block ?c m" and ?wa = "n + length later + ws"
  have c: "circ_writesize ?c = ws" using assms(2) by (simp_all add: circ_new_def)
  have ws: "0 < ws" "ws dvd circ_max_size ?c" using assms(1,2) c by (auto simp: circ_geo_ok_def)
  have lr: "length (circ_record n oldest) = n" by (rule length_circ_record [OF assms(4)])
  then have max: "circ_max_size ?c = n + length later + length torn + k"
    using length_circ_block [OF assms(1)] by (simp add: assms(3))
  have tail: "drop ?wa ?b = replicate (k - (ws - length torn)) 0xff"
    using lr assms(8) by (simp add: assms(3))
  have "drop (?wa - ws) ?b = torn @ replicate k 0xff" using lr by (simp add: assms(3))
  then have "\<not> all_ff (take ws (drop (?wa - ws) ?b))" using assms(7,8) by simp
  from circ_scan_at [OF ws(1) _ ws(2) _ _ disjI2 [OF this]]
  have sc: "circ_scan ?b ws (int (circ_max_size ?c) - int ws) = int ?wa - int ws"
    using assms(5,6,9) tail max by (simp add: list_all_iff)
  have "ws dvd ?wa" using assms(5,6) by simp
  from circ_found_at [of ?c ?wa ?b] this sc obtain w where
    fd: "circ_found ?c ?b = ?c\<lparr>circ_write_area := ?wa, circ_last_written_length := circ_last ?b ?wa, circ_wrong_magic := w\<rparr>"
    using assms(2) c by auto
  have "drop (?wa - 8) ?b = replicate (k - (ws - 8 - length torn)) 0xff"
    using lr assms(2,8) by (simp add: assms(3))
  then have "take 4 (drop (?wa - 8) ?b) = replicate 4 0xff"
    using assms(8,9) by (simp add: min_absorb1)
  then have "get_le32 (drop (?wa - 8) ?b) = 0xffffffff" by (rule get_le32_erased)
  then have "circ_last ?b ?wa = 0" by (simp add: circ_last_def circular_magic_def)
  with fd show ?thesis by auto
qed

text \<open>Opening a bucket on a device that works reads its eraseblock.\<close>

lemma circular_create_found:
  assumes "circ_geo_ok (circ_new eb ws es) m" and "healthy m" and "8 \<le> ws" and "\<not> bad (unat eb * unat es)"
  shows "state_backend_bucket_circular_create bad eb ws es m = (Inr (circ_found (circ_new eb ws es) (circ_block (circ_new eb ws es) m)), m)"
proof -
  let ?c = "circ_new eb ws es"
  have "circ_base ?c = unat eb * unat es" using assms(3) by (simp_all add: circ_new_def circ_base_def)
  moreover have "state_mtd_peb_read ?c m 0 (circ_max_size ?c) = ((None, circ_block ?c m), m)"
    using assms(2) length_circ_block [OF assms(1)]
    by (simp add: state_mtd_peb_read_def read_full_healthy circ_block_def)
  ultimately show ?thesis
    using assms(2,4) circ_write_base_eq [OF assms(1)]
    by (simp add: state_backend_bucket_circular_create_def bucket_circular_is_block_bad_def
        state_backend_bucket_circular_init_def Let_def)
qed

text \<open>
  C38: after a write that was interrupted inside the first page of its record, opening the block takes the
  page without a magic for the old format without lengths: the read succeeds and returns the content from the start
  of the block, that is the oldest record of the block and not the last complete one.
\<close>

theorem circular_torn_write_rolls_back:
  assumes "circ_geo_ok (circ_new eb ws es) m" and "healthy m" and "8 \<le> ws" and "\<not> bad (unat eb * unat es)"
    and "circ_block (circ_new eb ws es) m = circ_record n oldest @ later @ torn @ replicate k 0xff"
    and "length oldest + 8 \<le> n" and "ws dvd n" and "ws dvd length later"
    and "\<not> all_ff torn" and "length torn + 8 \<le> ws" and "ws \<le> length torn + k"
  shows "\<exists>b b' bs. state_backend_bucket_circular_create bad eb ws es m = (Inr b, m)
    \<and> state_backend_bucket_circular_read b m = ((None, Some bs), b', m) \<and> take (length oldest) bs = oldest
    \<and> circ_write_area b' = 0"
proof -
  let ?c = "circ_new eb ws es"
  let ?b = "circ_block ?c m" and ?wa = "n + length later + ws"
  let ?f = "circ_found ?c ?b" and ?n = "min ?wa (circ_max_size ?c - 8)"
  obtain w where fd: "?f = ?c\<lparr>circ_write_area := ?wa, circ_last_written_length := 0, circ_wrong_magic := w\<rparr>"
    using circular_torn_found [OF assms(1,3,5-11)] by blast
  have f: "circ_write_area ?f = ?wa" "circ_last_written_length ?f = 0" "circ_max_size ?f = circ_max_size ?c"
    "circ_base ?f = circ_base ?c" "circ_geo_ok ?f m"
    using assms(1) by (simp_all add: fd circ_geo_only)
  have "circ_base ?c + circ_max_size ?c \<le> length (m_bytes m)" using assms(1) by (simp add: circ_geo_ok_def)
  then have "length (take ?n (drop (circ_base ?c) (m_bytes m))) = ?n" by simp
  moreover have "take ?n (drop (circ_base ?c) (m_bytes m)) = take ?n ?b" by (simp add: circ_block_def)
  ultimately have "state_mtd_peb_read (?f\<lparr>circ_write_area := 0\<rparr>) m 0 ?n = ((None, take ?n ?b), m)"
    using assms(2) f(4) by (simp add: state_mtd_peb_read_def read_full_healthy)
  then have read: "state_backend_bucket_circular_read ?f m = ((None, Some (take ?n ?b)), ?f\<lparr>circ_write_area := 0\<rparr>, m)"
    using f assms(3) by (simp add: state_backend_bucket_circular_read_def circ_read_at_def)
  have "circ_max_size ?c = n + length later + length torn + k"
    using length_circ_record [OF assms(6)] length_circ_block [OF assms(1)] by (simp add: assms(5))
  then have "take (length oldest) (take ?n ?b) = take (length oldest) ?b" using assms(6,10,11) by (simp add: min_absorb1)
  also have "\<dots> = oldest" by (simp add: assms(5) circ_record_def)
  finally show ?thesis using circular_create_found [of eb ws es m bad] assms(1-4) read by auto
qed

definition demo_torn :: medium where
  "demo_torn = \<lparr>m_bytes = circ_record 16 [1, 1] @ circ_record 16 [2, 2] @ [3] @ replicate 31 0xff,
     m_flash = True, m_script = []\<rparr>"

lemma circular_torn_write_rolls_back_witness:
  "\<exists>b b' bs. state_backend_bucket_circular_create (\<lambda>_. False) 0 16 64 demo_torn = (Inr b, demo_torn)
    \<and> state_backend_bucket_circular_read b demo_torn = ((None, Some bs), b', demo_torn)
    \<and> take 2 bs = [1, 1]"
proof -
  have l: "length (circ_record 16 [a, a]) = 16" for a by (rule length_circ_record) simp
  have "circ_geo_ok (circ_new 0 16 64) demo_torn" "healthy demo_torn"
    by (simp_all add: circ_geo_ok_def circ_new_def circ_base_def healthy_def l demo_torn_def)
  moreover have "circ_block (circ_new 0 16 64) demo_torn =
      circ_record 16 [1, 1] @ circ_record 16 [2, 2] @ [3] @ replicate 31 0xff"
    by (simp add: circ_block_def circ_new_def circ_base_def l demo_torn_def)
  ultimately obtain b b' bs where "state_backend_bucket_circular_create (\<lambda>_. False) 0 16 64 demo_torn = (Inr b, demo_torn)"
    "state_backend_bucket_circular_read b demo_torn = ((None, Some bs), b', demo_torn)"
    "take (length [1, 1 :: u8]) bs = [1, 1]"
    using circular_torn_write_rolls_back [of 0 16 64 demo_torn "\<lambda>_. False" 16 "[1, 1]" "circ_record 16 [2, 2]" "[3]" 31] l
    by auto
  moreover have "length [1, 1 :: u8] = 2" by simp
  ultimately show ?thesis by metis
qed

text \<open>
  The position of a write is a 32 bit product: on a device with more than four GiB a write to a
  later eraseblock leaves that block as it is and changes a block below four GiB, while reads and erases use the
  right block.
\<close>

theorem circular_write_wraps_address:
  assumes "state_mtd_peb_write c m ofs buf = (r, m')"
    and "2 ^ 32 \<le> circ_base c" and "circ_base c mod 2 ^ 32 + ofs + length buf \<le> 2 ^ 32"
  shows "only_changes (circ_base c mod 2 ^ 32 + ofs) (length buf) m m' \<and> circ_block c m' = circ_block c m"
proof -
  have base: "circ_write_base c = circ_base c mod 2 ^ 32"
    by (simp add: circ_write_base_def circ_base_def unat_word_ariths)
  obtain r1 m1 where s: "sys_simple m = (r1, m1)" by fastforce
  note c1 = sys_simple_changes [OF s, of "circ_base c mod 2 ^ 32 + ofs" "length buf"]
  obtain r2 m2 where w: "write_full m1 (circ_base c mod 2 ^ 32 + ofs) buf (length buf) = (r2, m2)" by fastforce
  obtain r3 m3 where f: "flush m2 = (r3, m3)" by fastforce
  note c3 = flush_changes [OF f, of "circ_base c mod 2 ^ 32 + ofs" "length buf"]
  have oc: "only_changes (circ_base c mod 2 ^ 32 + ofs) (length buf) m m'"
    using assms(1) s w f c1 c3 write_full_changes [OF w]
    by (auto simp: state_mtd_peb_write_def base split: sum.splits intro: only_changes_trans)
  have "drop (circ_base c) (m_bytes m') = drop (circ_base c) (m_bytes m)"
    by (rule only_changes_take_drop(2) [OF oc]) (use assms(2,3) in linarith)
  then show ?thesis using oc by (simp add: circ_block_def)
qed

lemma circular_write_wraps_address_witness:
  "circ_block (circ_new 0x10000 8 0x10000)
     (snd (state_mtd_peb_write (circ_new 0x10000 8 0x10000)
       \<lparr>m_bytes = replicate (2 ^ 32 + 2 ^ 16) 0xff, m_flash = True, m_script = []\<rparr> 0 [1, 2]))
   = circ_block (circ_new 0x10000 8 0x10000)
       \<lparr>m_bytes = replicate (2 ^ 32 + 2 ^ 16) 0xff, m_flash = True, m_script = []\<rparr>"
proof -
  let ?c = "circ_new 0x10000 8 0x10000"
  define m where "m = \<lparr>m_bytes = replicate (2 ^ 32 + 2 ^ 16) (0xff :: u8), m_flash = True, m_script = []\<rparr>"
  obtain r m' where w: "state_mtd_peb_write ?c m 0 [1, 2] = (r, m')" by fastforce
  have "circ_base ?c = 4294967296" by (simp add: circ_base_def circ_new_def)
  then have "circ_block ?c m' = circ_block ?c m"
    using circular_write_wraps_address [OF w] by simp
  then show ?thesis using w unfolding m_def by simp
qed

end
