(* ===== verification/Storage.thy ===== *)
theory Storage
  imports Bucket_Direct Bucket_Circular
begin

text \<open>
  \<open>src/barebox-state/backend_storage.c\<close>: redundant storage of one buffer in several buckets, and the
  initialisation of the buckets of a device.

  A bucket is a direct or a circular one; the dispatch through the function pointers of
  \<open>struct state_backend_storage_bucket\<close> is a case distinction.  The format is the parameter \<open>verify\<close>, the function
  pointer \<open>format->verify\<close>, with the state of the format passed along.
\<close>

datatype bucket_ops = Bucket_direct bucket_direct | Bucket_circular bucket_circular

record storage_bucket =
  bk_ops :: bucket_ops
  bk_num :: nat
  bk_offset :: nat
  bk_needs_refresh :: bool
  bk_buf :: bytes
  bk_len :: nat
  bk_wrong_magic :: bool

record backend_storage =
  st_readonly :: bool
  st_buckets :: "storage_bucket list"
  st_name :: "string option"
  st_offset :: nat
  st_max_size :: nat
  st_stridesize :: u32

type_synonym 'f verify = "'f \<Rightarrow> u32 \<Rightarrow> bytes \<Rightarrow> nat \<Rightarrow> bool \<Rightarrow> (unit res \<times> nat) \<times> 'f"

section \<open>Dispatch to the buckets\<close>

text \<open>
  \<open>bucket->read (bucket, &bucket->buf, &bucket->len)\<close>; \<open>bc\<close> is the option for backward compatibility, \<open>stack\<close> the
  uninitialised memory of the direct bucket's header.
\<close>

definition bucket_read :: "bool \<Rightarrow> bytes \<Rightarrow> storage_bucket \<Rightarrow> medium \<Rightarrow> errno option \<times> storage_bucket \<times> medium" where
  "bucket_read bc stack b m = (case bk_ops b of
     Bucket_direct d \<Rightarrow>
       (case state_backend_bucket_direct_read bc stack d m of
          ((Inl e, w), m') \<Rightarrow> (Some e, b\<lparr>bk_wrong_magic := bk_wrong_magic b \<or> w\<rparr>, m')
        | ((Inr buf, w), m') \<Rightarrow>
            (None, b\<lparr>bk_wrong_magic := bk_wrong_magic b \<or> w, bk_buf := buf, bk_len := length buf\<rparr>, m'))
   | Bucket_circular c \<Rightarrow>
       (case state_backend_bucket_circular_read c m of
          ((ret, None), c', m') \<Rightarrow> (ret, b\<lparr>bk_ops := Bucket_circular c'\<rparr>, m')
        | ((ret, Some buf), c', m') \<Rightarrow>
            (ret, b\<lparr>bk_ops := Bucket_circular c', bk_buf := buf, bk_len := length buf\<rparr>, m')))"

definition ops_write :: "bool \<Rightarrow> bucket_ops \<Rightarrow> medium \<Rightarrow> bytes \<Rightarrow> unit res \<times> bucket_ops \<times> medium" where
  "ops_write bc ops m buf = (case ops of
     Bucket_direct d \<Rightarrow> (case state_backend_bucket_direct_write bc d m buf of (r, m') \<Rightarrow> (r, ops, m'))
   | Bucket_circular c \<Rightarrow>
       (case state_backend_bucket_circular_write c m buf of (r, c', m') \<Rightarrow> (r, Bucket_circular c', m')))"

definition bucket_write :: "bool \<Rightarrow> storage_bucket \<Rightarrow> medium \<Rightarrow> bytes \<Rightarrow> unit res \<times> storage_bucket \<times> medium" where
  "bucket_write bc b m buf = (case ops_write bc (bk_ops b) m buf of (r, ops, m') \<Rightarrow> (r, b\<lparr>bk_ops := ops\<rparr>, m'))"

section \<open>Writing\<close>

definition min_buckets_written :: nat where
  "min_buckets_written = 1"

fun storage_write_loop ::
    "bool \<Rightarrow> storage_bucket list \<Rightarrow> medium \<Rightarrow> bytes \<Rightarrow> nat \<Rightarrow> nat \<times> storage_bucket list \<times> medium" where
  "storage_write_loop bc [] m buf written = (written, [], m)"
| "storage_write_loop bc (b # bs) m buf written =
     (case bucket_write bc b m buf of (r, b', m1) \<Rightarrow>
        (case storage_write_loop bc bs m1 buf (case r of Inl _ \<Rightarrow> written | Inr _ \<Rightarrow> Suc written) of
           (n, bs', m2) \<Rightarrow> (n, b' # bs', m2)))"

definition state_storage_write ::
    "bool \<Rightarrow> backend_storage \<Rightarrow> medium \<Rightarrow> bytes \<Rightarrow> unit res \<times> backend_storage \<times> medium" where
  "state_storage_write bc st m buf =
     (if st_readonly st then (Inr (), st, m)
      else (case storage_write_loop bc (st_buckets st) m buf 0 of (n, bs, m') \<Rightarrow>
        (if min_buckets_written \<le> n then Inr () else Inl EIO, st\<lparr>st_buckets := bs\<rparr>, m')))"

section \<open>Reading and repairing\<close>

definition bucket_refresh :: "bool \<Rightarrow> storage_bucket \<Rightarrow> medium \<Rightarrow> bytes \<Rightarrow> unit res \<times> storage_bucket \<times> medium" where
  "bucket_refresh bc b m buf =
     (if bk_needs_refresh b \<or> bk_len b \<noteq> length buf \<or> take (length buf) (bk_buf b) \<noteq> buf
      then (case bucket_write bc b m buf of
              (Inl e, b', m') \<Rightarrow> (Inl e, b', m')
            | (Inr _, b', m') \<Rightarrow> (Inr (), b'\<lparr>bk_needs_refresh := False\<rparr>, m'))
      else (Inr (), b, m))"

text \<open>The first loop: read and verify every bucket; the index of the first valid one.\<close>

fun storage_check_loop ::
    "bool \<Rightarrow> bytes \<Rightarrow> 'f verify \<Rightarrow> u32 \<Rightarrow> bool \<Rightarrow> storage_bucket list \<Rightarrow> nat \<Rightarrow> nat option \<Rightarrow> 'f \<Rightarrow> medium
      \<Rightarrow> nat option \<times> storage_bucket list \<times> 'f \<times> medium" where
  "storage_check_loop bc stack verify magic no_auth [] i used f m = (used, [], f, m)"
| "storage_check_loop bc stack verify magic no_auth (b # bs) i used f m =
     (case bucket_read bc stack b m of (ret, b1, m1) \<Rightarrow>
        (if ret \<noteq> None \<and> ret \<noteq> Some EUCLEAN then
           (case storage_check_loop bc stack verify magic no_auth bs (Suc i) used f m1 of
              (used', bs', f', m') \<Rightarrow> (used', b1 # bs', f', m'))
         else
           let b2 = (if ret = Some EUCLEAN then b1\<lparr>bk_needs_refresh := True\<rparr> else b1)
           in case verify f magic (bk_buf b2) (bk_len b2) no_auth of ((r, len), f1) \<Rightarrow>
                (case storage_check_loop bc stack verify magic no_auth bs (Suc i)
                    (if r = Inr () \<and> used = None then Some i else used) f1 m1 of
                   (used', bs', f', m') \<Rightarrow> (used', b2\<lparr>bk_len := len\<rparr> # bs', f', m'))))"

text \<open>The second loop: refresh all buckets but the one in use, and drop their buffers.\<close>

fun storage_refresh_loop ::
    "bool \<Rightarrow> nat \<Rightarrow> bytes \<Rightarrow> storage_bucket list \<Rightarrow> nat \<Rightarrow> medium \<Rightarrow> storage_bucket list \<times> medium" where
  "storage_refresh_loop bc used buf [] i m = ([], m)"
| "storage_refresh_loop bc used buf (b # bs) i m =
     (if i = used then
        (case storage_refresh_loop bc used buf bs (Suc i) m of (bs', m') \<Rightarrow> (b # bs', m'))
      else (case bucket_refresh bc b m buf of (_, b', m1) \<Rightarrow>
        (case storage_refresh_loop bc used buf bs (Suc i) m1 of (bs', m') \<Rightarrow>
           (b'\<lparr>bk_buf := [], bk_len := 0\<rparr> # bs', m'))))"

text \<open>The result is the buffer of the bucket in use and the length its verification found.\<close>

definition state_storage_read ::
    "bool \<Rightarrow> bytes \<Rightarrow> 'f verify \<Rightarrow> backend_storage \<Rightarrow> 'f \<Rightarrow> u32 \<Rightarrow> bool \<Rightarrow> medium
      \<Rightarrow> (bytes \<times> nat) res \<times> backend_storage \<times> 'f \<times> medium" where
  "state_storage_read bc stack verify st f magic no_auth m =
     (case storage_check_loop bc stack verify magic no_auth (st_buckets st) 0 None f m of
        (None, bs, f1, m1) \<Rightarrow> (Inl ENOENT, st\<lparr>st_buckets := bs\<rparr>, f1, m1)
      | (Some i, bs, f1, m1) \<Rightarrow>
          let buf = bk_buf (bs ! i); len = bk_len (bs ! i)
          in case storage_refresh_loop bc i (take len buf) bs 0 m1 of (bs2, m2) \<Rightarrow>
               (case bucket_refresh bc (bs2 ! i) m2 (take len buf) of (_, b', m3) \<Rightarrow>
                  (Inr (buf, len), st\<lparr>st_buckets := bs2[i := b'\<lparr>bk_buf := [], bk_len := 0\<rparr>]\<rparr>, f1, m3)))"

section \<open>Initialisation\<close>

text \<open>The fields of \<open>struct mtd_info_user\<close> that are used.\<close>

record mtd_info =
  mi_flags :: u32
  mi_size :: u32
  mi_erasesize :: u32
  mi_writesize :: u32

definition desired_buckets :: nat where
  "desired_buckets = 3"

definition new_bucket :: "bucket_ops \<Rightarrow> nat \<Rightarrow> nat \<Rightarrow> storage_bucket" where
  "new_bucket ops offset num = \<lparr>bk_ops = ops, bk_num = num, bk_offset = offset, bk_needs_refresh = False,
     bk_buf = [], bk_len = 0,
     bk_wrong_magic = (case ops of Bucket_direct _ \<Rightarrow> False | Bucket_circular c \<Rightarrow> circ_wrong_magic c)\<rparr>"

function mtd_buckets_loop ::
    "(nat \<Rightarrow> bool) \<Rightarrow> mtd_info \<Rightarrow> nat \<Rightarrow> nat \<Rightarrow> nat \<Rightarrow> storage_bucket list \<Rightarrow> medium \<Rightarrow> storage_bucket list \<times> medium" where
  "mtd_buckets_loop bad mi writesize last_end offset acc m =
     (if last_end \<le> offset \<or> mi_erasesize mi = 0 then (acc, m)
      else (case state_backend_bucket_circular_create bad (word_of_nat (offset div unat (mi_erasesize mi)))
              writesize (mi_erasesize mi) m of
         (Inl _, m1) \<Rightarrow> mtd_buckets_loop bad mi writesize last_end (offset + unat (mi_erasesize mi)) acc m1
       | (Inr c, m1) \<Rightarrow>
           let acc' = acc @ [new_bucket (Bucket_circular c) offset (length acc)]
           in if desired_buckets \<le> length acc' then (acc', m1)
              else mtd_buckets_loop bad mi writesize last_end (offset + unat (mi_erasesize mi)) acc' m1))"
  by pat_completeness auto
termination
  by (relation "measure (\<lambda>(bad, mi, writesize, last_end, offset, acc, m). last_end - offset)")
    (auto simp: unat_gt_0 word_neq_0_conv intro!: diff_less_mono2)

declare mtd_buckets_loop.simps [simp del]

text \<open>\<open>IS_ALIGNED\<close> masks with \<open>erasesize - 1\<close>.\<close>

definition state_storage_mtd_buckets_init ::
    "(nat \<Rightarrow> bool) \<Rightarrow> backend_storage \<Rightarrow> mtd_info \<Rightarrow> bool \<Rightarrow> medium \<Rightarrow> unit res \<times> backend_storage \<times> medium" where
  "state_storage_mtd_buckets_init bad st mi circular m =
     (let end0 = st_offset st + st_max_size st;
          last_end = (if end0 = 0 \<or> unat (mi_size mi) < end0 then unat (mi_size mi) else end0)
      in if int (st_offset st) AND (uint (mi_erasesize mi) - 1) \<noteq> 0 then (Inl EINVAL, st, m)
         else if mi_erasesize mi = 0 \<and> st_offset st < last_end then (Inl FAULT, st, m)
         else
           let writesize = unat (if circular then mi_writesize mi else mi_erasesize mi)
           in case mtd_buckets_loop bad mi writesize last_end (st_offset st) [] m of (bs, m1) \<Rightarrow>
                (if bs = [] then Inl EIO else Inr (), st\<lparr>st_buckets := st_buckets st @ bs\<rparr>, m1))"

text \<open>The offsets are computed from 32 bit products.\<close>

fun file_buckets_loop :: "bool \<Rightarrow> nat \<Rightarrow> u32 \<Rightarrow> nat list \<Rightarrow> storage_bucket list \<Rightarrow> medium \<Rightarrow> storage_bucket list \<times> medium" where
  "file_buckets_loop readonly offset stridesize [] acc m = (acc, m)"
| "file_buckets_loop readonly offset stridesize (n # ns) acc m =
     (let ofs = offset + unat (word_of_nat n * stridesize)
      in case state_backend_bucket_direct_create ofs (unat stridesize) readonly m of
           (Inl _, m1) \<Rightarrow> file_buckets_loop readonly offset stridesize ns acc m1
         | (Inr d, m1) \<Rightarrow>
             file_buckets_loop readonly offset stridesize ns (acc @ [new_bucket (Bucket_direct d) ofs (length acc)]) m1)"

definition state_storage_file_buckets_init :: "backend_storage \<Rightarrow> medium \<Rightarrow> unit res \<times> backend_storage \<times> medium" where
  "state_storage_file_buckets_init st m =
     (if st_stridesize st = 0 then (Inl EINVAL, st, m)
      else if st_max_size st \<noteq> 0 \<and> st_max_size st < unat (word_of_nat desired_buckets * st_stridesize st)
      then (Inl EINVAL, st, m)
      else (case file_buckets_loop (st_readonly st) (st_offset st) (st_stridesize st) [0 ..< desired_buckets] [] m of (bs, m1) \<Rightarrow>
        (if bs = [] then Inl EIO else Inr (), st\<lparr>st_buckets := st_buckets st @ bs\<rparr>, m1)))"

definition MTD_NO_ERASE :: u32 where
  "MTD_NO_ERASE = 0x1000"

text \<open>
  \<open>meminfo\<close> is what \<open>mtd_get_meminfo\<close> found; \<open>None\<close> when the device is not an MTD.  \<open>readonly\<close> is the flag of the
  storage, which the caller may have set before.
\<close>

definition state_storage_init ::
    "bool \<Rightarrow> (nat \<Rightarrow> bool) \<Rightarrow> mtd_info option \<Rightarrow> nat \<Rightarrow> nat \<Rightarrow> u32 \<Rightarrow> string option \<Rightarrow> medium
      \<Rightarrow> unit res \<times> backend_storage \<times> medium" where
  "state_storage_init readonly bad meminfo offset max_size stridesize storagetype m =
     (let st = \<lparr>st_readonly = readonly, st_buckets = [], st_name = storagetype, st_offset = offset,
               st_max_size = max_size, st_stridesize = stridesize\<rparr>
      in case meminfo of
           None \<Rightarrow> state_storage_file_buckets_init st m
         | Some mi \<Rightarrow>
             if mi_flags mi AND MTD_NO_ERASE \<noteq> 0 then state_storage_file_buckets_init st m
             else if storagetype = None \<or> storagetype = Some ''circular''
             then state_storage_mtd_buckets_init bad (st\<lparr>st_name := Some ''circular''\<rparr>) mi True m
             else if storagetype = Some ''noncircular'' then state_storage_mtd_buckets_init bad st mi False m
             else (Inl EINVAL, st, m))"

definition state_storage_set_readonly :: "backend_storage \<Rightarrow> backend_storage" where
  "state_storage_set_readonly st = st\<lparr>st_readonly := True\<rparr>"

end
