(* ===== verification/Redundancy.thy ===== *)
theory Redundancy
  imports Storage Format_Raw
begin

text \<open>
  What the redundant storage of \<open>backend_storage.c\<close> promises: a saved buffer is found again, whatever happens
  to all buckets but one; a loss of power in the middle of a save leaves the old or the new content; buckets that
  cannot be read are repaired.  The two kinds of buckets are brought under one contract by the interpretation \<open>ops\<close>,
  and what the storage asks of a format is the locale \<open>storage_format\<close>, interpreted on the raw format.
\<close>

section \<open>The contract of the two kinds of buckets\<close>

datatype bucket_geometry = Geo_direct bucket_direct | Geo_circular circ_geometry

fun ops_geo :: "bucket_ops \<Rightarrow> bucket_geometry" where
  "ops_geo (Bucket_direct d) = Geo_direct d"
| "ops_geo (Bucket_circular c) = Geo_circular (circ_geo c)"

fun geo_region :: "bucket_geometry \<Rightarrow> nat \<times> nat" where
  "geo_region (Geo_direct d) = (dir_offset d, dir_max_size d)"
| "geo_region (Geo_circular g) = circ_region g"

fun geo_fits :: "bucket_geometry \<Rightarrow> nat \<Rightarrow> bool" where
  "geo_fits (Geo_direct d) n = direct_fits d n"
| "geo_fits (Geo_circular g) n = circ_fits g n"

fun geo_open :: "(nat \<Rightarrow> bool) \<Rightarrow> bucket_geometry \<Rightarrow> medium \<Rightarrow> bucket_ops res \<times> medium" where
  "geo_open bad (Geo_direct d) m = (case direct_create_op d m of
     (Inl e, m') \<Rightarrow> (Inl e, m') | (Inr d', m') \<Rightarrow> (Inr (Bucket_direct d'), m'))"
| "geo_open bad (Geo_circular g) m = (case circ_create_op bad g m of
     (Inl e, m') \<Rightarrow> (Inl e, m') | (Inr c, m') \<Rightarrow> (Inr (Bucket_circular c), m'))"

fun geo_holds :: "(nat \<Rightarrow> bool) \<Rightarrow> bucket_geometry \<Rightarrow> medium \<Rightarrow> bytes \<Rightarrow> bool" where
  "geo_holds bad (Geo_direct d) m data \<longleftrightarrow> \<not> m_flash m \<and> direct_holds d m data"
| "geo_holds bad (Geo_circular g) m data \<longleftrightarrow> circ_geo_holds bad g m data"

fun ops_inv :: "(nat \<Rightarrow> bool) \<Rightarrow> bucket_ops \<Rightarrow> medium \<Rightarrow> bool" where
  "ops_inv bad (Bucket_direct d) m \<longleftrightarrow> direct_inv d m"
| "ops_inv bad (Bucket_circular c) m \<longleftrightarrow> circ_binv bad c m"

definition ops_read :: "bool \<Rightarrow> bytes \<Rightarrow> bucket_ops \<Rightarrow> medium \<Rightarrow> bytes res \<times> bucket_ops \<times> medium" where
  "ops_read bc stack ops m = (case ops of
     Bucket_direct d \<Rightarrow> (case direct_read_op bc stack d m of (r, d', m') \<Rightarrow> (r, Bucket_direct d', m'))
   | Bucket_circular c \<Rightarrow> (case circ_read_op c m of (r, c', m') \<Rightarrow> (r, Bucket_circular c', m')))"

lemma ops_write_direct:
  "ops_write bc (Bucket_direct d) m buf = (case direct_write_op bc d m buf of (r, d', m') \<Rightarrow> (r, Bucket_direct d', m'))"
  by (simp add: ops_write_def split: prod.splits)

lemma ops_write_circular:
  "ops_write bc (Bucket_circular c) m buf =
     (case state_backend_bucket_circular_write c m buf of (r, c', m') \<Rightarrow> (r, Bucket_circular c', m'))"
  by (simp add: ops_write_def)

text \<open>Each law follows from the one of the kind of bucket.\<close>

interpretation ops: bucket_contract "geo_open bad" "ops_write bc" "ops_read bc stack" ops_geo geo_region geo_fits
    "ops_inv bad" "geo_holds bad" for bad bc stack
proof
  fix ops ops' :: bucket_ops and g m m' data r
  show "\<exists>ops' m'. ops_write bc ops m data = (Inr (), ops', m') \<and> healthy m' \<and> ops_inv bad ops' m'
      \<and> ops_geo ops' = ops_geo ops \<and> geo_holds bad (ops_geo ops) m' data"
    if "ops_inv bad ops m" "healthy m" "geo_fits (ops_geo ops) (length data)"
  proof (cases ops)
    case (Bucket_direct d)
    with dir.write_law [of d m data bc] that show ?thesis
      by (simp only: ops_write_direct ops_inv.simps ops_geo.simps geo_fits.simps geo_holds.simps) fastforce
  next
    case (Bucket_circular c)
    with circ.write_law [of bad c m data] that show ?thesis
      by (simp only: ops_write_circular ops_inv.simps ops_geo.simps geo_fits.simps geo_holds.simps) fastforce
  qed
  show "only_changes (fst (geo_region (ops_geo ops))) (snd (geo_region (ops_geo ops))) m m'
      \<and> ops_geo ops' = ops_geo ops \<and> ops_inv bad ops' m'"
    if "ops_inv bad ops m" "geo_fits (ops_geo ops) (length data)" "ops_write bc ops m data = (r, ops', m')"
  proof (cases ops)
    case (Bucket_direct d)
    obtain r0 d0 m0 where w: "direct_write_op bc d m data = (r0, d0, m0)" by (metis prod_cases3)
    have o': "r0 = r" "ops' = Bucket_direct d0" "m0 = m'"
      using that(3) unfolding Bucket_direct ops_write_direct w by auto
    show ?thesis using dir.write_frame [OF _ _ w] that(1,2) o' Bucket_direct by auto
  next
    case (Bucket_circular c)
    obtain r0 c0 m0 where w: "state_backend_bucket_circular_write c m data = (r0, c0, m0)" by (metis prod_cases3)
    have o': "r0 = r" "ops' = Bucket_circular c0" "m0 = m'"
      using that(3) unfolding Bucket_circular ops_write_circular w by auto
    show ?thesis using circ.write_frame [OF _ _ w] that(1,2) o' Bucket_circular by simp
  qed
  show "\<exists>b b'. geo_open bad g m = (Inr b, m) \<and> ops_geo b = g \<and> ops_inv bad b m
      \<and> (\<exists>pad. ops_read bc stack b m = (Inr (data @ pad), b', m)) \<and> ops_geo b' = g \<and> ops_inv bad b' m"
    if holds: "geo_holds bad g m data" and healthy: "healthy m"
  proof (cases g)
    case (Geo_direct d)
    have h: "\<not> m_flash m \<and> direct_holds d m data" using holds Geo_direct by simp
    obtain b b' pad where "direct_create_op d m = (Inr b, m)" "b = d" "direct_inv b m"
        "direct_read_op bc stack b m = (Inr (data @ pad), b', m)" "b' = d" "direct_inv b' m"
      using dir.open_law [OF h healthy] by blast
    then show ?thesis
      by (intro exI [of _ "Bucket_direct b"] exI [of _ "Bucket_direct b'"]) (auto simp: ops_read_def Geo_direct)
  next
    case (Geo_circular h)
    have h: "circ_geo_holds bad h m data" using holds Geo_circular by simp
    obtain b b' pad where "circ_create_op bad h m = (Inr b, m)" "circ_geo b = h" "circ_binv bad b m"
        "circ_read_op b m = (Inr (data @ pad), b', m)" "circ_geo b' = h" "circ_binv bad b' m"
      using circ.open_law [OF h healthy] by blast
    then show ?thesis
      by (intro exI [of _ "Bucket_circular b"] exI [of _ "Bucket_circular b'"]) (auto simp: ops_read_def Geo_circular)
  qed
  show "ops_inv bad ops m'" if "same_region (geo_region (ops_geo ops)) m m'" "ops_inv bad ops m"
    using that dir.binv_region circ.binv_region by (cases ops) auto
  show "geo_holds bad g m' data" if "same_region (geo_region g) m m'" "geo_holds bad g m data"
    using that dir.holds_region circ.holds_region by (cases g) auto
qed

section \<open>Writing all buckets\<close>

abbreviation bk_geo :: "storage_bucket \<Rightarrow> bucket_geometry" where
  "bk_geo b \<equiv> ops_geo (bk_ops b)"

definition apart :: "bucket_geometry \<Rightarrow> bucket_geometry \<Rightarrow> bool" where
  "apart g h \<longleftrightarrow> disjoint_regions (geo_region g) (geo_region h)"

lemma apart_sym: "apart g h \<longleftrightarrow> apart h g"
  by (auto simp: apart_def disjoint_regions_def)

text \<open>The buckets of a storage: each well-formed, in regions of their own.\<close>

definition buckets_inv :: "(nat \<Rightarrow> bool) \<Rightarrow> storage_bucket list \<Rightarrow> medium \<Rightarrow> bool" where
  "buckets_inv bad bs m \<longleftrightarrow> (\<forall>b \<in> set bs. ops_inv bad (bk_ops b) m) \<and> sorted_wrt apart (map bk_geo bs)"

lemma buckets_inv_Cons:
  "buckets_inv bad (b # bs) m \<longleftrightarrow> ops_inv bad (bk_ops b) m \<and> (\<forall>c \<in> set bs. apart (bk_geo b) (bk_geo c))
     \<and> buckets_inv bad bs m"
  by (auto simp: buckets_inv_def)

text \<open>One write, whatever the system calls do.\<close>

lemma bucket_write_frame:
  assumes "bucket_write bc b m data = (r, b', m')" and "ops_inv bad (bk_ops b) m"
    and "geo_fits (bk_geo b) (length data)"
  shows "bk_geo b' = bk_geo b" and "ops_inv bad (bk_ops b') m'"
    and "apart (bk_geo b) (bk_geo c) \<Longrightarrow> ops_inv bad (bk_ops c) m \<Longrightarrow> ops_inv bad (bk_ops c) m'"
    and "apart (bk_geo b) g \<Longrightarrow> geo_holds bad g m d \<Longrightarrow> geo_holds bad g m' d"
proof -
  obtain ops where w: "ops_write bc (bk_ops b) m data = (r, ops, m')" and b': "b' = b\<lparr>bk_ops := ops\<rparr>"
    using assms(1) by (auto simp: bucket_write_def split: prod.splits)
  show "bk_geo b' = bk_geo b" "ops_inv bad (bk_ops b') m'"
    using ops.write_frame [OF assms(2,3) w] by (simp_all add: b')
  show "ops_inv bad (bk_ops c) m'" if "apart (bk_geo b) (bk_geo c)" "ops_inv bad (bk_ops c) m"
    using ops.binv_other [OF assms(2,3) w _ that(2)] that(1) by (simp add: apart_def)
  show "geo_holds bad g m' d" if "apart (bk_geo b) g" "geo_holds bad g m d"
    using ops.holds_other [OF assms(2,3) w _ that(2)] that(1) by (simp add: apart_def)
qed

lemma bucket_write_ok:
  assumes "ops_inv bad (bk_ops b) m" and "healthy m" and "geo_fits (bk_geo b) (length data)"
  shows "\<exists>ops m'. bucket_write bc b m data = (Inr (), b\<lparr>bk_ops := ops\<rparr>, m') \<and> healthy m'
    \<and> geo_holds bad (bk_geo b) m' data"
proof -
  obtain ops m' where "ops_write bc (bk_ops b) m data = (Inr (), ops, m')" "healthy m'"
      "geo_holds bad (bk_geo b) m' data"
    using ops.write_law [OF assms] by blast
  then show ?thesis by (intro exI [of _ ops] exI [of _ m']) (simp add: bucket_write_def)
qed

lemma buckets_inv_written:
  assumes "bucket_write bc b m data = (r, b', m')" and "buckets_inv bad (b # bs) m"
    and "geo_fits (bk_geo b) (length data)"
  shows "buckets_inv bad (b' # bs) m'"
proof -
  have b: "ops_inv bad (bk_ops b) m" using assms(2) by (simp add: buckets_inv_Cons)
  note f = bucket_write_frame [OF assms(1) b assms(3)]
  show ?thesis
    using assms(2) f(1,2) f(3) by (auto simp: buckets_inv_def)
qed

text \<open>The whole loop on a device that works.\<close>

lemma storage_write_loop_ok:
  assumes "buckets_inv bad bs m" and "healthy m" and "\<forall>b \<in> set bs. geo_fits (bk_geo b) (length data)"
  shows "\<exists>bs' m'. storage_write_loop bc bs m data n = (n + length bs, bs', m') \<and> healthy m'
    \<and> map bk_geo bs' = map bk_geo bs \<and> buckets_inv bad bs' m'
    \<and> (\<forall>b \<in> set bs. geo_holds bad (bk_geo b) m' data)
    \<and> (\<forall>g d. (\<forall>b \<in> set bs. apart (bk_geo b) g) \<longrightarrow> geo_holds bad g m d \<longrightarrow> geo_holds bad g m' d)
    \<and> (\<forall>c. (\<forall>b \<in> set bs. apart (bk_geo b) (bk_geo c)) \<longrightarrow> ops_inv bad (bk_ops c) m \<longrightarrow> ops_inv bad (bk_ops c) m')"
  using assms
proof (induction bs arbitrary: m n)
  case (Cons b bs)
  have b: "ops_inv bad (bk_ops b) m" "geo_fits (bk_geo b) (length data)" "\<forall>c \<in> set bs. apart (bk_geo b) (bk_geo c)"
    using Cons.prems by (auto simp: buckets_inv_Cons)
  obtain ops1 m1 where w: "bucket_write bc b m data = (Inr (), b\<lparr>bk_ops := ops1\<rparr>, m1)" "healthy m1"
      "geo_holds bad (bk_geo b) m1 data"
    using bucket_write_ok [OF b(1) Cons.prems(2) b(2)] by blast
  let ?b = "b\<lparr>bk_ops := ops1\<rparr>"
  note f = bucket_write_frame [OF w(1) b(1,2)]
  have i: "ops_inv bad (bk_ops ?b) m1" "buckets_inv bad bs m1"
    using buckets_inv_written [OF w(1) Cons.prems(1) b(2)] by (auto simp: buckets_inv_Cons)
  from Cons.IH [OF i(2) w(2)] Cons.prems(3) obtain bs' m' where l:
      "storage_write_loop bc bs m1 data (Suc n) = (Suc n + length bs, bs', m')" "healthy m'"
      "map bk_geo bs' = map bk_geo bs" "buckets_inv bad bs' m'"
      "\<forall>b \<in> set bs. geo_holds bad (bk_geo b) m' data"
      "\<And>g d. \<forall>b \<in> set bs. apart (bk_geo b) g \<Longrightarrow> geo_holds bad g m1 d \<Longrightarrow> geo_holds bad g m' d"
      "\<And>c. \<forall>b \<in> set bs. apart (bk_geo b) (bk_geo c) \<Longrightarrow> ops_inv bad (bk_ops c) m1 \<Longrightarrow> ops_inv bad (bk_ops c) m'"
    by (metis list.set_intros(2))
  have ab: "\<forall>c \<in> set bs. apart (bk_geo c) (bk_geo b)" using b(3) apart_sym by blast
  have "geo_holds bad (bk_geo b) m' data" by (rule l(6) [OF ab w(3)])
  moreover have "ops_inv bad (bk_ops ?b) m'" by (rule l(7) [OF _ i(1)]) (use ab f(1) in simp)
  moreover have "\<forall>c \<in> set bs'. apart (bk_geo b) (bk_geo c)"
    using b(3) l(3) by (metis (mono_tags) imageE image_eqI image_set)
  moreover have "storage_write_loop bc (b # bs) m data n = (n + length (b # bs), ?b # bs', m')"
    using w(1) l(1) by simp
  ultimately show ?case
    using l f by (intro exI [of _ "?b # bs'"] exI [of _ m']) (auto simp: buckets_inv_Cons)
qed simp

text \<open>
  A loss of power while the buckets are written: before a bucket is touched, somewhere inside the write of a
  bucket, whose system calls then behave in any way, or after it is complete.
\<close>

inductive power_loss :: "bool \<Rightarrow> bytes \<Rightarrow> storage_bucket list \<Rightarrow> medium \<Rightarrow> medium \<Rightarrow> bool" for bc data where
  before: "power_loss bc data bs m m"
| during: "bucket_write bc b (m\<lparr>m_script := s\<rparr>) data = (r, b', m') \<Longrightarrow>
     power_loss bc data (b # bs) m (m'\<lparr>m_script := []\<rparr>)"
| after: "bucket_write bc b m data = (Inr (), b', m1) \<Longrightarrow> power_loss bc data bs m1 m' \<Longrightarrow>
     power_loss bc data (b # bs) m m'"

inductive_cases power_loss_ConsE: "power_loss bc data (b # bs) m m'"

lemma same_region_scriptI: "m_bytes m' = m_bytes m \<Longrightarrow> m_flash m' = m_flash m \<Longrightarrow> same_region r m m'"
  by (simp add: same_region_def)

lemma power_loss_prefix:
  assumes "power_loss bc data bs m m'" and "buckets_inv bad bs m" and "healthy m"
    and "\<forall>b \<in> set bs. geo_fits (bk_geo b) (length data)"
    and "\<forall>b \<in> set bs. geo_holds bad (bk_geo b) m old"
  shows "\<exists>n. (\<forall>b \<in> set (take n bs). geo_holds bad (bk_geo b) m' data)
    \<and> (\<forall>b \<in> set (drop (Suc n) bs). geo_holds bad (bk_geo b) m' old)
    \<and> (\<forall>g d. (\<forall>b \<in> set bs. apart (bk_geo b) g) \<longrightarrow> geo_holds bad g m d \<longrightarrow> geo_holds bad g m' d)"
  using assms
proof (induction rule: power_loss.induct)
  case (before bs m)
  then show ?case by (intro exI [of _ 0]) (auto dest: in_set_dropD)
next
  case (during b s m r b' m' bs)
  let ?m = "m\<lparr>m_script := s\<rparr>"
  have sr: "same_region rg m ?m" "same_region rg m' (m'\<lparr>m_script := []\<rparr>)" for rg by simp_all
  have b: "ops_inv bad (bk_ops b) ?m" "geo_fits (bk_geo b) (length data)"
    using during.prems ops.binv_region [OF sr(1)] by (auto simp: buckets_inv_Cons)
  note f = bucket_write_frame(4) [OF during.hyps b]
  have keep: "geo_holds bad g (m'\<lparr>m_script := []\<rparr>) d" if "apart (bk_geo b) g" "geo_holds bad g m d" for g d
    using ops.holds_region [OF sr(2)] f [OF that(1) ops.holds_region [OF sr(1) that(2)]] by blast
  show ?case
    by (intro exI [of _ 0]) (use keep during.prems in \<open>auto simp: buckets_inv_Cons\<close>)
next
  case (after b m b' m1 bs m')
  have b: "ops_inv bad (bk_ops b) m" "geo_fits (bk_geo b) (length data)"
    using after.prems by (auto simp: buckets_inv_Cons)
  note f = bucket_write_frame [OF after.hyps(1) b]
  have "healthy m1" "geo_holds bad (bk_geo b) m1 data"
    using bucket_write_ok [OF b(1) after.prems(2) b(2), of bc] after.hyps(1) by auto
  moreover have "buckets_inv bad bs m1"
    using buckets_inv_written [OF after.hyps(1) after.prems(1) b(2)] by (simp add: buckets_inv_Cons)
  moreover have "\<forall>c \<in> set bs. geo_holds bad (bk_geo c) m1 old"
    using after.prems f(4) by (auto simp: buckets_inv_Cons)
  ultimately obtain n where n: "\<forall>b \<in> set (take n bs). geo_holds bad (bk_geo b) m' data"
      "\<forall>b \<in> set (drop (Suc n) bs). geo_holds bad (bk_geo b) m' old"
      "\<And>g d. \<forall>b \<in> set bs. apart (bk_geo b) g \<Longrightarrow> geo_holds bad g m1 d \<Longrightarrow> geo_holds bad g m' d"
    using after.IH after.prems(3) by (metis list.set_intros(2))
  have ab: "\<forall>c \<in> set bs. apart (bk_geo c) (bk_geo b)"
    using after.prems(1) apart_sym by (auto simp: buckets_inv_Cons)
  show ?case
    by (intro exI [of _ "Suc n"] conjI)
      (use n f(4) n(3) [OF ab \<open>geo_holds bad (bk_geo b) m1 data\<close>] in auto)
qed

section \<open>Reading back\<close>

lemma direct_read_keeps: "healthy m \<Longrightarrow> snd (state_backend_bucket_direct_read bc stack d m) = m"
  by (simp add: state_backend_bucket_direct_read_def direct_read_body_def read_full_healthy Let_def split: prod.splits)

lemma direct_read_clean:
  "healthy m \<Longrightarrow> fst (fst (state_backend_bucket_direct_read bc stack d m)) \<noteq> Inl EUCLEAN"
  by (simp add: state_backend_bucket_direct_read_def direct_read_body_def read_full_healthy Let_def split: prod.splits)

lemma circ_read_keeps:
  assumes "healthy m" and "circ_inv c m" and "state_backend_bucket_circular_read c m = ((ret, buf), c', m')"
  shows "m' = m \<and> circ_inv c' m \<and> circ_geo c' = circ_geo c \<and> circ_base c' = circ_base c \<and> ret \<noteq> Some EUCLEAN
    \<and> (ret = None \<longleftrightarrow> buf \<noteq> None)"
proof -
  have z: "circ_inv (c\<lparr>circ_write_area := 0\<rparr>) m" using assms(2) by (simp add: circ_inv_def)
  show ?thesis
    using assms z
    by (auto simp: state_backend_bucket_circular_read_def circ_read_at_def state_mtd_peb_read_def read_full_healthy
        Let_def circ_geo_def split: if_splits)
qed

text \<open>On a device that works a read only changes the bucket, and keeps it well-formed.\<close>

lemma bucket_read_healthy:
  assumes "healthy m" and "ops_inv bad (bk_ops b) m" and "bucket_read bc stack b m = (ret, b1, m')"
  shows "m' = m \<and> bk_geo b1 = bk_geo b \<and> ops_inv bad (bk_ops b1) m \<and> ret \<noteq> Some EUCLEAN
    \<and> bk_needs_refresh b1 = bk_needs_refresh b
    \<and> (ret \<noteq> None \<longrightarrow> bk_buf b1 = bk_buf b \<and> bk_len b1 = bk_len b)
    \<and> (ret = None \<longrightarrow> bk_len b1 = length (bk_buf b1))"
proof (cases "bk_ops b")
  case (Bucket_direct d)
  obtain r w m1 where r: "state_backend_bucket_direct_read bc stack d m = ((r, w), m1)" by (metis prod.exhaust)
  have "m1 = m" "r \<noteq> Inl EUCLEAN"
    using direct_read_keeps [OF assms(1), of bc stack d] direct_read_clean [OF assms(1), of bc stack d] r by auto
  then show ?thesis
    using assms(2,3) r Bucket_direct by (auto simp: bucket_read_def split: sum.splits)
next
  case (Bucket_circular c)
  obtain ret1 buf c' m1 where r: "state_backend_bucket_circular_read c m = ((ret1, buf), c', m1)" by (metis prod.exhaust)
  have "circ_inv c m" using assms(2) Bucket_circular by (simp add: circ_binv_def)
  note k = circ_read_keeps [OF assms(1) this r]
  show ?thesis
    using k assms(2,3) r Bucket_circular by (auto simp: bucket_read_def circ_binv_def split: option.splits)
qed

text \<open>A bucket that holds data delivers it.\<close>

lemma bucket_read_opened:
  assumes "geo_holds bad (bk_geo b) m data" and "healthy m" and "geo_open bad (bk_geo b) m = (Inr (bk_ops b), m)"
  shows "\<exists>b1 pad. bucket_read bc stack b m = (None, b1, m) \<and> bk_buf b1 = data @ pad \<and> bk_len b1 = length (data @ pad)"
proof -
  obtain b' pad where r: "ops_read bc stack (bk_ops b) m = (Inr (data @ pad), b', m)"
    using ops.open_law [OF assms(1,2), of bc stack] assms(3) by auto
  show ?thesis
  proof (cases "bk_ops b")
    case (Bucket_direct d)
    then show ?thesis
      using r by (auto simp: ops_read_def bucket_read_def split: prod.splits sum.splits)
  next
    case (Bucket_circular c)
    then show ?thesis
      using r by (auto simp: ops_read_def circ_read_op_def bucket_read_def split: prod.splits option.splits)
  qed
qed

definition accepts :: "('f \<Rightarrow> bool) \<Rightarrow> 'f verify \<Rightarrow> u32 \<Rightarrow> bool \<Rightarrow> bytes \<Rightarrow> nat \<Rightarrow> bool" where
  "accepts fok verify magic no_auth buf n \<longleftrightarrow>
     (\<forall>f. fok f \<longrightarrow> fst (verify f magic buf (length buf) no_auth) = (Inr (), n))"

definition rejects :: "('f \<Rightarrow> bool) \<Rightarrow> 'f verify \<Rightarrow> u32 \<Rightarrow> bool \<Rightarrow> bytes \<Rightarrow> bool" where
  "rejects fok verify magic no_auth buf \<longleftrightarrow>
     (\<forall>f. fok f \<longrightarrow> fst (fst (verify f magic buf (length buf) no_auth)) \<noteq> Inr ())"

text \<open>What the first loop does with one bucket: the bucket cannot be read, or its content is rejected.\<close>

definition unusable :: "('f \<Rightarrow> bool) \<Rightarrow> 'f verify \<Rightarrow> u32 \<Rightarrow> bool \<Rightarrow> bool \<Rightarrow> bytes \<Rightarrow> storage_bucket \<Rightarrow> medium \<Rightarrow> bool" where
  "unusable fok verify magic no_auth bc stack b m \<longleftrightarrow>
     (case bucket_read bc stack b m of (ret, b1, _) \<Rightarrow>
        ret \<noteq> None \<or> rejects fok verify magic no_auth (bk_buf b1))"

text \<open>The bucket as the first loop leaves it.\<close>

definition after_check :: "bool \<Rightarrow> bytes \<Rightarrow> medium \<Rightarrow> storage_bucket \<Rightarrow> storage_bucket \<Rightarrow> bool" where
  "after_check bc stack m b b' \<longleftrightarrow> (case bucket_read bc stack b m of (ret, b1, _) \<Rightarrow>
     if ret = None then \<exists>n. b' = b1\<lparr>bk_len := n\<rparr> else b' = b1)"

text \<open>The contract of a format towards the storage: a verification leaves it usable.\<close>

locale storage_format =
  fixes fok :: "'f \<Rightarrow> bool" and verify :: "'f verify" and magic :: u32 and no_auth :: bool
  assumes verify_keeps: "fok f \<Longrightarrow> fok (snd (verify f magic buf len no_auth))"
begin

lemma check_loop:
  assumes "healthy m" and "buckets_inv bad bs m" and "fok f"
  shows "\<exists>used' bs' f'. storage_check_loop bc stack verify magic no_auth bs i used f m = (used', bs', f', m)
    \<and> fok f' \<and> buckets_inv bad bs' m \<and> map bk_geo bs' = map bk_geo bs \<and> (used \<noteq> None \<longrightarrow> used' = used)
    \<and> list_all2 (after_check bc stack m) bs bs'"
  using assms(2,3)
proof (induction bs arbitrary: i used f)
  case (Cons b bs)
  have inv: "ops_inv bad (bk_ops b) m" "buckets_inv bad bs m" "\<forall>c \<in> set bs. apart (bk_geo b) (bk_geo c)"
    using Cons.prems(1) by (auto simp: buckets_inv_Cons)
  obtain ret b1 where r: "bucket_read bc stack b m = (ret, b1, m)" "bk_geo b1 = bk_geo b"
      "ops_inv bad (bk_ops b1) m" "ret \<noteq> Some EUCLEAN"
    using bucket_read_healthy [OF assms(1) inv(1)] by (metis prod_cases3)
  have geo: "\<forall>c \<in> set bs'. apart (bk_geo b1) (bk_geo c)" if "map bk_geo bs' = map bk_geo bs" for bs'
    using inv(3) that r(2) by (metis (mono_tags) imageE image_eqI image_set)
  show ?case
  proof (cases ret)
    case (Some e)
    obtain used' bs' f' where l: "storage_check_loop bc stack verify magic no_auth bs (Suc i) used f m = (used', bs', f', m)"
        "fok f'" "buckets_inv bad bs' m" "map bk_geo bs' = map bk_geo bs" "used \<noteq> None \<longrightarrow> used' = used"
        "list_all2 (after_check bc stack m) bs bs'"
      using Cons.IH [OF inv(2) Cons.prems(2), of "Suc i" used] by blast
    have "after_check bc stack m b b1" using r(1) Some by (simp add: after_check_def)
    with l show ?thesis
      using r Some geo by (auto simp: buckets_inv_Cons)
  next
    case None
    obtain x n f1 where v: "verify f magic (bk_buf b1) (bk_len b1) no_auth = ((x, n), f1)" by (metis prod.exhaust)
    have "fok f1" using verify_keeps [OF Cons.prems(2)] v by (metis snd_conv)
    let ?u = "if x = Inr () \<and> used = None then Some i else used"
    obtain used' bs' f' where l: "storage_check_loop bc stack verify magic no_auth bs (Suc i) ?u f1 m = (used', bs', f', m)"
        "fok f'" "buckets_inv bad bs' m" "map bk_geo bs' = map bk_geo bs" "?u \<noteq> None \<longrightarrow> used' = ?u"
        "list_all2 (after_check bc stack m) bs bs'"
      using Cons.IH [OF inv(2) \<open>fok f1\<close>, of "Suc i" ?u] by blast
    have "storage_check_loop bc stack verify magic no_auth (b # bs) i used f m =
        (used', b1\<lparr>bk_len := n\<rparr> # bs', f', m)"
      using r None v l(1) by simp
    moreover have "after_check bc stack m b (b1\<lparr>bk_len := n\<rparr>)"
      using r(1) None by (auto simp: after_check_def)
    ultimately show ?thesis
      using l r geo by (auto simp: buckets_inv_Cons)
  qed
qed simp

text \<open>The first usable bucket is the one taken.\<close>

lemma check_loop_first:
  assumes "healthy m" and "buckets_inv bad (pre @ b # post) m" and "fok f"
    and "\<forall>p \<in> set pre. unusable fok verify magic no_auth bc stack p m"
    and "bucket_read bc stack b m = (None, b1, m)" and "accepts fok verify magic no_auth (bk_buf b1) n"
    and "bk_len b1 = length (bk_buf b1)"
  shows "\<exists>bs' f'. storage_check_loop bc stack verify magic no_auth (pre @ b # post) i None f m =
      (Some (i + length pre), bs', f', m) \<and> fok f' \<and> bs' ! length pre = b1\<lparr>bk_len := n\<rparr>"
  using assms(2-4)
proof (induction pre arbitrary: i f)
  case Nil
  obtain f1 where v: "verify f magic (bk_buf b1) (bk_len b1) no_auth = ((Inr (), n), f1)"
    using assms(6,7) Nil(2) unfolding accepts_def by (metis prod.collapse)
  have "fok f1" using verify_keeps [OF Nil(2)] v by (metis snd_conv)
  moreover have "buckets_inv bad post m" using Nil(1) by (simp add: buckets_inv_Cons)
  ultimately obtain bs' f' where "storage_check_loop bc stack verify magic no_auth post (Suc i) (Some i) f1 m = (Some i, bs', f', m)"
      "fok f'"
    using check_loop [OF assms(1), of bad post f1 bc stack "Suc i" "Some i"] by auto
  then show ?case using assms(5) v by simp
next
  case (Cons p pre)
  have inv: "ops_inv bad (bk_ops p) m" "buckets_inv bad (pre @ b # post) m"
    using Cons.prems(1) by (auto simp: buckets_inv_Cons)
  obtain ret p1 where r: "bucket_read bc stack p m = (ret, p1, m)" "ret \<noteq> Some EUCLEAN"
      "ret = None \<Longrightarrow> bk_len p1 = length (bk_buf p1)"
    using bucket_read_healthy [OF assms(1) inv(1)] by (metis prod_cases3)
  have u: "unusable fok verify magic no_auth bc stack p m" using Cons.prems(3) by simp
  show ?case
  proof (cases ret)
    case (Some e)
    with Cons.IH [OF inv(2) Cons.prems(2), of "Suc i"] Cons.prems(3) r show ?thesis by auto
  next
    case None
    obtain x k f1 where v: "verify f magic (bk_buf p1) (bk_len p1) no_auth = ((x, k), f1)" by (metis prod.exhaust)
    have f1: "fok f1" using verify_keeps [OF Cons.prems(2)] v by (metis snd_conv)
    have "x \<noteq> Inr ()"
      using u r None v Cons.prems(2) by (auto simp: unusable_def rejects_def)
    with Cons.IH [OF inv(2) f1, of "Suc i"] Cons.prems(3) r None v show ?thesis by auto
  qed
qed

end

section \<open>Repairing\<close>

definition matches :: "storage_bucket \<Rightarrow> bytes \<Rightarrow> bool" where
  "matches b buf \<longleftrightarrow> \<not> bk_needs_refresh b \<and> bk_len b = length buf \<and> take (length buf) (bk_buf b) = buf"

lemma bucket_refresh_ok:
  assumes "ops_inv bad (bk_ops b) m" and "healthy m" and "geo_fits (bk_geo b) (length buf)"
  shows "\<exists>b' m'. bucket_refresh bc b m buf = (Inr (), b', m') \<and> healthy m' \<and> bk_geo b' = bk_geo b
    \<and> ops_inv bad (bk_ops b') m' \<and> (\<not> matches b buf \<longrightarrow> geo_holds bad (bk_geo b) m' buf)
    \<and> (matches b buf \<longrightarrow> m' = m)
    \<and> (\<forall>g d. apart (bk_geo b) g \<longrightarrow> geo_holds bad g m d \<longrightarrow> geo_holds bad g m' d)
    \<and> (\<forall>c. apart (bk_geo b) (bk_geo c) \<longrightarrow> ops_inv bad (bk_ops c) m \<longrightarrow> ops_inv bad (bk_ops c) m')"
proof (cases "matches b buf")
  case True
  then show ?thesis using assms by (auto simp: matches_def bucket_refresh_def)
next
  case False
  obtain ops1 m1 where w: "bucket_write bc b m buf = (Inr (), b\<lparr>bk_ops := ops1\<rparr>, m1)" "healthy m1"
      "geo_holds bad (bk_geo b) m1 buf"
    using bucket_write_ok [OF assms] by blast
  note f = bucket_write_frame [OF w(1) assms(1,3)]
  have "bucket_refresh bc b m buf = (Inr (), b\<lparr>bk_ops := ops1, bk_needs_refresh := False\<rparr>, m1)"
    using w(1) False by (auto simp: bucket_refresh_def matches_def)
  with w f False show ?thesis by auto
qed

text \<open>The loop over the buckets that are not in use.\<close>

lemma refresh_loop_ok:
  assumes "buckets_inv bad bs m" and "healthy m" and "\<forall>b \<in> set bs. geo_fits (bk_geo b) (length buf)"
  shows "\<exists>bs' m'. storage_refresh_loop bc used buf bs i m = (bs', m') \<and> healthy m'
    \<and> map bk_geo bs' = map bk_geo bs \<and> buckets_inv bad bs' m'
    \<and> (\<forall>k < length bs. i + k \<noteq> used \<longrightarrow> \<not> matches (bs ! k) buf \<longrightarrow> geo_holds bad (bk_geo (bs ! k)) m' buf)
    \<and> (\<forall>k < length bs. i + k = used \<longrightarrow> bs' ! k = bs ! k)
    \<and> (\<forall>g d. (\<forall>b \<in> set bs. apart (bk_geo b) g) \<longrightarrow> geo_holds bad g m d \<longrightarrow> geo_holds bad g m' d)
    \<and> (\<forall>c. (\<forall>b \<in> set bs. apart (bk_geo b) (bk_geo c)) \<longrightarrow> ops_inv bad (bk_ops c) m \<longrightarrow> ops_inv bad (bk_ops c) m')"
  using assms
proof (induction bs arbitrary: i m)
  case (Cons b bs)
  have b: "ops_inv bad (bk_ops b) m" "geo_fits (bk_geo b) (length buf)" "\<forall>c \<in> set bs. apart (bk_geo b) (bk_geo c)"
      "buckets_inv bad bs m"
    using Cons.prems by (auto simp: buckets_inv_Cons)
  have ab: "\<forall>c \<in> set bs. apart (bk_geo c) (bk_geo b)" using b(3) apart_sym by blast
  obtain b1 m1 where r: "healthy m1" "bk_geo b1 = bk_geo b" "ops_inv bad (bk_ops b1) m1" "buckets_inv bad bs m1"
      "i \<noteq> used \<Longrightarrow> \<not> matches b buf \<Longrightarrow> geo_holds bad (bk_geo b) m1 buf" "i = used \<Longrightarrow> b1 = b"
      "\<And>g d. apart (bk_geo b) g \<Longrightarrow> geo_holds bad g m d \<Longrightarrow> geo_holds bad g m1 d"
      "\<And>c. apart (bk_geo b) (bk_geo c) \<Longrightarrow> ops_inv bad (bk_ops c) m \<Longrightarrow> ops_inv bad (bk_ops c) m1"
      "storage_refresh_loop bc used buf (b # bs) i m =
         (case storage_refresh_loop bc used buf bs (Suc i) m1 of (bs', m') \<Rightarrow> (b1 # bs', m'))"
  proof (cases "i = used")
    case True
    then show ?thesis using that [of m b] b Cons.prems(2) by simp
  next
    case False
    obtain b' m' where f: "bucket_refresh bc b m buf = (Inr (), b', m')" "healthy m'" "bk_geo b' = bk_geo b"
        "ops_inv bad (bk_ops b') m'" "\<not> matches b buf \<Longrightarrow> geo_holds bad (bk_geo b) m' buf"
        "\<And>g d. apart (bk_geo b) g \<Longrightarrow> geo_holds bad g m d \<Longrightarrow> geo_holds bad g m' d"
        "\<And>c. apart (bk_geo b) (bk_geo c) \<Longrightarrow> ops_inv bad (bk_ops c) m \<Longrightarrow> ops_inv bad (bk_ops c) m'"
      using bucket_refresh_ok [OF b(1) Cons.prems(2) b(2), of bc] by blast
    have "buckets_inv bad bs m'" using b(3,4) f(7) by (auto simp: buckets_inv_def)
    then show ?thesis
      using that [of m' "b'\<lparr>bk_buf := [], bk_len := 0\<rparr>"] f False by simp
  qed
  have "\<forall>b \<in> set bs. geo_fits (bk_geo b) (length buf)" using Cons.prems(3) by simp
  note IH = Cons.IH [OF r(4,1) this, of "Suc i"]
  obtain bs' m' where l: "storage_refresh_loop bc used buf bs (Suc i) m1 = (bs', m')" "healthy m'"
      "map bk_geo bs' = map bk_geo bs" "buckets_inv bad bs' m'"
      "\<forall>k < length bs. Suc i + k \<noteq> used \<longrightarrow> \<not> matches (bs ! k) buf \<longrightarrow> geo_holds bad (bk_geo (bs ! k)) m' buf"
      "\<forall>k < length bs. Suc i + k = used \<longrightarrow> bs' ! k = bs ! k"
      "\<And>g d. \<forall>b \<in> set bs. apart (bk_geo b) g \<Longrightarrow> geo_holds bad g m1 d \<Longrightarrow> geo_holds bad g m' d"
      "\<And>c. \<forall>b \<in> set bs. apart (bk_geo b) (bk_geo c) \<Longrightarrow> ops_inv bad (bk_ops c) m1 \<Longrightarrow> ops_inv bad (bk_ops c) m'"
    using IH by (elim exE conjE) simp
  have i1: "ops_inv bad (bk_ops b1) m'" by (rule l(8) [OF _ r(3)]) (use ab r(2) in simp)
  have i2: "\<forall>c \<in> set bs'. apart (bk_geo b1) (bk_geo c)"
    using b(3) l(3) r(2) by (metis (mono_tags) imageE image_eqI image_set)
  have h1: "i \<noteq> used \<Longrightarrow> \<not> matches b buf \<Longrightarrow> geo_holds bad (bk_geo b) m' buf"
    using l(7) [OF ab] r(5) by blast
  have g1: "\<forall>g d. (\<forall>c \<in> set (b # bs). apart (bk_geo c) g) \<longrightarrow> geo_holds bad g m d \<longrightarrow> geo_holds bad g m' d"
    using l(7) r(7) by simp
  have g2: "\<forall>c. (\<forall>a \<in> set (b # bs). apart (bk_geo a) (bk_geo c)) \<longrightarrow> ops_inv bad (bk_ops c) m \<longrightarrow> ops_inv bad (bk_ops c) m'"
    using l(8) r(8) by simp
  show ?case
  proof (intro exI [of _ "b1 # bs'"] exI [of _ m'] conjI)
    show "storage_refresh_loop bc used buf (b # bs) i m = (b1 # bs', m')" using r(9) l(1) by simp
    show "map bk_geo (b1 # bs') = map bk_geo (b # bs)" using l(3) r(2) by simp
    show "buckets_inv bad (b1 # bs') m'" using i1 i2 l(4) by (simp add: buckets_inv_Cons)
    show "\<forall>k < length (b # bs). i + k \<noteq> used \<longrightarrow> \<not> matches ((b # bs) ! k) buf \<longrightarrow>
        geo_holds bad (bk_geo ((b # bs) ! k)) m' buf"
      using h1 l(5) by (simp add: nth_Cons split: nat.split)
    show "\<forall>k < length (b # bs). i + k = used \<longrightarrow> (b1 # bs') ! k = (b # bs) ! k"
      using r(6) l(6) by (simp add: nth_Cons split: nat.split)
  qed (rule l(2) g1 g2)+
qed simp

text \<open>A buffer that is accepted at a position bounds the bucket taken.\<close>

context storage_format
begin

lemma check_loop_before:
  assumes "healthy m" and "buckets_inv bad bs m" and "fok f" and "j < length bs"
    and "bucket_read bc stack (bs ! j) m = (None, b1, m)" and "accepts fok verify magic no_auth (bk_buf b1) n"
  shows "\<exists>k bs' f'. storage_check_loop bc stack verify magic no_auth bs i None f m = (Some (i + k), bs', f', m) \<and> k \<le> j
    \<and> fok f' \<and> (\<exists>c1. bucket_read bc stack (bs ! k) m = (None, c1, m))"
  using assms(2-5)
proof (induction bs arbitrary: i f j)
  case (Cons b bs)
  have inv: "ops_inv bad (bk_ops b) m" "buckets_inv bad bs m"
    using Cons.prems(1) by (auto simp: buckets_inv_Cons)
  obtain ret c1 where r: "bucket_read bc stack b m = (ret, c1, m)" "ret \<noteq> Some EUCLEAN"
      "ret = None \<Longrightarrow> bk_len c1 = length (bk_buf c1)"
    using bucket_read_healthy [OF assms(1) inv(1)] by (metis prod_cases3)
  have later: "\<exists>k bs' f'. storage_check_loop bc stack verify magic no_auth bs (Suc i) None g m = (Some (i + k), bs', f', m)
      \<and> k \<le> j \<and> fok f' \<and> (\<exists>c1. bucket_read bc stack ((b # bs) ! k) m = (None, c1, m))" if fg: "fok g" and j0: "j \<noteq> 0" for g
  proof -
    obtain j' where j': "j = Suc j'" using j0 by (cases j) auto
    then have "j' < length bs" "bucket_read bc stack (bs ! j') m = (None, b1, m)" using Cons.prems(3,4) by auto
    from Cons.IH [OF inv(2) fg this, of "Suc i"] obtain k bs' f' where
      "storage_check_loop bc stack verify magic no_auth bs (Suc i) None g m = (Some (Suc i + k), bs', f', m)" "k \<le> j'" "fok f'"
      "\<exists>c1. bucket_read bc stack (bs ! k) m = (None, c1, m)"
      by blast
    then show ?thesis using j' by (intro exI [of _ "Suc k"]) auto
  qed
  show ?case
  proof (cases ret)
    case (Some e)
    then have "j \<noteq> 0" using Cons.prems(4) r(1) by (cases j) auto
    with later [OF Cons.prems(2)] Some r show ?thesis by fastforce
  next
    case None
    obtain x len f1 where v: "verify f magic (bk_buf c1) (bk_len c1) no_auth = ((x, len), f1)" by (metis prod.exhaust)
    have f1: "fok f1" using verify_keeps [OF Cons.prems(2)] v by (metis snd_conv)
    show ?thesis
    proof (cases "x = Inr ()")
      case True
      obtain bs' f' where "storage_check_loop bc stack verify magic no_auth bs (Suc i) (Some i) f1 m = (Some i, bs', f', m)"
          "fok f'"
        using check_loop [OF assms(1) inv(2) f1, of bc stack "Suc i" "Some i"] by auto
      then show ?thesis using r None v True by (intro exI [of _ 0]) simp
    next
      case False
      have "j \<noteq> 0"
      proof
        assume "j = 0"
        then have "c1 = b1" using Cons.prems(4) r(1) by simp
        then show False
          using False assms(6) v r(3) [OF None] Cons.prems(2) by (auto simp: accepts_def)
      qed
      with later [OF f1] r None v False show ?thesis by fastforce
    qed
  qed
qed simp

text \<open>What \<open>state_storage_read\<close> returns is the buffer of the bucket taken.\<close>

lemma read_result:
  assumes "healthy m" and "buckets_inv bad (st_buckets st) m" and "fok f"
    and "storage_check_loop bc stack verify magic no_auth (st_buckets st) 0 None f m = (Some k, bs', f', m)"
    and "bucket_read bc stack (st_buckets st ! k) m = (None, b1, m)" and "k < length (st_buckets st)"
  shows "\<exists>len st' m'. state_storage_read bc stack verify st f magic no_auth m = (Inr (bk_buf b1, len), st', f', m')
    \<and> len = bk_len (bs' ! k)"
proof -
  have "list_all2 (after_check bc stack m) (st_buckets st) bs'"
    using check_loop [OF assms(1-3), of bc stack 0 None] assms(4) by auto
  then have "after_check bc stack m (st_buckets st ! k) (bs' ! k)" using assms(6) by (metis list_all2_nthD)
  then have "bk_buf (bs' ! k) = bk_buf b1" using assms(5) by (auto simp: after_check_def)
  then show ?thesis
    using assms(4) by (simp add: state_storage_read_def Let_def split: prod.splits)
qed

text \<open>
  The first usable bucket is returned; every other bucket that did not deliver the same data is written anew.
\<close>

lemma read_repairs:
  assumes "healthy m" and "buckets_inv bad (st_buckets st) m" and "fok f"
    and "st_buckets st = pre @ b # post" and "\<forall>p \<in> set pre. unusable fok verify magic no_auth bc stack p m"
    and "bucket_read bc stack b m = (None, b1, m)" and "accepts fok verify magic no_auth (bk_buf b1) n"
    and "0 < n" and "n \<le> length (bk_buf b1)" and "\<forall>c \<in> set (st_buckets st). geo_fits (bk_geo c) n"
    and "\<forall>c \<in> set (st_buckets st). \<not> bk_needs_refresh c \<and> bk_len c = 0"
  shows "\<exists>st' f' m'. state_storage_read bc stack verify st f magic no_auth m = (Inr (bk_buf b1, n), st', f', m')
    \<and> fok f' \<and> healthy m'
    \<and> (\<forall>c \<in> set pre \<union> set post. (\<nexists>c1. bucket_read bc stack c m = (None, c1, m) \<and> take n (bk_buf c1) = take n (bk_buf b1))
         \<longrightarrow> geo_holds bad (bk_geo c) m' (take n (bk_buf b1)))"
proof -
  let ?bs = "st_buckets st" and ?i = "length pre" and ?d = "take n (bk_buf b1)"
  have inv: "buckets_inv bad (pre @ b # post) m" using assms(2,4) by simp
  have bi: "ops_inv bad (bk_ops b) m" using inv by (simp add: buckets_inv_def)
  note rb = bucket_read_healthy [OF assms(1) bi assms(6)]
  have lb: "bk_len b1 = length (bk_buf b1)" using rb by simp
  obtain bs' f' where c: "storage_check_loop bc stack verify magic no_auth ?bs 0 None f m = (Some ?i, bs', f', m)"
      "fok f'" "bs' ! ?i = b1\<lparr>bk_len := n\<rparr>"
    using check_loop_first [OF assms(1) inv assms(3,5,6,7) lb, of 0] assms(4) by auto
  have c': "buckets_inv bad bs' m" "map bk_geo bs' = map bk_geo ?bs" "list_all2 (after_check bc stack m) ?bs bs'"
    using check_loop [OF assms(1-3), of bc stack 0 None] c(1) by auto
  have len: "length bs' = length ?bs" using c'(2) by (metis length_map)
  have ld: "length ?d = n" using assms(9) by simp
  have fit: "\<forall>c \<in> set bs'. geo_fits (bk_geo c) (length ?d)"
    using assms(10) c'(2) ld by (metis (mono_tags) imageE image_eqI image_set)
  obtain bs2 m2 where l: "storage_refresh_loop bc ?i ?d bs' 0 m = (bs2, m2)" "healthy m2"
      "\<forall>k < length bs'. 0 + k \<noteq> ?i \<longrightarrow> \<not> matches (bs' ! k) ?d \<longrightarrow> geo_holds bad (bk_geo (bs' ! k)) m2 ?d"
      "\<forall>k < length bs'. 0 + k = ?i \<longrightarrow> bs2 ! k = bs' ! k"
    using refresh_loop_ok [OF c'(1) assms(1) fit, of bc ?i 0] by blast
  have il: "?i < length bs'" using len assms(4) by simp
  have "\<not> bk_needs_refresh b1" using rb assms(4,11) by simp
  then have "matches (bs2 ! ?i) ?d" using l(4) il c(3) ld by (simp add: matches_def)
  then have "bucket_refresh bc (bs2 ! ?i) m2 ?d = (Inr (), bs2 ! ?i, m2)"
    by (auto simp: bucket_refresh_def matches_def)
  then have res: "\<exists>st'. state_storage_read bc stack verify st f magic no_auth m = (Inr (bk_buf b1, n), st', f', m2)"
    using c(1,3) l(1) by (simp add: state_storage_read_def)
  have "geo_holds bad (bk_geo c) m2 ?d"
    if "c \<in> set pre \<union> set post" and no: "\<nexists>c1. bucket_read bc stack c m = (None, c1, m) \<and> take n (bk_buf c1) = ?d" for c
  proof -
    obtain k where k: "k < length ?bs" "k \<noteq> ?i" "?bs ! k = c"
    proof (cases "c \<in> set pre")
      case True
      then obtain j where "j < length pre" "pre ! j = c" by (auto simp: in_set_conv_nth)
      then show ?thesis using that [of j] assms(4) by (simp add: nth_append)
    next
      case False
      with \<open>c \<in> set pre \<union> set post\<close> obtain j where "j < length post" "post ! j = c" by (auto simp: in_set_conv_nth)
      then show ?thesis using that [of "Suc (length pre + j)"] assms(4) by (simp add: nth_append)
    qed
    have ac: "after_check bc stack m c (bs' ! k)" using c'(3) k by (metis list_all2_nthD)
    have ci: "ops_inv bad (bk_ops c) m" "bk_len c = 0" using assms(2,11) k by (auto simp: buckets_inv_def)
    obtain ret c1 where r: "bucket_read bc stack c m = (ret, c1, m)" "ret \<noteq> None \<Longrightarrow> bk_len c1 = bk_len c"
      using bucket_read_healthy [OF assms(1) ci(1)] by (metis prod_cases3)
    have "\<not> matches (bs' ! k) ?d"
    proof (cases ret)
      case None
      then show ?thesis using ac no r(1) ld by (auto simp: after_check_def matches_def)
    next
      case (Some e)
      then show ?thesis using ac r ci(2) ld assms(8) by (simp add: after_check_def matches_def)
    qed
    then have "geo_holds bad (bk_geo (bs' ! k)) m2 ?d" using l(3) k len by simp
    moreover have "bk_geo (bs' ! k) = bk_geo c" using c'(2) k len by (metis nth_map)
    ultimately show ?thesis by simp
  qed
  then show ?thesis using res c(2) l(2) by blast
qed

end

section \<open>The raw format\<close>

lemma raw_verify_keeps:
  assumes "raw_ok ks raw"
  shows "raw_ok ks (snd (backend_format_raw_verify ks raw magic buf len no_auth))
    \<and> same_format raw (snd (backend_format_raw_verify ks raw magic buf len no_auth))"
proof (cases "fr_algo raw = None \<or> no_auth")
  case True
  then show ?thesis
    using assms by (auto simp: backend_format_raw_verify_def Let_def same_format_def)
next
  case False
  then obtain algo where a: "fr_algo raw = Some algo" "\<not> no_auth" by auto
  let ?n = "unat (h_data_len (header_of buf))"
  have "?n < 2 ^ 16" using unsigned_less [of "h_data_len (header_of buf)", where ?'a = nat] by simp
  then have "length (take (16 + ?n) buf) \<le> digest_limit" by (simp add: digest_limit_def)
  from raw_digest_run [OF assms a(1) this] obtain d d1 d2 raw1 where r:
      "backend_raw_digest_init ks raw = (Inr (), raw1)" "fr_digest raw1 = Some d"
      "fr_algo raw1 = fr_algo raw" "fr_secret_name raw1 = fr_secret_name raw"
      "digest_update d (take (16 + ?n) buf) = Inr d1"
      "digest_final d1 = Inr (raw_mac ks raw (take (16 + ?n) buf), d2)"
      "raw_ok ks (raw1\<lparr>fr_digest := Some d2\<rparr>)" "raw_ok ks raw1"
    by blast
  have "\<exists>x. raw_verify_hmac raw1 buf ?n = (x, raw1\<lparr>fr_digest := Some d2\<rparr>)"
    using r by (simp add: raw_verify_hmac_def digest_generic_verify_def Let_def)
  then show ?thesis
    using a r assms by (auto simp: backend_format_raw_verify_def Let_def same_format_def)
qed

interpretation rawst: storage_format "\<lambda>f. raw_ok ks f \<and> same_format f0 f" "backend_format_raw_verify ks" magic no_auth
  for ks f0 magic no_auth
proof
  fix f buf len
  assume "raw_ok ks f \<and> same_format f0 f"
  then show "raw_ok ks (snd (backend_format_raw_verify ks f magic buf len no_auth))
      \<and> same_format f0 (snd (backend_format_raw_verify ks f magic buf len no_auth))"
    using raw_verify_keeps [of ks f magic buf len no_auth] by (auto simp: same_format_def)
qed

lemma raw_accepts:
  assumes "raw_valid ks f0 magic k buf"
  shows "accepts (\<lambda>f. raw_ok ks f \<and> same_format f0 f) (backend_format_raw_verify ks) magic False (buf @ pad) (16 + k)"
  unfolding accepts_def
proof (intro allI impI)
  fix f assume f: "raw_ok ks f \<and> same_format f0 f"
  then have "raw_valid ks f magic k (buf @ pad)"
    using raw_valid_append [OF assms] same_format_mac [of f0 f] by (auto simp: raw_valid_def)
  from raw_verify_valid [OF _ this] f show "fst (backend_format_raw_verify ks f magic (buf @ pad) (length (buf @ pad)) False)
      = (Inr (), 16 + k)" by auto
qed

section \<open>Properties\<close>

text \<open>The storage of a later session: the same buckets, opened anew on the device as it is then.\<close>

definition reopened :: "(nat \<Rightarrow> bool) \<Rightarrow> backend_storage \<Rightarrow> backend_storage \<Rightarrow> medium \<Rightarrow> bool" where
  "reopened bad st st2 m \<longleftrightarrow> map bk_geo (st_buckets st2) = map bk_geo (st_buckets st)
     \<and> (\<forall>b \<in> set (st_buckets st2). geo_open bad (bk_geo b) m = (Inr (bk_ops b), m)
          \<and> \<not> bk_needs_refresh b \<and> bk_buf b = [] \<and> bk_len b = 0)"

lemma geo_fits_mono: "geo_fits g n \<Longrightarrow> k \<le> n \<Longrightarrow> geo_fits g k"
proof (cases g)
  case (Geo_circular h)
  assume "geo_fits g n" "k \<le> n"
  moreover from this have "roundup (k + 8) (fst (snd h)) \<le> roundup (n + 8) (fst (snd h))"
    unfolding roundup_def by (intro mult_le_mono1 div_le_mono) simp
  ultimately show ?thesis using Geo_circular by (simp add: circ_fits_def)
qed (auto simp: direct_fits_def)

lemma reopened_nth:
  assumes "reopened bad st st2 m" and "k < length (st_buckets st)"
  shows "k < length (st_buckets st2)" and "bk_geo (st_buckets st2 ! k) = bk_geo (st_buckets st ! k)"
    and "geo_open bad (bk_geo (st_buckets st2 ! k)) m = (Inr (bk_ops (st_buckets st2 ! k)), m)"
proof -
  have l: "length (st_buckets st2) = length (st_buckets st)"
    using assms(1) unfolding reopened_def by (metis length_map)
  then show "k < length (st_buckets st2)" using assms(2) by simp
  then show "bk_geo (st_buckets st2 ! k) = bk_geo (st_buckets st ! k)"
    using assms l unfolding reopened_def by (metis nth_map)
  show "geo_open bad (bk_geo (st_buckets st2 ! k)) m = (Inr (bk_ops (st_buckets st2 ! k)), m)"
    using assms(1) \<open>k < length (st_buckets st2)\<close> by (simp add: reopened_def)
qed

lemma reopened_inv:
  assumes "reopened bad st st2 m" and "buckets_inv bad (st_buckets st) m0"
    and "\<forall>b \<in> set (st_buckets st2). ops_inv bad (bk_ops b) m"
  shows "buckets_inv bad (st_buckets st2) m"
  using assms by (simp add: buckets_inv_def reopened_def)

text \<open>A device that works opens every well-formed eraseblock.\<close>

lemma geo_open_inv:
  assumes "geo_open bad g m = (Inr ops, m')" and "ops_inv bad ops0 m0" and "ops_geo ops0 = g"
    and "length (m_bytes m) = length (m_bytes m0)" and "m_flash m = m_flash m0" and "healthy m"
  shows "m' = m \<and> ops_inv bad ops m"
proof (cases ops0)
  case (Bucket_direct d)
  then show ?thesis
    using assms by (auto simp: state_backend_bucket_direct_create_def direct_create_same direct_inv_def split: sum.splits)
next
  case (Bucket_circular c)
  have g: "g = Geo_circular (circ_geo c)" "circ_inv c m0" "\<not> bad (circ_base c)"
    using assms(2,3) Bucket_circular by (auto simp: circ_binv_def)
  obtain b where b: "circ_create_op bad (circ_geo c) m = (Inr b, m')" "ops = Bucket_circular b"
    using assms(1) g(1) by (auto split: prod.splits sum.splits)
  have gc: "circ_geo_ok c m0" using g(2) by (simp add: circ_inv_def)
  have "circ_geo_ok (circ_of (circ_geo c)) m"
    using gc circ_of_geo [OF gc] assms(4) by (simp add: circ_geo_only) (auto simp: circ_geo_ok_def)
  then have ok: "circ_geo_ok (circ_new (circ_eraseblock c) (circ_writesize c) (circ_erasesize c)) m"
    by (simp add: circ_of_def circ_geo_def)
  have cr: "state_backend_bucket_circular_create bad (circ_eraseblock c) (circ_writesize c) (circ_erasesize c) m = (Inr b, m')"
    using b(1) by (simp add: circ_geo_def)
  have m: "m' = m" by (rule circ_create_medium [OF cr assms(6)])
  have "circ_base b = circ_base c" using circ_create_geo [OF cr] by (simp add: circ_base_def)
  moreover have "circ_inv b m" using circ_create_inv [OF cr ok] m by simp
  ultimately show ?thesis using m g(3) b(2) by (simp add: circ_binv_def)
qed


lemma power_loss_device:
  assumes "power_loss bc data bs m m'" and "buckets_inv bad bs m" and "healthy m"
    and "\<forall>b \<in> set bs. geo_fits (bk_geo b) (length data)"
  shows "healthy m' \<and> length (m_bytes m') = length (m_bytes m) \<and> m_flash m' = m_flash m"
  using assms
proof (induction rule: power_loss.induct)
  case (during b s m r b' m' bs)
  let ?m = "m\<lparr>m_script := s\<rparr>"
  have sr: "same_region (geo_region (bk_geo b)) m ?m" by simp
  have b: "ops_inv bad (bk_ops b) ?m" "geo_fits (bk_geo b) (length data)"
    using during.prems ops.binv_region [OF sr] by (auto simp: buckets_inv_Cons)
  obtain o' where w: "ops_write bc (bk_ops b) ?m data = (r, o', m')"
    using during.hyps by (auto simp: bucket_write_def split: prod.splits)
  show ?case using ops.write_frame [OF b w] by (simp add: only_changes_def healthy_def)
next
  case (after b m b' m1 bs m')
  have b: "ops_inv bad (bk_ops b) m" "geo_fits (bk_geo b) (length data)"
    using after.prems by (auto simp: buckets_inv_Cons)
  obtain o' where w: "ops_write bc (bk_ops b) m data = (Inr (), o', m1)"
    using after.hyps(1) by (auto simp: bucket_write_def split: prod.splits)
  have "only_changes (fst (geo_region (bk_geo b))) (snd (geo_region (bk_geo b))) m m1"
    using ops.write_frame [OF b w] by blast
  moreover have "healthy m1"
    using bucket_write_ok [OF b(1) after.prems(2) b(2), of bc] after.hyps(1) by auto
  moreover have "buckets_inv bad bs m1"
    using buckets_inv_written [OF after.hyps(1) after.prems(1) b(2)] by (simp add: buckets_inv_Cons)
  ultimately show ?case using after.IH after.prems(3) by (simp add: only_changes_def)
qed simp

lemma reopened_ops_inv:
  assumes "reopened bad st st2 m'" and "buckets_inv bad (st_buckets st) m"
    and "healthy m'" and "length (m_bytes m') = length (m_bytes m)" and "m_flash m' = m_flash m"
  shows "buckets_inv bad (st_buckets st2) m'"
proof (rule reopened_inv [OF assms(1,2)], rule ballI)
  fix b assume b: "b \<in> set (st_buckets st2)"
  then obtain c where c: "c \<in> set (st_buckets st)" "bk_geo c = bk_geo b"
    using assms(1) unfolding reopened_def by (metis (mono_tags) imageE image_eqI image_set)
  have o: "geo_open bad (bk_geo b) m' = (Inr (bk_ops b), m')" using assms(1) b by (simp add: reopened_def)
  have "ops_inv bad (bk_ops c) m" using assms(2) c(1) by (simp add: buckets_inv_def)
  from geo_open_inv [OF o this c(2) assms(4,5,3)] show "ops_inv bad (bk_ops b) m'" by simp
qed

text \<open>Reading a storage in which a bucket holds a packed state.\<close>

lemma reopened_delivers:
  assumes "reopened bad st st2 m" and "healthy m" and "k < length (st_buckets st)"
    and "geo_holds bad (bk_geo (st_buckets st ! k)) m data" and "raw_valid ks f0 magic n data"
  obtains b1 pad where "bucket_read bc stack (st_buckets st2 ! k) m = (None, b1, m)" and "bk_buf b1 = data @ pad"
    and "accepts (\<lambda>f. raw_ok ks f \<and> same_format f0 f) (backend_format_raw_verify ks) magic False (bk_buf b1) (16 + n)"
proof -
  note r = reopened_nth [OF assms(1,3)]
  obtain b1 pad where "bucket_read bc stack (st_buckets st2 ! k) m = (None, b1, m)" "bk_buf b1 = data @ pad"
    using bucket_read_opened [OF _ assms(2) r(3)] assms(4) r(2) by metis
  then show ?thesis using that [of b1 pad] raw_accepts [OF assms(5), of pad] by simp
qed

lemma same_format_refl: "same_format f f"
  by (simp add: same_format_def)

text \<open>
  Saving and loading: on a device that works, a packed state is written to all buckets, whatever the kinds of
  the buckets; a later session that opens the buckets anew reads the state back (with the padding of the first
  bucket behind it) and with the length of header and data.
\<close>

lemma storage_save_load:
  assumes "buckets_inv bad (st_buckets st) m" and "healthy m" and "\<not> st_readonly st" and "st_buckets st \<noteq> []"
    and "\<forall>b \<in> set (st_buckets st). geo_fits (bk_geo b) (length data)"
  shows "\<exists>st' m'. state_storage_write bc st m data = (Inr (), st', m') \<and> healthy m'
    \<and> map bk_geo (st_buckets st') = map bk_geo (st_buckets st)
    \<and> (\<forall>ks f magic n st2. raw_ok ks f \<and> raw_valid ks f magic n data \<and> reopened bad st st2 m' \<longrightarrow>
         (\<exists>pad st3 f' m''. state_storage_read bc stack (backend_format_raw_verify ks) st2 f magic False m'
           = (Inr (data @ pad, 16 + n), st3, f', m'')))"
proof -
  obtain bs' m' where w: "storage_write_loop bc (st_buckets st) m data 0 = (length (st_buckets st), bs', m')" "healthy m'"
      "map bk_geo bs' = map bk_geo (st_buckets st)" "buckets_inv bad bs' m'"
      "\<forall>b \<in> set (st_buckets st). geo_holds bad (bk_geo b) m' data"
    using storage_write_loop_ok [OF assms(1,2,5), of bc 0] by auto
  have "state_storage_write bc st m data = (Inr (), st\<lparr>st_buckets := bs'\<rparr>, m')"
    using w(1) assms(3,4) by (cases "st_buckets st") (auto simp: state_storage_write_def min_buckets_written_def)
  moreover have "\<exists>pad st3 f' m''. state_storage_read bc stack (backend_format_raw_verify ks) st2 f magic False m'
           = (Inr (data @ pad, 16 + n), st3, f', m'')"
    if fm: "raw_ok ks f" "raw_valid ks f magic n data" and re: "reopened bad st st2 m'" for ks f magic n st2
  proof -
    have "reopened bad (st\<lparr>st_buckets := bs'\<rparr>) st2 m'" using re w(3) by (simp add: reopened_def)
    from reopened_ops_inv [OF this _ w(2)] w(4) have i2: "buckets_inv bad (st_buckets st2) m'" by simp
    have z: "0 < length (st_buckets st)" using assms(4) by simp
    then have h: "geo_holds bad (bk_geo (st_buckets st ! 0)) m' data" using w(5) nth_mem by blast
    obtain b1 pad where d: "bucket_read bc stack (st_buckets st2 ! 0) m' = (None, b1, m')" "bk_buf b1 = data @ pad"
        "accepts (\<lambda>g. raw_ok ks g \<and> same_format f g) (backend_format_raw_verify ks) magic False (bk_buf b1) (16 + n)"
      by (rule reopened_delivers [OF re w(2) z h fm(2)])
    obtain b0 bs0 where s: "st_buckets st2 = b0 # bs0" using reopened_nth(1) [OF re z] by (cases "st_buckets st2") auto
    have fit: "\<forall>c \<in> set (st_buckets st2). geo_fits (bk_geo c) (16 + n)"
    proof
      fix c assume "c \<in> set (st_buckets st2)"
      then obtain b where b: "b \<in> set (st_buckets st)" "bk_geo b = bk_geo c"
        using re unfolding reopened_def by (metis (mono_tags) imageE image_eqI image_set)
      have "16 + n \<le> length data" using fm(2) by (simp add: raw_valid_def good_header_def)
      then show "geo_fits (bk_geo c) (16 + n)" using assms(5) b geo_fits_mono by metis
    qed
    have l: "16 + n \<le> length (bk_buf b1)" using d(2) fm(2) by (simp add: raw_valid_def good_header_def)
    have fresh: "\<forall>c \<in> set (st_buckets st2). \<not> bk_needs_refresh c \<and> bk_len c = 0"
      using re by (simp add: reopened_def)
    have br: "bucket_read bc stack b0 m' = (None, b1, m')" using d(1) s by simp
    show ?thesis
      using rawst.read_repairs [OF w(2) i2 _ _ _ br d(3) _ l fit fresh, of f "[]" bs0] s d(2) fm(1) same_format_refl
      by fastforce
  qed
  ultimately show ?thesis using w(2,3)
    by (intro exI [of _ "st\<lparr>st_buckets := bs'\<rparr>"] exI [of _ m']) auto
qed

text \<open>A storage of three direct buckets of 32 bytes, for the witnesses.\<close>

definition demo_bucket :: "nat \<Rightarrow> storage_bucket" where
  "demo_bucket ofs = new_bucket (Bucket_direct \<lparr>dir_offset = ofs, dir_max_size = 32, dir_readonly = False\<rparr>) ofs 0"

definition demo_storage :: backend_storage where
  "demo_storage = \<lparr>st_readonly = False, st_buckets = [demo_bucket 0, demo_bucket 32, demo_bucket 64],
     st_name = None, st_offset = 0, st_max_size = 0, st_stridesize = 32\<rparr>"

definition demo_card :: medium where
  "demo_card = \<lparr>m_bytes = replicate 96 0, m_flash = False, m_script = []\<rparr>"

definition demo_state :: bytes where
  "demo_state = demo_header @ [0x2a]"

abbreviation no_keys :: keystore where
  "no_keys \<equiv> (\<lambda>_. Inl ENOENT)"

lemma demo_state_valid: "raw_valid no_keys demo_plain 1 1 demo_state" "raw_ok no_keys demo_plain"
  "length demo_state = 17"
  by (simp_all add: raw_valid_def good_header_def demo_header_ok raw_mac_len_def raw_mac_def demo_plain_def
      demo_state_def raw_ok_def)

lemma demo_storage_ok:
  "buckets_inv bad (st_buckets demo_storage) demo_card" "healthy demo_card" "\<not> st_readonly demo_storage"
  "st_buckets demo_storage \<noteq> []" "\<forall>b \<in> set (st_buckets demo_storage). geo_fits (bk_geo b) 17"
  by (auto simp: demo_storage_def demo_bucket_def new_bucket_def demo_card_def buckets_inv_def direct_inv_def
      healthy_def direct_fits_def apart_def disjoint_regions_def)

text \<open>On direct buckets any later session opens the same buckets.\<close>

lemma demo_reopened:
  assumes "healthy m"
  shows "reopened bad demo_storage demo_storage m"
  using assms
  by (simp add: reopened_def demo_storage_def demo_bucket_def new_bucket_def state_backend_bucket_direct_create_def)



definition demo_new :: bytes where
  "demo_new = pack_header 1 (replicate 16 0 @ [0x2b]) 1"

lemma demo_new_valid: "raw_valid no_keys demo_plain 1 1 demo_new" "length demo_new = 17"
  using pack_header_good [of 1 "replicate 16 0 @ [0x2b]" 1]
  by (auto simp: demo_new_def raw_valid_def raw_mac_len_def raw_mac_def demo_plain_def)

definition demo_old_card :: medium where
  "demo_old_card = \<lparr>m_bytes = concat (replicate 3 (direct_meta 17 @ demo_state @ replicate 7 0)), m_flash = False, m_script = []\<rparr>"

lemma demo_old_card_ok:
  "buckets_inv bad (st_buckets demo_storage) demo_old_card" "healthy demo_old_card"
  "\<forall>b \<in> set (st_buckets demo_storage). geo_holds bad (bk_geo b) demo_old_card demo_state"
proof -
  have r: "replicate 3 x = [x, x, x]" for x :: bytes by (simp add: numeral_eq_Suc)
  have b: "m_bytes demo_old_card = (direct_meta 17 @ demo_state @ replicate 7 0) @ (direct_meta 17 @ demo_state @ replicate 7 0)
      @ (direct_meta 17 @ demo_state @ replicate 7 0)"
    by (simp add: demo_old_card_def r)
  have l: "length (direct_meta 17 @ demo_state @ replicate 7 0) = 32" by (simp add: demo_state_valid(3))
  show "buckets_inv bad (st_buckets demo_storage) demo_old_card" "healthy demo_old_card"
    using l by (simp_all add: demo_storage_def demo_bucket_def new_bucket_def buckets_inv_def direct_inv_def b
        healthy_def apart_def disjoint_regions_def) (simp_all add: demo_old_card_def)
  show "\<forall>b \<in> set (st_buckets demo_storage). geo_holds bad (bk_geo b) demo_old_card demo_state"
    using l by (simp add: demo_storage_def demo_bucket_def new_bucket_def direct_holds_def b demo_state_valid(3))
      (simp add: demo_old_card_def)
qed



definition demo_damaged_card :: medium where
  "demo_damaged_card = \<lparr>m_bytes = replicate 32 0 @ (direct_meta 17 @ demo_state @ replicate 7 0) @ replicate 32 0xff,
     m_flash = False, m_script = []\<rparr>"

lemma get_le32_zero: "take 4 bs = replicate 4 0 \<Longrightarrow> get_le32 bs = 0"
proof -
  have "replicate 4 x = [x, x, x, x]" for x :: u8 by (simp add: numeral_eq_Suc)
  moreover assume "take 4 bs = replicate 4 0"
  ultimately show ?thesis by (simp add: get_le32_def get_unaligned_be32_def get_unaligned_be16_def)
qed

lemma no_magic_unreadable:
  assumes "healthy m" and "get_le32 (take 8 (drop ofs (m_bytes m))) \<noteq> direct_magic" and "ofs + 8 \<le> length (m_bytes m)"
  shows "\<exists>b'. bucket_read False [] (demo_bucket ofs) m = (Some EINVAL, b', m)"
proof -
  have "get_le32 (take 8 (drop ofs (m_bytes m)) @ drop (length (take 8 (drop ofs (m_bytes m)))) []) \<noteq> direct_magic"
    using assms(2) by simp
  then show ?thesis
    using assms(1) by (simp add: bucket_read_def demo_bucket_def new_bucket_def state_backend_bucket_direct_read_def
        read_full_healthy Let_def)
qed





section \<open>The layout of the buckets\<close>

definition block_of :: "mtd_info \<Rightarrow> nat \<Rightarrow> storage_bucket \<Rightarrow> bool" where
  "block_of mi q b \<longleftrightarrow> geo_region (bk_geo b) = (q * unat (mi_erasesize mi), unat (mi_erasesize mi))"

lemma blocks_apart: "block_of mi q b \<Longrightarrow> block_of mi p c \<Longrightarrow> q < p \<Longrightarrow> apart (bk_geo b) (bk_geo c)"
proof -
  assume "block_of mi q b" "block_of mi p c" "q < p"
  moreover from \<open>q < p\<close> have "Suc q * unat (mi_erasesize mi) \<le> p * unat (mi_erasesize mi)" by (intro mult_le_mono1) simp
  ultimately show ?thesis by (simp add: block_of_def apart_def disjoint_regions_def)
qed

lemma mtd_loop_layout:
  assumes "mtd_buckets_loop bad mi ws last_end offset acc m = (bs, m')"
    and "last_end < 2 ^ 32" and "length acc < desired_buckets"
    and "sorted_wrt apart (map bk_geo acc)"
    and "\<forall>b \<in> set acc. \<exists>q. block_of mi q b \<and> q < offset div unat (mi_erasesize mi)"
    and "\<forall>b \<in> set acc. \<exists>q. block_of mi q b \<and> q * unat (mi_erasesize mi) < last_end"
  shows "length bs \<le> desired_buckets \<and> sorted_wrt apart (map bk_geo bs)
    \<and> (\<forall>b \<in> set bs. \<exists>q. block_of mi q b \<and> q * unat (mi_erasesize mi) < last_end)"
  using assms
proof (induction bad mi ws last_end offset acc m rule: mtd_buckets_loop.induct)
  case (1 bad mi ws last_end offset acc m)
  let ?es = "unat (mi_erasesize mi)" and ?q = "offset div unat (mi_erasesize mi)"
  show ?case
  proof (cases "last_end \<le> offset \<or> mi_erasesize mi = 0")
    case True
    then show ?thesis using "1.prems" by (auto simp: mtd_buckets_loop.simps [of bad mi])
  next
    case False
    obtain r m1 where c: "state_backend_bucket_circular_create bad (word_of_nat ?q) ws (mi_erasesize mi) m = (r, m1)"
      by fastforce
    have es: "0 < ?es" using False by (simp add: unat_gt_0)
    then have "(offset + ?es) div ?es = offset div ?es + 1" by (intro div_add_self2) (rule less_imp_neq [symmetric])
    then have nxt: "(offset + ?es) div ?es = Suc ?q" by simp
    have q: "?q < 2 ^ 32" "?q * ?es < last_end"
    proof -
      have "?q \<le> offset" by simp
      then show "?q < 2 ^ 32" using False "1.prems"(2) by linarith
      have "?q * ?es \<le> offset" by simp
      then show "?q * ?es < last_end" using False by linarith
    qed
    have grow: "\<forall>b \<in> set acc. \<exists>q. block_of mi q b \<and> q < (offset + ?es) div ?es"
      using "1.prems"(5) unfolding nxt by (meson less_SucI)
    show ?thesis
    proof (cases r)
      case (Inl e)
      have "mtd_buckets_loop bad mi ws last_end (offset + ?es) acc m1 = (bs, m')"
        using "1.prems"(1) False c Inl by (subst (asm) mtd_buckets_loop.simps) simp
      from "1.IH"(1) [OF False c [symmetric] Inl this "1.prems"(2-4) grow "1.prems"(6)] show ?thesis .
    next
      case (Inr d)
      let ?b = "new_bucket (Bucket_circular d) offset (length acc)"
      let ?acc = "acc @ [?b]"
      have "circ_eraseblock d = word_of_nat ?q" "circ_erasesize d = mi_erasesize mi"
        using circ_create_geo c Inr by blast+
      then have blk: "block_of mi ?q ?b"
        using q(1) by (simp add: block_of_def new_bucket_def circ_geo_def circ_region_def unat_of_nat)
      have "apart (bk_geo a) (bk_geo ?b)" if "a \<in> set acc" for a
        using "1.prems"(5) that blocks_apart [OF _ blk] by blast
      then have srt: "sorted_wrt apart (map bk_geo ?acc)"
        using "1.prems"(4) by (simp add: sorted_wrt_append)
      have below: "\<forall>b \<in> set ?acc. \<exists>q. block_of mi q b \<and> q < (offset + ?es) div ?es"
        using grow blk unfolding nxt by auto
      have inside: "\<forall>b \<in> set ?acc. \<exists>q. block_of mi q b \<and> q * ?es < last_end"
        using "1.prems"(6) blk q(2) by auto
      show ?thesis
      proof (cases "desired_buckets \<le> length ?acc")
        case True
        then have "bs = ?acc"
          using "1.prems"(1) False c Inr by (subst (asm) mtd_buckets_loop.simps) simp
        then show ?thesis using "1.prems"(3) srt inside by simp
      next
        case more: False
        have "mtd_buckets_loop bad mi ws last_end (offset + ?es) ?acc m1 = (bs, m')"
          using "1.prems"(1) False c Inr more by (subst (asm) mtd_buckets_loop.simps) (simp add: Let_def)
        from "1.IH"(2) [OF False c [symmetric] Inr refl more this "1.prems"(2) _ srt below inside] more
        show ?thesis by simp
      qed
    qed
  qed
qed

lemma file_loop_layout:
  assumes "file_buckets_loop readonly offset stride ns acc m = (bs, m')" and "0 < stride"
    and "\<forall>n \<in> set ns. Suc n * unat stride < 2 ^ 32" and "sorted_wrt (<) ns"
    and "sorted_wrt apart (map bk_geo acc)"
    and "\<forall>b \<in> set acc. \<forall>n \<in> set ns. \<exists>p. p < n \<and> geo_region (bk_geo b) = (offset + p * unat stride, unat stride)"
    and "\<forall>b \<in> set acc. \<exists>p. geo_region (bk_geo b) = (offset + p * unat stride, unat stride)"
  shows "length bs \<le> length acc + length ns \<and> sorted_wrt apart (map bk_geo bs)
    \<and> (\<forall>b \<in> set bs. \<exists>p. geo_region (bk_geo b) = (offset + p * unat stride, unat stride))"
  using assms
proof (induction ns arbitrary: acc m)
  case (Cons n ns)
  let ?ofs = "offset + unat (word_of_nat n * stride)"
  have "n * unat stride < 2 ^ 32" using Cons.prems(3) by simp
  moreover have "0 < unat stride" using Cons.prems(2) by (simp add: word_less_nat_alt)
  then have "n * 1 \<le> n * unat stride" by (intro mult_le_mono2) simp
  then have "n \<le> n * unat stride" by (simp only: mult_1_right)
  ultimately have n: "n < 2 ^ 32" "n * unat stride < 2 ^ 32" using le_less_trans by blast+
  have "unat (word_of_nat n :: u32) = n" using n(1) by (simp add: unat_of_nat)
  then have "unat (word_of_nat n :: u32) = n" "unat (word_of_nat n :: u32) * unat stride < 2 ^ LENGTH(32)"
    using n(2) by simp_all
  then have ofs: "?ofs = offset + n * unat stride" using unat_mult_lem [of "word_of_nat n :: u32" stride] by simp
  obtain r m1 where c: "state_backend_bucket_direct_create ?ofs (unat stride) readonly m = (r, m1)" by fastforce
  have ns: "\<forall>k \<in> set ns. Suc k * unat stride < 2 ^ 32" "sorted_wrt (<) ns" "\<forall>k \<in> set ns. n < k"
    using Cons.prems(3,4) by auto
  show ?case
  proof (cases r)
    case (Inl e)
    have "file_buckets_loop readonly offset stride ns acc m1 = (bs, m')" using Cons.prems(1) c Inl by (simp add: Let_def)
    from Cons.IH [OF this Cons.prems(2) ns(1,2) Cons.prems(5) _ Cons.prems(7)] Cons.prems(6) show ?thesis by simp
  next
    case (Inr d)
    let ?b = "new_bucket (Bucket_direct d) ?ofs (length acc)"
    have "d = \<lparr>dir_offset = ?ofs, dir_max_size = unat stride, dir_readonly = readonly\<rparr>"
      using c Inr by (auto simp: state_backend_bucket_direct_create_def split: prod.splits sum.splits)
    then have reg: "geo_region (bk_geo ?b) = (offset + n * unat stride, unat stride)"
      using ofs by (simp add: new_bucket_def)
    have "apart (bk_geo a) (bk_geo ?b)" if ina: "a \<in> set acc" for a
    proof -
      obtain p where p: "p < n" "geo_region (bk_geo a) = (offset + p * unat stride, unat stride)"
        using Cons.prems(6) ina by auto
      have "Suc p * unat stride \<le> n * unat stride" using p(1) by (intro mult_le_mono1) simp
      then show ?thesis using p(2) reg by (simp add: apart_def disjoint_regions_def)
    qed
    then have s: "sorted_wrt apart (map bk_geo (acc @ [?b]))" using Cons.prems(5) by (simp add: sorted_wrt_append)
    have l: "file_buckets_loop readonly offset stride ns (acc @ [?b]) m1 = (bs, m')"
      using Cons.prems(1) c Inr by (simp add: Let_def)
    have e: "\<forall>b \<in> set (acc @ [?b]). \<forall>k \<in> set ns. \<exists>p. p < k \<and> geo_region (bk_geo b) = (offset + p * unat stride, unat stride)"
      using Cons.prems(6) reg ns(3) by auto
    have a: "\<forall>b \<in> set (acc @ [?b]). \<exists>p. geo_region (bk_geo b) = (offset + p * unat stride, unat stride)"
      using Cons.prems(7) reg by auto
    show ?thesis using Cons.IH [OF l Cons.prems(2) ns(1,2) s e a] by simp
  qed
qed simp



text \<open>
  A size of 0, which stands for no limit, is only understood for a storage at the start of the device:
  with any other offset the end of the range is taken to be that offset and no bucket is created.
\<close>

theorem mtd_unlimited_fails:
  assumes "mi_flags mi AND MTD_NO_ERASE = 0" and "storagetype = None \<or> storagetype = Some ''circular''"
    and "0 < offset" and "int offset AND (uint (mi_erasesize mi) - 1) = 0"
  shows "\<exists>st. state_storage_init readonly bad (Some mi) offset 0 stride storagetype m = (Inl EIO, st, m)"
proof -
  have "mtd_buckets_loop bad mi ws (if offset = 0 \<or> unat (mi_size mi) < offset then unat (mi_size mi) else offset) offset [] m
      = ([], m)" for ws
    using assms(3) by (subst mtd_buckets_loop.simps) simp
  then show ?thesis
    using assms by (auto simp: state_storage_init_def state_storage_mtd_buckets_init_def Let_def)
qed

lemma mtd_unlimited_fails_witness:
  "\<exists>st. state_storage_init False (\<lambda>_. False) (Some \<lparr>mi_flags = 0, mi_size = 0x10000, mi_erasesize = 0x100, mi_writesize = 1\<rparr>)
     0x100 0 32 None demo_card = (Inl EIO, st, demo_card)"
proof -
  have "(256 :: int) AND 255 = 0" by simp
  then show ?thesis
    using mtd_unlimited_fails [of "\<lparr>mi_flags = 0, mi_size = 0x10000, mi_erasesize = 0x100, mi_writesize = 1\<rparr>"] by simp
qed

end
