(* ===== verification/Dt_Nodes.thy ===== *)
theory Dt_Nodes
  imports Device_Tree
begin

text \<open>
  The nodes of a device tree as \<open>src/libdt.c\<close> finds, creates, links and deletes them.  A pointer to a node
  is a \<open>node_ref\<close>: the child positions on the way down from the root of the tree the node is in.  The list
  a tree is traversed by (\<open>list\<close> of \<open>struct device_node\<close>) is a function of the tree: \<open>of_new_node\<close> links a
  new node right behind its parent, so a node is followed by its last child, which makes the traversal a
  preorder with the children from the last to the first.  Adding a child leaves every reference to another
  node as it is; deleting a node shifts those behind it, which in C stay the pointers they are.
\<close>

section \<open>References\<close>

type_synonym node_ref = "nat list"

fun node_at :: "device_node \<Rightarrow> node_ref \<Rightarrow> device_node option" where
  "node_at t [] = Some t"
| "node_at t (i # r) = (if i < length (dn_children t) then node_at (dn_children t ! i) r else None)"

fun node_update :: "device_node \<Rightarrow> node_ref \<Rightarrow> (device_node \<Rightarrow> device_node) \<Rightarrow> device_node" where
  "node_update t [] f = f t"
| "node_update t (i # r) f =
     (if i < length (dn_children t)
      then set_children t ((dn_children t)[i := node_update (dn_children t ! i) r f]) else t)"

definition of_get_parent :: "node_ref \<Rightarrow> node_ref option" where
  "of_get_parent r = (if r = [] then None else Some (butlast r))"

text \<open>The order of the list, and the node that follows another one before the root comes again.\<close>

fun node_list :: "node_ref \<Rightarrow> device_node \<Rightarrow> node_ref list"
and child_list :: "node_ref \<Rightarrow> nat \<Rightarrow> device_node list \<Rightarrow> node_ref list" where
  "node_list r (Node n f h ps cs) = r # child_list r 0 cs"
| "child_list r i [] = []"
| "child_list r i (c # cs) = child_list r (Suc i) cs @ node_list (r @ [i]) c"

definition nodes_from :: "device_node \<Rightarrow> node_ref \<Rightarrow> node_ref list" where
  "nodes_from root from = drop 1 (dropWhile (\<lambda>r. r \<noteq> from) (node_list [] root))"

definition of_next_node :: "device_node \<Rightarrow> node_ref \<Rightarrow> node_ref option" where
  "of_next_node root r = (case nodes_from root r of [] \<Rightarrow> None | nx # _ \<Rightarrow> Some nx)"

text \<open>A reference that is known to be valid; elsewhere the empty node stands for a pointer to nothing.\<close>

definition the_node :: "device_node \<Rightarrow> node_ref \<Rightarrow> device_node" where
  "the_node root r = (case node_at root r of None \<Rightarrow> Node [] [] 0 [] [] | Some n \<Rightarrow> n)"

section \<open>New nodes and paths\<close>

definition of_new_root :: device_node where
  "of_new_root = Node [] [] 0 [] []"

definition new_child :: "device_node \<Rightarrow> string \<Rightarrow> device_node" where
  "new_child parent name = Node name (dn_full_name parent @ ''/'' @ name) 0 [] []"

definition of_new_node :: "device_node \<Rightarrow> string \<Rightarrow> device_node" where
  "of_new_node parent name = set_children parent (dn_children parent @ [new_child parent name])"

definition of_get_child_by_name :: "device_node \<Rightarrow> string \<Rightarrow> nat option" where
  "of_get_child_by_name node name =
     find (\<lambda>i. strcasecmp_eq (dn_name (dn_children node ! i)) name) [0..<length (dn_children node)]"

text \<open>\<open>strchr (p, '/')\<close>: the component before the slash and, if there is a slash, the rest behind it.\<close>

definition path_head :: "string \<Rightarrow> string" where
  "path_head p = takeWhile (\<lambda>c. c \<noteq> CHR ''/'') p"

definition path_rest :: "string \<Rightarrow> string option" where
  "path_rest p = (case dropWhile (\<lambda>c. c \<noteq> CHR ''/'') p of [] \<Rightarrow> None | _ # q \<Rightarrow> Some q)"

lemma path_rest_shorter: "path_rest p = Some q \<Longrightarrow> length q < length p"
  using length_dropWhile_le [of "\<lambda>c. c \<noteq> CHR ''/''" p]
  by (auto simp: path_rest_def split: list.splits)

function path_walk :: "device_node \<Rightarrow> string \<Rightarrow> node_ref option" where
  "path_walk from p =
     (if p = [] then Some []
      else case of_get_child_by_name from (path_head p) of
        None \<Rightarrow> None
      | Some i \<Rightarrow> (case path_rest p of
            None \<Rightarrow> Some [i]
          | Some q \<Rightarrow> map_option (\<lambda>r. i # r) (path_walk (dn_children from ! i) q)))"
  by pat_completeness auto
termination
  by (relation "measure (\<lambda>(from, p). length p)") (auto simp: path_rest_shorter)

definition of_find_node_by_path_from ::
    "device_node option \<Rightarrow> device_node option \<Rightarrow> string \<Rightarrow> node_ref option" where
  "of_find_node_by_path_from root_node from path =
     (case (if from = None then root_node else from) of
        None \<Rightarrow> None
      | Some t \<Rightarrow> (case path of
            [] \<Rightarrow> None
          | c # p \<Rightarrow> if c \<noteq> CHR ''/'' then None else path_walk t p))"

definition of_find_node_by_path :: "device_node option \<Rightarrow> string \<Rightarrow> node_ref option" where
  "of_find_node_by_path root_node path = of_find_node_by_path_from root_node root_node path"

text \<open>The loop of \<open>of_create_node\<close>: the child of the name if there is one, else a new child.\<close>

definition get_or_new :: "device_node \<Rightarrow> string \<Rightarrow> nat \<times> device_node" where
  "get_or_new dn name = (case of_get_child_by_name dn name of
     Some i \<Rightarrow> (i, dn) | None \<Rightarrow> (length (dn_children dn), of_new_node dn name))"

function create_walk :: "device_node \<Rightarrow> string \<Rightarrow> node_ref \<times> device_node" where
  "create_walk dn p =
     (if p = [] then ([], dn)
      else case get_or_new dn (path_head p) of (i, dn1) \<Rightarrow>
        (case path_rest p of
           None \<Rightarrow> ([i], dn1)
         | Some q \<Rightarrow> (case create_walk (dn_children dn1 ! i) q of
              (r, c) \<Rightarrow> (i # r, set_children dn1 ((dn_children dn1)[i := c])))))"
  by pat_completeness auto
termination
  by (relation "measure (\<lambda>(dn, p). length p)") (auto simp: path_rest_shorter)

declare path_walk.simps [simp del] create_walk.simps [simp del]

lemma walk_Nil [simp]: "path_walk t [] = Some []" "create_walk t [] = ([], t)"
  by (simp_all add: path_walk.simps create_walk.simps)

definition of_create_node :: "device_node \<Rightarrow> string \<Rightarrow> node_ref option \<times> device_node" where
  "of_create_node root path = (case path of
     [] \<Rightarrow> (None, root)
   | c # p \<Rightarrow> if c \<noteq> CHR ''/'' then (None, root)
              else (case create_walk root p of (r, t) \<Rightarrow> (Some r, t)))"

text \<open>Deletion unlinks the node from its parent; deleting a root leaves nothing of the tree.\<close>

definition remove_child :: "nat \<Rightarrow> device_node \<Rightarrow> device_node" where
  "remove_child i t = set_children t (take i (dn_children t) @ drop (Suc i) (dn_children t))"

definition of_delete_node :: "device_node \<Rightarrow> node_ref \<Rightarrow> device_node option" where
  "of_delete_node root r =
     (if r = [] then None else Some (node_update root (butlast r) (remove_child (last r))))"

section \<open>Searching\<close>

text \<open>
  \<open>strcmp\<close> (with \<open>tolower\<close>, \<open>strcasecmp\<close>) of a property's value and a string reads up to the first
  difference; a value that ends before one is read past its end.
\<close>

definition buf_cmp :: "(char \<Rightarrow> char) \<Rightarrow> bytes \<Rightarrow> string \<Rightarrow> bool res" where
  "buf_cmp f v s = (let lit = map f s @ [CHR 0x00]; val = map f (bytes_str v) in
     if length val < length lit \<and> take (length val) lit = val then Inl FAULT
     else Inr (take (length lit) val = lit))"

text \<open>The loop over the compatible strings: \<open>strlen\<close> of a rest without a NUL leaves the value.\<close>

function compat_loop :: "bytes \<Rightarrow> string \<Rightarrow> bool res" where
  "compat_loop p cname =
     (if p = [] then Inr False
      else if 0 \<notin> set p then Inl FAULT
      else if strcasecmp_eq (cstr_at p) cname then Inr True
      else compat_loop (drop (strnlen p + 1) p) cname)"
  by pat_completeness auto
termination
  by (relation "measure (\<lambda>(p, cname). length p)") auto

declare compat_loop.simps [simp del]

definition of_device_is_compatible :: "device_node \<Rightarrow> string \<Rightarrow> bool res" where
  "of_device_is_compatible device cname = (case of_get_property device ''compatible'' of
     None \<Rightarrow> Inr False | Some v \<Rightarrow> compat_loop v cname)"

definition of_machine_is_compatible :: "device_node option \<Rightarrow> string \<Rightarrow> bool res" where
  "of_machine_is_compatible root_node cname = (case root_node of
     None \<Rightarrow> Inr False | Some t \<Rightarrow> of_device_is_compatible t cname)"

fun find_res :: "('a \<Rightarrow> bool res) \<Rightarrow> 'a list \<Rightarrow> 'a option res" where
  "find_res f [] = Inr None"
| "find_res f (x # xs) = bindE (f x) (\<lambda>b. if b then Inr (Some x) else find_res f xs)"

definition of_find_node_by_name :: "device_node \<Rightarrow> node_ref \<Rightarrow> string \<Rightarrow> node_ref option" where
  "of_find_node_by_name root from name =
     find (\<lambda>r. strcasecmp_eq (dn_name (the_node root r)) name) (nodes_from root from)"

definition of_find_node_by_type :: "device_node \<Rightarrow> node_ref \<Rightarrow> string \<Rightarrow> node_ref option" where
  "of_find_node_by_type root from type =
     find (\<lambda>r. case of_property_read_string (the_node root r) ''device_type'' of
              Inl _ \<Rightarrow> False | Inr device_type \<Rightarrow> strcasecmp_eq device_type type) (nodes_from root from)"

definition of_find_compatible_node :: "device_node \<Rightarrow> node_ref \<Rightarrow> string \<Rightarrow> node_ref option res" where
  "of_find_compatible_node root from compatible =
     find_res (\<lambda>r. of_device_is_compatible (the_node root r) compatible) (nodes_from root from)"

definition of_find_node_with_property :: "device_node \<Rightarrow> node_ref \<Rightarrow> string \<Rightarrow> node_ref option" where
  "of_find_node_with_property root from prop_name =
     find (\<lambda>r. of_find_property (the_node root r) prop_name \<noteq> None) (nodes_from root from)"

text \<open>A match table is the list of its compatible strings up to the sentinel.\<close>

definition of_match_node :: "string list \<Rightarrow> device_node \<Rightarrow> string option res" where
  "of_match_node matches node = find_res (of_device_is_compatible node) matches"

fun matching_loop :: "string list \<Rightarrow> device_node \<Rightarrow> node_ref list \<Rightarrow> (node_ref \<times> string) option res" where
  "matching_loop matches root [] = Inr None"
| "matching_loop matches root (r # rs) =
     bindE (of_match_node matches (the_node root r))
       (\<lambda>m. case m of None \<Rightarrow> matching_loop matches root rs | Some c \<Rightarrow> Inr (Some (r, c)))"

definition of_find_matching_node_and_match ::
    "device_node \<Rightarrow> node_ref \<Rightarrow> string list \<Rightarrow> (node_ref \<times> string) option res" where
  "of_find_matching_node_and_match root from matches = matching_loop matches root (nodes_from root from)"

section \<open>Availability and children\<close>

definition of_device_is_available :: "device_node \<Rightarrow> bool res" where
  "of_device_is_available device = (case of_get_property device ''status'' of
     None \<Rightarrow> Inr True
   | Some status \<Rightarrow>
       if status = [] then Inr False
       else bindE (buf_cmp id status ''okay'') (\<lambda>b. if b then Inr True else buf_cmp id status ''ok''))"

definition of_get_next_available_child :: "device_node \<Rightarrow> nat option \<Rightarrow> nat option res" where
  "of_get_next_available_child node prev =
     find_res (\<lambda>i. of_device_is_available (dn_children node ! i))
       [(case prev of None \<Rightarrow> 0 | Some i \<Rightarrow> Suc i)..<length (dn_children node)]"

definition of_get_child_count :: "device_node \<Rightarrow> nat" where
  "of_get_child_count parent = length (dn_children parent)"

fun available_loop :: "device_node list \<Rightarrow> nat \<Rightarrow> nat res" where
  "available_loop [] num = Inr num"
| "available_loop (c # cs) num =
     bindE (of_device_is_available c) (\<lambda>b. available_loop cs (if b then num + 1 else num))"

definition of_get_available_child_count :: "device_node \<Rightarrow> nat res" where
  "of_get_available_child_count parent = available_loop (dn_children parent) 0"

definition of_device_enable :: "device_node \<Rightarrow> device_node" where
  "of_device_enable node =
     (if of_find_property node ''status'' = None then node else of_delete_property node ''status'')"

definition of_device_disable :: "device_node \<Rightarrow> device_node res" where
  "of_device_disable node = of_property_write_string node ''status'' ''disabled''"

definition of_device_enable_path :: "device_node option \<Rightarrow> string \<Rightarrow> device_node option res" where
  "of_device_enable_path root_node path = (case (root_node, of_find_node_by_path root_node path) of
     (Some t, Some r) \<Rightarrow> Inr (Some (node_update t r of_device_enable)) | _ \<Rightarrow> Inl ENODEV)"

definition of_device_disable_path :: "device_node option \<Rightarrow> string \<Rightarrow> device_node option res" where
  "of_device_disable_path root_node path = (case (root_node, of_find_node_by_path root_node path) of
     (Some t, Some r) \<Rightarrow> bindE (of_device_disable (the_node t r)) (\<lambda>n. Inr (Some (node_update t r (\<lambda>_. n))))
   | _ \<Rightarrow> Inl ENODEV)"

text \<open>
  The number of cells of an address: asked of the parent (of the node itself for a root), then upwards.  The
  cell is read without a look at the length of the property.
\<close>

function n_cells :: "string \<Rightarrow> device_node \<Rightarrow> node_ref \<Rightarrow> int res" where
  "n_cells propname root r =
     (let np = butlast r in
      case of_get_property (the_node root np) propname of
        Some ip \<Rightarrow> if length ip < 4 then Inl FAULT else Inr (sint (get_unaligned_be32 ip))
      | None \<Rightarrow> if np = [] then Inr 1 else n_cells propname root np)"
  by pat_completeness auto
termination
  by (relation "measure (\<lambda>(propname, root, r). length r)") (auto simp: butlast_conv_take)

declare n_cells.simps [simp del]

definition of_n_addr_cells :: "device_node \<Rightarrow> node_ref \<Rightarrow> int res" where
  "of_n_addr_cells root r = n_cells ''#address-cells'' root r"

definition of_n_size_cells :: "device_node \<Rightarrow> node_ref \<Rightarrow> int res" where
  "of_n_size_cells root r = n_cells ''#size-cells'' root r"

text \<open>\<open>of_modalias_node\<close> with a buffer of \<open>len\<close> bytes.\<close>

definition of_modalias_node :: "device_node \<Rightarrow> nat \<Rightarrow> string res" where
  "of_modalias_node node len = (case of_get_property node ''compatible'' of
     None \<Rightarrow> Inl ENODEV
   | Some v \<Rightarrow>
       if 0 \<notin> set v then Inl FAULT
       else let compatible = cstr_at v;
                p = (case dropWhile (\<lambda>c. c \<noteq> CHR '','') compatible of [] \<Rightarrow> compatible | _ # q \<Rightarrow> q)
            in Inr (if len = 0 then [] else take (len - 1) p))"

section \<open>Phandles\<close>

definition of_find_node_by_phandle :: "device_node \<Rightarrow> u32 \<Rightarrow> node_ref option" where
  "of_find_node_by_phandle root_node phandle =
     find (\<lambda>r. dn_phandle (the_node root_node r) = phandle) (nodes_from root_node [])"

definition of_get_tree_max_phandle :: "device_node option \<Rightarrow> u32" where
  "of_get_tree_max_phandle root = (case root of
     None \<Rightarrow> 0
   | Some t \<Rightarrow> foldl (\<lambda>mx r. if mx < dn_phandle (the_node t r) then dn_phandle (the_node t r) else mx)
                (dn_phandle t) (nodes_from t []))"

definition of_node_create_phandle :: "device_node \<Rightarrow> node_ref \<Rightarrow> u32 \<times> device_node" where
  "of_node_create_phandle root r =
     (let node = the_node root r in
      if dn_phandle node \<noteq> 0 then (dn_phandle node, root)
      else let p = of_get_tree_max_phandle (Some root) + 1
           in (p, node_update root r (\<lambda>n. put_prop (set_phandle n p) ''phandle'' (put_unaligned_be32 p))))"

text \<open>
  \<open>of_parse_phandle\<close>: the index is an \<open>int\<close> compared as an unsigned number; index -1 passes the test and
  reads before the value.
\<close>

definition of_parse_phandle :: "device_node \<Rightarrow> device_node \<Rightarrow> string \<Rightarrow> int \<Rightarrow> node_ref option res" where
  "of_parse_phandle root_node np phandle_name index = (case of_get_property np phandle_name of
     None \<Rightarrow> Inr None
   | Some v \<Rightarrow>
       if index < - 1 \<or> int (length v) < 4 * (index + 1) then Inr None
       else if index < 0 then Inl FAULT
       else Inr (of_find_node_by_phandle root_node (get_unaligned_be32 (drop (4 * nat index) v))))"

record of_phandle_args =
  pa_np :: node_ref
  pa_args_count :: nat
  pa_args :: "u32 list"

datatype parsed = Found of_phandle_args | Counted int

definition max_phandle_args :: nat where
  "max_phandle_args = 8"

text \<open>The loop over the cells of the list property; \<open>cells\<close> are those not yet read.\<close>

function parse_args_loop ::
    "device_node \<Rightarrow> string \<Rightarrow> u32 list \<Rightarrow> int \<Rightarrow> int \<Rightarrow> parsed res" where
  "parse_args_loop root cells_name [] cur_index index =
     (if index < 0 then Inr (Counted cur_index) else Inl ENOENT)"
| "parse_args_loop root cells_name (phandle # rest) cur_index index =
     (if phandle = 0 then
        (if cur_index = index then Inl ENOENT
         else parse_args_loop root cells_name rest (cur_index + 1) index)
      else case of_find_node_by_phandle root phandle of
        None \<Rightarrow> Inl EINVAL
      | Some r \<Rightarrow> (case of_property_read_u32 (the_node root r) cells_name of
            Inl _ \<Rightarrow> Inl EINVAL
          | Inr count \<Rightarrow>
              if length rest < unat count then Inl EINVAL
              else if cur_index = index then
                let n = min (unat count) max_phandle_args
                in Inr (Found \<lparr>pa_np = r, pa_args_count = n, pa_args = take n rest\<rparr>)
              else parse_args_loop root cells_name (drop (unat count) rest) (cur_index + 1) index))"
  by pat_completeness auto
termination
  by (relation "measure (\<lambda>(root, cells_name, cells, cur_index, index). length cells)") auto

declare parse_args_loop.simps [simp del]

definition be32_cells :: "bytes \<Rightarrow> u32 list" where
  "be32_cells v = map (\<lambda>i. get_unaligned_be32 (drop (4 * i) v)) [0..<length v div 4]"

definition parse_phandle_with_args ::
    "device_node \<Rightarrow> device_node \<Rightarrow> string \<Rightarrow> string \<Rightarrow> int \<Rightarrow> parsed res" where
  "parse_phandle_with_args root_node np list_name cells_name index = (case of_get_property np list_name of
     None \<Rightarrow> Inl ENOENT
   | Some v \<Rightarrow> parse_args_loop root_node cells_name (be32_cells v) 0 index)"

definition of_parse_phandle_with_args ::
    "device_node \<Rightarrow> device_node \<Rightarrow> string \<Rightarrow> string \<Rightarrow> int \<Rightarrow> parsed res" where
  "of_parse_phandle_with_args root_node np list_name cells_name index =
     (if index < 0 then Inl EINVAL else parse_phandle_with_args root_node np list_name cells_name index)"

definition of_count_phandle_with_args :: "device_node \<Rightarrow> device_node \<Rightarrow> string \<Rightarrow> string \<Rightarrow> parsed res" where
  "of_count_phandle_with_args root_node np list_name cells_name =
     parse_phandle_with_args root_node np list_name cells_name (- 1)"

section \<open>Aliases\<close>

record alias_prop =
  ap_alias :: string
  ap_np :: node_ref
  ap_id :: int
  ap_stem :: string

text \<open>The three globals: the tree of the machine, its \<open>/aliases\<close> node and the table of the aliases.\<close>

record of_globals =
  root_node :: "device_node option"
  of_aliases :: "node_ref option"
  aliases_lookup :: "alias_prop list"

definition isdigit :: "char \<Rightarrow> bool" where
  "isdigit c \<longleftrightarrow> 48 \<le> (of_char c :: nat) \<and> (of_char c :: nat) \<le> 57"

text \<open>\<open>strtol\<close> of a string of digits: \<open>long\<close> saturates, the assignment to \<open>int\<close> truncates.\<close>

definition digits_value :: "string \<Rightarrow> nat" where
  "digits_value s = foldl (\<lambda>n c. 10 * n + (of_char c - 48)) 0 s"

definition alias_id :: "string \<Rightarrow> int" where
  "alias_id s = sint (word_of_nat (min (digits_value s) (2 ^ 63 - 1)) :: u32)"

definition alias_stem :: "string \<Rightarrow> string" where
  "alias_stem name = rev (dropWhile isdigit (rev name))"

fun alias_loop :: "device_node \<Rightarrow> property list \<Rightarrow> alias_prop list res" where
  "alias_loop root [] = Inr []"
| "alias_loop root (pp # rest) =
     (if pp_name pp = ''name'' \<or> pp_name pp = ''phandle'' \<or> pp_name pp = ''linux,phandle''
      then alias_loop root rest
      else case pp_value pp of
        None \<Rightarrow> alias_loop root rest
      | Some v \<Rightarrow>
          if v = [] \<or> v ! 0 = of_char (CHR ''/'') \<and> 0 \<notin> set v then Inl FAULT
          else (case of_find_node_by_path (Some root) (cstr_at v) of
            None \<Rightarrow> alias_loop root rest
          | Some np \<Rightarrow>
              let stem = alias_stem (pp_name pp);
                  ident = alias_id (drop (length stem) (pp_name pp))
              in if ident < 0 then alias_loop root rest
                 else bindE (alias_loop root rest)
                   (\<lambda>aps. Inr (\<lparr>ap_alias = pp_name pp, ap_np = np, ap_id = ident, ap_stem = stem\<rparr> # aps))))"

definition of_alias_scan :: "of_globals \<Rightarrow> of_globals res" where
  "of_alias_scan g = (case root_node g of
     None \<Rightarrow> Inr (g\<lparr>aliases_lookup := []\<rparr>)
   | Some t \<Rightarrow> (case of_find_node_by_path (root_node g) ''/aliases'' of
         None \<Rightarrow> Inr (g\<lparr>of_aliases := None, aliases_lookup := []\<rparr>)
       | Some a \<Rightarrow> bindE (alias_loop t (dn_properties (the_node t a)))
           (\<lambda>aps. Inr (g\<lparr>of_aliases := Some a, aliases_lookup := aps\<rparr>))))"

definition of_set_root_node :: "of_globals \<Rightarrow> device_node option \<Rightarrow> of_globals res" where
  "of_set_root_node g node =
     (if node \<noteq> None \<and> root_node g \<noteq> None then Inl EBUSY else of_alias_scan (g\<lparr>root_node := node\<rparr>))"

definition of_alias_get_id :: "of_globals \<Rightarrow> node_ref \<Rightarrow> string \<Rightarrow> int res" where
  "of_alias_get_id g np stem =
     (case find (\<lambda>app. strcasecmp_eq (ap_stem app) stem \<and> np = ap_np app) (aliases_lookup g) of
        None \<Rightarrow> Inl ENODEV | Some app \<Rightarrow> Inr (ap_id app))"

text \<open>The comparison reads the value as a string; \<open>of_aliases\<close> is not tested for null.\<close>

fun alias_get_loop :: "string \<Rightarrow> property list \<Rightarrow> string option res" where
  "alias_get_loop full_name [] = Inr None"
| "alias_get_loop full_name (pp # rest) = (case pp_value pp of
     None \<Rightarrow> Inl FAULT
   | Some v \<Rightarrow>
       bindE (buf_cmp tolower v full_name)
         (\<lambda>b. if b then Inr (Some (pp_name pp)) else alias_get_loop full_name rest))"

definition of_alias_get :: "of_globals \<Rightarrow> device_node \<Rightarrow> string option res" where
  "of_alias_get g np = (case (root_node g, of_aliases g) of
     (Some t, Some a) \<Rightarrow> alias_get_loop (dn_full_name np) (dn_properties (the_node t a))
   | _ \<Rightarrow> Inl FAULT)"

definition of_find_node_by_alias :: "device_node option \<Rightarrow> device_node option \<Rightarrow> string \<Rightarrow> node_ref option" where
  "of_find_node_by_alias root_nd root alias =
     (case (if root = None then root_nd else root) of
        None \<Rightarrow> None
      | Some t \<Rightarrow> (case of_find_node_by_path_from root_nd (Some t) ''/aliases'' of
            None \<Rightarrow> None
          | Some a \<Rightarrow> (case of_property_read_string (the_node t a) alias of
                Inl _ \<Rightarrow> None
              | Inr path \<Rightarrow> of_find_node_by_path_from root_nd (Some t) path)))"

definition of_find_node_by_path_or_alias ::
    "device_node option \<Rightarrow> device_node option \<Rightarrow> string \<Rightarrow> node_ref option" where
  "of_find_node_by_path_or_alias root_nd root str = (case str of
     CHR ''/'' # _ \<Rightarrow> of_find_node_by_path_from root_nd root str
   | _ \<Rightarrow> of_find_node_by_alias root_nd root str)"

section \<open>Creating nodes\<close>

definition node_data :: "device_node \<Rightarrow> string \<times> string \<times> u32 \<times> property list" where
  "node_data n = (dn_name n, dn_full_name n, dn_phandle n, dn_properties n)"

text \<open>What \<open>of_new_node\<close> promises of the names: the full name is the path of names from the root.\<close>

fun names_ok :: "device_node \<Rightarrow> bool" where
  "names_ok (Node n f h ps cs) \<longleftrightarrow>
     (\<forall>c \<in> set cs. dn_full_name c = f @ ''/'' @ dn_name c \<and> names_ok c)"

lemma node_data_set_children [simp]: "node_data (set_children t cs) = node_data t"
  by (simp add: node_data_def)

lemma names_ok_unfold: "names_ok t \<longleftrightarrow>
    (\<forall>c \<in> set (dn_children t). dn_full_name c = dn_full_name t @ ''/'' @ dn_name c \<and> names_ok c)"
  by (cases t) simp

lemma get_child_Some: "of_get_child_by_name t nm = Some i \<Longrightarrow>
    i < length (dn_children t) \<and> strcasecmp_eq (dn_name (dn_children t ! i)) nm"
  by (auto simp: of_get_child_by_name_def find_Some_iff)

lemma get_child_cong:
  assumes "map dn_name (dn_children t) = map dn_name (dn_children t')"
  shows "of_get_child_by_name t nm = of_get_child_by_name t' nm"
proof -
  have "length (dn_children t) = length (dn_children t')" by (rule map_eq_imp_length_eq [OF assms])
  moreover have "dn_name (dn_children t ! i) = dn_name (dn_children t' ! i)" if "i < length (dn_children t)" for i
    using that arg_cong [OF assms, of "\<lambda>xs. xs ! i"] calculation by simp
  ultimately show ?thesis unfolding of_get_child_by_name_def by (auto intro!: find_cong)
qed

lemma get_child_update [simp]:
  assumes "dn_name c = dn_name (dn_children t ! i)"
  shows "of_get_child_by_name (set_children t ((dn_children t)[i := c])) nm = of_get_child_by_name t nm"
  using assms by (intro get_child_cong) (metis list_update_beyond list_update_id map_update not_le_imp_less set_simps(7))

text \<open>One step of the loop: the child is there afterwards and the others stay where they are.\<close>

lemma get_child_new:
  "of_get_child_by_name (of_new_node t nm) q =
     (case of_get_child_by_name t q of
        Some i \<Rightarrow> Some i
      | None \<Rightarrow> if strcasecmp_eq nm q then Some (length (dn_children t)) else None)"
proof -
  let ?cs = "dn_children t"
  have *: "find (\<lambda>i. strcasecmp_eq (dn_name ((?cs @ [c]) ! i)) q) [0..<length ?cs]
      = find (\<lambda>i. strcasecmp_eq (dn_name (?cs ! i)) q) [0..<length ?cs]" for c
    by (rule find_cong) (auto simp: nth_append)
  have n: "dn_name (new_child t nm) = nm" by (simp add: new_child_def)
  have "of_get_child_by_name (of_new_node t nm) q =
     (case of_get_child_by_name t q of Some i \<Rightarrow> Some i
      | None \<Rightarrow> find (\<lambda>i. strcasecmp_eq (dn_name ((?cs @ [new_child t nm]) ! i)) q) [length ?cs])"
    unfolding of_get_child_by_name_def of_new_node_def set_simps
    by (simp add: find_append * split: option.split)
  then show ?thesis by (simp add: n split: option.split)
qed

lemma names_ok_new: "names_ok t \<Longrightarrow> names_ok (of_new_node t nm)"
  unfolding names_ok_unfold [of t] names_ok_unfold [of "of_new_node t nm"]
  by (auto simp: of_new_node_def new_child_def)

lemma new_node_simps [simp]:
  "dn_children (of_new_node t nm) = dn_children t @ [new_child t nm]"
  "node_data (of_new_node t nm) = node_data t"
  by (simp_all add: of_new_node_def)

lemma get_or_new_cases:
  assumes "get_or_new t nm = (i, t')"
  obtains "of_get_child_by_name t nm = Some i" "t' = t"
  | "of_get_child_by_name t nm = None" "i = length (dn_children t)" "t' = of_new_node t nm"
  using assms by (auto simp: get_or_new_def split: option.splits)

lemma get_or_new_bound: "get_or_new t nm = (i, t') \<Longrightarrow> i < length (dn_children t')"
  by (erule get_or_new_cases) (simp_all add: get_child_Some)

lemma get_or_new_finds: "get_or_new t nm = (i, t') \<Longrightarrow> of_get_child_by_name t' nm = Some i"
  by (erule get_or_new_cases) (simp_all add: get_child_new)

lemma get_or_new_data: "get_or_new t nm = (i, t') \<Longrightarrow> node_data t' = node_data t"
  by (erule get_or_new_cases) simp_all

lemma get_or_new_others: "get_or_new t nm = (i, t') \<Longrightarrow> j < length (dn_children t) \<Longrightarrow>
    j < length (dn_children t') \<and> dn_children t' ! j = dn_children t ! j"
  by (erule get_or_new_cases) (simp_all add: nth_append)

lemma get_or_new_keeps: "get_or_new t nm = (i, t') \<Longrightarrow> of_get_child_by_name t q = Some j \<Longrightarrow>
    of_get_child_by_name t' q = Some j"
  by (erule get_or_new_cases) (simp_all add: get_child_new)

lemma get_or_new_names: "get_or_new t nm = (i, t') \<Longrightarrow> names_ok t \<Longrightarrow> names_ok t'"
  by (erule get_or_new_cases) (simp_all add: names_ok_new)

text \<open>A walk that follows an existing path creates nothing.\<close>

lemma create_walk_existing: "path_walk dn p = Some r \<Longrightarrow> create_walk dn p = (r, dn)"
proof (induction dn p arbitrary: r rule: path_walk.induct)
  case (1 dn p)
  show ?case
  proof (cases "p = []")
    case True with 1(2) show ?thesis by simp
  next
    case False
    obtain i where i: "of_get_child_by_name dn (path_head p) = Some i"
      using 1(2) False by (auto simp: path_walk.simps [of dn p] split: option.splits)
    show ?thesis
    proof (cases "path_rest p")
      case None
      with 1(2) False i show ?thesis
        by (simp add: path_walk.simps [of dn p] create_walk.simps [of dn p] get_or_new_def)
    next
      case (Some q)
      obtain s where s: "path_walk (dn_children dn ! i) q = Some s" "r = i # s"
        using 1(2) False i Some by (auto simp: path_walk.simps [of dn p])
      have "set_children dn (dn_children dn) = dn" by (cases dn) simp
      with 1(1) [OF False i Some s(1)] False i Some s(2) show ?thesis
        by (simp add: create_walk.simps [of dn p] get_or_new_def)
    qed
  qed
qed

lemma create_walk_step:
  assumes "create_walk dn p = (r, dn')" and "p \<noteq> []" and "path_rest p = Some q"
  obtains i dn1 s c where "get_or_new dn (path_head p) = (i, dn1)" "create_walk (dn_children dn1 ! i) q = (s, c)"
    "r = i # s" "dn' = set_children dn1 ((dn_children dn1)[i := c])"
  using assms by (auto simp: create_walk.simps [of dn p] split: prod.splits)

lemma create_walk_last:
  assumes "create_walk dn p = (r, dn')" and "p \<noteq> []" and "path_rest p = None"
  obtains i where "get_or_new dn (path_head p) = (i, dn')" "r = [i]"
  using assms by (auto simp: create_walk.simps [of dn p] split: prod.splits)

lemma create_walk_data: "create_walk dn p = (r, dn') \<Longrightarrow> node_data dn' = node_data dn"
  by (cases "p = []", simp, cases "path_rest p")
    (auto simp: create_walk.simps [of dn p] get_or_new_data split: prod.splits)

lemma node_data_eqD: "node_data a = node_data b \<Longrightarrow> dn_name a = dn_name b \<and> dn_full_name a = dn_full_name b"
  by (simp add: node_data_def)

lemma create_walk_finds: "create_walk dn p = (r, dn') \<Longrightarrow> path_walk dn' p = Some r"
proof (induction dn p arbitrary: r dn' rule: create_walk.induct)
  case (1 dn p)
  consider (empty) "p = []" | (last) "p \<noteq> []" "path_rest p = None" | (step) q where "p \<noteq> []" "path_rest p = Some q"
    by (cases "p = []"; cases "path_rest p") auto
  then show ?case
  proof cases
    case empty with 1(2) show ?thesis by simp
  next
    case last
    obtain i where "get_or_new dn (path_head p) = (i, dn')" "r = [i]"
      by (rule create_walk_last [OF 1(2) last])
    then show ?thesis using last get_or_new_finds by (simp add: path_walk.simps [of dn' p])
  next
    case step
    obtain i dn1 s c where d: "get_or_new dn (path_head p) = (i, dn1)"
        "create_walk (dn_children dn1 ! i) q = (s, c)" "r = i # s" "dn' = set_children dn1 ((dn_children dn1)[i := c])"
      by (rule create_walk_step [OF 1(2) step])
    have "path_walk c q = Some s" using 1(1) [OF step(1) d(1) [symmetric] step(2) d(2)] .
    moreover have "dn_name c = dn_name (dn_children dn1 ! i)"
      using node_data_eqD [OF create_walk_data [OF d(2)]] by simp
    ultimately show ?thesis
      using step get_or_new_bound [OF d(1)] get_or_new_finds [OF d(1)]
      by (simp add: path_walk.simps [of _ p] d(3,4))
  qed
qed

text \<open>Every node and every path that was there is there afterwards, with the same name and properties.\<close>

lemma create_walk_keeps_paths: "create_walk dn p = (r, dn') \<Longrightarrow> path_walk dn q = Some s \<Longrightarrow> path_walk dn' q = Some s"
proof (induction dn p arbitrary: r dn' q s rule: create_walk.induct)
  case (1 dn p)
  show ?case
  proof (cases "p = [] \<or> q = []")
    case True with 1(2,3) show ?thesis by auto
  next
    case False
    then have p: "p \<noteq> []" by simp
    from False obtain j where j: "of_get_child_by_name dn (path_head q) = Some j"
      using 1(3) by (auto simp: path_walk.simps [of dn q] split: option.splits)
    show ?thesis
    proof (cases "path_rest p")
      case None
      obtain i where g: "get_or_new dn (path_head p) = (i, dn')" "r = [i]"
        by (rule create_walk_last [OF 1(2) p None])
      show ?thesis
        using 1(3) False j get_or_new_keeps [OF g(1) j] get_or_new_others [OF g(1), of j] get_child_Some [OF j]
        by (simp add: path_walk.simps [of dn q] path_walk.simps [of dn' q] split: option.splits)
    next
      case (Some p')
      obtain i dn1 s1 c where d: "get_or_new dn (path_head p) = (i, dn1)"
          "create_walk (dn_children dn1 ! i) p' = (s1, c)" "r = i # s1"
          "dn' = set_children dn1 ((dn_children dn1)[i := c])"
        by (rule create_walk_step [OF 1(2) p Some])
      have nm: "dn_name c = dn_name (dn_children dn1 ! i)"
        using node_data_eqD [OF create_walk_data [OF d(2)]] by simp
      have j': "of_get_child_by_name dn' (path_head q) = Some j"
        using get_or_new_keeps [OF d(1) j] nm d(4) by simp
      have o: "j < length (dn_children dn1)" "dn_children dn1 ! j = dn_children dn ! j"
        using get_or_new_others [OF d(1), of j] get_child_Some [OF j] by auto
      show ?thesis
      proof (cases "path_rest q")
        case None with 1(3) False j j' show ?thesis
          by (simp add: path_walk.simps [of dn q] path_walk.simps [of dn' q])
      next
        case (Some q')
        obtain s' where s': "path_walk (dn_children dn ! j) q' = Some s'" "s = j # s'"
          using 1(3) False j Some by (auto simp: path_walk.simps [of dn q])
        have "path_walk (dn_children dn' ! j) q' = Some s'"
        proof (cases "i = j")
          case True
          with 1(1) [OF p d(1) [symmetric] \<open>path_rest p = Some p'\<close> d(2)] o s'(1)
          show ?thesis by (simp add: d(4))
        next
          case False with o s'(1) show ?thesis by (simp add: d(4))
        qed
        with False j' Some s'(2) show ?thesis by (simp add: path_walk.simps [of dn' q])
      qed
    qed
  qed
qed

lemma create_walk_keeps_nodes: "create_walk dn p = (r, dn') \<Longrightarrow> node_at dn s = Some n \<Longrightarrow>
    \<exists>n'. node_at dn' s = Some n' \<and> node_data n' = node_data n"
proof (induction dn p arbitrary: r dn' s rule: create_walk.induct)
  case (1 dn p)
  show ?case
  proof (cases "p = [] \<or> s = []")
    case True
    with 1(2,3) show ?thesis using create_walk_data [OF 1(2)] by auto
  next
    case False
    then have p: "p \<noteq> []" by simp
    from False obtain j s' where s: "s = j # s'" by (cases s) auto
    then have j: "j < length (dn_children dn)" "node_at (dn_children dn ! j) s' = Some n"
      using 1(3) by (auto split: if_splits)
    show ?thesis
    proof (cases "path_rest p")
      case None
      obtain i where g: "get_or_new dn (path_head p) = (i, dn')" "r = [i]"
        by (rule create_walk_last [OF 1(2) p None])
      show ?thesis using get_or_new_others [OF g(1) j(1)] j s by simp
    next
      case (Some p')
      obtain i dn1 s1 c where d: "get_or_new dn (path_head p) = (i, dn1)"
          "create_walk (dn_children dn1 ! i) p' = (s1, c)" "r = i # s1"
          "dn' = set_children dn1 ((dn_children dn1)[i := c])"
        by (rule create_walk_step [OF 1(2) p Some])
      have o: "j < length (dn_children dn1)" "dn_children dn1 ! j = dn_children dn ! j"
        using get_or_new_others [OF d(1) j(1)] by auto
      show ?thesis
      proof (cases "i = j")
        case True
        have "node_at (dn_children dn1 ! i) s' = Some n" using j(2) o(2) True by simp
        from 1(1) [OF p d(1) [symmetric] Some d(2) this] show ?thesis
          using o(1) True by (simp add: s d(4))
      next
        case False with j(2) o show ?thesis by (simp add: s d(4))
      qed
    qed
  qed
qed

lemma create_walk_names: "create_walk dn p = (r, dn') \<Longrightarrow> names_ok dn \<Longrightarrow> names_ok dn'"
proof (induction dn p arbitrary: r dn' rule: create_walk.induct)
  case (1 dn p)
  consider (empty) "p = []" | (last) "p \<noteq> []" "path_rest p = None" | (step) q where "p \<noteq> []" "path_rest p = Some q"
    by (cases "p = []"; cases "path_rest p") auto
  then show ?case
  proof cases
    case empty with 1 show ?thesis by simp
  next
    case last
    obtain i where "get_or_new dn (path_head p) = (i, dn')" "r = [i]"
      by (rule create_walk_last [OF 1(2) last])
    then show ?thesis using get_or_new_names 1(3) by simp
  next
    case step
    obtain i dn1 s c where d: "get_or_new dn (path_head p) = (i, dn1)"
        "create_walk (dn_children dn1 ! i) q = (s, c)" "r = i # s"
        "dn' = set_children dn1 ((dn_children dn1)[i := c])"
      by (rule create_walk_step [OF 1(2) step])
    have ok: "names_ok dn1" by (rule get_or_new_names [OF d(1) 1(3)])
    have i: "i < length (dn_children dn1)" by (rule get_or_new_bound [OF d(1)])
    have old: "dn_full_name (dn_children dn1 ! i) = dn_full_name dn1 @ ''/'' @ dn_name (dn_children dn1 ! i)"
        "names_ok (dn_children dn1 ! i)"
      using ok i unfolding names_ok_unfold [of dn1] by (simp_all add: nth_mem)
    have "names_ok c" by (rule 1(1) [OF step(1) d(1) [symmetric] step(2) d(2) old(2)])
    moreover have "dn_full_name c = dn_full_name dn1 @ ''/'' @ dn_name c"
      using node_data_eqD [OF create_walk_data [OF d(2)]] old(1) by simp
    ultimately show ?thesis using ok set_update_subset_insert [of "dn_children dn1" i c]
      unfolding d(4) names_ok_unfold [of dn1] names_ok_unfold [of "set_children dn1 _"] set_simps
      by blast
  qed
qed

text \<open>
  C32: Creating a node by its path makes it findable by that path; every node that existed keeps its place, its
  name, its full name, its phandle and its properties; every path that led to a node leads to the same node; the
  full names stay the paths of names from the root; and creating the same path again changes nothing.
\<close>

theorem of_create_node_finds:
  assumes "of_create_node root path = (Some r, root')"
  shows "of_find_node_by_path_from g (Some root') path = Some r
    \<and> (\<forall>q s. of_find_node_by_path_from g (Some root) q = Some s \<longrightarrow> of_find_node_by_path_from g (Some root') q = Some s)
    \<and> (\<forall>s n. node_at root s = Some n \<longrightarrow> (\<exists>n'. node_at root' s = Some n' \<and> node_data n' = node_data n))
    \<and> (names_ok root \<longrightarrow> names_ok root')
    \<and> of_create_node root' path = (Some r, root')"
proof -
  obtain p where p: "path = CHR ''/'' # p" and w: "create_walk root p = (r, root')"
    using assms by (auto simp: of_create_node_def split: list.splits if_splits prod.splits)
  show ?thesis
    using create_walk_finds [OF w] create_walk_keeps_paths [OF w] create_walk_keeps_nodes [OF w] create_walk_names [OF w]
      create_walk_existing [OF create_walk_finds [OF w]]
    by (auto simp: of_find_node_by_path_from_def of_create_node_def p split: list.splits if_splits)
qed

lemma of_create_node_finds_witness:
  "of_find_node_by_path_from None (Some (snd (of_create_node of_new_root ''/soc/uart''))) ''/soc/uart'' = Some [0, 0]"
proof -
  have c: "of_create_node of_new_root ''/soc/uart'' = (Some [0, 0], snd (of_create_node of_new_root ''/soc/uart''))"
    by code_simp
  show ?thesis using of_create_node_finds [OF c] by simp
qed

section \<open>The traversal\<close>

text \<open>The list holds every node once, the root first.\<close>

definition valid_ref :: "device_node \<Rightarrow> node_ref \<Rightarrow> bool" where
  "valid_ref t r \<longleftrightarrow> node_at t r \<noteq> None"

lemma valid_ref_simps [simp]:
  "valid_ref t []"
  "valid_ref t (i # r) \<longleftrightarrow> i < length (dn_children t) \<and> valid_ref (dn_children t ! i) r"
  by (simp_all add: valid_ref_def)

lemma node_list_set:
  "set (node_list p t) = (\<lambda>r. p @ r) ` {r. valid_ref t r}"
  "set (child_list p k cs) = (\<lambda>r. p @ r) ` {i # r |i r. k \<le> i \<and> i < k + length cs \<and> valid_ref (cs ! (i - k)) r}"
proof (induction p t and p k cs rule: node_list_child_list.induct)
  case (1 r n f h ps cs)
  have "{q. valid_ref (Node n f h ps cs) q} = {[]} \<union> {i # q |i q. i < length cs \<and> valid_ref (cs ! i) q}"
  proof (rule set_eqI)
    fix q show "q \<in> {q. valid_ref (Node n f h ps cs) q} \<longleftrightarrow> q \<in> {[]} \<union> {i # q |i q. i < length cs \<and> valid_ref (cs ! i) q}"
      by (cases q) auto
  qed
  with 1 show ?case by (simp add: image_Un)
next
  case (3 p k c cs)
  have "{i # r |i r. k \<le> i \<and> i < k + length (c # cs) \<and> valid_ref ((c # cs) ! (i - k)) r}
      = {i # r |i r. Suc k \<le> i \<and> i < Suc k + length cs \<and> valid_ref (cs ! (i - Suc k)) r} \<union> (\<lambda>r. k # r) ` {r. valid_ref c r}"
    (is "?L = ?A \<union> ?B")
  proof (intro set_eqI)
    fix q
    show "q \<in> ?L \<longleftrightarrow> q \<in> ?A \<union> ?B"
    proof (cases q)
      case (Cons i r)
      consider "i < k" | "i = k" | "k < i" by linarith
      then show ?thesis
        by cases (auto simp: Cons nth_Cons' image_iff diff_Suc split: nat.splits)
    qed auto
  qed
  then show ?case by (simp only: child_list.simps set_append 3 image_Un) (auto simp: image_iff)
qed simp_all

lemma node_list_distinct: "distinct (node_list p t)" "distinct (child_list p k cs)"
proof (induction p t and p k cs rule: node_list_child_list.induct)
  case (1 r n f h ps cs)
  then show ?case by (auto simp: node_list_set)
next
  case (3 p k c cs)
  then show ?case by (auto simp: node_list_set)
qed simp_all

lemma node_list_root: "\<exists>rs. node_list p t = p # rs"
  by (cases t) simp

lemma nodes_from_root: "node_list [] t = [] # nodes_from t []"
  using node_list_root [of "[]" t] by (auto simp: nodes_from_def)

lemma set_nodes_from_root: "set (nodes_from t []) = {r. r \<noteq> [] \<and> valid_ref t r}"
proof -
  have "insert [] (set (nodes_from t [])) = {r. valid_ref t r}"
    using node_list_set(1) [of "[]" t] by (simp add: nodes_from_root)
  moreover have "[] \<notin> set (nodes_from t [])"
    using node_list_distinct(1) [of "[]" t] by (simp add: nodes_from_root)
  ultimately show ?thesis by auto
qed

lemma dropWhile_to: "distinct (xs @ x # ys) \<Longrightarrow> dropWhile (\<lambda>r. r \<noteq> x) (xs @ x # ys) = x # ys"
  by (induction xs) auto

lemma nodes_from_step:
  assumes "nodes_from t r = nx # rest"
  shows "of_next_node t r = Some nx" and "nodes_from t nx = rest"
proof -
  obtain ys where ys: "dropWhile (\<lambda>q. q \<noteq> r) (node_list [] t) = r # ys"
    using assms hd_dropWhile [of "\<lambda>q. q \<noteq> r" "node_list [] t"]
    by (cases "dropWhile (\<lambda>q. q \<noteq> r) (node_list [] t)") (auto simp: nodes_from_def)
  then obtain xs where "node_list [] t = xs @ r # ys"
    by (metis takeWhile_dropWhile_id)
  moreover have "ys = nx # rest" using assms ys by (simp add: nodes_from_def)
  ultimately have l: "node_list [] t = (xs @ [r]) @ nx # rest" by simp
  show "nodes_from t nx = rest"
    using dropWhile_to [of "xs @ [r]" nx rest] node_list_distinct(1) [of "[]" t] unfolding nodes_from_def l by simp
  show "of_next_node t r = Some nx" by (simp add: of_next_node_def assms)
qed

section \<open>Creating phandles\<close>

text \<open>What an update of one node that keeps its children does to the tree.\<close>

lemma child_list_update:
  "(\<And>p. i < length cs \<Longrightarrow> node_list p c = node_list p (cs ! i)) \<Longrightarrow> child_list p k (cs[i := c]) = child_list p k cs"
proof (induction cs arbitrary: i k)
  case (Cons d cs)
  show ?case
  proof (cases i)
    case 0
    with Cons(2) [of "p @ [k]"] show ?thesis by simp
  next
    case (Suc j)
    with Cons(2) have "\<And>p. j < length cs \<Longrightarrow> node_list p c = node_list p (cs ! j)" by simp
    from Cons(1) [OF this] Suc show ?thesis by simp
  qed
qed simp

lemma node_list_cong:
  "dn_children t = dn_children t' \<Longrightarrow> node_list p t = node_list p t'"
  by (cases t; cases t') simp

lemma node_list_unfold: "node_list p t = p # child_list p 0 (dn_children t)"
  by (cases t) simp

lemma node_list_update:
  "(\<And>n. dn_children (f n) = dn_children n) \<Longrightarrow> node_list p (node_update t r f) = node_list p t"
proof (induction t r f arbitrary: p rule: node_update.induct)
  case (1 t f)
  have "dn_children (f t) = dn_children t" by (rule 1)
  from node_list_cong [OF this] show ?case by simp
next
  case (2 t i r f)
  show ?case
  proof (cases "i < length (dn_children t)")
    case True
    then have "child_list p 0 ((dn_children t)[i := node_update (dn_children t ! i) r f]) = child_list p 0 (dn_children t)"
      using 2 by (intro child_list_update) simp
    then show ?thesis
      using True by (simp only: node_update.simps if_True node_list_unfold set_simps)
  qed simp
qed

lemma the_node_simps [simp]:
  "the_node t [] = t"
  "i < length (dn_children t) \<Longrightarrow> the_node t (i # r) = the_node (dn_children t ! i) r"
  by (simp_all add: the_node_def)

lemma node_data_update:
  "(\<And>n. dn_children (f n) = dn_children n) \<Longrightarrow> valid_ref t r \<Longrightarrow> valid_ref t s \<Longrightarrow>
     valid_ref (node_update t r f) s \<and> node_data (the_node (node_update t r f) s) =
       (if s = r then node_data (f (the_node t r)) else node_data (the_node t s))"
proof (induction t r f arbitrary: s rule: node_update.induct)
  case (1 t f)
  show ?case
  proof (cases s)
    case Nil then show ?thesis by simp
  next
    case (Cons i q)
    with 1(3) show ?thesis by (simp add: 1(1))
  qed
next
  case (2 t i r f)
  show ?case
  proof (cases s)
    case Nil with 2 show ?thesis by simp
  next
    case (Cons j q)
    with 2(2-4) 2(1) [of q] show ?thesis by (cases "i = j") auto
  qed
qed

lemma valid_ref_node_list: "valid_ref t r \<longleftrightarrow> r \<in> set (node_list [] t)"
  by (simp add: node_list_set)

lemma foldl_max_ge:
  fixes g :: "'a \<Rightarrow> 'b::linorder"
  shows "a \<le> foldl (\<lambda>mx r. if mx < g r then g r else mx) a rs
    \<and> (\<forall>r \<in> set rs. g r \<le> foldl (\<lambda>mx r. if mx < g r then g r else mx) a rs)"
proof (induction rs arbitrary: a)
  case (Cons r rs)
  let ?b = "if a < g r then g r else a"
  have "a \<le> ?b" "g r \<le> ?b" by auto
  with Cons [of ?b] show ?case by (auto intro: order_trans)
qed simp

lemma max_phandle_ge: "valid_ref t r \<Longrightarrow> dn_phandle (the_node t r) \<le> of_get_tree_max_phandle (Some t)"
  using foldl_max_ge [of "dn_phandle t" "\<lambda>r. dn_phandle (the_node t r)" "nodes_from t []"]
  by (cases "r = []") (auto simp: of_get_tree_max_phandle_def set_nodes_from_root)

lemma word_less_plus_one: "(x :: u32) \<le> mx \<Longrightarrow> mx \<noteq> 0xffffffff \<Longrightarrow> x < mx + 1"
proof -
  assume "x \<le> mx" "mx \<noteq> 0xffffffff"
  moreover have "mx + 1 \<noteq> 0"
  proof
    assume "mx + 1 = 0"
    then have "mx = - 1" by (simp add: eq_neg_iff_add_eq_0)
    with \<open>mx \<noteq> 0xffffffff\<close> show False by simp
  qed
  ultimately have "unat (1 + mx) = Suc (unat mx)" by (intro unatSuc) (simp add: add.commute)
  with \<open>x \<le> mx\<close> show ?thesis by (simp add: word_less_nat_alt word_le_nat_alt add.commute)
qed

definition unique_phandles :: "device_node \<Rightarrow> bool" where
  "unique_phandles t \<longleftrightarrow>
     (\<forall>r s. valid_ref t r \<longrightarrow> valid_ref t s \<longrightarrow> r \<noteq> s \<longrightarrow> dn_phandle (the_node t r) = dn_phandle (the_node t s)
       \<longrightarrow> dn_phandle (the_node t r) = 0)"

lemma find_by_phandle_unique:
  assumes "unique_phandles t" and "valid_ref t r" and "r \<noteq> []" and "dn_phandle (the_node t r) = h" and "h \<noteq> 0"
  shows "of_find_node_by_phandle t h = Some r"
proof -
  have mem: "r \<in> set (nodes_from t [])" using assms by (simp add: set_nodes_from_root)
  have only: "s = r" if "s \<in> set (nodes_from t [])" "dn_phandle (the_node t s) = h" for s
    using that assms unfolding unique_phandles_def set_nodes_from_root by auto
  have "\<exists>s. of_find_node_by_phandle t h = Some s"
    using mem assms(4) unfolding of_find_node_by_phandle_def
    by (metis (mono_tags, lifting) find_None_iff2 not_None_eq option.distinct(1) find_None_iff)
  then obtain s where s: "of_find_node_by_phandle t h = Some s" by blast
  then have "s \<in> set (nodes_from t [])" "dn_phandle (the_node t s) = h"
    unfolding of_find_node_by_phandle_def by (auto simp: find_Some_iff)
  with only s show ?thesis by simp
qed

text \<open>
  C33: \<open>of_node_create_phandle\<close> gives a node without a phandle one that no other node has, as long as the
  largest phandle of the tree is not the largest there is; the number is in the property \<open>phandle\<close> too, the node is
  found by it unless it is the root, which \<open>of_find_node_by_phandle\<close> leaves out, and every other node keeps
  its name, phandle and properties.
\<close>

theorem of_node_create_phandle_unique:
  assumes "of_node_create_phandle root r = (h, root')" and "valid_ref root r" and "dn_phandle (the_node root r) = 0"
    and "unique_phandles root" and "props_ok (the_node root r)" and "of_get_tree_max_phandle (Some root) \<noteq> 0xffffffff"
  shows "h \<noteq> 0 \<and> dn_phandle (the_node root' r) = h
    \<and> of_property_read_u32 (the_node root' r) ''phandle'' = Inr h
    \<and> unique_phandles root' \<and> (r \<noteq> [] \<longrightarrow> of_find_node_by_phandle root' h = Some r)
    \<and> (\<forall>s. valid_ref root s \<and> s \<noteq> r \<longrightarrow> node_data (the_node root' s) = node_data (the_node root s))"
proof -
  let ?f = "\<lambda>n. put_prop (set_phandle n h) ''phandle'' (put_unaligned_be32 h)"
  have h: "h = of_get_tree_max_phandle (Some root) + 1" and root': "root' = node_update root r ?f"
    using assms(1,3) by (auto simp: of_node_create_phandle_def Let_def)
  have ge: "dn_phandle (the_node root s) < h" if "valid_ref root s" for s
    unfolding h using max_phandle_ge [OF that] assms(6) by (rule word_less_plus_one)
  have keep: "dn_children (?f n) = dn_children n" for n by simp
  have dat: "valid_ref root s \<Longrightarrow> valid_ref root' s \<and> node_data (the_node root' s) =
      (if s = r then node_data (?f (the_node root r)) else node_data (the_node root s))" for s
    using node_data_update [of ?f root r s] assms(2) keep unfolding root' by blast
  have valid: "valid_ref root' s \<longleftrightarrow> valid_ref root s" for s
    unfolding root' valid_ref_node_list by (simp add: node_list_update)
  have ph: "dn_phandle (the_node root' s) = (if s = r then h else dn_phandle (the_node root s))" if "valid_ref root s" for s
    using dat [OF that] by (auto simp: node_data_def split: if_splits)
  have nz: "h \<noteq> 0" using ge [OF assms(2)] by auto
  have uniq: "unique_phandles root'"
    unfolding unique_phandles_def valid
  proof (intro allI impI)
    fix a b
    assume v: "valid_ref root a" "valid_ref root b" and ne: "a \<noteq> b"
      and eq: "dn_phandle (the_node root' a) = dn_phandle (the_node root' b)"
    show "dn_phandle (the_node root' a) = 0"
      using eq ne ge [OF v(1)] ge [OF v(2)] assms(4) v
      by (auto simp: ph unique_phandles_def split: if_splits)
  qed
  have "dn_properties (the_node root' r) = dn_properties (?f (the_node root r))"
    using dat [OF assms(2)] by (simp add: node_data_def)
  then have "of_property_read_u32 (the_node root' r) ''phandle'' = of_property_read_u32 (?f (the_node root r)) ''phandle''"
    by (intro prop_u32.rd_find) (simp add: of_find_property_def)
  also have "\<dots> = Inr h" using assms(5) by (intro prop_u32.rd_put) (simp_all add: props_ok_def)
  finally have rd: "of_property_read_u32 (the_node root' r) ''phandle'' = Inr h" .
  show ?thesis
    using nz ph [OF assms(2)] rd uniq dat find_by_phandle_unique [OF uniq _ _ _ nz, of r] dat [OF assms(2)] by auto
qed

lemma of_node_create_phandle_unique_witness:
  "let root = snd (of_create_node of_new_root ''/soc'')
   in of_find_node_by_phandle (snd (of_node_create_phandle root [0])) (fst (of_node_create_phandle root [0])) = Some [0]"
proof -
  let ?root = "Node [] [] 0 [] [Node ''soc'' ''/soc'' 0 [] []]"
  have r: "snd (of_create_node of_new_root ''/soc'') = ?root" by code_simp
  have v: "valid_ref ?root s \<longleftrightarrow> s = [] \<or> s = [0]" for s
  proof -
    have "valid_ref (Node nm f h ps []) q \<longleftrightarrow> q = []" for nm f h ps q by (cases q) simp_all
    then show ?thesis by (cases s) auto
  qed
  have u: "unique_phandles ?root" unfolding unique_phandles_def v by (auto simp: the_node_def)
  have m: "of_get_tree_max_phandle (Some ?root) = 0" by code_simp
  show ?thesis
    unfolding Let_def r
    using of_node_create_phandle_unique [of ?root "[0]" "fst (of_node_create_phandle ?root [0])"
        "snd (of_node_create_phandle ?root [0])"] u m
    by (simp add: v props_ok_def)
qed

section \<open>Phandles with arguments\<close>

definition args_ok :: "device_node \<Rightarrow> of_phandle_args \<Rightarrow> bool" where
  "args_ok root a \<longleftrightarrow> valid_ref root (pa_np a) \<and> length (pa_args a) = pa_args_count a \<and> pa_args_count a \<le> max_phandle_args"

lemma find_by_phandle_valid: "of_find_node_by_phandle root h = Some r \<Longrightarrow> valid_ref root r"
proof -
  assume "of_find_node_by_phandle root h = Some r"
  then have "r \<in> set (nodes_from root [])" by (auto simp: of_find_node_by_phandle_def find_Some_iff)
  then show ?thesis by (simp add: set_nodes_from_root)
qed

lemma parse_args_loop_count:
  "parse_args_loop root cells_name cells cur index = Inr (Counted n) \<Longrightarrow> index = - 1 \<Longrightarrow> 0 \<le> cur \<Longrightarrow>
     cur \<le> n \<and> (\<forall>i \<ge> cur.
       (i < n \<longrightarrow> (\<exists>a. parse_args_loop root cells_name cells cur i = Inr (Found a) \<and> args_ok root a)
               \<or> parse_args_loop root cells_name cells cur i = Inl ENOENT)
       \<and> (n \<le> i \<longrightarrow> parse_args_loop root cells_name cells cur i = Inl ENOENT))"
proof (induction root cells_name cells cur index rule: parse_args_loop.induct)
  case (1 root cells_name cur index)
  then show ?case by (simp add: parse_args_loop.simps)
next
  case (2 root cells_name h rest cur index)
  let ?L = "parse_args_loop root cells_name"
  show ?case
  proof (cases "h = 0")
    case True
    have "?L rest (cur + 1) index = Inr (Counted n)"
      using 2(3-5) True by (simp add: parse_args_loop.simps(2))
    then have ih: "cur + 1 \<le> n \<and> (\<forall>i \<ge> cur + 1.
       (i < n \<longrightarrow> (\<exists>a. ?L rest (cur + 1) i = Inr (Found a) \<and> args_ok root a) \<or> ?L rest (cur + 1) i = Inl ENOENT)
       \<and> (n \<le> i \<longrightarrow> ?L rest (cur + 1) i = Inl ENOENT))"
      using 2(1) True 2(4,5) by auto
    have "?L (h # rest) cur i = (if cur = i then Inl ENOENT else ?L rest (cur + 1) i)" for i
      using True by (simp add: parse_args_loop.simps(2))
    with ih show ?thesis by auto
  next
    case False
    obtain r count where s: "of_find_node_by_phandle root h = Some r"
        "of_property_read_u32 (the_node root r) cells_name = Inr count" "\<not> length rest < unat count"
        "?L (drop (unat count) rest) (cur + 1) index = Inr (Counted n)"
      using 2(3-5) False by (auto simp: parse_args_loop.simps(2) split: option.splits sum.splits if_splits)
    then have ih: "cur + 1 \<le> n \<and> (\<forall>i \<ge> cur + 1.
       (i < n \<longrightarrow> (\<exists>a. ?L (drop (unat count) rest) (cur + 1) i = Inr (Found a) \<and> args_ok root a)
               \<or> ?L (drop (unat count) rest) (cur + 1) i = Inl ENOENT)
       \<and> (n \<le> i \<longrightarrow> ?L (drop (unat count) rest) (cur + 1) i = Inl ENOENT))"
      using 2(2) [OF False s(1,2,3)] 2(4,5) by auto
    let ?k = "min (unat count) max_phandle_args"
    let ?a = "\<lparr>pa_np = r, pa_args_count = ?k, pa_args = take ?k rest\<rparr>"
    have "args_ok root ?a" using find_by_phandle_valid [OF s(1)] s(3) by (simp add: args_ok_def)
    moreover have "?L (h # rest) cur i =
        (if cur = i then Inr (Found ?a) else ?L (drop (unat count) rest) (cur + 1) i)" for i
      using False s(1-3) by (simp add: parse_args_loop.simps(2) Let_def)
    ultimately show ?thesis using ih by auto
  qed
qed

text \<open>
  The number \<open>of_count_phandle_with_args\<close> returns is the number of entries
  \<open>of_parse_phandle_with_args\<close> can be asked for: below it an index gives a node of the tree with at most
  \<open>MAX_PHANDLE_ARGS\<close> arguments, or \<open>ENOENT\<close> where the entry is empty, and from it on every index
  gives \<open>ENOENT\<close>.
\<close>

theorem of_count_matches_parse:
  assumes "of_count_phandle_with_args root np list_name cells_name = Inr (Counted n)"
  shows "0 \<le> n \<and> (\<forall>i \<ge> 0.
     (i < n \<longrightarrow> (\<exists>a. of_parse_phandle_with_args root np list_name cells_name i = Inr (Found a) \<and> args_ok root a)
             \<or> of_parse_phandle_with_args root np list_name cells_name i = Inl ENOENT)
     \<and> (n \<le> i \<longrightarrow> of_parse_phandle_with_args root np list_name cells_name i = Inl ENOENT))"
proof -
  obtain v where v: "of_get_property np list_name = Some v"
      "parse_args_loop root cells_name (be32_cells v) 0 (- 1) = Inr (Counted n)"
    using assms by (auto simp: of_count_phandle_with_args_def parse_phandle_with_args_def split: option.splits)
  show ?thesis
    using parse_args_loop_count [OF v(2) refl] v(1)
    by (simp add: of_parse_phandle_with_args_def parse_phandle_with_args_def)
qed

definition gpio_tree :: device_node where
  "gpio_tree = Node [] [] 0 [] [Node ''gpio'' ''/gpio'' 1
     [\<lparr>pp_name = ''#gpio-cells'', pp_value = Some [0, 0, 0, 2]\<rparr>] []]"

definition gpio_user :: device_node where
  "gpio_user = Node ''led'' ''/led'' 0
     [\<lparr>pp_name = ''gpios'', pp_value = Some [0, 0, 0, 1, 0, 0, 0, 5, 0, 0, 0, 0, 0, 0, 0, 0]\<rparr>] []"

lemma of_count_matches_parse_witness:
  "of_parse_phandle_with_args gpio_tree gpio_user ''gpios'' ''#gpio-cells'' 2 = Inl ENOENT"
proof -
  have "of_count_phandle_with_args gpio_tree gpio_user ''gpios'' ''#gpio-cells'' = Inr (Counted 2)"
    by code_simp
  from of_count_matches_parse [OF this] show ?thesis by simp
qed

end
