(* ===== verification/Fdt.thy ===== *)
theory Fdt
  imports Dt_Nodes
begin

text \<open>
  The flat device tree format of \<open>src/fdt.c\<close> and \<open>src/dt/fdt.h\<close>: \<open>of_unflatten_dtb\<close> reads a blob,
  \<open>of_flatten_dtb\<close> writes one, and the reserve map.  Offsets are \<open>uint32_t\<close> and wrap as in the code.  A
  read or a copy outside the blob, or outside an allocated buffer, is \<open>FAULT\<close>.  The loop of
  \<open>of_unflatten_dtb\<close> is a partial function whose result \<open>None\<close> means that it does not return; the
  theorems show that it returns for every blob below 4 GiB, and that it reads back what \<open>of_flatten_dtb\<close>
  has written.
\<close>

unbundle bit_operations_syntax

section \<open>The header\<close>

record fdt_header =
  fh_magic :: u32
  fh_totalsize :: u32
  fh_off_dt_struct :: u32
  fh_off_dt_strings :: u32
  fh_off_mem_rsvmap :: u32
  fh_version :: u32
  fh_last_comp_version :: u32
  fh_boot_cpuid_phys :: u32
  fh_size_dt_strings :: u32
  fh_size_dt_struct :: u32

definition fdt_magic :: u32 where
  "fdt_magic = 0xd00dfeed"

definition fdt_begin_node :: u32 where
  "fdt_begin_node = 1"

definition fdt_end_node :: u32 where
  "fdt_end_node = 2"

definition fdt_prop :: u32 where
  "fdt_prop = 3"

definition fdt_nop :: u32 where
  "fdt_nop = 4"

definition fdt_end :: u32 where
  "fdt_end = 9"

lemmas fdt_tags = fdt_begin_node_def fdt_end_node_def fdt_prop_def fdt_nop_def fdt_end_def

definition fdt_header_of :: "bytes \<Rightarrow> fdt_header" where
  "fdt_header_of b = (let w = (\<lambda>i. get_unaligned_be32 (drop (4 * i) b)) in
     \<lparr>fh_magic = w 0, fh_totalsize = w 1, fh_off_dt_struct = w 2, fh_off_dt_strings = w 3, fh_off_mem_rsvmap = w 4,
      fh_version = w 5, fh_last_comp_version = w 6, fh_boot_cpuid_phys = w 7, fh_size_dt_strings = w 8,
      fh_size_dt_struct = w 9\<rparr>)"

definition fdt_header_bytes :: "fdt_header \<Rightarrow> bytes" where
  "fdt_header_bytes h =
     put_unaligned_be32 (fh_magic h) @ put_unaligned_be32 (fh_totalsize h) @ put_unaligned_be32 (fh_off_dt_struct h)
     @ put_unaligned_be32 (fh_off_dt_strings h) @ put_unaligned_be32 (fh_off_mem_rsvmap h)
     @ put_unaligned_be32 (fh_version h) @ put_unaligned_be32 (fh_last_comp_version h)
     @ put_unaligned_be32 (fh_boot_cpuid_phys h) @ put_unaligned_be32 (fh_size_dt_strings h)
     @ put_unaligned_be32 (fh_size_dt_struct h)"

text \<open>\<open>ALIGN (x, 4)\<close> on \<open>uint32_t\<close>.\<close>

definition align4 :: "u32 \<Rightarrow> u32" where
  "align4 x = (x + 3) AND NOT 3"

section \<open>Reading a blob\<close>

definition dt_struct_end :: "fdt_header \<Rightarrow> u32" where
  "dt_struct_end f = fh_off_dt_struct f + fh_size_dt_struct f"

definition dt_struct_advance :: "fdt_header \<Rightarrow> u32 \<Rightarrow> nat \<Rightarrow> u32" where
  "dt_struct_advance f dt sz =
     (let dt' = align4 (dt + word_of_nat sz) in if dt_struct_end f < dt' then 0 else dt')"

text \<open>A string of the blob, read up to its NUL; the result is the offset or the null pointer.\<close>

definition dt_string :: "fdt_header \<Rightarrow> u32 \<Rightarrow> nat option" where
  "dt_string f ofs =
     (if fh_size_dt_strings f < ofs then None else Some (unat (fh_off_dt_strings f) + unat ofs))"

definition blob_string :: "bytes \<Rightarrow> nat \<Rightarrow> string res" where
  "blob_string blob pos = (if 0 \<notin> set (drop pos blob) then Inl FAULT else Inr (cstr_at (drop pos blob)))"

definition blob_be32 :: "bytes \<Rightarrow> nat \<Rightarrow> u32 res" where
  "blob_be32 blob pos =
     (if length blob < pos + 4 then Inl FAULT else Inr (get_unaligned_be32 (drop pos blob)))"

text \<open>\<open>strnlen\<close> with a limit: a string whose NUL lies neither below the limit nor inside the blob is read past the blob.\<close>

definition blob_strnlen :: "bytes \<Rightarrow> nat \<Rightarrow> nat \<Rightarrow> nat res" where
  "blob_strnlen blob pos lim =
     (let rest = drop pos blob; n = strnlen rest
      in if lim \<le> n then Inr lim else if n < length rest then Inr n else Inl FAULT)"

text \<open>One pass of the loop.\<close>

datatype unflatten_result = Done device_node | Again u32 device_node "node_ref option"

definition advance_or_fail :: "fdt_header \<Rightarrow> u32 \<Rightarrow> nat \<Rightarrow> device_node \<Rightarrow> node_ref option \<Rightarrow> unflatten_result res" where
  "advance_or_fail f dt sz root node =
     (if dt_struct_advance f dt sz = 0 then Inl ESPIPE else Inr (Again (dt_struct_advance f dt sz) root node))"

definition unflatten_begin :: "bytes \<Rightarrow> fdt_header \<Rightarrow> u32 \<Rightarrow> device_node \<Rightarrow> node_ref option \<Rightarrow> unflatten_result res" where
  "unflatten_begin blob f dt root node =
     (let name = unat dt + 4;
          maxlen = word_of_int (int (unat (fh_off_dt_struct f)) + int (unat (fh_size_dt_struct f)) - int name) :: u32
      in bindE (blob_strnlen blob name (unat (maxlen + 1))) (\<lambda>len.
        if unat maxlen < len then Inl ESPIPE
        else (case node of
            None \<Rightarrow> advance_or_fail f dt (4 + len + 1) root (Some [])
          | Some r \<Rightarrow> bindE (blob_string blob name) (\<lambda>pathp.
              advance_or_fail f dt (4 + len + 1) (node_update root r (\<lambda>n. of_new_node n pathp))
                (Some (r @ [length (dn_children (the_node root r))]))))))"

definition new_property :: "string \<Rightarrow> bytes \<Rightarrow> device_node \<Rightarrow> device_node" where
  "new_property name data n =
     (let n' = of_new_property n name data in
      if name = ''phandle'' \<and> length data = 4 then set_phandle n' (get_unaligned_be32 data) else n')"

definition unflatten_prop :: "bytes \<Rightarrow> fdt_header \<Rightarrow> u32 \<Rightarrow> device_node \<Rightarrow> node_ref option \<Rightarrow> unflatten_result res" where
  "unflatten_prop blob f dt root node =
     bindE (blob_be32 blob (unat dt + 4)) (\<lambda>len.
     bindE (blob_be32 blob (unat dt + 8)) (\<lambda>nameoff.
       case dt_string f nameoff of
         None \<Rightarrow> Inl ESPIPE
       | Some pos \<Rightarrow> (case node of
           None \<Rightarrow> Inl FAULT
         | Some r \<Rightarrow> bindE (blob_string blob pos) (\<lambda>name.
             if 2 ^ 31 \<le> unat len \<or> length blob < unat dt + 12 + unat len then Inl FAULT
             else advance_or_fail f dt (12 + unat len)
               (node_update root r (new_property name (take (unat len) (drop (unat dt + 12) blob)))) node))))"

definition unflatten_step :: "bytes \<Rightarrow> fdt_header \<Rightarrow> u32 \<Rightarrow> device_node \<Rightarrow> node_ref option \<Rightarrow> unflatten_result res" where
  "unflatten_step blob f dt root node =
     bindE (blob_be32 blob (unat dt)) (\<lambda>tag.
       if tag = fdt_begin_node then unflatten_begin blob f dt root node
       else if tag = fdt_end_node then
         (case node of
            None \<Rightarrow> Inl EINVAL
          | Some r \<Rightarrow> advance_or_fail f dt 4 root (of_get_parent r))
       else if tag = fdt_prop then unflatten_prop blob f dt root node
       else if tag = fdt_nop then advance_or_fail f dt 4 root node
       else if tag = fdt_end then Inr (Done root)
       else Inl EINVAL)"

partial_function (option) unflatten_loop ::
    "bytes \<Rightarrow> fdt_header \<Rightarrow> u32 \<Rightarrow> device_node \<Rightarrow> node_ref option \<Rightarrow> device_node res option" where
  "unflatten_loop blob f dt root node = (case unflatten_step blob f dt root node of
     Inl e \<Rightarrow> Some (Inl e)
   | Inr res \<Rightarrow> (case res of
         Done t \<Rightarrow> Some (Inr t)
       | Again dt' root' node' \<Rightarrow> unflatten_loop blob f dt' root' node'))"

definition of_unflatten_dtb :: "bytes \<Rightarrow> device_node res option" where
  "of_unflatten_dtb blob =
     (let f = fdt_header_of blob in
      if length blob < 40 then Some (Inl FAULT)
      else if fh_magic f \<noteq> fdt_magic then Some (Inl EINVAL)
      else if fh_version f \<noteq> 17 then Some (Inl EINVAL)
      else if fh_totalsize f < dt_struct_end f then Some (Inl ESPIPE)
      else if fh_totalsize f < fh_off_dt_strings f + fh_size_dt_strings f then Some (Inl ESPIPE)
      else unflatten_loop blob f (fh_off_dt_struct f) of_new_root None)"

section \<open>Writing a blob\<close>

text \<open>
  The two growing buffers of \<open>struct fdt\<close>; a buffer's size is its length.  \<open>fresh\<close> is the content
  \<open>realloc\<close> finds in the memory it adds, by position.
\<close>

record fdt =
  fd_dt :: bytes
  fd_dt_nextofs :: u32
  fd_strings :: bytes
  fd_str_nextofs :: u32

definition dt_next_ofs :: "u32 \<Rightarrow> u32 \<Rightarrow> u32" where
  "dt_next_ofs curofs len = align4 (curofs + len)"

definition poke :: "bytes \<Rightarrow> nat \<Rightarrow> bytes \<Rightarrow> bytes res" where
  "poke buf ofs bs = (if length buf < ofs + length bs then Inl FAULT else Inr (mem_put buf ofs bs))"

text \<open>\<open>lstrcpy\<close>: the bytes it stores (it does not store the NUL) and the value it returns.\<close>

definition lstrcpy :: "string \<Rightarrow> bytes \<times> int" where
  "lstrcpy src = (if length src < 1024 then (str_bytes src, int (length src)) else (str_bytes (take 1024 src), - 28))"

definition grow :: "(nat \<Rightarrow> u8) \<Rightarrow> bytes \<Rightarrow> nat \<Rightarrow> bytes res" where
  "grow fresh buf n = (if n = 0 then Inl ENOMEM else Inr (take n buf @ map fresh [length buf..<n]))"

definition ensure_one :: "(nat \<Rightarrow> u8) \<Rightarrow> bytes \<Rightarrow> u32 \<Rightarrow> u32 \<Rightarrow> bytes res" where
  "ensure_one fresh buf nextofs need =
     (let sz = word_of_nat (length buf) :: u32
      in if sz - nextofs < need then grow fresh buf (unat (sz * 2)) else Inr buf)"

definition fdt_ensure_space :: "(nat \<Rightarrow> u8) \<Rightarrow> fdt \<Rightarrow> nat \<Rightarrow> fdt res" where
  "fdt_ensure_space fresh fdt dtsize =
     bindE (ensure_one fresh (fd_strings fdt) (fd_str_nextofs fdt) 1024) (\<lambda>ss.
     bindE (ensure_one fresh (fd_dt fdt) (fd_dt_nextofs fdt) (word_of_nat (1024 + dtsize))) (\<lambda>d.
       Inr (fdt\<lparr>fd_strings := ss, fd_dt := d\<rparr>)))"

text \<open>\<open>dt_add_string\<close> returns an offset or a negative error number, which its caller stores like an offset.\<close>

definition dt_add_string :: "(nat \<Rightarrow> u8) \<Rightarrow> fdt \<Rightarrow> string \<Rightarrow> (u32 \<times> fdt) res" where
  "dt_add_string fresh fdt str = (case fdt_ensure_space fresh fdt 0 of
     Inl _ \<Rightarrow> Inr (- 12, fdt)
   | Inr fdt1 \<Rightarrow> (case lstrcpy str of (bs, len) \<Rightarrow>
       bindE (poke (fd_strings fdt1) (unat (fd_str_nextofs fdt1)) bs) (\<lambda>ss.
         if len < 0 then Inr (- 28, fdt1\<lparr>fd_strings := ss\<rparr>)
         else Inr (fd_str_nextofs fdt1,
           fdt1\<lparr>fd_strings := ss, fd_str_nextofs := fd_str_nextofs fdt1 + word_of_int len + 1\<rparr>))))"

text \<open>
  One property.  \<open>fp\<close> is taken before \<open>dt_add_string\<close>, which would leave it dangling if it had to move
  the buffer again.
\<close>

definition flatten_prop :: "(nat \<Rightarrow> u8) \<Rightarrow> fdt \<Rightarrow> property \<Rightarrow> fdt res" where
  "flatten_prop fresh fdt p =
     bindE (fdt_ensure_space fresh fdt (pp_length p)) (\<lambda>fdt1.
     let len = word_of_nat (pp_length p) :: u32; ofs = unat (fd_dt_nextofs fdt1) in
     bindE (poke (fd_dt fdt1) ofs (put_unaligned_be32 fdt_prop @ put_unaligned_be32 len)) (\<lambda>d.
     bindE (dt_add_string fresh (fdt1\<lparr>fd_dt := d\<rparr>) (pp_name p)) (\<lambda>(nameoff, fdt2).
       if length (fd_dt fdt2) \<noteq> length d then Inl FAULT
       else bindE (poke (fd_dt fdt2) (ofs + 8)
                (put_unaligned_be32 nameoff @ (case pp_value p of None \<Rightarrow> [] | Some v \<Rightarrow> v))) (\<lambda>d2.
         Inr (fdt2\<lparr>fd_dt := d2, fd_dt_nextofs := dt_next_ofs (fd_dt_nextofs fdt2) (12 + len)\<rparr>)))))"

fun flatten_props :: "(nat \<Rightarrow> u8) \<Rightarrow> fdt \<Rightarrow> property list \<Rightarrow> fdt res" where
  "flatten_props fresh fdt [] = Inr fdt"
| "flatten_props fresh fdt (p # ps) = bindE (flatten_prop fresh fdt p) (\<lambda>fdt1. flatten_props fresh fdt1 ps)"

definition flatten_begin :: "(nat \<Rightarrow> u8) \<Rightarrow> fdt \<Rightarrow> string \<Rightarrow> fdt res" where
  "flatten_begin fresh fdt name =
     bindE (fdt_ensure_space fresh fdt 0) (\<lambda>fdt1. (case lstrcpy name of (bs, len) \<Rightarrow>
       bindE (poke (fd_dt fdt1) (unat (fd_dt_nextofs fdt1)) (put_unaligned_be32 fdt_begin_node @ bs)) (\<lambda>d.
         Inr (fdt1\<lparr>fd_dt := d,
           fd_dt_nextofs := dt_next_ofs (fd_dt_nextofs fdt1) (4 + word_of_int len + 1)\<rparr>))))"

definition flatten_tag :: "fdt \<Rightarrow> u32 \<Rightarrow> fdt res" where
  "flatten_tag fdt tag =
     bindE (poke (fd_dt fdt) (unat (fd_dt_nextofs fdt)) (put_unaligned_be32 tag)) (\<lambda>d.
       Inr (fdt\<lparr>fd_dt := d, fd_dt_nextofs := dt_next_ofs (fd_dt_nextofs fdt) 4\<rparr>))"

fun flatten_node :: "(nat \<Rightarrow> u8) \<Rightarrow> fdt \<Rightarrow> device_node \<Rightarrow> fdt res"
and flatten_children :: "(nat \<Rightarrow> u8) \<Rightarrow> fdt \<Rightarrow> device_node list \<Rightarrow> fdt res" where
  "flatten_node fresh fdt (Node n f h ps cs) =
     bindE (flatten_begin fresh fdt n) (\<lambda>fdt1.
     bindE (flatten_props fresh fdt1 ps) (\<lambda>fdt2.
     bindE (flatten_children fresh fdt2 cs) (\<lambda>fdt3.
     bindE (flatten_tag fdt3 fdt_end_node) (\<lambda>fdt4. fdt_ensure_space fresh fdt4 0))))"
| "flatten_children fresh fdt [] = Inr fdt"
| "flatten_children fresh fdt (c # cs) = bindE (flatten_node fresh fdt c) (\<lambda>fdt1. flatten_children fresh fdt1 cs)"

definition bufsize :: nat where
  "bufsize = 64 * 1024"

definition of_max_reserve_map :: nat where
  "of_max_reserve_map = 16"

definition flatten_header :: "u32 \<Rightarrow> fdt \<Rightarrow> fdt_header" where
  "flatten_header ofs fdt = \<lparr>fh_magic = fdt_magic, fh_totalsize = fd_dt_nextofs fdt + fd_str_nextofs fdt,
     fh_off_dt_struct = ofs, fh_off_dt_strings = fd_dt_nextofs fdt, fh_off_mem_rsvmap = 40, fh_version = 0x11,
     fh_last_comp_version = 0x10, fh_boot_cpuid_phys = 0, fh_size_dt_strings = fd_str_nextofs fdt,
     fh_size_dt_struct = fd_dt_nextofs fdt - ofs\<rparr>"

definition of_flatten_dtb :: "(nat \<Rightarrow> u8) \<Rightarrow> device_node \<Rightarrow> bytes res" where
  "of_flatten_dtb fresh node =
     (let ofs = 40 + 16 * word_of_nat of_max_reserve_map :: u32;
          fdt0 = \<lparr>fd_dt = replicate bufsize 0, fd_dt_nextofs = ofs, fd_strings = replicate bufsize 0, fd_str_nextofs = 0\<rparr>
      in bindE (flatten_node fresh fdt0 node) (\<lambda>fdt1.
         bindE (flatten_tag fdt1 fdt_end) (\<lambda>fdt2.
         bindE (if word_of_nat (length (fd_dt fdt2)) - fd_dt_nextofs fdt2 < fd_str_nextofs fdt2
                then grow fresh (fd_dt fdt2) (unat (fd_dt_nextofs fdt2 + fd_str_nextofs fdt2)) else Inr (fd_dt fdt2)) (\<lambda>d.
         bindE (poke d (unat (fd_dt_nextofs fdt2)) (take (unat (fd_str_nextofs fdt2)) (fd_strings fdt2))) (\<lambda>d2.
           poke d2 0 (fdt_header_bytes (flatten_header ofs fdt2)))))))"

section \<open>The loop returns\<close>

lemma unat_align4:
  assumes "unat x + 3 < 2 ^ 32"
  shows "unat (align4 x) = (unat x + 3) div 4 * 4"
proof -
  have *: "(y :: u32) AND NOT 3 = push_bit 2 (drop_bit 2 y)" for y
  proof (rule bit_word_eqI)
    fix n assume n: "n < LENGTH(32)"
    have m: "(3 :: u32) = mask 2" by (simp add: mask_eq_exp_minus_1)
    show "bit (y AND NOT 3) n \<longleftrightarrow> bit (push_bit 2 (drop_bit 2 y)) n"
      using n unfolding m bit_and_iff bit_not_iff bit_mask_iff bit_push_bit_iff bit_drop_bit_eq
      by (cases "n < 2") (auto simp: not_less dest!: le_Suc_ex)
  qed
  have "unat (x + 3) = unat x + 3" using assms by (simp add: unat_word_ariths)
  then have "unat (push_bit 2 (drop_bit 2 (x + 3))) = (unat x + 3) div 4 * 4"
    using assms by (simp add: push_bit_eq_mult unat_word_ariths unat_drop_bit_eq drop_bit_eq_div)
  then show ?thesis unfolding align4_def * .
qed

lemma unat_plus_nat:
  "unat (x :: u32) + n < 2 ^ 32 \<Longrightarrow> unat (x + word_of_nat n) = unat x + n"
  by (simp add: unat_word_ariths unsigned_of_nat take_bit_eq_mod)

lemma advance_unat:
  assumes "unat dt + sz + 3 < 2 ^ 32"
  shows "unat (align4 (dt + word_of_nat sz)) = (unat dt + sz + 3) div 4 * 4"
proof -
  have "unat (dt + word_of_nat sz) = unat dt + sz" by (rule unat_plus_nat) (use assms in simp)
  then show ?thesis using assms by (simp add: unat_align4)
qed

lemma advance_grows:
  assumes "advance_or_fail f dt sz root node = Inr (Again dt' root' node')" and "unat dt + sz + 3 < 2 ^ 32" and "0 < sz"
  shows "unat dt < unat dt'"
proof -
  have "dt' = align4 (dt + word_of_nat sz)"
    using assms(1) by (auto simp: advance_or_fail_def dt_struct_advance_def Let_def split: if_splits)
  then have "unat dt' = (unat dt + sz + 3) div 4 * 4" using advance_unat [OF assms(2)] by simp
  moreover have "unat dt + sz \<le> (unat dt + sz + 3) div 4 * 4" by simp
  ultimately show ?thesis using assms(3) by linarith
qed

lemma unflatten_propE:
  assumes "unflatten_prop blob f dt root node = Inr res"
  obtains r len name nameoff pos where "node = Some r" "blob_be32 blob (unat dt + 4) = Inr len"
    "blob_be32 blob (unat dt + 8) = Inr nameoff" "dt_string f nameoff = Some pos" "blob_string blob pos = Inr name"
    "unat dt + 12 + unat len \<le> length blob"
    "advance_or_fail f dt (12 + unat len)
       (node_update root r (new_property name (take (unat len) (drop (unat dt + 12) blob)))) node = Inr res"
proof -
  obtain len nameoff where b: "blob_be32 blob (unat dt + 4) = Inr len" "blob_be32 blob (unat dt + 8) = Inr nameoff"
    using assms by (auto simp: unflatten_prop_def)
  obtain pos r where p: "dt_string f nameoff = Some pos" "node = Some r"
    using assms b by (cases "dt_string f nameoff"; cases node) (auto simp: unflatten_prop_def)
  show ?thesis
    using assms b p by (auto simp: unflatten_prop_def not_less split: if_split_asm intro!: that)
qed

lemma unflatten_step_done: "unflatten_step blob f dt root node = Inr (Done t) \<Longrightarrow> t = root"
  by (auto simp: unflatten_step_def unflatten_begin_def Let_def advance_or_fail_def
      elim!: unflatten_propE split: if_split_asm option.split_asm)

lemma blob_strnlen_bound: "blob_strnlen blob pos lim = Inr n \<Longrightarrow> pos + n \<le> length blob \<or> n = 0"
  using strnlen_le [of "drop pos blob"] by (auto simp: blob_strnlen_def Let_def split: if_splits)

lemma unflatten_step_grows:
  assumes "unflatten_step blob f dt root node = Inr (Again dt' root' node')" and "length blob + 8 < 2 ^ 32"
  shows "unat dt < unat dt'"
proof -
  obtain tag where tag: "blob_be32 blob (unat dt) = Inr tag" using assms(1) by (auto simp: unflatten_step_def)
  then have inside: "unat dt + 4 \<le> length blob" by (auto simp: blob_be32_def split: if_splits)
  consider (begins) "unflatten_begin blob f dt root node = Inr (Again dt' root' node')"
    | (plain) nd where "advance_or_fail f dt 4 root nd = Inr (Again dt' root' node')"
    | (property) "unflatten_prop blob f dt root node = Inr (Again dt' root' node')"
    using assms(1) tag by (auto simp: unflatten_step_def split: if_splits option.splits)
  then show ?thesis
  proof cases
    case plain
    then show ?thesis using inside assms(2) by (elim advance_grows) auto
  next
    case begins
    then obtain len root1 nd1 where len: "blob_strnlen blob (unat dt + 4)
          (unat (word_of_int (int (unat (fh_off_dt_struct f)) + int (unat (fh_size_dt_struct f)) - int (unat dt + 4)) + 1 :: u32)) = Inr len"
        and adv: "advance_or_fail f dt (4 + len + 1) root1 nd1 = Inr (Again dt' root' node')"
      by (auto simp: unflatten_begin_def Let_def split: if_splits option.splits)
    show ?thesis
      using blob_strnlen_bound [OF len] inside assms(2) by (intro advance_grows [OF adv]) auto
  next
    case property
    then show ?thesis using assms(2) by (elim unflatten_propE advance_grows) auto
  qed
qed

lemma names_ok_update:
  "(\<And>n. dn_name (f n) = dn_name n \<and> dn_full_name (f n) = dn_full_name n \<and> (names_ok n \<longrightarrow> names_ok (f n)))
   \<Longrightarrow> names_ok t \<Longrightarrow> names_ok (node_update t r f)
     \<and> dn_name (node_update t r f) = dn_name t \<and> dn_full_name (node_update t r f) = dn_full_name t"
proof (induction t r f rule: node_update.induct)
  case (2 t i r f)
  show ?case
  proof (cases "i < length (dn_children t)")
    case True
    let ?c = "node_update (dn_children t ! i) r f"
    have old: "names_ok (dn_children t ! i)"
        "dn_full_name (dn_children t ! i) = dn_full_name t @ ''/'' @ dn_name (dn_children t ! i)"
      using 2(3) True unfolding names_ok_unfold [of t] by simp_all
    have new: "names_ok ?c" "dn_full_name ?c = dn_full_name t @ ''/'' @ dn_name ?c"
      using 2(1) [OF True 2(2) old(1)] old(2) by simp_all
    have "\<forall>c \<in> set ((dn_children t)[i := ?c]). dn_full_name c = dn_full_name t @ ''/'' @ dn_name c \<and> names_ok c"
      using new 2(3) set_update_subset_insert [of "dn_children t" i ?c] unfolding names_ok_unfold [of t] by blast
    then have "names_ok (set_children t ((dn_children t)[i := ?c]))"
      unfolding names_ok_unfold [of "set_children t _"] by simp
    with True show ?thesis by simp
  qed (use 2(3) in simp)
qed simp

lemma names_ok_property: "names_ok (new_property name v n) = names_ok n"
    "dn_name (new_property name v n) = dn_name n" "dn_full_name (new_property name v n) = dn_full_name n"
  by (simp_all add: new_property_def Let_def of_new_property_def names_ok_unfold [of n] names_ok_unfold [of "set_phandle _ _"]
      names_ok_unfold [of "set_properties _ _"])

lemma advance_tree: "advance_or_fail f dt sz root node = Inr (Again dt' root' node') \<Longrightarrow> root' = root \<and> node' = node"
  by (auto simp: advance_or_fail_def split: if_splits)

lemma unflatten_step_names:
  assumes "unflatten_step blob f dt root node = Inr (Again dt' root' node')" and "names_ok root"
  shows "names_ok root'"
proof -
  consider (same) "root' = root"
    | (begins) r nm where "root' = node_update root r (\<lambda>n. of_new_node n nm)"
    | (property) r nm v where "root' = node_update root r (new_property nm v)"
    using assms(1)
    by (auto simp: unflatten_step_def unflatten_begin_def Let_def elim!: unflatten_propE
        dest!: advance_tree split: if_split_asm option.split_asm)
  then show ?thesis
  proof cases
    case begins
    have "dn_name (of_new_node n nm) = dn_name n \<and> dn_full_name (of_new_node n nm) = dn_full_name n
        \<and> (names_ok n \<longrightarrow> names_ok (of_new_node n nm))" for n
      using names_ok_new [of n nm] by (simp add: of_new_node_def)
    from names_ok_update [OF this assms(2)] show ?thesis by (simp add: begins)
  next
    case property
    have "dn_name (new_property nm v n) = dn_name n \<and> dn_full_name (new_property nm v n) = dn_full_name n
        \<and> (names_ok n \<longrightarrow> names_ok (new_property nm v n))" for n
      by (simp add: names_ok_property)
    from names_ok_update [OF this assms(2)] show ?thesis by (simp add: property)
  qed (use assms in simp)
qed

lemma unflatten_loop_returns:
  assumes "length blob + 8 < 2 ^ 32"
  shows "names_ok root \<Longrightarrow> \<exists>res. unflatten_loop blob f dt root node = Some res
    \<and> (\<forall>t. res = Inr t \<longrightarrow> names_ok t)"
proof (induction "2 ^ 32 - unat dt" arbitrary: dt root node rule: less_induct)
  case less
  show ?case
  proof (cases "unflatten_step blob f dt root node")
    case (Inl e) then show ?thesis by (simp add: unflatten_loop.simps)
  next
    case (Inr st)
    show ?thesis
    proof (cases st)
      case (Done t)
      with Inr unflatten_step_done less(2) have "names_ok t" by blast
      with Inr Done show ?thesis by (simp add: unflatten_loop.simps)
    next
      case (Again dt' root' node')
      have "unat dt < unat dt'" using unflatten_step_grows assms Inr Again by blast
      moreover have "unat dt' < 2 ^ 32" using unsigned_less [of dt'] by simp
      ultimately have "2 ^ 32 - unat dt' < 2 ^ 32 - unat dt" by linarith
      moreover have "names_ok root'" using unflatten_step_names less(2) Inr Again by blast
      ultimately show ?thesis using less(1) [of dt' root' node'] Inr Again by (simp add: unflatten_loop.simps [of blob f dt])
    qed
  qed
qed

text \<open>
  C10: \<open>of_unflatten_dtb\<close> returns for every blob below 4 GiB, whatever it holds: each pass of its loop
  moves the offset forward.  When it returns a tree, the full name of every node is the path of names that leads to it.
\<close>

theorem of_unflatten_dtb_returns:
  assumes "length blob + 8 < 2 ^ 32"
  shows "\<exists>res. of_unflatten_dtb blob = Some res \<and> (\<forall>t. res = Inr t \<longrightarrow> names_ok t)"
  using unflatten_loop_returns [OF assms, of of_new_root "fdt_header_of blob" "fh_off_dt_struct (fdt_header_of blob)" None]
  by (auto simp: of_unflatten_dtb_def Let_def of_new_root_def)

lemma of_unflatten_dtb_returns_witness:
  "\<exists>res. of_unflatten_dtb (replicate 40 0xff) = Some res \<and> (\<forall>t. res = Inr t \<longrightarrow> names_ok t)"
  by (rule of_unflatten_dtb_returns) simp

section \<open>The encoding\<close>

text \<open>What \<open>of_flatten_dtb\<close> writes, as a function of the tree; \<open>so\<close> is the offset of the next string.\<close>

definition up4 :: "nat \<Rightarrow> nat" where
  "up4 n = (n + 3) div 4 * 4"

definition enc_begin :: "string \<Rightarrow> bytes" where
  "enc_begin nm = put_unaligned_be32 fdt_begin_node @ str_bytes nm @ replicate (up4 (5 + length nm) - (4 + length nm)) 0"

definition pp_bytes :: "property \<Rightarrow> bytes" where
  "pp_bytes p = (case pp_value p of None \<Rightarrow> [] | Some v \<Rightarrow> v)"

definition enc_prop :: "nat \<Rightarrow> property \<Rightarrow> bytes" where
  "enc_prop so p = put_unaligned_be32 fdt_prop @ put_unaligned_be32 (word_of_nat (pp_length p))
     @ put_unaligned_be32 (word_of_nat so) @ pp_bytes p @ replicate (up4 (pp_length p) - pp_length p) 0"

fun enc_props :: "nat \<Rightarrow> property list \<Rightarrow> bytes" where
  "enc_props so [] = []"
| "enc_props so (p # ps) = enc_prop so p @ enc_props (so + length (pp_name p) + 1) ps"

definition strs_props :: "property list \<Rightarrow> bytes" where
  "strs_props ps = concat (map (\<lambda>p. str_bytes (pp_name p) @ [0]) ps)"

fun strs_node :: "device_node \<Rightarrow> bytes" where
  "strs_node (Node n f h ps cs) = strs_props ps @ concat (map strs_node cs)"

fun enc_node :: "nat \<Rightarrow> device_node \<Rightarrow> bytes"
and enc_children :: "nat \<Rightarrow> device_node list \<Rightarrow> bytes" where
  "enc_node so (Node n f h ps cs) =
     enc_begin n @ enc_props so ps @ enc_children (so + length (strs_props ps)) cs @ put_unaligned_be32 fdt_end_node"
| "enc_children so [] = []"
| "enc_children so (c # cs) = enc_node so c @ enc_children (so + length (strs_node c)) cs"

text \<open>The phandle a node gets from its properties, and the trees the format can hold.\<close>

definition prop_phandle :: "u32 \<Rightarrow> property \<Rightarrow> u32" where
  "prop_phandle h p = (if pp_name p = ''phandle'' \<and> pp_length p = 4 then get_unaligned_be32 (pp_bytes p) else h)"

definition prop_ok :: "property \<Rightarrow> bool" where
  "prop_ok p \<longleftrightarrow> nul_free (pp_name p) \<and> length (pp_name p) < 1024 \<and> pp_value p \<noteq> None"

fun encodable :: "device_node \<Rightarrow> bool" where
  "encodable (Node n f h ps cs) \<longleftrightarrow> nul_free n \<and> length n < 1024 \<and> (\<forall>p \<in> set ps. prop_ok p)
     \<and> h = foldl prop_phandle 0 ps \<and> (\<forall>c \<in> set cs. encodable c)"

lemma up4_props: "n \<le> up4 n" "up4 n < n + 4" "up4 n mod 4 = 0" "d mod 4 = 0 \<Longrightarrow> up4 (d + n) = d + up4 n"
proof -
  show "n \<le> up4 n" "up4 n < n + 4" "up4 n mod 4 = 0" by (simp_all add: up4_def)
  assume "d mod 4 = 0"
  then show "up4 (d + n) = d + up4 n" unfolding up4_def by presburger
qed

lemma length_enc_begin: "length (enc_begin nm) = up4 (5 + length nm)"
  using up4_props(1) [of "5 + length nm"] by (simp add: enc_begin_def)

lemma length_pp_bytes [simp]: "length (pp_bytes p) = pp_length p"
  by (simp add: pp_bytes_def pp_length_def split: option.split)

lemma length_enc_prop: "length (enc_prop so p) = 12 + up4 (pp_length p)"
  using up4_props(1) [of "pp_length p"] by (simp add: enc_prop_def)

lemma length_enc_props_mod: "length (enc_props so ps) mod 4 = 0"
  by (induction so ps rule: enc_props.induct) (simp_all add: length_enc_prop mod_add_eq [symmetric] up4_props)

lemma length_enc_mod: "length (enc_node so t) mod 4 = 0" "length (enc_children so cs) mod 4 = 0"
proof (induction so t and so cs rule: enc_node_enc_children.induct)
  case (1 so n f h ps cs)
  have "(a + (b + (c + 4))) mod 4 = 0" if "a mod 4 = 0" "b mod 4 = 0" "c mod 4 = 0" for a b c :: nat
    using that by presburger
  then show ?case using 1 length_enc_props_mod [of so ps] by (simp add: length_enc_begin up4_props)
next
  case (3 so c cs)
  have "(a + b) mod 4 = 0" if "a mod 4 = 0" "b mod 4 = 0" for a b :: nat using that by presburger
  then show ?case using 3 by simp
qed simp

section \<open>Reading what is there\<close>

definition bytes_at :: "bytes \<Rightarrow> nat \<Rightarrow> bytes \<Rightarrow> bool" where
  "bytes_at blob d bs \<longleftrightarrow> (\<exists>rest. d \<le> length blob \<and> drop d blob = bs @ rest)"

lemma bytes_at_append: "bytes_at blob d (a @ b) \<longleftrightarrow> bytes_at blob d a \<and> bytes_at blob (d + length a) b"
proof
  assume "bytes_at blob d (a @ b)"
  then obtain rest where r: "d \<le> length blob" "drop d blob = a @ b @ rest" by (auto simp: bytes_at_def)
  have "drop (d + length a) blob = b @ rest" using arg_cong [OF r(2), of "drop (length a)"] by (simp add: add.commute)
  moreover have "d + length a \<le> length blob" using arg_cong [OF r(2), of length] r(1) by simp
  ultimately show "bytes_at blob d a \<and> bytes_at blob (d + length a) b" using r by (auto simp: bytes_at_def)
next
  assume "bytes_at blob d a \<and> bytes_at blob (d + length a) b"
  then obtain x y where r: "d \<le> length blob" "drop d blob = a @ x" "drop (d + length a) blob = b @ y"
    by (auto simp: bytes_at_def)
  have "x = b @ y" using arg_cong [OF r(2), of "drop (length a)"] r(3) by (simp add: add.commute)
  with r show "bytes_at blob d (a @ b)" by (auto simp: bytes_at_def)
qed

lemma bytes_at_length: "bytes_at blob d bs \<Longrightarrow> d + length bs \<le> length blob"
  unfolding bytes_at_def by (metis add_le_cancel_left drop_drop le_add1 length_append length_drop le_add_diff_inverse)

lemma bytes_at_be32: "bytes_at blob d (put_unaligned_be32 w) \<Longrightarrow> blob_be32 blob d = Inr w"
  using bytes_at_length [of blob d "put_unaligned_be32 w"]
  by (auto simp: blob_be32_def bytes_at_def)

lemma bytes_at_take: "bytes_at blob d bs \<Longrightarrow> take (length bs) (drop d blob) = bs"
  by (auto simp: bytes_at_def)

lemma bytes_at_string:
  assumes "bytes_at blob d (str_bytes s @ 0 # x)" and "nul_free s"
  shows "blob_string blob d = Inr s" and "length s < lim \<Longrightarrow> blob_strnlen blob d lim = Inr (length s)"
proof -
  obtain rest where r: "drop d blob = str_bytes s @ 0 # x @ rest" using assms(1) by (auto simp: bytes_at_def)
  have z: "0 \<notin> set (str_bytes s)" using assms(2) by simp
  show "blob_string blob d = Inr s" using z by (simp add: blob_string_def r)
  show "length s < lim \<Longrightarrow> blob_strnlen blob d lim = Inr (length s)"
    using z by (simp add: blob_strnlen_def r Let_def)
qed

text \<open>The struct block ends at \<open>E\<close>; the offsets below it do not wrap.\<close>

definition geom :: "fdt_header \<Rightarrow> nat \<Rightarrow> bool" where
  "geom f E \<longleftrightarrow> unat (fh_off_dt_struct f) + unat (fh_size_dt_struct f) = E \<and> E + 8 < 2 ^ 31"

lemma unat_word_of_small: "n < 2 ^ 32 \<Longrightarrow> unat (word_of_nat n :: u32) = n"
  by (simp add: unsigned_of_nat take_bit_eq_mod)

lemma geom_end: "geom f E \<Longrightarrow> unat (dt_struct_end f) = E"
  unfolding geom_def dt_struct_end_def by (simp add: unat_word_ariths)

lemma advance_ok:
  assumes "geom f E" and "d mod 4 = 0" and "d + up4 sz \<le> E" and "0 < sz"
  shows "advance_or_fail f (word_of_nat d) sz root node = Inr (Again (word_of_nat (d + up4 sz)) root node)"
proof -
  have E: "E + 8 < 2 ^ 31" using assms(1) by (simp add: geom_def)
  have b: "d + sz + 3 < 2 ^ 32" "d < 2 ^ 32" using assms(3) E up4_props(1) [of sz] by simp_all
  have u: "unat (word_of_nat (d + up4 sz) :: u32) = d + up4 sz"
    using assms(3) E by (intro unat_word_of_small) simp
  have "unat (align4 (word_of_nat d + word_of_nat sz)) = d + up4 sz"
    using advance_unat [of "word_of_nat d" sz] b up4_props(4) [OF assms(2), of sz]
    by (simp add: unat_word_of_small up4_def)
  then have a: "align4 (word_of_nat d + word_of_nat sz) = word_of_nat (d + up4 sz)"
    using u by (simp only: word_unat_eq_iff)
  have "\<not> dt_struct_end f < word_of_nat (d + up4 sz)"
    using u geom_end [OF assms(1)] assms(3) by (simp add: word_less_nat_alt)
  moreover have "(word_of_nat (d + up4 sz) :: u32) \<noteq> 0"
    using u assms(4) up4_props(1) [of sz] by (metis add_is_0 le_zero_eq not_gr_zero unat_0)
  ultimately show ?thesis by (simp add: advance_or_fail_def dt_struct_advance_def a Let_def)
qed

lemma loop_step: "unflatten_step blob f dt root node = Inr (Again dt' root' node') \<Longrightarrow>
    unflatten_loop blob f dt root node = unflatten_loop blob f dt' root' node'"
  by (simp add: unflatten_loop.simps [of blob f dt])

lemma step_tag:
  assumes "bytes_at blob d (put_unaligned_be32 tag)" and "d < 2 ^ 32"
  shows "unflatten_step blob f (word_of_nat d) root node =
     (if tag = fdt_begin_node then unflatten_begin blob f (word_of_nat d) root node
      else if tag = fdt_end_node then
        (case node of None \<Rightarrow> Inl EINVAL | Some r \<Rightarrow> advance_or_fail f (word_of_nat d) 4 root (of_get_parent r))
      else if tag = fdt_prop then unflatten_prop blob f (word_of_nat d) root node
      else if tag = fdt_nop then advance_or_fail f (word_of_nat d) 4 root node
      else if tag = fdt_end then Inr (Done root)
      else Inl EINVAL)"
  using bytes_at_be32 [OF assms(1)] assms(2) by (simp add: unflatten_step_def unat_word_of_small)

lemma loop_begin:
  assumes "geom f E" and "d mod 4 = 0" and "bytes_at blob d (enc_begin nm)" and "nul_free nm"
    and "d + length (enc_begin nm) \<le> E"
  shows "unflatten_loop blob f (word_of_nat d) root (Some r) =
      unflatten_loop blob f (word_of_nat (d + length (enc_begin nm))) (node_update root r (\<lambda>n. of_new_node n nm))
        (Some (r @ [length (dn_children (the_node root r))]))"
    and "unflatten_loop blob f (word_of_nat d) root None =
      unflatten_loop blob f (word_of_nat (d + length (enc_begin nm))) root (Some [])"
proof -
  let ?dt = "word_of_nat d :: u32"
  have E: "E + 8 < 2 ^ 31" using assms(1) by (simp add: geom_def)
  have len: "d + (5 + length nm) \<le> E"
    using assms(5) up4_props(1) [of "5 + length nm"] by (simp add: length_enc_begin)
  have ud: "unat ?dt = d" using len E by (intro unat_word_of_small) simp
  obtain k where k: "up4 (5 + length nm) - (4 + length nm) = Suc k"
    using up4_props(1) [of "5 + length nm"] by (metis Suc_diff_Suc Suc_eq_plus1 add.commute add_Suc_right
        le_eq_less_or_eq less_add_one numeral_eq_Suc order.strict_trans2 plus_nat.add_Suc pred_numeral_simps(3) semiring_norm(28))
  have at: "bytes_at blob d (put_unaligned_be32 fdt_begin_node)" "bytes_at blob (d + 4) (str_bytes nm @ 0 # replicate k 0)"
    using assms(3) unfolding enc_begin_def k by (simp_all add: bytes_at_append)
  let ?ml = "word_of_int (int (unat (fh_off_dt_struct f)) + int (unat (fh_size_dt_struct f)) - int (d + 4)) :: u32"
  have "int (unat (fh_off_dt_struct f)) + int (unat (fh_size_dt_struct f)) - int (d + 4) = int (E - (d + 4))"
  proof -
    have "int (unat (fh_off_dt_struct f)) + int (unat (fh_size_dt_struct f)) = int E"
      using assms(1) unfolding geom_def by (metis of_nat_add)
    then show ?thesis using len by (simp add: of_nat_diff)
  qed
  then have ml: "?ml = word_of_nat (E - (d + 4))" by simp
  have uml: "unat ?ml = E - (d + 4)" "unat (?ml + 1) = E - (d + 4) + 1"
  proof -
    show "unat ?ml = E - (d + 4)" unfolding ml using E by (intro unat_word_of_small) simp
    have "?ml + 1 = word_of_nat (E - (d + 4) + 1)" unfolding ml by simp
    then show "unat (?ml + 1) = E - (d + 4) + 1" using E by (simp only:) (intro unat_word_of_small, simp)
  qed
  have sl: "blob_strnlen blob (d + 4) (unat (?ml + 1)) = Inr (length nm)"
    using bytes_at_string(2) [OF at(2) assms(4)] len unfolding uml by simp
  have adv: "advance_or_fail f ?dt (4 + length nm + 1) root' nd
      = Inr (Again (word_of_nat (d + length (enc_begin nm))) root' nd)" for root' nd
    using advance_ok [OF assms(1,2), of "5 + length nm"] assms(5) by (simp add: length_enc_begin add.commute)
  have st: "unflatten_step blob f ?dt root nd = unflatten_begin blob f ?dt root nd" for nd
    using step_tag [OF at(1)] len E by simp
  have bg: "unflatten_begin blob f ?dt root nd = (case nd of
        None \<Rightarrow> advance_or_fail f ?dt (4 + length nm + 1) root (Some [])
      | Some r \<Rightarrow> advance_or_fail f ?dt (4 + length nm + 1) (node_update root r (\<lambda>n. of_new_node n nm))
          (Some (r @ [length (dn_children (the_node root r))])))" for nd
  proof -
    have "\<not> E - (d + 4) < length nm" using len by simp
    then show ?thesis using sl bytes_at_string(1) [OF at(2) assms(4)]
      unfolding unflatten_begin_def ud Let_def uml by (simp split: option.split)
  qed
  show "unflatten_loop blob f ?dt root (Some r) =
      unflatten_loop blob f (word_of_nat (d + length (enc_begin nm))) (node_update root r (\<lambda>n. of_new_node n nm))
        (Some (r @ [length (dn_children (the_node root r))]))"
    by (rule loop_step) (simp only: st bg adv option.case)
  show "unflatten_loop blob f ?dt root None =
      unflatten_loop blob f (word_of_nat (d + length (enc_begin nm))) root (Some [])"
    by (rule loop_step) (simp only: st bg adv option.case)
qed

lemma loop_end:
  assumes "geom f E" and "d mod 4 = 0" and "bytes_at blob d (put_unaligned_be32 fdt_end_node)" and "d + 4 \<le> E"
  shows "unflatten_loop blob f (word_of_nat d) root (Some r) =
      unflatten_loop blob f (word_of_nat (d + 4)) root (of_get_parent r)"
proof -
  have "d < 2 ^ 32" using assms(1,4) by (simp add: geom_def)
  from step_tag [OF assms(3) this] advance_ok [OF assms(1,2), of 4] assms(4) show ?thesis
    by (intro loop_step) (simp add: fdt_tags up4_def)
qed

lemma loop_fdt_end:
  assumes "bytes_at blob d (put_unaligned_be32 fdt_end)" and "d < 2 ^ 32"
  shows "unflatten_loop blob f (word_of_nat d) root node = Some (Inr root)"
  using step_tag [OF assms] by (simp add: unflatten_loop.simps fdt_tags)

lemma loop_prop:
  assumes "geom f E" and "d mod 4 = 0" and "bytes_at blob d (enc_prop so p)" and "prop_ok p"
    and "d + length (enc_prop so p) \<le> E"
    and "bytes_at blob (unat (fh_off_dt_strings f) + so) (str_bytes (pp_name p) @ [0])"
    and "so \<le> unat (fh_size_dt_strings f)"
  shows "unflatten_loop blob f (word_of_nat d) root (Some r) =
      unflatten_loop blob f (word_of_nat (d + length (enc_prop so p)))
        (node_update root r (new_property (pp_name p) (pp_bytes p))) (Some r)"
proof -
  let ?dt = "word_of_nat d :: u32"
  let ?l = "pp_length p"
  have E: "E + 8 < 2 ^ 31" using assms(1) by (simp add: geom_def)
  have len: "d + 12 + ?l \<le> E" using assms(5) up4_props(1) [of ?l] by (simp add: length_enc_prop)
  have ud: "unat ?dt = d" using len E by (intro unat_word_of_small) simp
  have ul: "unat (word_of_nat ?l :: u32) = ?l" using len E by (intro unat_word_of_small) simp
  have us: "unat (word_of_nat so :: u32) = so"
  proof -
    have "unat (fh_size_dt_strings f) < 2 ^ LENGTH(32)" by (rule unsigned_less)
    then show ?thesis using assms(7) by (intro unat_word_of_small) simp
  qed
  have at: "bytes_at blob d (put_unaligned_be32 fdt_prop)" "bytes_at blob (d + 4) (put_unaligned_be32 (word_of_nat ?l))"
      "bytes_at blob (d + 8) (put_unaligned_be32 (word_of_nat so))" "bytes_at blob (d + 12) (pp_bytes p)"
    using assms(3) unfolding enc_prop_def by (simp_all add: bytes_at_append add.assoc)
  have str: "dt_string f (word_of_nat so) = Some (unat (fh_off_dt_strings f) + so)"
    using assms(7) us by (simp add: dt_string_def word_less_nat_alt)
  have nm: "blob_string blob (unat (fh_off_dt_strings f) + so) = Inr (pp_name p)"
    using bytes_at_string(1) [OF assms(6)] assms(4) by (simp add: prop_ok_def)
  have dat: "take ?l (drop (d + 12) blob) = pp_bytes p" "d + 12 + ?l \<le> length blob"
    using bytes_at_take [OF at(4)] bytes_at_length [OF at(4)] by simp_all
  have "up4 (12 + ?l) = 12 + up4 ?l" by (rule up4_props(4)) simp
  then have adv: "advance_or_fail f ?dt (12 + ?l) root' nd
      = Inr (Again (word_of_nat (d + length (enc_prop so p))) root' nd)" for root' nd
    using advance_ok [OF assms(1,2), of "12 + ?l"] assms(5) by (simp add: length_enc_prop)
  have "\<not> 2 ^ 31 \<le> ?l" using len E by simp
  then have "unflatten_prop blob f ?dt root (Some r) =
      advance_or_fail f ?dt (12 + ?l) (node_update root r (new_property (pp_name p) (pp_bytes p))) (Some r)"
    using dat unfolding unflatten_prop_def ud bytes_at_be32 [OF at(2)] bytes_at_be32 [OF at(3)] bindE_simps str option.case nm ul
    by simp
  moreover have "unflatten_step blob f ?dt root (Some r) = unflatten_prop blob f ?dt root (Some r)"
    using step_tag [OF at(1)] len E by (simp add: fdt_tags)
  ultimately show ?thesis by (intro loop_step) (simp only: adv)
qed

text \<open>The tree with the node at \<open>r\<close> replaced.\<close>

definition plug :: "device_node \<Rightarrow> node_ref \<Rightarrow> device_node \<Rightarrow> device_node" where
  "plug R r n = node_update R r (\<lambda>_. n)"

lemma update_plug: "valid_ref R r \<Longrightarrow> node_update (plug R r n) r g = plug R r (g n)"
  unfolding plug_def
proof (induction R r "\<lambda>_ :: device_node. n" rule: node_update.induct)
  case (2 t i r)
  then show ?case by (cases t) simp
qed simp

lemma the_node_plug: "valid_ref R r \<Longrightarrow> the_node (plug R r n) r = n \<and> valid_ref (plug R r n) r"
  unfolding plug_def by (induction R r "\<lambda>_ :: device_node. n" rule: node_update.induct) auto

lemma valid_ref_snoc: "valid_ref R r \<Longrightarrow> k < length (dn_children (the_node R r)) \<Longrightarrow> valid_ref R (r @ [k])"
  by (induction r arbitrary: R) auto

lemma plug_snoc:
  "valid_ref R r \<Longrightarrow> k < length (dn_children n) \<Longrightarrow>
     plug (plug R r n) (r @ [k]) c = plug R r (set_children n ((dn_children n)[k := c]))"
proof (induction r arbitrary: R)
  case (Cons i r)
  then show ?case by (cases R) (simp add: plug_def)
qed (simp add: plug_def)

text \<open>A run of properties.\<close>

definition add_prop :: "device_node \<Rightarrow> property \<Rightarrow> device_node" where
  "add_prop n p = new_property (pp_name p) (pp_bytes p) n"

lemma add_prop_node: "prop_ok p \<Longrightarrow> add_prop (Node nm f h qs cs) p = Node nm f (prop_phandle h p) (qs @ [p]) cs"
  by (cases p) (auto simp: add_prop_def new_property_def Let_def of_new_property_def prop_phandle_def prop_ok_def pp_bytes_def pp_length_def)

lemma add_props_node: "\<forall>p \<in> set ps. prop_ok p \<Longrightarrow>
    foldl add_prop (Node nm f h qs cs) ps = Node nm f (foldl prop_phandle h ps) (qs @ ps) cs"
  by (induction ps arbitrary: h qs) (simp_all add: add_prop_node)

lemma strs_props_Cons: "strs_props (p # ps) = (str_bytes (pp_name p) @ [0]) @ strs_props ps"
  by (simp add: strs_props_def)

lemma read_props:
  assumes "geom f E" and "valid_ref R r"
  shows "d mod 4 = 0 \<Longrightarrow> bytes_at blob d (enc_props so ps) \<Longrightarrow> d + length (enc_props so ps) \<le> E
    \<Longrightarrow> bytes_at blob (unat (fh_off_dt_strings f) + so) (strs_props ps)
    \<Longrightarrow> so + length (strs_props ps) \<le> unat (fh_size_dt_strings f) \<Longrightarrow> \<forall>p \<in> set ps. prop_ok p
    \<Longrightarrow> unflatten_loop blob f (word_of_nat d) (plug R r n) (Some r) =
      unflatten_loop blob f (word_of_nat (d + length (enc_props so ps))) (plug R r (foldl add_prop n ps)) (Some r)"
proof (induction ps arbitrary: d so n)
  case (Cons p ps)
  have mod: "(d + length (enc_prop so p)) mod 4 = 0"
    using Cons.prems(1) up4_props(3) [of "pp_length p"] by (simp add: length_enc_prop mod_add_eq [symmetric])
  have at: "bytes_at blob d (enc_prop so p)" "bytes_at blob (d + length (enc_prop so p)) (enc_props (so + length (pp_name p) + 1) ps)"
    using Cons.prems(2) by (simp_all add: bytes_at_append)
  have st: "bytes_at blob (unat (fh_off_dt_strings f) + so) (str_bytes (pp_name p) @ [0])"
      "bytes_at blob (unat (fh_off_dt_strings f) + (so + length (pp_name p) + 1)) (strs_props ps)"
    using Cons.prems(4) bytes_at_append [of blob _ "str_bytes (pp_name p) @ [0]" "strs_props ps"]
    unfolding strs_props_Cons by (simp_all add: add.assoc)
  have "unflatten_loop blob f (word_of_nat d) (plug R r n) (Some r) =
      unflatten_loop blob f (word_of_nat (d + length (enc_prop so p))) (plug R r (add_prop n p)) (Some r)"
    using loop_prop [OF assms(1) Cons.prems(1) at(1) _ _ st(1)] Cons.prems(3,5,6)
    by (simp add: update_plug [OF assms(2)] add_prop_def)
  also have "\<dots> = unflatten_loop blob f (word_of_nat (d + length (enc_prop so p) + length (enc_props (so + length (pp_name p) + 1) ps)))
      (plug R r (foldl add_prop (add_prop n p) ps)) (Some r)"
    using Cons.prems(3,5,6) by (intro Cons.IH [OF mod at(2) _ st(2)]) (simp_all add: strs_props_Cons)
  finally show ?case by (simp add: add.assoc)
qed simp

lemma of_get_parent_snoc [simp]: "of_get_parent (r @ [k]) = Some r"
  by (simp add: of_get_parent_def)

lemma read_node:
  assumes g: "geom f E"
  shows "d mod 4 = 0 \<Longrightarrow> bytes_at blob d (enc_node so t) \<Longrightarrow> d + length (enc_node so t) \<le> E
      \<Longrightarrow> bytes_at blob (unat (fh_off_dt_strings f) + so) (strs_node t)
      \<Longrightarrow> so + length (strs_node t) \<le> unat (fh_size_dt_strings f) \<Longrightarrow> encodable t \<Longrightarrow> names_ok t
      \<Longrightarrow> dn_full_name t = dn_full_name n @ ''/'' @ dn_name t \<Longrightarrow> valid_ref R r
      \<Longrightarrow> unflatten_loop blob f (word_of_nat d) (plug R r n) (Some r) =
        unflatten_loop blob f (word_of_nat (d + length (enc_node so t)))
          (plug R r (set_children n (dn_children n @ [t]))) (Some r)"
    and "d mod 4 = 0 \<Longrightarrow> bytes_at blob d (enc_children so cs) \<Longrightarrow> d + length (enc_children so cs) \<le> E
      \<Longrightarrow> bytes_at blob (unat (fh_off_dt_strings f) + so) (concat (map strs_node cs))
      \<Longrightarrow> so + length (concat (map strs_node cs)) \<le> unat (fh_size_dt_strings f) \<Longrightarrow> \<forall>c \<in> set cs. encodable c \<and> names_ok c
      \<Longrightarrow> \<forall>c \<in> set cs. dn_full_name c = dn_full_name n @ ''/'' @ dn_name c \<Longrightarrow> valid_ref R r
      \<Longrightarrow> unflatten_loop blob f (word_of_nat d) (plug R r n) (Some r) =
        unflatten_loop blob f (word_of_nat (d + length (enc_children so cs)))
          (plug R r (set_children n (dn_children n @ cs))) (Some r)"
proof (induction so t and so cs arbitrary: d n R r and d n R r rule: enc_node_enc_children.induct)
  case (1 so nm fu h ps cs)
  let ?l1 = "length (enc_begin nm)" and ?l2 = "length (enc_props so ps)"
    and ?l3 = "length (enc_children (so + length (strs_props ps)) cs)"
  let ?k = "length (dn_children n)"
  let ?n1 = "of_new_node n nm"
  have ok: "nul_free nm" "\<forall>p \<in> set ps. prop_ok p" "h = foldl prop_phandle 0 ps" "\<forall>c \<in> set cs. encodable c \<and> names_ok c"
      "\<forall>c \<in> set cs. dn_full_name c = fu @ ''/'' @ dn_name c" "fu = dn_full_name n @ ''/'' @ nm"
    using 1(7,8,9) by auto
  have at: "bytes_at blob d (enc_begin nm)" "bytes_at blob (d + ?l1) (enc_props so ps)"
      "bytes_at blob (d + ?l1 + ?l2) (enc_children (so + length (strs_props ps)) cs)"
      "bytes_at blob (d + ?l1 + ?l2 + ?l3) (put_unaligned_be32 fdt_end_node)"
    using 1(3) by (simp_all add: bytes_at_append add.assoc)
  have st: "bytes_at blob (unat (fh_off_dt_strings f) + so) (strs_props ps)"
      "bytes_at blob (unat (fh_off_dt_strings f) + (so + length (strs_props ps))) (concat (map strs_node cs))"
    using 1(5) by (simp_all add: bytes_at_append add.assoc)
  have m1: "(d + ?l1) mod 4 = 0" using 1(2) up4_props(3) [of "5 + length nm"] by (simp add: length_enc_begin mod_add_eq [symmetric])
  have m2: "(d + ?l1 + ?l2) mod 4 = 0" using m1 length_enc_props_mod [of so ps] by (metis mod_add_self1 mod_add_eq add_0 mod_0)
  have m3: "(d + ?l1 + ?l2 + ?l3) mod 4 = 0"
    using m2 length_enc_mod(2) [of "so + length (strs_props ps)" cs] by (metis mod_add_eq add_0 mod_0)
  have len: "d + ?l1 + ?l2 + ?l3 + 4 \<le> E" using 1(4) by simp
  let ?r = "r @ [?k]" and ?R = "plug R r ?n1"
  have kn: "?k < length (dn_children ?n1)" "dn_children ?n1 ! ?k = Node nm fu 0 [] []"
    by (simp_all add: new_child_def ok(6))
  have vr: "valid_ref ?R ?r"
    using the_node_plug [OF 1(10), of ?n1] kn(1) by (intro valid_ref_snoc) simp_all
  have child: "plug ?R ?r c = plug R r (set_children n (dn_children n @ [c]))" for c
    using plug_snoc [OF 1(10) kn(1)] by (simp add: of_new_node_def) (cases n; simp)
  have start: "?R = plug ?R ?r (Node nm fu 0 [] [])"
    unfolding child by (simp add: of_new_node_def new_child_def ok(6))
  have "unflatten_loop blob f (word_of_nat d) (plug R r n) (Some r)
      = unflatten_loop blob f (word_of_nat (d + ?l1)) ?R (Some ?r)"
    using loop_begin(1) [OF g 1(2) at(1) ok(1)] len by (simp add: update_plug [OF 1(10)] the_node_plug [OF 1(10)])
  also have "\<dots> = unflatten_loop blob f (word_of_nat (d + ?l1 + ?l2))
      (plug ?R ?r (foldl add_prop (Node nm fu 0 [] []) ps)) (Some ?r)"
    by (subst start, rule read_props [OF g vr m1 at(2) _ st(1) _ ok(2)]) (use len 1(6) in simp_all)
  also have "foldl add_prop (Node nm fu 0 [] []) ps = Node nm fu h ps []"
    using add_props_node [OF ok(2)] ok(3) by simp
  also have "unflatten_loop blob f (word_of_nat (d + ?l1 + ?l2)) (plug ?R ?r (Node nm fu h ps [])) (Some ?r)
      = unflatten_loop blob f (word_of_nat (d + ?l1 + ?l2 + ?l3)) (plug ?R ?r (Node nm fu h ps cs)) (Some ?r)"
    using 1(1) [OF m2 at(3) _ st(2) _ ok(4) _ vr, of "Node nm fu h ps []"] len 1(6) ok(5) by simp
  also have "\<dots> = unflatten_loop blob f (word_of_nat (d + ?l1 + ?l2 + ?l3 + 4)) (plug ?R ?r (Node nm fu h ps cs)) (Some r)"
    using loop_end [OF g m3 at(4) len] by simp
  finally show ?case unfolding child by (simp add: add.assoc)
next
  case (2 so)
  then show ?case by (cases n) simp
next
  case (3 so c cs)
  let ?l = "length (enc_node so c)" and ?n1 = "set_children n (dn_children n @ [c])"
  have at: "bytes_at blob d (enc_node so c)" "bytes_at blob (d + ?l) (enc_children (so + length (strs_node c)) cs)"
    using 3(4) by (simp_all add: bytes_at_append)
  have st: "bytes_at blob (unat (fh_off_dt_strings f) + so) (strs_node c)"
      "bytes_at blob (unat (fh_off_dt_strings f) + (so + length (strs_node c))) (concat (map strs_node cs))"
    using 3(6) by (simp_all add: bytes_at_append add.assoc)
  have m: "(d + ?l) mod 4 = 0" using 3(3) length_enc_mod(1) [of so c] by (metis mod_add_eq add_0 mod_0)
  have "unflatten_loop blob f (word_of_nat d) (plug R r n) (Some r)
      = unflatten_loop blob f (word_of_nat (d + ?l)) (plug R r ?n1) (Some r)"
    using 3(5,7,8,9) by (intro 3(1) [OF 3(3) at(1) _ st(1) _ _ _ _ 3(10)]) simp_all
  also have "\<dots> = unflatten_loop blob f (word_of_nat (d + ?l + length (enc_children (so + length (strs_node c)) cs)))
      (plug R r (set_children ?n1 (dn_children ?n1 @ cs))) (Some r)"
    using 3(5,7,8,9) by (intro 3(2) [OF m at(2) _ st(2) _ _ _ 3(10)]) simp_all
  also have "set_children ?n1 (dn_children ?n1 @ cs) = set_children n (dn_children n @ c # cs)"
    by (cases n) simp
  finally show ?case by (simp add: add.assoc)
qed

section \<open>Writing the encoding\<close>

text \<open>Buffers that are filled up to the offset and zero behind it: \<open>Z\<close> and \<open>Y\<close> bytes are left.\<close>

definition fdt_mk :: "bytes \<Rightarrow> nat \<Rightarrow> bytes \<Rightarrow> nat \<Rightarrow> fdt" where
  "fdt_mk D Z S Y = \<lparr>fd_dt = D @ replicate Z 0, fd_dt_nextofs = word_of_nat (length D),
     fd_strings = S @ replicate Y 0, fd_str_nextofs = word_of_nat (length S)\<rparr>"

lemma ensure_enough:
  assumes "n \<le> Z" and "length D + Z < 2 ^ 31"
  shows "ensure_one fresh (D @ replicate Z 0) (word_of_nat (length D)) (word_of_nat n) = Inr (D @ replicate Z 0)"
proof -
  have "(word_of_nat (length (D @ replicate Z 0)) :: u32) - word_of_nat (length D) = word_of_nat Z" by simp
  moreover have "\<not> (word_of_nat Z :: u32) < word_of_nat n"
    using assms by (simp add: word_less_nat_alt unat_word_of_small)
  ultimately show ?thesis by (simp add: ensure_one_def Let_def)
qed

lemma ensure_space_mk:
  assumes "1024 + n \<le> Z" and "1024 \<le> Y" and "length D + Z < 2 ^ 31" and "length S + Y < 2 ^ 31"
  shows "fdt_ensure_space fresh (fdt_mk D Z S Y) n = Inr (fdt_mk D Z S Y)"
  using ensure_enough [OF assms(1,3), of fresh] ensure_enough [OF assms(2,4), of fresh]
  by (simp add: fdt_ensure_space_def fdt_mk_def)

lemma poke_mk: "length x \<le> Z \<Longrightarrow> poke (D @ replicate Z 0) (length D) x = Inr (D @ x @ replicate (Z - length x) 0)"
  by (simp add: poke_def mem_put_fits)

lemma next_ofs_mk:
  assumes "d mod 4 = 0" and "d + up4 sz < 2 ^ 31"
  shows "dt_next_ofs (word_of_nat d) (word_of_nat sz) = word_of_nat (d + up4 sz)"
proof -
  have b: "d + sz + 3 < 2 ^ 32" "d < 2 ^ 32" using assms(2) up4_props(1) [of sz] by simp_all
  have u: "unat (word_of_nat (d + up4 sz) :: u32) = d + up4 sz" using assms(2) by (intro unat_word_of_small) simp
  have "unat (align4 (word_of_nat d + word_of_nat sz)) = d + up4 sz"
    using advance_unat [of "word_of_nat d" sz] b up4_props(4) [OF assms(1), of sz] by (simp add: unat_word_of_small up4_def)
  then show ?thesis unfolding dt_next_ofs_def using u by (simp only: word_unat_eq_iff)
qed

lemma zeros_split: "a \<le> b \<Longrightarrow> b \<le> Z \<Longrightarrow> replicate (Z - a) 0 = replicate (b - a) 0 @ replicate (Z - b) (0 :: u8)"
  by (simp add: replicate_add [symmetric])

lemma flatten_begin_mk:
  assumes "1024 \<le> Z" and "1024 \<le> Y" and "length D + Z < 2 ^ 31" and "length S + Y < 2 ^ 31"
    and "length nm < 1024" and "length D mod 4 = 0" and "length (enc_begin nm) \<le> Z"
  shows "flatten_begin fresh (fdt_mk D Z S Y) nm = Inr (fdt_mk (D @ enc_begin nm) (Z - length (enc_begin nm)) S Y)"
proof -
  let ?x = "put_unaligned_be32 fdt_begin_node @ str_bytes nm"
  have Z: "up4 (5 + length nm) \<le> Z" using assms(7) by (simp add: length_enc_begin)
  have e: "fdt_ensure_space fresh (fdt_mk D Z S Y) 0 = Inr (fdt_mk D Z S Y)"
    using assms(1-4) by (intro ensure_space_mk) simp_all
  have u: "unat (word_of_nat (length D) :: u32) = length D" using assms(3) by (intro unat_word_of_small) simp
  have "length ?x \<le> Z" using Z up4_props(1) [of "5 + length nm"] by simp
  then have p: "poke (D @ replicate Z 0) (length D) ?x = Inr (D @ ?x @ replicate (Z - length ?x) 0)" by (rule poke_mk)
  have "replicate (Z - length ?x) 0 = replicate (up4 (5 + length nm) - (4 + length nm)) 0 @ replicate (Z - up4 (5 + length nm)) (0 :: u8)"
    using zeros_split [of "4 + length nm" "up4 (5 + length nm)" Z] Z up4_props(1) [of "5 + length nm"] by simp
  then have x: "D @ ?x @ replicate (Z - length ?x) 0 = (D @ enc_begin nm) @ replicate (Z - length (enc_begin nm)) 0"
    unfolding length_enc_begin by (simp add: enc_begin_def)
  have n: "dt_next_ofs (word_of_nat (length D)) (4 + word_of_int (int (length nm)) + 1) = word_of_nat (length (D @ enc_begin nm))"
    using next_ofs_mk [OF assms(6), of "5 + length nm"] Z assms(3) by (simp add: length_enc_begin add.commute add.left_commute)
  show ?thesis
    using assms(5) p [unfolded x] n unfolding flatten_begin_def e bindE_simps
    unfolding fdt_mk_def by (simp add: u lstrcpy_def add.commute)
qed

lemma flatten_prop_mk:
  assumes "1024 + pp_length p \<le> Z" and "1024 \<le> Y" and "length D + Z < 2 ^ 31" and "length S + Y < 2 ^ 31"
    and "prop_ok p" and "length D mod 4 = 0"
  shows "flatten_prop fresh (fdt_mk D Z S Y) p =
      Inr (fdt_mk (D @ enc_prop (length S) p) (Z - length (enc_prop (length S) p))
        (S @ str_bytes (pp_name p) @ [0]) (Y - (length (pp_name p) + 1)))"
proof -
  let ?l = "pp_length p" and ?so = "word_of_nat (length S) :: u32"
  let ?h = "put_unaligned_be32 fdt_prop @ put_unaligned_be32 (word_of_nat ?l)"
  let ?b = "put_unaligned_be32 ?so @ pp_bytes p"
  let ?S = "S @ str_bytes (pp_name p) @ [0]" and ?Y = "Y - (length (pp_name p) + 1)"
  have Z: "12 + up4 ?l \<le> Z" using assms(1) up4_props(2) [of ?l] by simp
  have e: "fdt_ensure_space fresh (fdt_mk D Z S Y) ?l = Inr (fdt_mk D Z S Y)"
    using assms(1-4) by (intro ensure_space_mk) simp_all
  have u: "unat (word_of_nat (length D) :: u32) = length D" using assms(3) by (intro unat_word_of_small) simp
  have p1: "poke (D @ replicate Z 0) (length D) ?h = Inr (D @ ?h @ replicate (Z - 8) 0)"
    using poke_mk [of ?h Z D] Z by simp
  have w: "(fdt_mk D Z S Y)\<lparr>fd_dt := D @ ?h @ replicate (Z - 8) 0\<rparr> =
      (fdt_mk (D @ ?h) (Z - 8) S Y)\<lparr>fd_dt_nextofs := word_of_nat (length D)\<rparr>"
    by (simp add: fdt_mk_def)
  have e0: "ensure_one fresh (S @ replicate Y 0) ?so 1024 = Inr (S @ replicate Y 0)"
    using ensure_enough [of 1024 Y S fresh] assms(2,4) by simp
  have e1: "ensure_one fresh ((D @ ?h) @ replicate (Z - 8) 0) (word_of_nat (length D)) 1024 = Inr ((D @ ?h) @ replicate (Z - 8) 0)"
  proof -
    have "(word_of_nat (length ((D @ ?h) @ replicate (Z - 8) 0)) :: u32) - word_of_nat (length D) = word_of_nat (8 + (Z - 8))"
      by simp
    moreover have "\<not> (word_of_nat (8 + (Z - 8)) :: u32) < 1024"
      using assms(1,3) Z unat_word_of_small [of "8 + (Z - 8)"] by (simp add: word_less_nat_alt)
    ultimately show ?thesis by (simp only: ensure_one_def Let_def if_False)
  qed
  have nl: "length (pp_name p) < 1024" using assms(5) by (simp add: prop_ok_def)
  have us: "unat ?so = length S" using assms(4) by (intro unat_word_of_small) simp
  have ps: "poke (S @ replicate Y 0) (length S) (str_bytes (pp_name p)) = Inr (?S @ replicate ?Y 0)"
  proof -
    have "replicate (Y - length (pp_name p)) (0 :: u8) = [0] @ replicate ?Y 0"
      using zeros_split [of "length (pp_name p)" "length (pp_name p) + 1" Y] assms(2) nl by simp
    then show ?thesis using poke_mk [of "str_bytes (pp_name p)" Y S] assms(2) nl by simp
  qed
  let ?f1 = "(fdt_mk D Z S Y)\<lparr>fd_dt := D @ ?h @ replicate (Z - 8) 0\<rparr>"
  let ?f2 = "\<lparr>fd_dt = D @ ?h @ replicate (Z - 8) 0, fd_dt_nextofs = word_of_nat (length D),
      fd_strings = ?S @ replicate ?Y 0, fd_str_nextofs = word_of_nat (length ?S)\<rparr> :: fdt"
  have sp: "fdt_ensure_space fresh ?f1 0 = Inr ?f1"
    using e0 e1 by (simp add: fdt_ensure_space_def fdt_mk_def)
  have as: "dt_add_string fresh ?f1 (pp_name p) = Inr (?so, ?f2)"
    unfolding dt_add_string_def sp using ps nl us
    by (simp add: lstrcpy_def fdt_mk_def add.assoc)
  have p2: "poke (D @ ?h @ replicate (Z - 8) 0) (length D + 8) ?b
      = Inr ((D @ enc_prop (length S) p) @ replicate (Z - length (enc_prop (length S) p)) 0)"
  proof -
    have "length ?b \<le> Z - 8" using Z up4_props(1) [of ?l] by simp
    then have "poke ((D @ ?h) @ replicate (Z - 8) 0) (length (D @ ?h)) ?b
        = Inr ((D @ ?h) @ ?b @ replicate (Z - 8 - length ?b) 0)" by (rule poke_mk)
    moreover have "replicate (Z - 8 - length ?b) (0 :: u8) = replicate (up4 ?l - ?l) 0 @ replicate (Z - (12 + up4 ?l)) 0"
      using zeros_split [of "12 + ?l" "12 + up4 ?l" Z] Z up4_props(1) [of ?l] by (simp add: diff_diff_add)
    ultimately show ?thesis using up4_props(1) [of ?l] by (simp add: enc_prop_def add.assoc)
  qed
  have n: "dt_next_ofs (word_of_nat (length D)) (12 + word_of_nat ?l) = word_of_nat (length (D @ enc_prop (length S) p))"
  proof -
    have "up4 (12 + ?l) = 12 + up4 ?l" by (rule up4_props(4)) simp
    then show ?thesis using next_ofs_mk [OF assms(6), of "12 + ?l"] Z assms(3) by (simp add: length_enc_prop)
  qed
  have b: "(case pp_value p of None \<Rightarrow> [] | Some v \<Rightarrow> v) = pp_bytes p" by (simp add: pp_bytes_def)
  have f: "fd_dt (fdt_mk D Z S Y) = D @ replicate Z 0" "fd_dt_nextofs (fdt_mk D Z S Y) = word_of_nat (length D)"
    by (simp_all add: fdt_mk_def)
  show ?thesis
    unfolding flatten_prop_def e bindE_simps Let_def f u p1 as prod.case b fdt.select_convs p2 n
    by (simp add: fdt_mk_def)
qed

lemma flatten_props_mk:
  "1024 + length (enc_props (length S) ps) \<le> Z \<Longrightarrow> 1024 + length (strs_props ps) \<le> Y
   \<Longrightarrow> length D + Z < 2 ^ 31 \<Longrightarrow> length S + Y < 2 ^ 31 \<Longrightarrow> \<forall>p \<in> set ps. prop_ok p \<Longrightarrow> length D mod 4 = 0
   \<Longrightarrow> flatten_props fresh (fdt_mk D Z S Y) ps =
      Inr (fdt_mk (D @ enc_props (length S) ps) (Z - length (enc_props (length S) ps))
        (S @ strs_props ps) (Y - length (strs_props ps)))"
proof (induction ps arbitrary: D Z S Y)
  case (Cons p ps)
  let ?l = "length (enc_prop (length S) p)" and ?n = "length (pp_name p) + 1"
  have l: "?l = 12 + up4 (pp_length p)" "pp_length p \<le> up4 (pp_length p)" by (simp_all add: length_enc_prop up4_props)
  have 1: "flatten_prop fresh (fdt_mk D Z S Y) p = Inr (fdt_mk (D @ enc_prop (length S) p) (Z - ?l) (S @ str_bytes (pp_name p) @ [0]) (Y - ?n))"
    using Cons.prems l by (intro flatten_prop_mk) (simp_all add: strs_props_Cons)
  have m: "length (D @ enc_prop (length S) p) mod 4 = 0"
    using Cons.prems(6) up4_props(3) [of "pp_length p"] by (simp add: l(1) mod_add_eq [symmetric])
  have 2: "flatten_props fresh (fdt_mk (D @ enc_prop (length S) p) (Z - ?l) (S @ str_bytes (pp_name p) @ [0]) (Y - ?n)) ps =
      Inr (fdt_mk ((D @ enc_prop (length S) p) @ enc_props (length S + ?n) ps) (Z - ?l - length (enc_props (length S + ?n) ps))
        ((S @ str_bytes (pp_name p) @ [0]) @ strs_props ps) (Y - ?n - length (strs_props ps)))"
    using Cons.IH [of "S @ str_bytes (pp_name p) @ [0]" "Z - ?l" "Y - ?n" "D @ enc_prop (length S) p"] Cons.prems m
    by (simp add: strs_props_Cons)
  show ?case
    using 1 2 by (simp add: strs_props_Cons add.assoc diff_diff_add) 
qed (simp add: strs_props_def fdt_mk_def)

lemma flatten_tag_mk:
  assumes "4 \<le> Z" and "length D + Z < 2 ^ 31" and "length D mod 4 = 0"
  shows "flatten_tag (fdt_mk D Z S Y) tag = Inr (fdt_mk (D @ put_unaligned_be32 tag) (Z - 4) S Y)"
proof -
  have u: "unat (word_of_nat (length D) :: u32) = length D" using assms(2) by (intro unat_word_of_small) simp
  have n: "dt_next_ofs (word_of_nat (length D)) 4 = word_of_nat (length D + 4)"
    using next_ofs_mk [OF assms(3), of 4] assms(1,2) by (simp add: up4_def)
  show ?thesis
    using poke_mk [of "put_unaligned_be32 tag" Z D] assms(1) n by (simp add: flatten_tag_def fdt_mk_def u)
qed

lemma flatten_node_mk:
  "1024 + length (enc_node (length S) t) \<le> Z \<Longrightarrow> 1024 + length (strs_node t) \<le> Y
   \<Longrightarrow> length D + Z < 2 ^ 31 \<Longrightarrow> length S + Y < 2 ^ 31 \<Longrightarrow> encodable t \<Longrightarrow> length D mod 4 = 0
   \<Longrightarrow> flatten_node fresh (fdt_mk D Z S Y) t =
      Inr (fdt_mk (D @ enc_node (length S) t) (Z - length (enc_node (length S) t))
        (S @ strs_node t) (Y - length (strs_node t)))"
  "1024 + length (enc_children (length S) cs) \<le> Z \<Longrightarrow> 1024 + length (concat (map strs_node cs)) \<le> Y
   \<Longrightarrow> length D + Z < 2 ^ 31 \<Longrightarrow> length S + Y < 2 ^ 31 \<Longrightarrow> \<forall>c \<in> set cs. encodable c \<Longrightarrow> length D mod 4 = 0
   \<Longrightarrow> flatten_children fresh (fdt_mk D Z S Y) cs =
      Inr (fdt_mk (D @ enc_children (length S) cs) (Z - length (enc_children (length S) cs))
        (S @ concat (map strs_node cs)) (Y - length (concat (map strs_node cs))))"
proof (induction "length S" t and "length S" cs arbitrary: D Z S Y and D Z S Y rule: enc_node_enc_children.induct)
  case (1 n f h ps cs)
  let ?e1 = "enc_begin n" and ?e2 = "enc_props (length S) ps" and ?e3 = "enc_children (length S + length (strs_props ps)) cs"
  let ?s1 = "strs_props ps" and ?s2 = "concat (map strs_node cs)"
  have len: "1024 + (length ?e1 + (length ?e2 + (length ?e3 + 4))) \<le> Z" "1024 + (length ?s1 + length ?s2) \<le> Y"
    using 1(2,3) by simp_all
  have ok: "length n < 1024" "\<forall>p \<in> set ps. prop_ok p" "\<forall>c \<in> set cs. encodable c" using 1(6) by simp_all
  have m1: "length (D @ ?e1) mod 4 = 0"
    using 1(7) up4_props(3) [of "5 + length n"] by (simp add: length_enc_begin mod_add_eq [symmetric])
  have m2: "length ((D @ ?e1) @ ?e2) mod 4 = 0"
    using m1 length_enc_props_mod [of "length S" ps] by (simp only: length_append) (metis mod_add_eq add_0 mod_0)
  have m3: "length (((D @ ?e1) @ ?e2) @ ?e3) mod 4 = 0"
    using m2 length_enc_mod(2) [of "length S + length ?s1" cs] by (simp only: length_append) (metis mod_add_eq add_0 mod_0)
  have b: "flatten_begin fresh (fdt_mk D Z S Y) n = Inr (fdt_mk (D @ ?e1) (Z - length ?e1) S Y)"
    using len 1(4,5,7) ok by (intro flatten_begin_mk) simp_all
  have p: "flatten_props fresh (fdt_mk (D @ ?e1) (Z - length ?e1) S Y) ps =
      Inr (fdt_mk ((D @ ?e1) @ ?e2) (Z - length ?e1 - length ?e2) (S @ ?s1) (Y - length ?s1))"
    using len 1(4,5) ok m1 by (intro flatten_props_mk) simp_all
  have c: "flatten_children fresh (fdt_mk ((D @ ?e1) @ ?e2) (Z - length ?e1 - length ?e2) (S @ ?s1) (Y - length ?s1)) cs =
      Inr (fdt_mk (((D @ ?e1) @ ?e2) @ ?e3) (Z - length ?e1 - length ?e2 - length ?e3) ((S @ ?s1) @ ?s2) (Y - length ?s1 - length ?s2))"
    using 1(1) [of "S @ ?s1" "Z - length ?e1 - length ?e2" "Y - length ?s1" "(D @ ?e1) @ ?e2"] len 1(4,5) ok m2 by simp
  have t: "flatten_tag (fdt_mk (((D @ ?e1) @ ?e2) @ ?e3) (Z - length ?e1 - length ?e2 - length ?e3) ((S @ ?s1) @ ?s2) (Y - length ?s1 - length ?s2)) fdt_end_node
      = Inr (fdt_mk ((((D @ ?e1) @ ?e2) @ ?e3) @ put_unaligned_be32 fdt_end_node) (Z - length ?e1 - length ?e2 - length ?e3 - 4)
          ((S @ ?s1) @ ?s2) (Y - length ?s1 - length ?s2))"
    using len 1(4) m3 by (intro flatten_tag_mk) simp_all
  have e: "fdt_ensure_space fresh (fdt_mk ((((D @ ?e1) @ ?e2) @ ?e3) @ put_unaligned_be32 fdt_end_node) (Z - length ?e1 - length ?e2 - length ?e3 - 4)
          ((S @ ?s1) @ ?s2) (Y - length ?s1 - length ?s2)) 0
      = Inr (fdt_mk ((((D @ ?e1) @ ?e2) @ ?e3) @ put_unaligned_be32 fdt_end_node) (Z - length ?e1 - length ?e2 - length ?e3 - 4)
          ((S @ ?s1) @ ?s2) (Y - length ?s1 - length ?s2))"
    using len 1(4,5) by (intro ensure_space_mk) simp_all
  show ?case
    unfolding flatten_node.simps b bindE_simps p c t e by (simp add: diff_diff_add add.assoc)
next
  case (3 c cs)
  let ?e1 = "enc_node (length S) c" and ?e2 = "enc_children (length S + length (strs_node c)) cs"
  let ?s1 = "strs_node c" and ?s2 = "concat (map strs_node cs)"
  have m: "length (D @ ?e1) mod 4 = 0"
    using 3(8) length_enc_mod(1) [of "length S" c] by (simp only: length_append) (metis mod_add_eq add_0 mod_0)
  have a: "flatten_node fresh (fdt_mk D Z S Y) c = Inr (fdt_mk (D @ ?e1) (Z - length ?e1) (S @ ?s1) (Y - length ?s1))"
    using 3(3-8) by (intro 3(1)) simp_all
  have b: "flatten_children fresh (fdt_mk (D @ ?e1) (Z - length ?e1) (S @ ?s1) (Y - length ?s1)) cs =
      Inr (fdt_mk ((D @ ?e1) @ ?e2) (Z - length ?e1 - length ?e2) ((S @ ?s1) @ ?s2) (Y - length ?s1 - length ?s2))"
    using 3(2) [of "S @ ?s1" "Z - length ?e1" "Y - length ?s1" "D @ ?e1"] 3(3-7) m by simp
  show ?case unfolding flatten_children.simps a bindE_simps b by (simp add: diff_diff_add add.assoc)
qed (simp add: fdt_mk_def)

section \<open>The round trip\<close>

lemma fdt_header_of_bytes: "fdt_header_of (fdt_header_bytes h @ x) = h"
  by (simp add: fdt_header_of_def fdt_header_bytes_def Let_def)

lemma length_fdt_header [simp]: "length (fdt_header_bytes h) = 40"
  by (simp add: fdt_header_bytes_def)

text \<open>What \<open>of_flatten_dtb\<close> returns for a tree that fits the buffers.\<close>

definition tree_header :: "device_node \<Rightarrow> fdt_header" where
  "tree_header t = (let n = 296 + length (enc_node 0 t) + 4; s = length (strs_node t) in
     \<lparr>fh_magic = fdt_magic, fh_totalsize = word_of_nat (n + s), fh_off_dt_struct = 296,
      fh_off_dt_strings = word_of_nat n, fh_off_mem_rsvmap = 40, fh_version = 17, fh_last_comp_version = 16,
      fh_boot_cpuid_phys = 0, fh_size_dt_strings = word_of_nat s, fh_size_dt_struct = word_of_nat (n - 296)\<rparr>)"

lemma flatten_blob:
  assumes "encodable t" and "length (enc_node 0 t) + 1320 \<le> bufsize" and "length (strs_node t) + 1024 \<le> bufsize"
  shows "\<exists>rest. of_flatten_dtb fresh t = Inr (fdt_header_bytes (tree_header t) @ replicate 256 0 @ enc_node 0 t
           @ put_unaligned_be32 fdt_end @ strs_node t @ rest)"
proof -
  let ?D = "replicate 296 0 @ enc_node 0 t @ put_unaligned_be32 fdt_end" and ?S = "strs_node t"
  let ?Z = "bufsize - 296 - length (enc_node 0 t) - 4"
  have B: "bufsize < 2 ^ 31" "296 \<le> bufsize" by (simp_all add: bufsize_def)
  have init: "\<lparr>fd_dt = replicate bufsize 0, fd_dt_nextofs = 40 + 16 * word_of_nat of_max_reserve_map,
      fd_strings = replicate bufsize 0, fd_str_nextofs = 0\<rparr> = fdt_mk (replicate 296 0) (bufsize - 296) [] bufsize"
    using B(2) by (simp add: fdt_mk_def of_max_reserve_map_def replicate_add [symmetric])
  have f: "flatten_node fresh (fdt_mk (replicate 296 0) (bufsize - 296) [] bufsize) t =
      Inr (fdt_mk (replicate 296 0 @ enc_node 0 t) (bufsize - 296 - length (enc_node 0 t)) ?S (bufsize - length ?S))"
    using flatten_node_mk(1) [of "[]" t "bufsize - 296" bufsize "replicate 296 0" fresh] assms B by simp
  have m: "length (replicate 296 (0 :: u8) @ enc_node 0 t) mod 4 = 0"
    using length_enc_mod(1) [of 0 t] by (simp add: mod_add_eq [symmetric])
  have tg: "flatten_tag (fdt_mk (replicate 296 0 @ enc_node 0 t) (bufsize - 296 - length (enc_node 0 t)) ?S (bufsize - length ?S)) fdt_end
      = Inr (fdt_mk ?D ?Z ?S (bufsize - length ?S))"
    using flatten_tag_mk [OF _ _ m, of "bufsize - 296 - length (enc_node 0 t)" ?S "bufsize - length ?S" fdt_end] assms B by simp
  let ?f = "fdt_mk ?D ?Z ?S (bufsize - length ?S)"
  have uD: "unat (word_of_nat (length ?D) :: u32) = length ?D" using assms B by (intro unat_word_of_small) simp
  have uS: "unat (word_of_nat (length ?S) :: u32) = length ?S" using assms B by (intro unat_word_of_small) simp
  have uT: "unat (word_of_nat (length ?D) + word_of_nat (length ?S) :: u32) = length ?D + length ?S"
    using unat_word_of_small [of "length ?D + length ?S"] assms B by simp
  have uZ: "unat (word_of_nat (length (?D @ replicate ?Z 0)) - word_of_nat (length ?D) :: u32) = ?Z"
  proof -
    have "(word_of_nat (length (?D @ replicate ?Z (0 :: u8))) - word_of_nat (length ?D) :: u32) = word_of_nat ?Z"
      by (simp only: length_append of_nat_add length_replicate) simp
    then show ?thesis using B by (simp only:) (intro unat_word_of_small, simp)
  qed
  obtain X where X: "(if word_of_nat (length (?D @ replicate ?Z 0)) - word_of_nat (length ?D) < (word_of_nat (length ?S) :: u32)
      then grow fresh (?D @ replicate ?Z 0) (unat (word_of_nat (length ?D) + word_of_nat (length ?S) :: u32))
      else Inr (?D @ replicate ?Z 0)) = Inr (?D @ X)" "length ?S \<le> length X"
  proof -
    have c: "(word_of_nat (length (?D @ replicate ?Z (0 :: u8))) - word_of_nat (length ?D) :: u32) < word_of_nat (length ?S)
        \<longleftrightarrow> ?Z < length ?S" by (simp only: word_less_nat_alt uZ uS)
    show thesis
    proof (cases "?Z < length ?S")
      case True
      let ?X = "replicate ?Z 0 @ map fresh [length (?D @ replicate ?Z (0 :: u8))..<length ?D + length ?S]"
      have "grow fresh (?D @ replicate ?Z 0) (length ?D + length ?S) = Inr (?D @ ?X)" "length ?S \<le> length ?X"
        using True by (simp_all add: grow_def)
      with True show thesis by (intro that [of ?X]) (simp_all only: c uT if_True)
    next
      case False
      show thesis
      proof (rule that [of "replicate ?Z 0"])
        show "length ?S \<le> length (replicate ?Z (0 :: u8))" using False by simp
      qed (simp only: c False if_False)
    qed
  qed
  have p: "poke (?D @ X) (length ?D) ?S = Inr (?D @ ?S @ drop (length ?S) X)"
    using X(2) by (simp add: poke_def mem_put_fits)
  have h: "flatten_header (40 + 16 * word_of_nat of_max_reserve_map) ?f = tree_header t"
    using assms(2) B by (simp add: flatten_header_def tree_header_def fdt_mk_def of_max_reserve_map_def Let_def
        algebra_simps of_nat_diff)
  have p2: "poke (?D @ ?S @ drop (length ?S) X) 0 (fdt_header_bytes (tree_header t)) =
      Inr (fdt_header_bytes (tree_header t) @ replicate 256 0 @ enc_node 0 t @ put_unaligned_be32 fdt_end @ ?S @ drop (length ?S) X)"
    by (simp add: poke_def mem_put_fits)
  have sel: "fd_dt ?f = ?D @ replicate ?Z 0" "fd_dt_nextofs ?f = word_of_nat (length ?D)"
      "fd_str_nextofs ?f = word_of_nat (length ?S)" "take (length ?S) (fd_strings ?f) = ?S"
    by (simp_all add: fdt_mk_def)
  have "of_flatten_dtb fresh t = Inr (fdt_header_bytes (tree_header t) @ replicate 256 0 @ enc_node 0 t
      @ put_unaligned_be32 fdt_end @ ?S @ drop (length ?S) X)"
    unfolding of_flatten_dtb_def Let_def init f bindE_simps tg h unfolding sel X(1) bindE_simps uD uS sel(4) p p2 ..
  then show ?thesis by blast
qed

lemma bytes_atI: "length a = d \<Longrightarrow> bytes_at (a @ bs @ c) d bs"
  by (auto simp: bytes_at_def)

definition tree_blob :: "device_node \<Rightarrow> bytes" where
  "tree_blob t = fdt_header_bytes (tree_header t) @ replicate 256 0 @ enc_node 0 t @ put_unaligned_be32 fdt_end @ strs_node t"

lemma tree_blob_total:
  assumes "length (enc_node 0 t) + 1320 \<le> bufsize" and "length (strs_node t) + 1024 \<le> bufsize"
  shows "fdt_header_of (tree_blob t @ x) = tree_header t" and "unat (fh_totalsize (tree_header t)) = length (tree_blob t)"
proof -
  have "300 + length (enc_node 0 t) + length (strs_node t) < 2 ^ 32" using assms by (simp add: bufsize_def)
  from unat_word_of_small [OF this]
  show "unat (fh_totalsize (tree_header t)) = length (tree_blob t)"
    by (simp add: tree_blob_def tree_header_def Let_def algebra_simps)
  show "fdt_header_of (tree_blob t @ x) = tree_header t" by (simp add: tree_blob_def fdt_header_of_bytes)
qed

text \<open>Unflattening does not look behind the blob.\<close>

lemma unflatten_blob:
  assumes "encodable t" and "names_ok t" and "dn_name t = []" and "dn_full_name t = []"
    and "length (enc_node 0 t) + 1320 \<le> bufsize" and "length (strs_node t) + 1024 \<le> bufsize"
  shows "of_unflatten_dtb (tree_blob t @ rest) = Some (Inr t)"
proof -
  let ?blob = "fdt_header_bytes (tree_header t) @ replicate 256 0 @ enc_node 0 t
           @ put_unaligned_be32 fdt_end @ strs_node t @ rest"
  obtain h ps cs where t: "t = Node [] [] h ps cs" using assms(3,4) by (cases t) auto
  let ?f = "tree_header t" and ?E = "296 + length (enc_node 0 t) + 4" and ?S = "strs_node t"
  let ?l1 = "length (enc_begin [])" and ?l2 = "length (enc_props 0 ps)" and ?l3 = "length (enc_children (length (strs_props ps)) cs)"
  have B: "bufsize + bufsize < 2 ^ 31" by (simp add: bufsize_def)
  have u: "unat (fh_off_dt_strings ?f) = ?E" "unat (fh_size_dt_strings ?f) = length ?S" "unat (fh_totalsize ?f) = ?E + length ?S"
      "unat (fh_size_dt_struct ?f) = ?E - 296"
    using unat_word_of_small [of ?E] unat_word_of_small [of "length ?S"] unat_word_of_small [of "?E + length ?S"]
      unat_word_of_small [of "?E - 296"] assms(5,6) B
    by (simp_all add: tree_header_def Let_def)
  have o: "fh_off_dt_struct ?f = word_of_nat 296" "fh_magic ?f = fdt_magic" "fh_version ?f = 17"
    by (simp_all add: tree_header_def Let_def)
  have g: "geom ?f ?E" using u(4) o(1) assms(5) B by (simp add: geom_def)
  have hd: "of_unflatten_dtb ?blob = unflatten_loop ?blob ?f (word_of_nat 296) of_new_root None"
  proof -
    have "\<not> fh_totalsize ?f < dt_struct_end ?f" using geom_end [OF g] u(3) by (simp add: word_less_nat_alt)
    moreover have "unat (fh_off_dt_strings ?f + fh_size_dt_strings ?f) = ?E + length ?S"
      using u(1,2) assms(5,6) B by (simp add: unat_word_ariths)
    then have "\<not> fh_totalsize ?f < fh_off_dt_strings ?f + fh_size_dt_strings ?f"
      using u(3) by (simp add: word_less_nat_alt)
    ultimately show ?thesis
      by (simp add: of_unflatten_dtb_def fdt_header_of_bytes o Let_def)
  qed
  have at0: "bytes_at ?blob 296 (enc_node 0 t)" "bytes_at ?blob (296 + length (enc_node 0 t)) (put_unaligned_be32 fdt_end)"
      "bytes_at ?blob ?E ?S"
    using bytes_atI [of "fdt_header_bytes ?f @ replicate 256 0" 296 "enc_node 0 t" "put_unaligned_be32 fdt_end @ ?S @ rest"]
      bytes_atI [of "fdt_header_bytes ?f @ replicate 256 0 @ enc_node 0 t" _ "put_unaligned_be32 fdt_end" "?S @ rest"]
      bytes_atI [of "fdt_header_bytes ?f @ replicate 256 0 @ enc_node 0 t @ put_unaligned_be32 fdt_end" _ ?S rest]
    by simp_all
  have at: "bytes_at ?blob 296 (enc_begin [])" "bytes_at ?blob (296 + ?l1) (enc_props 0 ps)"
      "bytes_at ?blob (296 + ?l1 + ?l2) (enc_children (length (strs_props ps)) cs)"
      "bytes_at ?blob (296 + ?l1 + ?l2 + ?l3) (put_unaligned_be32 fdt_end_node)"
    using at0(1) unfolding t enc_node.simps by (simp_all add: bytes_at_append add.assoc del: enc_node.simps)
  have st: "bytes_at ?blob (unat (fh_off_dt_strings ?f) + 0) (strs_props ps)"
      "bytes_at ?blob (unat (fh_off_dt_strings ?f) + length (strs_props ps)) (concat (map strs_node cs))"
    using at0(3) unfolding u(1) by (simp_all add: t bytes_at_append)
  have e: "length (enc_node 0 t) = ?l1 + ?l2 + ?l3 + 4" "length ?S = length (strs_props ps) + length (concat (map strs_node cs))"
    by (simp_all add: t)
  have ok: "\<forall>p \<in> set ps. prop_ok p" "h = foldl prop_phandle 0 ps" "\<forall>c \<in> set cs. encodable c \<and> names_ok c"
      "\<forall>c \<in> set cs. dn_full_name c = [] @ ''/'' @ dn_name c"
    using assms(1,2) by (auto simp: t)
  have m1: "(296 + ?l1) mod 4 = 0" by (simp add: length_enc_begin up4_def)
  have m2: "(296 + ?l1 + ?l2) mod 4 = 0" using m1 length_enc_props_mod [of 0 ps] by (metis mod_add_eq add_0 mod_0)
  have m3: "(296 + ?l1 + ?l2 + ?l3) mod 4 = 0"
    using m2 length_enc_mod(2) [of "length (strs_props ps)" cs] by (metis mod_add_eq add_0 mod_0)
  have pl: "plug R [] n = n" for R n by (simp add: plug_def)
  have "unflatten_loop ?blob ?f (word_of_nat 296) of_new_root None
      = unflatten_loop ?blob ?f (word_of_nat (296 + ?l1)) of_new_root (Some [])"
    by (rule loop_begin(2) [OF g _ at(1)]) (simp_all add: nul_free_def e(1))
  also have "\<dots> = unflatten_loop ?blob ?f (word_of_nat (296 + ?l1 + ?l2)) (Node [] [] h ps []) (Some [])"
    using read_props [OF g valid_ref_simps(1) m1 at(2) _ st(1) _ ok(1), of of_new_root of_new_root] add_props_node [OF ok(1), of "[]" "[]" 0 "[]" "[]"] ok(2)
    by (simp add: pl e u(2) of_new_root_def)
  also have "\<dots> = unflatten_loop ?blob ?f (word_of_nat (296 + ?l1 + ?l2 + ?l3)) t (Some [])"
  proof -
    have "length (strs_props ps) + length (concat (map strs_node cs)) \<le> unat (fh_size_dt_strings ?f)"
      using u(2) e(2) by simp
    moreover have "296 + ?l1 + ?l2 + ?l3 \<le> ?E" using e(1) by simp
    ultimately have "unflatten_loop ?blob ?f (word_of_nat (296 + ?l1 + ?l2)) (plug of_new_root [] (Node [] [] h ps [])) (Some [])
      = unflatten_loop ?blob ?f (word_of_nat (296 + ?l1 + ?l2 + ?l3))
          (plug of_new_root [] (set_children (Node [] [] h ps []) (dn_children (Node [] [] h ps []) @ cs))) (Some [])"
      using ok(4) by (intro read_node(2) [OF g m2 at(3) _ st(2) _ ok(3)]) simp_all
    moreover have "set_children (Node [] [] h ps []) (dn_children (Node [] [] h ps []) @ cs) = t" by (simp add: t)
    ultimately show ?thesis by (simp only: pl)
  qed
  also have "\<dots> = unflatten_loop ?blob ?f (word_of_nat (296 + ?l1 + ?l2 + ?l3 + 4)) t None"
    using loop_end [OF g m3 at(4), of t "[]"] by (simp add: e of_get_parent_def)
  also have "\<dots> = Some (Inr t)"
    using at0(2) assms(5) B by (intro loop_fdt_end) (simp_all add: e add.assoc)
  finally show ?thesis using hd by (simp add: tree_blob_def)
qed

text \<open>
  C9: \<open>of_unflatten_dtb\<close> reads back what \<open>of_flatten_dtb\<close> writes: for a tree whose names are C strings of less than
  1024 bytes, whose phandles are those of the \<open>phandle\<close> properties and which fits the two 64 KiB buffers, flattening
  succeeds, whatever the allocator returns, and unflattening the result gives the same tree: the same nodes in the same
  order, the same properties with the same values, the same phandles.
\<close>

theorem of_flatten_unflatten:
  assumes "encodable t" and "names_ok t" and "dn_name t = []" and "dn_full_name t = []"
    and "length (enc_node 0 t) + 1320 \<le> bufsize" and "length (strs_node t) + 1024 \<le> bufsize"
  shows "\<exists>blob. of_flatten_dtb fresh t = Inr blob \<and> of_unflatten_dtb blob = Some (Inr t)"
proof -
  obtain rest where "of_flatten_dtb fresh t = Inr (tree_blob t @ rest)"
    using flatten_blob [OF assms(1,5,6), of fresh] by (auto simp: tree_blob_def)
  with unflatten_blob [OF assms, of rest] show ?thesis by blast
qed

definition demo_tree :: device_node where
  "demo_tree = Node [] [] 0 [\<lparr>pp_name = ''model'', pp_value = Some [65, 0]\<rparr>]
     [Node ''soc'' ''/soc'' 7 [\<lparr>pp_name = ''phandle'', pp_value = Some [0, 0, 0, 7]\<rparr>] [Node ''uart'' ''/soc/uart'' 0 [] []],
      Node ''chosen'' ''/chosen'' 0 [\<lparr>pp_name = ''empty'', pp_value = Some []\<rparr>] []]"

lemma demo_tree_ok:
  "encodable demo_tree" "names_ok demo_tree" "length (enc_node 0 demo_tree) + 1320 \<le> bufsize"
  "length (strs_node demo_tree) + 1024 \<le> bufsize"
proof -
  have "get_unaligned_be32 [0, 0, 0, 7] = 7" by code_simp
  then show "encodable demo_tree"
    by (simp add: demo_tree_def nul_free_def prop_ok_def prop_phandle_def pp_length_def pp_bytes_def)
  show "names_ok demo_tree" by (simp add: demo_tree_def)
  show "length (enc_node 0 demo_tree) + 1320 \<le> bufsize"
    by (simp add: demo_tree_def length_enc_begin length_enc_prop up4_def pp_length_def bufsize_def)
  show "length (strs_node demo_tree) + 1024 \<le> bufsize"
    by (simp add: demo_tree_def strs_props_def bufsize_def)
qed

lemma of_flatten_unflatten_witness:
  "\<exists>blob. of_flatten_dtb (\<lambda>_. 0xaa) demo_tree = Inr blob \<and> of_unflatten_dtb blob = Some (Inr demo_tree)"
  by (rule of_flatten_unflatten) (simp_all add: demo_tree_ok, simp_all add: demo_tree_def)

section \<open>The reserve map\<close>

text \<open>The entries the fixed arrays hold; \<open>e\<close> is \<open>num_entries\<close> of them.\<close>

record of_reserve_map =
  rm_entries :: "(u64 \<times> u64) list"

definition of_max_free_reserve_map :: nat where
  "of_max_free_reserve_map = of_max_reserve_map - 2"

definition of_add_reserve_entry :: "of_reserve_map \<Rightarrow> u64 \<Rightarrow> u64 \<Rightarrow> of_reserve_map res" where
  "of_add_reserve_entry m first last_addr =
     (if of_max_free_reserve_map \<le> length (rm_entries m) then Inl ENOSPC
      else Inr (m\<lparr>rm_entries := rm_entries m @ [(first, last_addr)]\<rparr>))"

definition of_clean_reserve_map :: "of_reserve_map \<Rightarrow> of_reserve_map" where
  "of_clean_reserve_map m = m\<lparr>rm_entries := []\<rparr>"

definition fdt_reserve_entry :: "u64 \<Rightarrow> u64 \<Rightarrow> bytes" where
  "fdt_reserve_entry address sz = of_write_number address 2 @ of_write_number sz 2"

fun write_reserve :: "bytes \<Rightarrow> nat \<Rightarrow> (u64 \<times> u64) list \<Rightarrow> bytes res" where
  "write_reserve buf pos [] = Inr buf"
| "write_reserve buf pos ((address, sz) # rest) =
     bindE (poke buf pos (fdt_reserve_entry address sz)) (\<lambda>buf'. write_reserve buf' (pos + 16) rest)"

text \<open>\<open>addr\<close> is the address of the blob, which gets an entry of its own.\<close>

definition fdt_add_reserve_map :: "of_reserve_map \<Rightarrow> u64 \<Rightarrow> bytes \<Rightarrow> bytes res" where
  "fdt_add_reserve_map m addr blob =
     (if length blob < 40 then Inl FAULT
      else let f = fdt_header_of blob in
        write_reserve blob (unat (fh_off_mem_rsvmap f))
          (map (\<lambda>(first, last_addr). (first, last_addr - first + 1)) (rm_entries m)
           @ [(addr, ucast (fh_totalsize f)), (0, 0)]))"

lemma length_reserve_entry [simp]: "length (fdt_reserve_entry a s) = 16"
  by (simp add: fdt_reserve_entry_def numeral_2_eq_2)

lemma write_reserve_area:
  "length es * 16 \<le> length area \<Longrightarrow>
     \<exists>w. length w = length es * 16 \<and> write_reserve (pre @ area @ post) (length pre) es = Inr (pre @ w @ drop (length es * 16) area @ post)"
proof (induction es arbitrary: pre area)
  case (Cons e es)
  obtain a s where e: "e = (a, s)" by force
  let ?x = "fdt_reserve_entry a s"
  have p: "poke (pre @ area @ post) (length pre) ?x = Inr ((pre @ ?x) @ drop 16 area @ post)"
    using Cons.prems by (simp add: poke_def mem_put_fits)
  obtain w where w: "length w = length es * 16"
      "write_reserve ((pre @ ?x) @ drop 16 area @ post) (length (pre @ ?x)) es
        = Inr ((pre @ ?x) @ w @ drop (length es * 16) (drop 16 area) @ post)"
  proof -
    have "length es * 16 \<le> length (drop 16 area)" using Cons.prems by simp
    from Cons.IH [OF this, of "pre @ ?x"] show thesis using that by blast
  qed
  have "write_reserve (pre @ area @ post) (length pre) (e # es) = Inr (pre @ (?x @ w) @ drop (length (e # es) * 16) area @ post)"
    unfolding e write_reserve.simps p using w(2) by (simp add: add.commute)
  then show ?case using w(1) by (intro exI [of _ "?x @ w"]) simp
qed simp

text \<open>
  The map holds at most fourteen entries, so that with the entry of the blob and the sentinel it fits the area
  \<open>of_flatten_dtb\<close> leaves behind the header: adding it never fails and touches nothing else.
\<close>

lemma add_reserve_entry_bound:
  "of_add_reserve_entry m a b = Inr m' \<Longrightarrow> length (rm_entries m') \<le> of_max_free_reserve_map"
  by (auto simp: of_add_reserve_entry_def split: if_splits)

lemma reserve_map_fits:
  assumes "length (rm_entries m) \<le> of_max_free_reserve_map"
  shows "\<exists>area. length area = 256 \<and> fdt_add_reserve_map m addr (fdt_header_bytes (tree_header t) @ replicate 256 0 @ post)
    = Inr (fdt_header_bytes (tree_header t) @ area @ post)"
proof -
  let ?es = "map (\<lambda>(first, last_addr). (first, last_addr - first + 1)) (rm_entries m) @ [(addr, ucast (fh_totalsize (tree_header t))), (0, 0)]"
  have l: "length ?es \<le> 16" using assms by (simp add: of_max_free_reserve_map_def of_max_reserve_map_def)
  have o: "unat (fh_off_mem_rsvmap (tree_header t)) = length (fdt_header_bytes (tree_header t))"
    by (simp add: tree_header_def Let_def)
  obtain w where w: "length w = length ?es * 16" "write_reserve (fdt_header_bytes (tree_header t) @ replicate 256 0 @ post)
      (length (fdt_header_bytes (tree_header t))) ?es
      = Inr (fdt_header_bytes (tree_header t) @ w @ drop (length ?es * 16) (replicate 256 0) @ post)"
    using write_reserve_area [of ?es "replicate 256 0" "fdt_header_bytes (tree_header t)" post] l
    by auto
  show ?thesis
    using w l by (intro exI [of _ "w @ drop (length ?es * 16) (replicate 256 0)"])
      (simp add: fdt_add_reserve_map_def fdt_header_of_bytes Let_def o [simplified])
qed

end
