(* ===== verification/State.thy ===== *)
theory State
  imports Redundancy Fdt
begin

text \<open>
  \<open>src/barebox-state/state.c\<close> and \<open>src/barebox-state/backend_format_dtb.c\<close>: a state, its conversion from and to
  device tree nodes, the device tree format, saving and loading, and the creation of a state from its node.

  The tree of the machine (\<open>root_node\<close> in the code, \<open>machine\<close> here) and the key store are parameters.  \<open>fresh\<close> is what \<open>realloc\<close> finds in new
  memory, \<open>bc\<close> the option for backward compatibility and \<open>stack\<close> the uninitialised header of a direct read, as in the
  theories these operations come from.  \<open>of_register_fixup\<close> is a stub in this program that returns 0.
\<close>

section \<open>Data\<close>

text \<open>The format behind the function pointers; the device tree format keeps the tree it last verified or packed.\<close>

datatype backend_format = Backend_raw format_raw | Backend_dtb "device_node option"

record state =
  s_name :: string
  s_of_path :: string
  s_magic :: u32
  s_keep_prev_content :: bool
  s_variables :: "state_variable list"
  s_dirty :: bool
  s_init_from_defaults :: bool
  s_save_on_shutdown :: bool
  s_format :: "backend_format option"
  s_storage :: backend_storage

section \<open>Variables and nodes\<close>

definition exporting :: "state_convert \<Rightarrow> bool" where
  "exporting conv \<longleftrightarrow> conv = STATE_CONVERT_TO_NODE \<or> conv = STATE_CONVERT_FIXUP"

definition variable_name :: "string \<Rightarrow> string \<Rightarrow> string" where
  "variable_name parent_name node_name =
     (let short_name = takeWhile (\<lambda>c. c \<noteq> CHR ''@'') node_name
      in if parent_name = [] then short_name else parent_name @ ''.'' @ short_name)"

text \<open>
  The part of \<open>state_convert_node_variable\<close> after the children.  \<open>new\<close> is the new node when exporting.  The variable
  created is the one the pointer \<open>sv\<close> designates in the list; import comes after the insertion in the code
  and does not look at the list.
\<close>

definition convert_create :: "variable_type \<Rightarrow> string \<Rightarrow> device_node \<Rightarrow> state_variable list \<Rightarrow> unit res \<times> state_variable list" where
  "convert_create vtype name node vars = (case vt_create vtype node of
     Inl e \<Rightarrow> (Inl e, vars)
   | Inr sv \<Rightarrow> (case of_property_read_u32_array node ''reg'' 2 of
       Inl e \<Rightarrow> (Inl e, vars)
     | Inr start_size \<Rightarrow>
         if start_size ! 1 \<noteq> sv_size sv then (Inl EOVERFLOW, vars)
         else (case vt_import vtype (sv\<lparr>sv_name := name, sv_start := start_size ! 0\<rparr>) node of
           (r, sv') \<Rightarrow> (r, state_add_var vars sv'))))"

definition convert_import :: "variable_type \<Rightarrow> string \<Rightarrow> device_node \<Rightarrow> state_variable list \<Rightarrow> unit res \<times> state_variable list" where
  "convert_import vtype name node vars = (case state_find_var vars name of
     Inl _ \<Rightarrow> (Inr (), vars)
   | Inr sv \<Rightarrow> (case vt_import vtype sv node of (r, sv') \<Rightarrow> (r, update_var name sv' vars)))"

definition convert_export ::
    "state_convert \<Rightarrow> variable_type \<Rightarrow> string \<Rightarrow> device_node \<Rightarrow> state_variable list \<Rightarrow> device_node res" where
  "convert_export conv vtype name new vars = (case state_find_var vars name of
     Inl _ \<Rightarrow> Inr new
   | Inr sv \<Rightarrow>
       bindE (of_property_write_string new ''type'' (vt_name vtype)) (\<lambda>new1.
       bindE (of_property_write_u32_array new1 ''reg'' [sv_start sv, sv_size sv]) (\<lambda>new2.
         vt_export vtype sv new2 conv)))"

definition convert_typeless :: "state_convert \<Rightarrow> device_node \<Rightarrow> device_node res" where
  "convert_typeless conv new =
     (if conv = STATE_CONVERT_FIXUP then
        bindE (of_property_write_u32 new ''#address-cells'' 1) (\<lambda>new1. of_property_write_u32 new1 ''#size-cells'' 1)
      else Inr new)"

definition convert_variable ::
    "state_convert \<Rightarrow> string \<Rightarrow> device_node \<Rightarrow> device_node \<Rightarrow> state_variable list
      \<Rightarrow> unit res \<times> device_node \<times> state_variable list" where
  "convert_variable conv name node new vars = (case of_property_read_string node ''type'' of
     Inl e \<Rightarrow>
       if dn_children node \<noteq> [] \<and> e = EINVAL
       then (case convert_typeless conv new of Inl e' \<Rightarrow> (Inl e', new, vars) | Inr new' \<Rightarrow> (Inr (), new', vars))
       else (Inl e, new, vars)
   | Inr type_name \<Rightarrow> (case state_find_type_by_name type_name of
       None \<Rightarrow> (Inl ENOENT, new, vars)
     | Some vtype \<Rightarrow>
         if conv = STATE_CONVERT_FROM_NODE_CREATE then
           (case convert_create vtype name node vars of (r, vars') \<Rightarrow> (r, new, vars'))
         else if exporting conv then
           (case convert_export conv vtype name new vars of
              Inl e \<Rightarrow> (Inl e, new, vars) | Inr new' \<Rightarrow> (Inr (), new', vars))
         else (case convert_import vtype name node vars of (r, vars') \<Rightarrow> (r, new, vars'))))"

text \<open>
  The recursion over the children.  The new node of a child is appended to \<open>parent\<close>, the node being built; when
  nothing is exported the nodes built are not used.
\<close>

fun state_convert_node_variable ::
    "state_convert \<Rightarrow> string \<Rightarrow> device_node \<Rightarrow> device_node \<Rightarrow> state_variable list
      \<Rightarrow> unit res \<times> device_node \<times> state_variable list"
and convert_children ::
    "state_convert \<Rightarrow> string \<Rightarrow> device_node list \<Rightarrow> device_node \<Rightarrow> state_variable list
      \<Rightarrow> unit res \<times> device_node \<times> state_variable list" where
  "state_convert_node_variable conv parent_name (Node nm fn h ps cs) parent vars =
     (let name = variable_name parent_name nm in
      case convert_children conv name cs (new_child parent nm) vars of
        (Inl e, new, vars1) \<Rightarrow> (Inl e, new, vars1)
      | (Inr _, new, vars1) \<Rightarrow> convert_variable conv name (Node nm fn h ps cs) new vars1)"
| "convert_children conv name [] parent vars = (Inr (), parent, vars)"
| "convert_children conv name (c # cs) parent vars =
     (case state_convert_node_variable conv name c parent vars of
        (r, new, vars1) \<Rightarrow>
          let parent1 = (if exporting conv then set_children parent (dn_children parent @ [new]) else parent)
          in (case r of
                Inl e \<Rightarrow> (Inl e, parent1, vars1)
              | Inr _ \<Rightarrow> convert_children conv name cs parent1 vars1))"

text \<open>
  \<open>state_to_node\<close>: the result is the new node.  Without a parent \<open>of_new_node\<close> makes a root, whose name is empty.
\<close>

definition state_to_node ::
    "device_node option \<Rightarrow> state \<Rightarrow> device_node option \<Rightarrow> state_convert \<Rightarrow> device_node res" where
  "state_to_node machine state parent conv = (case (machine, of_find_node_by_path machine (s_of_path state)) of
     (Some t, Some r) \<Rightarrow>
       let state_root = the_node t r;
           root = (case parent of None \<Rightarrow> of_new_root | Some p \<Rightarrow> new_child p (dn_name state_root))
       in bindE (of_property_write_u32 root ''magic'' (s_magic state)) (\<lambda>root1.
            case convert_children conv [] (dn_children state_root) root1 (s_variables state) of
              (Inl e, _, _) \<Rightarrow> Inl e | (Inr _, root2, _) \<Rightarrow> Inr root2)
   | _ \<Rightarrow> Inl ENODEV)"

definition state_from_node :: "state \<Rightarrow> device_node \<Rightarrow> bool \<Rightarrow> unit res \<times> state" where
  "state_from_node state node create_it = (case of_property_read_u32 node ''magic'' of
     Inl e \<Rightarrow> (Inl e, state)
   | Inr magic \<Rightarrow>
       if create_it then
         (case convert_children STATE_CONVERT_FROM_NODE_CREATE [] (dn_children node) of_new_root (s_variables state) of
            (r, _, vars) \<Rightarrow>
              let state1 = state\<lparr>s_of_path := dn_full_name node, s_magic := magic, s_variables := vars\<rparr>
              in (case r of
                    Inl e \<Rightarrow> (Inl e, state1)
                  | Inr _ \<Rightarrow> (if overlap_ok vars then Inr () else Inl EINVAL, state1)))
       else if s_magic state \<noteq> 0 \<and> s_magic state \<noteq> magic then (Inl EINVAL, state)
       else (case convert_children STATE_CONVERT_FROM_NODE [] (dn_children node) of_new_root (s_variables state) of
               (r, _, vars) \<Rightarrow> (r, state\<lparr>s_variables := vars\<rparr>)))"

section \<open>The device tree format\<close>

text \<open>
  \<open>verify\<close> does not look at the magic.  A blob on which unflattening would not return is counted as a fault;
  there is none below 4 GiB.
\<close>

definition state_backend_format_dtb_verify ::
    "device_node option \<Rightarrow> u32 \<Rightarrow> bytes \<Rightarrow> nat \<Rightarrow> bool \<Rightarrow> (unit res \<times> nat) \<times> device_node option" where
  "state_backend_format_dtb_verify fdtb magic buf len no_auth =
     (if length buf < 8 then ((Inl FAULT, len), fdtb)
      else let dtb_len = unat (get_unaligned_be32 (drop 4 buf)) in
        if len < dtb_len then ((Inl EINVAL, len), fdtb)
        else (case of_unflatten_dtb buf of
            None \<Rightarrow> ((Inl FAULT, len), None)
          | Some (Inl e) \<Rightarrow> ((Inl e, len), None)
          | Some (Inr root) \<Rightarrow> ((Inr (), dtb_len), Some root)))"

text \<open>A null root has no property \<open>magic\<close>.\<close>

definition state_backend_format_dtb_unpack ::
    "device_node option \<Rightarrow> state \<Rightarrow> bytes \<Rightarrow> nat \<Rightarrow> unit res \<times> state \<times> device_node option" where
  "state_backend_format_dtb_unpack fdtb state buf len =
     (case (if fdtb = None then state_backend_format_dtb_verify fdtb 0 buf len False else ((Inr (), len), fdtb)) of
        ((Inl FAULT, _), _) \<Rightarrow> (Inl FAULT, state, None)
      | (_, None) \<Rightarrow> (Inl EINVAL, state, None)
      | (_, Some t) \<Rightarrow> (case state_from_node state t False of (r, state') \<Rightarrow> (r, state', None)))"

definition state_backend_format_dtb_pack ::
    "device_node option \<Rightarrow> (nat \<Rightarrow> u8) \<Rightarrow> device_node option \<Rightarrow> state \<Rightarrow> bytes res \<times> device_node option" where
  "state_backend_format_dtb_pack machine fresh fdtb state =
     (case state_to_node machine state None STATE_CONVERT_TO_NODE of
        Inl e \<Rightarrow> (Inl e, fdtb)
      | Inr root \<Rightarrow> (case of_flatten_dtb fresh root of
          Inl FAULT \<Rightarrow> (Inl FAULT, fdtb)
        | Inl _ \<Rightarrow> (Inl EINVAL, fdtb)
        | Inr blob \<Rightarrow> (Inr (take (unat (fh_totalsize (fdt_header_of blob))) blob), Some root)))"

definition backend_format_dtb_create :: backend_format where
  "backend_format_dtb_create = Backend_dtb None"

section \<open>Saving and loading\<close>

text \<open>The calls through \<open>state->format\<close>.\<close>

definition format_verify :: "keystore \<Rightarrow> backend_format verify" where
  "format_verify ks format magic buf len no_auth = (case format of
     Backend_raw raw \<Rightarrow> (case backend_format_raw_verify ks raw magic buf len no_auth of (r, raw') \<Rightarrow> (r, Backend_raw raw'))
   | Backend_dtb fdtb \<Rightarrow>
       (case state_backend_format_dtb_verify fdtb magic buf len no_auth of (r, fdtb') \<Rightarrow> (r, Backend_dtb fdtb')))"

definition format_pack ::
    "keystore \<Rightarrow> device_node option \<Rightarrow> (nat \<Rightarrow> u8) \<Rightarrow> state \<Rightarrow> backend_format \<Rightarrow> bytes res \<times> backend_format" where
  "format_pack ks machine fresh state format = (case format of
     Backend_raw raw \<Rightarrow>
       (case backend_format_raw_pack ks raw (s_magic state) (s_variables state) of (r, raw') \<Rightarrow> (r, Backend_raw raw'))
   | Backend_dtb fdtb \<Rightarrow>
       (case state_backend_format_dtb_pack machine fresh fdtb state of (r, fdtb') \<Rightarrow> (r, Backend_dtb fdtb')))"

definition format_unpack ::
    "backend_format \<Rightarrow> state \<Rightarrow> bytes \<Rightarrow> nat \<Rightarrow> unit res \<times> state \<times> backend_format" where
  "format_unpack format state buf len = (case format of
     Backend_raw raw \<Rightarrow> (case backend_format_raw_unpack raw (s_variables state) buf of
        (r, vars) \<Rightarrow> (r, state\<lparr>s_variables := vars\<rparr>, format))
   | Backend_dtb fdtb \<Rightarrow> (case state_backend_format_dtb_unpack fdtb state buf len of
        (r, state', fdtb') \<Rightarrow> (r, state', Backend_dtb fdtb')))"

definition state_save ::
    "bool \<Rightarrow> keystore \<Rightarrow> device_node option \<Rightarrow> (nat \<Rightarrow> u8) \<Rightarrow> state \<Rightarrow> medium \<Rightarrow> unit res \<times> state \<times> medium" where
  "state_save bc ks machine fresh state m =
     (if \<not> s_dirty state then (Inr (), state, m)
      else case s_format state of
        None \<Rightarrow> (Inl FAULT, state, m)
      | Some format \<Rightarrow> (case format_pack ks machine fresh state format of
          (Inl e, format') \<Rightarrow> (Inl e, state\<lparr>s_format := Some format'\<rparr>, m)
        | (Inr buf, format') \<Rightarrow>
            let state1 = state\<lparr>s_format := Some format'\<rparr> in
            if s_keep_prev_content state \<and> (\<exists>b \<in> set (st_buckets (s_storage state)). bk_wrong_magic b)
            then (Inl EPERM, state1, m)
            else (case state_storage_write bc (s_storage state) m buf of
                (Inl e, st, m') \<Rightarrow> (Inl e, state1\<lparr>s_storage := st\<rparr>, m')
              | (Inr _, st, m') \<Rightarrow> (Inr (), state1\<lparr>s_storage := st, s_dirty := False\<rparr>, m'))))"

definition state_do_load ::
    "bool \<Rightarrow> bytes \<Rightarrow> keystore \<Rightarrow> bool \<Rightarrow> state \<Rightarrow> medium \<Rightarrow> unit res \<times> state \<times> medium" where
  "state_do_load bc stack ks no_auth state m = (case s_format state of
     None \<Rightarrow> (Inl FAULT, state, m)
   | Some format \<Rightarrow>
       (case state_storage_read bc stack (format_verify ks) (s_storage state) format (s_magic state) no_auth m of
          (Inl e, st, format', m') \<Rightarrow> (Inl e, state\<lparr>s_storage := st, s_format := Some format', s_dirty := True\<rparr>, m')
        | (Inr (buf, len), st, format', m') \<Rightarrow>
            (case format_unpack format' (state\<lparr>s_storage := st\<rparr>) buf len of
               (Inl e, state1, format2) \<Rightarrow> (Inl e, state1\<lparr>s_format := Some format2, s_dirty := True\<rparr>, m')
             | (Inr _, state1, format2) \<Rightarrow>
                 (Inr (), state1\<lparr>s_format := Some format2, s_init_from_defaults := False, s_dirty := False\<rparr>, m'))))"

definition state_load :: "bool \<Rightarrow> bytes \<Rightarrow> keystore \<Rightarrow> state \<Rightarrow> medium \<Rightarrow> unit res \<times> state \<times> medium" where
  "state_load bc stack ks state m = state_do_load bc stack ks False state m"

definition state_load_no_auth :: "bool \<Rightarrow> bytes \<Rightarrow> keystore \<Rightarrow> state \<Rightarrow> medium \<Rightarrow> unit res \<times> state \<times> medium" where
  "state_load_no_auth bc stack ks state m = state_do_load bc stack ks True state m"

section \<open>Creation\<close>

definition state_format_init :: "string option \<Rightarrow> device_node \<Rightarrow> string \<Rightarrow> backend_format res" where
  "state_format_init backend_format node state_name =
     (if backend_format = None \<or> backend_format = Some ''raw''
      then (case backend_format_raw_create node state_name of Inl e \<Rightarrow> Inl e | Inr raw \<Rightarrow> Inr (Backend_raw raw))
      else if backend_format = Some ''dtb'' then Inr backend_format_dtb_create
      else Inl EINVAL)"

definition state_backend_set_readonly :: "state \<Rightarrow> state" where
  "state_backend_set_readonly state = state\<lparr>s_storage := state_storage_set_readonly (s_storage state)\<rparr>"

text \<open>
  The name of a state is what \<open>dev_set_name\<close> keeps of it in the 32 bytes of \<open>dev.name\<close>.  The alias is the format of a
  \<open>vsnprintf\<close> without arguments, so that a conversion in it is a fault.
\<close>

fun device_name :: "string \<Rightarrow> string res" where
  "device_name [] = Inr []"
| "device_name (c # cs) =
     (if c \<noteq> CHR ''%'' then bindE (device_name cs) (\<lambda>r. Inr (c # r))
      else case cs of
        d # ds \<Rightarrow> (if d = CHR ''%'' then bindE (device_name ds) (\<lambda>r. Inr (d # r)) else Inl FAULT)
      | [] \<Rightarrow> Inl FAULT)"

definition state_new :: "string \<Rightarrow> state" where
  "state_new name = \<lparr>s_name = take 31 name, s_of_path = [], s_magic = 0, s_keep_prev_content = False, s_variables = [],
     s_dirty = True, s_init_from_defaults = False, s_save_on_shutdown = True, s_format = None,
     s_storage = \<lparr>st_readonly = False, st_buckets = [], st_name = None, st_offset = 0, st_max_size = 0, st_stridesize = 0\<rparr>\<rparr>"

text \<open>
  The device behind the \<open>backend\<close> phandle, as \<open>of_cdev_find\<close>, the search for the GPT partition and
  \<open>cdev_to_devpath\<close> find it through udev: offset and size of the range, the answers of the MTD ioctls.
\<close>

record backend_device =
  bd_offset :: nat
  bd_size :: nat
  bd_meminfo :: "mtd_info option"
  bd_bad :: "nat \<Rightarrow> bool"

definition state_new_from_node ::
    "of_globals \<Rightarrow> (node_ref \<Rightarrow> backend_device res) \<Rightarrow> device_node \<Rightarrow> bool \<Rightarrow> medium \<Rightarrow> state res \<times> medium" where
  "state_new_from_node g resolve node readonly m =
     (case of_alias_get g node of
        Inl e \<Rightarrow> (Inl e, m)
      | Inr None \<Rightarrow> (Inl EINVAL, m)
      | Inr (Some alias) \<Rightarrow>
          (case device_name alias of Inl e \<Rightarrow> (Inl e, m) | Inr name \<Rightarrow>
          (case root_node g of None \<Rightarrow> (Inl FAULT, m) | Some t \<Rightarrow>
          (case of_parse_phandle t node ''backend'' 0 of
             Inl e \<Rightarrow> (Inl e, m)
           | Inr None \<Rightarrow> (Inl EINVAL, m)
           | Inr (Some partition_node) \<Rightarrow>
          (case resolve partition_node of Inl e \<Rightarrow> (Inl e, m) | Inr dev \<Rightarrow>
          (case of_property_read_string node ''backend-type'' of Inl e \<Rightarrow> (Inl e, m) | Inr backend_type \<Rightarrow>
             let stridesize = or_else (of_property_read_u32 node ''backend-stridesize'') 0;
                 storage_type = (case of_property_read_string node ''backend-storage-type'' of Inl _ \<Rightarrow> None | Inr s \<Rightarrow> Some s)
             in (case state_format_init (Some backend_type) node alias of Inl e \<Rightarrow> (Inl e, m) | Inr format \<Rightarrow>
                let state0 = (state_new name)\<lparr>s_keep_prev_content := of_property_read_bool node ''keep-previous-content'',
                       s_format := Some format\<rparr>;
                    state1 = (if readonly then state_backend_set_readonly state0 else state0)
                in (case state_storage_init (st_readonly (s_storage state1)) (bd_bad dev) (bd_meminfo dev)
                       (bd_offset dev) (bd_size dev) stridesize storage_type m of
                      (Inl e, _, m1) \<Rightarrow> (Inl e, m1)
                    | (Inr _, st, m1) \<Rightarrow>
                        (case state_from_node (state1\<lparr>s_storage := st\<rparr>) node True of
                           (Inl e, _) \<Rightarrow> (Inl e, m1)
                         | (Inr _, state2) \<Rightarrow> (Inr (state2\<lparr>s_init_from_defaults := True\<rparr>), m1))))))))))"

text \<open>Looking up a state in the list of all states.\<close>

definition state_by_name :: "state list \<Rightarrow> string \<Rightarrow> state option" where
  "state_by_name states name = find (\<lambda>s. name = s_name s) states"

definition state_by_node :: "state list \<Rightarrow> device_node \<Rightarrow> state option" where
  "state_by_node states node = find (\<lambda>s. s_of_path s = dn_full_name node) states"

definition state_read_mac :: "state \<Rightarrow> string \<Rightarrow> bytes res" where
  "state_read_mac state name =
     bindE (state_find_var (s_variables state) name) (\<lambda>svar.
       if sv_type svar \<noteq> STATE_VARIABLE_TYPE_MAC then Inl EINVAL
       else (case sv_data svar of Var_mac mac _ \<Rightarrow> Inr mac | _ \<Rightarrow> Inl FAULT))"

section \<open>Creating the variables of a state\<close>

text \<open>What every step of the recursion keeps of the list of variables.\<close>

definition vars_inv :: "state_variable list \<Rightarrow> bool" where
  "vars_inv vars \<longleftrightarrow> sorted (map sv_start vars) \<and> (\<forall>v \<in> set vars. wf_var v)"

lemma import_keeps:
  "wf_var sv \<Longrightarrow> sv_type sv = vt_type vt \<Longrightarrow> vt_import vt sv node = (r, sv') \<Longrightarrow>
     wf_var sv' \<and> sv_name sv' = sv_name sv \<and> sv_start sv' = sv_start sv \<and> sv_size sv' = sv_size sv \<and> sv_type sv' = sv_type sv"
proof -
  assume a: "wf_var sv" "sv_type sv = vt_type vt" "vt_import vt sv node = (r, sv')"
  have "wf_var sv'" using wf_import [OF a(1,2), of node] a(3) by simp
  moreover have "sv_name sv' = sv_name sv \<and> sv_start sv' = sv_start sv \<and> sv_size sv' = sv_size sv \<and> sv_type sv' = sv_type sv"
    using a(3)
    by (auto simp: vt_import_def state_uint32_import_def state_enum32_import_def state_mac_import_def state_string_import_def
        state_string_copy_to_raw_def Let_def split: state_variable_type.splits var_data.splits if_splits option.splits sum.splits)
  ultimately show ?thesis by blast
qed

lemma convert_create_inv:
  assumes "convert_create vt name node vars = (r, vars')" and "vars_inv vars"
  shows "vars_inv vars'"
proof (cases "vars' = vars")
  case False
  then obtain sv start_size sv' where sv: "vt_create vt node = Inr sv"
      "vt_import vt (sv\<lparr>sv_name := name, sv_start := start_size ! 0\<rparr>) node = (r, sv')" "vars' = state_add_var vars sv'"
    using assms(1) by (auto simp: convert_create_def split: sum.splits if_splits prod.splits)
  have w: "wf_var sv" "sv_type sv = vt_type vt" using wf_create [OF sv(1)] by auto
  then have "wf_var (sv\<lparr>sv_name := name, sv_start := start_size ! 0\<rparr>)"
    by (elim wf_var_cases) (simp_all add: wf_var_def)
  then have "wf_var sv'" using import_keeps [OF _ _ sv(2)] w(2) by simp
  then show ?thesis using assms(2) sorted_add_var set_add_var by (auto simp: vars_inv_def sv(3))
qed (use assms(2) in simp)

lemma convert_variable_create_inv:
  "convert_variable STATE_CONVERT_FROM_NODE_CREATE name node new vars = (r, new', vars') \<Longrightarrow> vars_inv vars \<Longrightarrow> vars_inv vars'"
  using convert_create_inv by (auto simp: convert_variable_def split: sum.splits option.splits if_splits prod.splits)

lemma convert_children_create_inv:
  "state_convert_node_variable conv pname node parent vars = (r, new, vars') \<Longrightarrow>
     conv = STATE_CONVERT_FROM_NODE_CREATE \<Longrightarrow> vars_inv vars \<Longrightarrow> vars_inv vars'"
  "convert_children conv name cs parent vars = (r, new, vars') \<Longrightarrow>
     conv = STATE_CONVERT_FROM_NODE_CREATE \<Longrightarrow> vars_inv vars \<Longrightarrow> vars_inv vars'"
proof (induction conv pname node parent vars and conv name cs parent vars arbitrary: r new vars' and r new vars'
    rule: state_convert_node_variable_convert_children.induct)
  case (1 conv parent_name nm fn h ps cs parent vars)
  obtain r1 new1 vars1 where c: "convert_children conv (variable_name parent_name nm) cs (new_child parent nm) vars = (r1, new1, vars1)"
    by (metis prod_cases3)
  have i: "vars_inv vars1" using 1(1) [OF refl c 1(3,4)] .
  show ?case
  proof (cases r1)
    case (Inl e) with 1(2) c i show ?thesis by (simp add: Let_def)
  next
    case (Inr u)
    then have "convert_variable conv (variable_name parent_name nm) (Node nm fn h ps cs) new1 vars1 = (r, new, vars')"
      using 1(2) c by (simp add: Let_def)
    then show ?thesis using convert_variable_create_inv i 1(3) by blast
  qed
next
  case (3 conv name c cs parent vars)
  obtain r1 new1 vars1 where c: "state_convert_node_variable conv name c parent vars = (r1, new1, vars1)"
    by (metis prod_cases3)
  have i: "vars_inv vars1" using 3(1) [OF c 3(4,5)] .
  show ?case
  proof (cases r1)
    case (Inl e) with 3(3) c i show ?thesis by (auto simp: Let_def)
  next
    case (Inr u)
    then show ?thesis using 3(2) [OF c [symmetric] refl refl Inr] 3(3,4) c i by (auto simp: Let_def)
  qed
qed simp


text \<open>A state node with two variables, for the witnesses.\<close>

definition demo_variable :: "string \<Rightarrow> string \<Rightarrow> u32 \<Rightarrow> u32 \<Rightarrow> device_node" where
  "demo_variable nm ty start n = Node nm (''/state/'' @ nm) 0
     [\<lparr>pp_name = ''type'', pp_value = Some (str_bytes ty @ [0])\<rparr>,
      \<lparr>pp_name = ''reg'', pp_value = Some (put_unaligned_be32 start @ put_unaligned_be32 n)\<rparr>] []"

definition demo_state_node :: device_node where
  "demo_state_node = Node ''state'' ''/state'' 0 [\<lparr>pp_name = ''magic'', pp_value = Some [0, 0, 0, 7]\<rparr>]
     [demo_variable ''b@4'' ''uint8'' 4 1, demo_variable ''a@0'' ''uint32'' 0 4]"

lemma demo_state_created:
  "state_from_node (state_new ''state'') demo_state_node True =
     (Inr (), (state_new ''state'')\<lparr>s_of_path := ''/state'', s_magic := 7, s_variables := demo_vars 0 0\<rparr>)"
  by code_simp


section \<open>Saving and loading with the raw format\<close>

text \<open>The read of the storage through the function pointer of a raw format is the one with its \<open>verify\<close>.\<close>

lemma check_loop_raw:
  "storage_check_loop bc stack (format_verify ks) magic no_auth bs i used (Backend_raw f) m =
     (case storage_check_loop bc stack (backend_format_raw_verify ks) magic no_auth bs i used f m of
        (u, bs', f', m') \<Rightarrow> (u, bs', Backend_raw f', m'))"
proof (induction bs arbitrary: i used f m)
  case (Cons b bs)
  have v: "format_verify ks (Backend_raw f) magic buf len no_auth =
      (case backend_format_raw_verify ks f magic buf len no_auth of (r, f') \<Rightarrow> (r, Backend_raw f'))" for buf len
    by (simp add: format_verify_def)
  show ?case by (simp add: Cons v Let_def split: prod.split)
qed simp

lemma storage_read_raw:
  assumes "state_storage_read bc stack (backend_format_raw_verify ks) st f magic no_auth m = (r, st', f', m')"
  shows "state_storage_read bc stack (format_verify ks) st (Backend_raw f) magic no_auth m = (r, st', Backend_raw f', m')"
  using assms by (auto simp: state_storage_read_def check_loop_raw Let_def split: prod.splits option.splits)

text \<open>A state of a later session: the same layout of variables, format, magic and buckets.\<close>

definition later_session :: "(nat \<Rightarrow> bool) \<Rightarrow> keystore \<Rightarrow> state \<Rightarrow> state \<Rightarrow> medium \<Rightarrow> bool" where
  "later_session bad ks s s2 m \<longleftrightarrow> reopened bad (s_storage s) (s_storage s2) m
     \<and> s_magic s2 = s_magic s \<and> var_layout (s_variables s2) = var_layout (s_variables s)
     \<and> (\<forall>v \<in> set (s_variables s2). wf_var v)
     \<and> (\<exists>f f2. s_format s = Some (Backend_raw f) \<and> s_format s2 = Some (Backend_raw f2) \<and> same_format f f2 \<and> raw_ok ks f2)"

text \<open>What a later session loads, with the buffer it was unpacked from.\<close>

lemma save_then_load:
  assumes "s_dirty s" and "s_format s = Some (Backend_raw f)" and "raw_ok ks f" and "packable (s_variables s)"
    and "s_keep_prev_content s \<longrightarrow> (\<forall>b \<in> set (st_buckets (s_storage s)). \<not> bk_wrong_magic b)"
    and "buckets_inv bad (st_buckets (s_storage s)) m" and "healthy m" and "\<not> st_readonly (s_storage s)"
    and "st_buckets (s_storage s) \<noteq> []"
    and "\<forall>b \<in> set (st_buckets (s_storage s)). geo_fits (bk_geo b) (16 + var_end (last (s_variables s)) + raw_mac_len f)"
  shows "\<exists>s' m'. state_save bc ks machine fresh s m = (Inr (), s', m') \<and> healthy m' \<and> \<not> s_dirty s'
    \<and> s_variables s' = s_variables s
    \<and> (\<forall>s2. later_session bad ks s s2 m' \<longrightarrow>
         (\<exists>s3 m''. state_load bc stack ks s2 m' = (Inr (), s3, m'')
            \<and> map sv_raw (s_variables s3) = map sv_raw (s_variables s)
            \<and> map sv_name (s_variables s3) = map sv_name (s_variables s2)
            \<and> \<not> s_dirty s3 \<and> \<not> s_init_from_defaults s3
            \<and> (\<exists>f2 buf2. backend_format_raw_unpack f2 (s_variables s2) buf2 = (Inr (), s_variables s3))))"
proof -
  let ?E = "var_end (last (s_variables s))"
  obtain buf f1 where p: "backend_format_raw_pack ks f (s_magic s) (s_variables s) = (Inr buf, f1)"
      "raw_valid ks f (s_magic s) ?E buf" "length buf = 16 + ?E + raw_mac_len f"
      "\<forall>v \<in> set (s_variables s). var_slice buf v = sv_raw v"
    using raw_pack_valid [OF assms(3,4)] by blast
  have fits: "\<forall>b \<in> set (st_buckets (s_storage s)). geo_fits (bk_geo b) (length buf)"
    using assms(10) p(3) by simp
  obtain st' m' where w: "state_storage_write bc (s_storage s) m buf = (Inr (), st', m')" "healthy m'"
      and r: "\<forall>ks f magic n st2. raw_ok ks f \<and> raw_valid ks f magic n buf \<and> reopened bad (s_storage s) st2 m' \<longrightarrow>
         (\<exists>pad st3 f' m''. state_storage_read bc stack (backend_format_raw_verify ks) st2 f magic False m'
           = (Inr (buf @ pad, 16 + n), st3, f', m''))"
    using storage_save_load [OF assms(6-9) fits, of bc stack] by blast
  let ?s' = "s\<lparr>s_format := Some (Backend_raw f1), s_storage := st', s_dirty := False\<rparr>"
  have sv: "state_save bc ks machine fresh s m = (Inr (), ?s', m')"
    using assms(1,2,5) p(1) w(1) by (auto simp: state_save_def format_pack_def Let_def)
  have "\<exists>s3 m''. state_load bc stack ks s2 m' = (Inr (), s3, m'')
            \<and> map sv_raw (s_variables s3) = map sv_raw (s_variables s)
            \<and> map sv_name (s_variables s3) = map sv_name (s_variables s2)
            \<and> \<not> s_dirty s3 \<and> \<not> s_init_from_defaults s3
            \<and> (\<exists>f2 buf2. backend_format_raw_unpack f2 (s_variables s2) buf2 = (Inr (), s_variables s3))" if l: "later_session bad ks s s2 m'" for s2
  proof -
    obtain f2 where f2: "s_format s2 = Some (Backend_raw f2)" "same_format f f2" "raw_ok ks f2"
      using l assms(2) by (auto simp: later_session_def)
    have v2: "raw_valid ks f2 (s_magic s) ?E buf" using p(2) same_format_mac [OF f2(2)] by (simp add: raw_valid_def)
    obtain pad st3 f' m'' where rd: "state_storage_read bc stack (backend_format_raw_verify ks) (s_storage s2) f2 (s_magic s) False m'
        = (Inr (buf @ pad, 16 + ?E), st3, f', m'')"
      using r f2(3) v2 l unfolding later_session_def by blast
    have ca: "raw_carries ks f (s_magic s) (buf @ pad) (s_variables s)"
      by (rule raw_carries_append) (use assms(4) p in \<open>simp add: raw_carries_def\<close>)
    obtain vars' where un: "backend_format_raw_unpack f (s_variables s2) (buf @ pad) = (Inr (), vars')"
        "map sv_raw vars' = map sv_raw (s_variables s)" "map sv_name vars' = map sv_name (s_variables s2)"
      using raw_unpack_carries [OF ca] l unfolding later_session_def by metis
    have "backend_format_raw_unpack f' (s_variables s2) (buf @ pad) = (Inr (), vars')"
      using un(1) by (simp add: backend_format_raw_unpack_def)
    then show ?thesis
      using storage_read_raw [OF rd] f2(1) un l
      by (auto simp add: state_load_def state_do_load_def format_unpack_def later_session_def)
  qed
  with sv w(2) show ?thesis by (intro exI [of _ ?s'] exI [of _ m']) simp
qed


definition demo_session :: "u32 \<Rightarrow> u32 \<Rightarrow> state" where
  "demo_session a b = (state_new ''state'')\<lparr>s_magic := 7, s_variables := demo_vars a b,
     s_format := Some (Backend_raw demo_plain), s_storage := demo_storage\<rparr>"

lemma demo_session_fields [simp]:
  "s_dirty (demo_session a b)" "s_format (demo_session a b) = Some (Backend_raw demo_plain)"
  "s_variables (demo_session a b) = demo_vars a b" "s_storage (demo_session a b) = demo_storage"
  "s_magic (demo_session a b) = 7" "\<not> s_keep_prev_content (demo_session a b)"
  by (simp_all add: demo_session_def state_new_def)


end
