(* ===== verification/State_Dtb.thy ===== *)
theory State_Dtb
  imports State
begin

text \<open>
  The device tree format of a state end to end: the conversion \<open>state_to_node\<close> of a state to a tree and
  \<open>state_from_node\<close> back (\<open>src/barebox-state/state.c\<close>) through the flat tree that
  \<open>src/barebox-state/backend_format_dtb.c\<close> stores.  What is proved is that a state packed in one session gives
  its values back when another session of the same description unpacks it, and where that fails.
\<close>

section \<open>The way through a device tree\<close>

text \<open>Two lists of the same variables with different contents.\<close>

definition same_vars :: "state_variable list \<Rightarrow> state_variable list \<Rightarrow> bool" where
  "same_vars V W \<longleftrightarrow> map sv_name W = map sv_name V \<and> map sv_type W = map sv_type V \<and> map sv_size W = map sv_size V
     \<and> (\<forall>v \<in> set W. wf_var v)"

definition raw_of :: "state_variable list \<Rightarrow> string \<Rightarrow> bytes option" where
  "raw_of V k = map_option sv_raw (find (\<lambda>v. sv_name v = k) V)"

lemma find_var_find: "state_find_var V k = Inr sv \<longleftrightarrow> find (\<lambda>v. sv_name v = k) V = Some sv"
  by (simp add: state_find_var_def split: option.split)

lemma find_name: "find (\<lambda>v. sv_name v = k) V = Some sv \<Longrightarrow> sv \<in> set V \<and> sv_name sv = k"
  by (auto simp: find_Some_iff)

lemma same_vars_find:
  assumes "same_vars V W" and "find (\<lambda>v. sv_name v = k) V = Some sv"
  obtains sw where "find (\<lambda>v. sv_name v = k) W = Some sw" "sv_type sw = sv_type sv" "sv_size sw = sv_size sv" "wf_var sw"
proof -
  have "map sv_name W = map sv_name V \<Longrightarrow> map sv_type W = map sv_type V \<Longrightarrow> map sv_size W = map sv_size V \<Longrightarrow>
      find (\<lambda>v. sv_name v = k) V = Some sv \<Longrightarrow>
      \<exists>sw. find (\<lambda>v. sv_name v = k) W = Some sw \<and> sv_type sw = sv_type sv \<and> sv_size sw = sv_size sv" for V W :: "state_variable list"
  proof (induction V arbitrary: W)
    case (Cons v V)
    then obtain w W' where "W = w # W'" by (cases W) auto
    with Cons show ?case by (auto split: if_splits)
  qed simp
  then obtain sw where "find (\<lambda>v. sv_name v = k) W = Some sw" "sv_type sw = sv_type sv" "sv_size sw = sv_size sv"
    using assms unfolding same_vars_def by metis
  moreover have "wf_var sw" using calculation(1) assms(1) find_name unfolding same_vars_def by blast
  ultimately show ?thesis using that by blast
qed

lemma same_vars_update:
  assumes "same_vars V W" and "find (\<lambda>v. sv_name v = k) W = Some sw"
    and "sv_name sw' = k" and "sv_type sw' = sv_type sw" and "sv_size sw' = sv_size sw" and "wf_var sw'"
  shows "same_vars V (update_var k sw' W)"
    and "find (\<lambda>v. sv_name v = j) (update_var k sw' W) = (if j = k then Some sw' else find (\<lambda>v. sv_name v = j) W)"
proof -
  have *: "find (\<lambda>v. sv_name v = k) W = Some sw \<Longrightarrow>
      map sv_name (update_var k sw' W) = map sv_name W \<and> map sv_type (update_var k sw' W) = map sv_type W
      \<and> map sv_size (update_var k sw' W) = map sv_size W \<and> set (update_var k sw' W) \<subseteq> insert sw' (set W)
      \<and> find (\<lambda>v. sv_name v = j) (update_var k sw' W) = (if j = k then Some sw' else find (\<lambda>v. sv_name v = j) W)" for W
    by (induction W) (use assms(3-5) in auto)
  show "same_vars V (update_var k sw' W)" using * [OF assms(2)] assms(1,6) by (auto simp: same_vars_def)
  show "find (\<lambda>v. sv_name v = j) (update_var k sw' W) = (if j = k then Some sw' else find (\<lambda>v. sv_name v = j) W)"
    using * [OF assms(2)] by blast
qed

text \<open>The properties a converted node gets: names the format can hold, no phandle.\<close>

definition plain_node :: "device_node \<Rightarrow> bool" where
  "plain_node n \<longleftrightarrow> props_ok n \<and> dn_phandle n = 0
     \<and> (\<forall>p \<in> set (dn_properties n). pp_name p \<in> {''type'', ''reg'', ''default'', ''names'', ''value'', ''magic''} \<and> pp_value p \<noteq> None)"

lemma plain_put:
  assumes "plain_node n" and "nm \<in> {''type'', ''reg'', ''default'', ''names'', ''value'', ''magic''}"
  shows "plain_node (put_prop n nm bs)"
proof -
  have "set (delete_first (\<lambda>pp. pp_name pp = nm) ps) \<subseteq> set ps" for ps :: "property list"
    by (induction ps) auto
  then have "set (dn_properties (put_prop n nm bs)) \<subseteq> insert \<lparr>pp_name = nm, pp_value = Some bs\<rparr> (set (dn_properties n))"
    by (auto simp: put_prop_properties)
  then show ?thesis using assms props_ok_put by (auto simp: plain_node_def)
qed

text \<open>Exporting a variable into a node and importing the node into the variable of the other list.\<close>

lemma export_import:
  assumes "wf_var sv" and "wf_var sw" and "sv_type sv = vt_type vt" and "sv_type sw = vt_type vt"
    and "vt_type vt \<noteq> STATE_VARIABLE_TYPE_STRING" and "sv_size sw = sv_size sv"
    and "plain_node node" and "of_find_property node ''default'' = None"
  shows "\<exists>node'. vt_export vt sv node STATE_CONVERT_TO_NODE = Inr node' \<and> plain_node node'
    \<and> node_data (set_properties node' []) = node_data (set_properties node []) \<and> dn_children node' = dn_children node
    \<and> of_find_property node' ''type'' = of_find_property node ''type''
    \<and> (\<exists>sw'. vt_import vt sw node' = (Inr (), sw') \<and> sv_raw sw' = sv_raw sv)"
  using assms(1)
proof (cases rule: wf_var_cases)
  case (u8 v d)
  with assms obtain v2 d2 where w: "sv_data sw = Var_u32 v2 d2" by (cases rule: wf_var_cases [OF assms(2)]) auto
  from assms(7) have p: "props_ok node" by (simp add: plain_node_def)
  from u8 w assms p show ?thesis
    by (cases "d = 0") (simp_all add: vt_export_def vt_import_def state_uint32_export_def plain_put node_data_def
        state_uint32_import_def sv_raw_def put_simps or_else_def put_prop_properties)
next
  case (u32 v d)
  with assms obtain v2 d2 where w: "sv_data sw = Var_u32 v2 d2" by (cases rule: wf_var_cases [OF assms(2)]) auto
  from assms(7) have p: "props_ok node" by (simp add: plain_node_def)
  from u32 w assms p show ?thesis
    by (cases "d = 0") (simp_all add: vt_export_def vt_import_def state_uint32_export_def plain_put node_data_def
        state_uint32_import_def sv_raw_def put_simps or_else_def put_prop_properties)
next
  case (enum v d ns)
  with assms obtain v2 d2 ns2 where w: "sv_data sw = Var_enum32 v2 d2 ns2" by (cases rule: wf_var_cases [OF assms(2)]) auto
  from assms(7) have p: "props_ok node" by (simp add: plain_node_def)
  from assms(8) have g: "of_get_property node ''default'' = None" by (simp add: of_get_property_def)
  from enum w assms p g show ?thesis
    by (cases "d = 0") (simp_all add: vt_export_def vt_import_def state_enum32_export_def plain_put node_data_def
        state_enum32_import_def sv_raw_def put_simps put_prop_properties)
next
  case (mac m d)
  with assms obtain m2 d2 where w: "sv_data sw = Var_mac m2 d2" by (cases rule: wf_var_cases [OF assms(2)]) auto
  from assms(7) have p: "props_ok node" by (simp add: plain_node_def)
  from mac w assms p show ?thesis
    by (cases "is_zero_ether_addr d") (simp_all add: vt_export_def vt_import_def state_mac_export_def plain_put node_data_def
        state_mac_import_def sv_raw_def put_simps or_else_def put_prop_properties)
qed (use assms in simp)

fun var_names :: "string \<Rightarrow> device_node \<Rightarrow> string list"
and child_names :: "string \<Rightarrow> device_node list \<Rightarrow> string list" where
  "var_names pname (Node nm f h ps cs) =
     child_names (variable_name pname nm) cs
     @ (case of_property_read_string (Node nm f h ps cs) ''type'' of Inl _ \<Rightarrow> [] | Inr _ \<Rightarrow> [variable_name pname nm])"
| "child_names name [] = []"
| "child_names name (c # cs) = var_names name c @ child_names name cs"

text \<open>
  The description of a state the conversion handles without loss: every node is a group or has the type of its
  variable, which is not a string.
\<close>

definition leaf_ok :: "state_variable list \<Rightarrow> string \<Rightarrow> string \<Rightarrow> bool" where
  "leaf_ok V name ty \<longleftrightarrow> (case (state_find_type_by_name ty, find (\<lambda>v. sv_name v = name) V) of
     (Some vt, Some sv) \<Rightarrow> sv_type sv = vt_type vt \<and> vt_type vt \<noteq> STATE_VARIABLE_TYPE_STRING \<and> wf_var sv
   | _ \<Rightarrow> False)"

fun convertible :: "state_variable list \<Rightarrow> string \<Rightarrow> device_node \<Rightarrow> bool"
and convertible_children :: "state_variable list \<Rightarrow> string \<Rightarrow> device_node list \<Rightarrow> bool" where
  "convertible V pname (Node nm f h ps cs) \<longleftrightarrow>
     nul_free nm \<and> length nm < 1024 \<and> convertible_children V (variable_name pname nm) cs
     \<and> (case of_property_read_string (Node nm f h ps cs) ''type'' of
          Inl e \<Rightarrow> e = EINVAL \<and> cs \<noteq> [] | Inr ty \<Rightarrow> leaf_ok V (variable_name pname nm) ty)"
| "convertible_children V name [] \<longleftrightarrow> True"
| "convertible_children V name (c # cs) \<longleftrightarrow> convertible V name c \<and> convertible_children V name cs"

definition bare_node :: "device_node \<Rightarrow> bool" where
  "bare_node n \<longleftrightarrow> dn_properties n = [] \<and> dn_phandle n = 0"

lemma bare_plain: "bare_node n \<Longrightarrow> plain_node n"
  by (simp add: bare_node_def plain_node_def props_ok_def)

text \<open>What importing \<open>ks\<close> from a node built from \<open>V\<close> does to the variables \<open>W\<close> of another session.\<close>

definition restores :: "state_variable list \<Rightarrow> string list \<Rightarrow> state_variable list \<Rightarrow> state_variable list \<Rightarrow> bool" where
  "restores V ks W W' \<longleftrightarrow> same_vars V W' \<and> (\<forall>k. k \<in> set ks \<or> raw_of W k = raw_of V k \<longrightarrow> raw_of W' k = raw_of V k)"

lemma restores_trans: "restores V ks W W' \<Longrightarrow> restores V js W' W'' \<Longrightarrow> restores V (ks @ js) W W''"
  by (auto simp: restores_def)

lemma type_named: "state_find_type_by_name ty = Some vt \<Longrightarrow> vt_name vt = ty \<and> nul_free ty"
  by (auto simp: state_find_type_by_name_def types_def nul_free_def split: if_splits)

lemma convert_leaf:
  assumes "of_property_read_string node ''type'' = Inr ty" and "leaf_ok V name ty" and "bare_node new"
  shows "\<exists>new'. convert_variable STATE_CONVERT_TO_NODE name node new V = (Inr (), new', V) \<and> plain_node new'
    \<and> node_data (set_properties new' []) = node_data (set_properties new []) \<and> dn_children new' = dn_children new
    \<and> of_property_read_string new' ''type'' = Inr ty
    \<and> (\<forall>W p. same_vars V W \<longrightarrow>
        (\<exists>W'. convert_variable STATE_CONVERT_FROM_NODE name new' p W = (Inr (), p, W') \<and> restores V [name] W W'))"
proof -
  obtain vt sv where vt: "state_find_type_by_name ty = Some vt" "find (\<lambda>v. sv_name v = name) V = Some sv"
      "sv_type sv = vt_type vt" "vt_type vt \<noteq> STATE_VARIABLE_TYPE_STRING" "wf_var sv"
    using assms(2) by (auto simp: leaf_ok_def split: option.splits)
  have nm: "vt_name vt = ty" "nul_free ty" using type_named [OF vt(1)] by auto
  let ?n1 = "put_prop new ''type'' (str_bytes ty @ [0])"
  let ?n2 = "put_prop ?n1 ''reg'' (concat (map put_unaligned_be32 [sv_start sv, sv_size sv]))"
  have p0: "props_ok new" using assms(3) by (simp add: bare_node_def props_ok_def)
  have pl: "plain_node ?n2" using bare_plain [OF assms(3)] by (simp add: plain_put)
  have nd: "of_find_property ?n2 ''default'' = None" using assms(3) by (simp add: find_put_other bare_node_def of_find_property_def [of new])
  have rt: "of_property_read_string ?n2 ''type'' = Inr ty"
    using prop_string.rd_other [of "''type''" "''reg''" ?n1] prop_string.rd_put [OF p0, of ty "''type''"] nm(2) by simp
  have keep: "node_data (set_properties ?n2 []) = node_data (set_properties new [])" "dn_children ?n2 = dn_children new"
    by (simp_all add: node_data_def)
  obtain new' where ex: "vt_export vt sv ?n2 STATE_CONVERT_TO_NODE = Inr new'"
    using export_import [OF vt(5,5,3,3,4) refl pl nd] by blast
  have kp: "plain_node new'" "node_data (set_properties new' []) = node_data (set_properties ?n2 [])"
      "dn_children new' = dn_children ?n2" "of_find_property new' ''type'' = of_find_property ?n2 ''type''"
    using export_import [OF vt(5,5,3,3,4) refl pl nd] ex by auto
  have t': "of_property_read_string new' ''type'' = Inr ty" using prop_string.rd_find [OF kp(4)] rt by simp
  have "convert_variable STATE_CONVERT_TO_NODE name node new V = (Inr (), new', V)"
    using assms(1) vt(1,2) ex nm(1)
    by (simp add: convert_variable_def exporting_def convert_export_def find_var_find [THEN iffD2] write_put)
  moreover have "\<exists>W'. convert_variable STATE_CONVERT_FROM_NODE name new' p W = (Inr (), p, W') \<and> restores V [name] W W'"
    if W: "same_vars V W" for W p
  proof -
    obtain sw where sw: "find (\<lambda>v. sv_name v = name) W = Some sw" "sv_type sw = sv_type sv" "sv_size sw = sv_size sv" "wf_var sw"
      by (rule same_vars_find [OF W vt(2)])
    have ty: "sv_type sw = vt_type vt" using sw(2) vt(3) by simp
    obtain sw' where im: "vt_import vt sw new' = (Inr (), sw')" "sv_raw sw' = sv_raw sv"
      using export_import [OF vt(5) sw(4) vt(3) ty vt(4) sw(3) pl nd] ex by auto
    have k: "wf_var sw'" "sv_name sw' = name" "sv_size sw' = sv_size sw" "sv_type sw' = sv_type sw"
      using import_keeps [OF sw(4) ty im(1)] find_name [OF sw(1)] by auto
    have "convert_variable STATE_CONVERT_FROM_NODE name new' p W = (Inr (), p, update_var name sw' W)"
      using t' vt(1) sw(1) im(1)
      by (simp add: convert_variable_def exporting_def convert_import_def find_var_find [THEN iffD2])
    moreover have "restores V [name] W (update_var name sw' W)"
      unfolding restores_def raw_of_def same_vars_update(2) [OF W sw(1) k(2,4,3,1)]
      using same_vars_update(1) [OF W sw(1) k(2,4,3,1)] vt(2) im(2) by auto
    ultimately show ?thesis by blast
  qed
  ultimately show ?thesis using kp keep t' by (intro exI [of _ new']) simp
qed

text \<open>The operations and predicates by the fields of the node.\<close>

lemma convert_node_sel:
  "state_convert_node_variable conv pname node parent vars =
     (case convert_children conv (variable_name pname (dn_name node)) (dn_children node) (new_child parent (dn_name node)) vars of
        (Inl e, new, vars1) \<Rightarrow> (Inl e, new, vars1)
      | (Inr _, new, vars1) \<Rightarrow> convert_variable conv (variable_name pname (dn_name node)) node new vars1)"
  by (cases node) (simp add: Let_def cong: sum.case_cong prod.case_cong)

lemma encodable_sel: "encodable n \<longleftrightarrow> nul_free (dn_name n) \<and> length (dn_name n) < 1024 \<and> (\<forall>p \<in> set (dn_properties n). prop_ok p)
     \<and> dn_phandle n = foldl prop_phandle 0 (dn_properties n) \<and> (\<forall>c \<in> set (dn_children n). encodable c)"
  by (cases n) simp

lemma plain_encodable:
  assumes "plain_node n" and "nul_free (dn_name n)" and "length (dn_name n) < 1024" and "\<forall>c \<in> set (dn_children n). encodable c"
  shows "encodable n"
proof -
  have "foldl prop_phandle 0 ps = 0" if "\<forall>p \<in> set ps. pp_name p \<noteq> ''phandle''" for ps
    using that by (induction ps) (simp_all add: prop_phandle_def)
  moreover have "\<forall>p \<in> set (dn_properties n). pp_name p \<noteq> ''phandle'' \<and> prop_ok p"
    using assms(1) by (auto simp: plain_node_def prop_ok_def nul_free_def)
  ultimately show ?thesis using assms by (auto simp: encodable_sel [of n] plain_node_def)
qed

lemma typeless: "dn_properties n = [] \<Longrightarrow> of_property_read_string n ''type'' = Inl EINVAL"
  by (simp add: of_property_read_string_def string_prop_def of_find_property_def)

lemma convert_from_to:
  "convertible V pname node \<Longrightarrow>
     (\<exists>new. state_convert_node_variable STATE_CONVERT_TO_NODE pname node parent V = (Inr (), new, V)
        \<and> dn_name new = dn_name node \<and> dn_full_name new = dn_full_name parent @ ''/'' @ dn_name new \<and> encodable new \<and> names_ok new
        \<and> (\<forall>W p. same_vars V W \<longrightarrow> (\<exists>W' q. state_convert_node_variable STATE_CONVERT_FROM_NODE pname new p W = (Inr (), q, W')
             \<and> restores V (var_names pname node) W W')))"
  "convertible_children V name cs \<Longrightarrow>
     (\<exists>news. convert_children STATE_CONVERT_TO_NODE name cs parent V = (Inr (), set_children parent (dn_children parent @ news), V)
        \<and> length news = length cs
        \<and> (\<forall>n \<in> set news. dn_full_name n = dn_full_name parent @ ''/'' @ dn_name n \<and> encodable n \<and> names_ok n)
        \<and> (\<forall>W p. same_vars V W \<longrightarrow> (\<exists>W' q. convert_children STATE_CONVERT_FROM_NODE name news p W = (Inr (), q, W')
             \<and> restores V (child_names name cs) W W')))"
proof (induction pname node and name cs arbitrary: parent and parent rule: var_names_child_names.induct)
  case (1 pname nm f h ps cs)
  let ?node = "Node nm f h ps cs" and ?name = "variable_name pname nm" and ?new = "new_child parent nm"
  have c: "convertible_children V ?name cs" and nm: "nul_free nm" "length nm < 1024" using 1(2) by simp_all
  obtain news where news: "convert_children STATE_CONVERT_TO_NODE ?name cs ?new V = (Inr (), set_children ?new news, V)"
      "length news = length cs" "\<forall>n \<in> set news. dn_full_name n = dn_full_name ?new @ ''/'' @ dn_name n \<and> encodable n \<and> names_ok n"
      "\<forall>W p. same_vars V W \<longrightarrow> (\<exists>W' q. convert_children STATE_CONVERT_FROM_NODE ?name news p W = (Inr (), q, W')
             \<and> restores V (child_names ?name cs) W W')"
    using 1(1) [OF c, of ?new] by (auto simp: new_child_def)
  let ?n1 = "set_children ?new news"
  have bare: "bare_node ?n1" by (simp add: bare_node_def new_child_def)
  show ?case
  proof (cases "of_property_read_string ?node ''type''")
    case (Inl e)
    then have e: "e = EINVAL" "cs \<noteq> []" using 1(2) by simp_all
    have t: "of_property_read_string ?n1 ''type'' = Inl EINVAL" by (simp add: typeless new_child_def)
    have to: "state_convert_node_variable STATE_CONVERT_TO_NODE pname ?node parent V = (Inr (), ?n1, V)"
      using news(1) Inl e by (simp add: Let_def convert_variable_def convert_typeless_def)
    have "\<exists>W' q. state_convert_node_variable STATE_CONVERT_FROM_NODE pname ?n1 p W = (Inr (), q, W')
             \<and> restores V (var_names pname ?node) W W'" if W: "same_vars V W" for W p
    proof -
      obtain W' q where "convert_children STATE_CONVERT_FROM_NODE ?name news (new_child p nm) W = (Inr (), q, W')"
          "restores V (child_names ?name cs) W W'" using news(4) W by blast
      moreover have "news \<noteq> []" using news(2) e(2) by auto
      ultimately show ?thesis
        using t Inl by (simp add: convert_node_sel new_child_def convert_variable_def convert_typeless_def)
    qed
    moreover have "encodable ?n1"
      using plain_encodable [OF bare_plain [OF bare]] news(3) nm by (simp add: new_child_def)
    moreover have "names_ok ?n1" using news(3) by (simp add: names_ok_unfold [of ?n1])
    ultimately show ?thesis using to by (intro exI [of _ ?n1]) (simp add: new_child_def)
  next
    case (Inr ty)
    then have l: "leaf_ok V ?name ty" using 1(2) by simp
    obtain new' where n': "convert_variable STATE_CONVERT_TO_NODE ?name ?node ?n1 V = (Inr (), new', V)" "plain_node new'"
        "node_data (set_properties new' []) = node_data (set_properties ?n1 [])" "dn_children new' = dn_children ?n1"
        "of_property_read_string new' ''type'' = Inr ty"
        "\<forall>W p. same_vars V W \<longrightarrow>
          (\<exists>W'. convert_variable STATE_CONVERT_FROM_NODE ?name new' p W = (Inr (), p, W') \<and> restores V [?name] W W')"
      using convert_leaf [OF Inr l bare] by blast
    have sel: "dn_name new' = nm" "dn_full_name new' = dn_full_name ?new" "dn_children new' = news"
      using n'(3,4) by (simp_all add: node_data_def) (simp add: new_child_def)
    have to: "state_convert_node_variable STATE_CONVERT_TO_NODE pname ?node parent V = (Inr (), new', V)"
      using news(1) n'(1) by (simp add: Let_def)
    have "\<exists>W' q. state_convert_node_variable STATE_CONVERT_FROM_NODE pname new' p W = (Inr (), q, W')
             \<and> restores V (var_names pname ?node) W W'" if W: "same_vars V W" for W p
    proof -
      obtain W1 q where 1: "convert_children STATE_CONVERT_FROM_NODE ?name news (new_child p nm) W = (Inr (), q, W1)"
          "restores V (child_names ?name cs) W W1" using news(4) W by blast
      obtain W2 where 2: "convert_variable STATE_CONVERT_FROM_NODE ?name new' q W1 = (Inr (), q, W2)" "restores V [?name] W1 W2"
        using n'(6) 1(2) unfolding restores_def by blast
      from 1(1) 2(1) have "state_convert_node_variable STATE_CONVERT_FROM_NODE pname new' p W = (Inr (), q, W2)"
        by (simp add: convert_node_sel sel)
      moreover have "restores V (var_names pname ?node) W W2" using restores_trans [OF 1(2) 2(2)] Inr by simp
      ultimately show ?thesis by blast
    qed
    moreover have "encodable new'" using plain_encodable [OF n'(2)] news(3) nm sel by simp
    moreover have "names_ok new'" using news(3) sel by (simp add: names_ok_unfold [of new'])
    ultimately show ?thesis using to sel by (intro exI [of _ new']) (simp add: new_child_def)
  qed
next
  case (2 name)
  then show ?case by (intro exI [of _ "[]"]) (simp add: restores_def, cases parent, simp)
next
  case (3 name c cs)
  have c: "convertible V name c" "convertible_children V name cs" using 3(3) by simp_all
  obtain new where new: "state_convert_node_variable STATE_CONVERT_TO_NODE name c parent V = (Inr (), new, V)"
      "dn_full_name new = dn_full_name parent @ ''/'' @ dn_name new" "encodable new" "names_ok new"
      "\<forall>W p. same_vars V W \<longrightarrow> (\<exists>W' q. state_convert_node_variable STATE_CONVERT_FROM_NODE name new p W = (Inr (), q, W')
             \<and> restores V (var_names name c) W W')"
    using 3(1) [OF c(1), of parent] by blast
  let ?p1 = "set_children parent (dn_children parent @ [new])"
  obtain news where news: "convert_children STATE_CONVERT_TO_NODE name cs ?p1 V = (Inr (), set_children ?p1 (dn_children ?p1 @ news), V)"
      "length news = length cs" "\<forall>n \<in> set news. dn_full_name n = dn_full_name parent @ ''/'' @ dn_name n \<and> encodable n \<and> names_ok n"
      "\<forall>W p. same_vars V W \<longrightarrow> (\<exists>W' q. convert_children STATE_CONVERT_FROM_NODE name news p W = (Inr (), q, W')
             \<and> restores V (child_names name cs) W W')"
    using 3(2) [OF c(2), of ?p1] by auto
  have s: "set_children ?p1 (dn_children ?p1 @ news) = set_children parent (dn_children parent @ new # news)"
    by (cases parent) simp
  have "\<exists>W' q. convert_children STATE_CONVERT_FROM_NODE name (new # news) p W = (Inr (), q, W')
             \<and> restores V (child_names name (c # cs)) W W'" if W: "same_vars V W" for W p
  proof -
    obtain W1 q where 1: "state_convert_node_variable STATE_CONVERT_FROM_NODE name new p W = (Inr (), q, W1)"
        "restores V (var_names name c) W W1" using new(5) W by blast
    obtain W2 q2 where 2: "convert_children STATE_CONVERT_FROM_NODE name news p W1 = (Inr (), q2, W2)"
        "restores V (child_names name cs) W1 W2" using news(4) 1(2) unfolding restores_def by blast
    show ?thesis using 1(1) 2(1) restores_trans [OF 1(2) 2(2)] by (simp add: exporting_def)
  qed
  then show ?case using new(1-4) news(1-3) unfolding s
    by (intro exI [of _ "new # news"]) (simp add: exporting_def Let_def)
qed

section \<open>A state packed as a tree and read back\<close>

text \<open>The tree a state is converted to fits the buffers of \<open>of_flatten_dtb\<close>.\<close>

definition dtb_fits :: "device_node option \<Rightarrow> state \<Rightarrow> bool" where
  "dtb_fits machine s \<longleftrightarrow> (case state_to_node machine s None STATE_CONVERT_TO_NODE of
     Inl _ \<Rightarrow> False
   | Inr t \<Rightarrow> length (enc_node 0 t) + 1320 \<le> bufsize \<and> length (strs_node t) + 1024 \<le> bufsize)"

text \<open>
  The description of the state in the tree of the machine: every variable has exactly one node of its type, and
  no variable is a string.
\<close>

definition described :: "device_node option \<Rightarrow> state \<Rightarrow> bool" where
  "described machine s \<longleftrightarrow> (case (machine, of_find_node_by_path machine (s_of_path s)) of
     (Some t, Some r) \<Rightarrow> convertible_children (s_variables s) [] (dn_children (the_node t r))
        \<and> distinct (map sv_name (s_variables s))
        \<and> set (map sv_name (s_variables s)) \<subseteq> set (child_names [] (dn_children (the_node t r)))
   | _ \<Rightarrow> False)"

lemma restored_raw:
  assumes "restores V ks W W'" and "distinct (map sv_name V)" and "set (map sv_name V) \<subseteq> set ks"
  shows "map sv_raw W' = map sv_raw V"
proof -
  have n: "map sv_name W' = map sv_name V" using assms(1) by (simp add: restores_def same_vars_def)
  have f: "find (\<lambda>v. sv_name v = sv_name x) X = Some x" if "x \<in> set X" "distinct (map sv_name X)" for x X
    using that by (induction X) (auto simp: image_iff)
  have l: "length W' = length V" using arg_cong [OF n, of length] by simp
  show ?thesis
  proof (rule nth_equalityI)
    fix i assume "i < length (map sv_raw W')"
    then have i: "i < length V" "i < length W'" using l by simp_all
    have k: "sv_name (W' ! i) = sv_name (V ! i)" using arg_cong [OF n, of "\<lambda>l. l ! i"] i by simp
    have "raw_of W' (sv_name (V ! i)) = raw_of V (sv_name (V ! i))"
    proof -
      have "sv_name (V ! i) \<in> set ks" using assms(3) i(1) by (simp add: image_subset_iff)
      with assms(1) show ?thesis unfolding restores_def by blast
    qed
    moreover have "find (\<lambda>v. sv_name v = sv_name (V ! i)) V = Some (V ! i)"
      by (rule f) (use i(1) assms(2) in simp_all)
    moreover have "find (\<lambda>v. sv_name v = sv_name (V ! i)) W' = Some (W' ! i)"
      unfolding k [symmetric] by (rule f) (use i(2) assms(2) in \<open>simp_all only: n nth_mem\<close>)
    ultimately show "map sv_raw W' ! i = map sv_raw V ! i" using i by (simp add: raw_of_def)
  qed (simp add: l)
qed

lemma to_node_from_node:
  assumes "described machine s"
  shows "\<exists>t. state_to_node machine s None STATE_CONVERT_TO_NODE = Inr t \<and> encodable t \<and> names_ok t
    \<and> dn_name t = [] \<and> dn_full_name t = []
    \<and> (\<forall>s2. same_vars (s_variables s) (s_variables s2) \<and> (s_magic s2 = 0 \<or> s_magic s2 = s_magic s) \<longrightarrow>
         (\<exists>W'. state_from_node s2 t False = (Inr (), s2\<lparr>s_variables := W'\<rparr>)
            \<and> map sv_raw W' = map sv_raw (s_variables s) \<and> same_vars (s_variables s) W'))"
proof -
  obtain m r where mr: "machine = Some m" "of_find_node_by_path machine (s_of_path s) = Some r"
      and c: "convertible_children (s_variables s) [] (dn_children (the_node m r))"
      and d: "distinct (map sv_name (s_variables s))"
        "set (map sv_name (s_variables s)) \<subseteq> set (child_names [] (dn_children (the_node m r)))"
    using assms by (auto simp: described_def split: option.splits)
  let ?root = "put_prop of_new_root ''magic'' (put_unaligned_be32 (s_magic s))"
  have root: "dn_children ?root = []" "dn_name ?root = []" "dn_full_name ?root = []" by (simp_all add: of_new_root_def)
  obtain news where news: "convert_children STATE_CONVERT_TO_NODE [] (dn_children (the_node m r)) ?root (s_variables s)
        = (Inr (), set_children ?root news, s_variables s)"
      "\<forall>n \<in> set news. dn_full_name n = ''/'' @ dn_name n \<and> encodable n \<and> names_ok n"
      "\<forall>W p. same_vars (s_variables s) W \<longrightarrow> (\<exists>W' q. convert_children STATE_CONVERT_FROM_NODE [] news p W = (Inr (), q, W')
             \<and> restores (s_variables s) (child_names [] (dn_children (the_node m r))) W W')"
    using convert_from_to(2) [OF c, of ?root] unfolding root by auto
  let ?t = "set_children ?root news"
  have "plain_node of_new_root" by (simp add: plain_node_def props_ok_def of_new_root_def)
  then have "plain_node ?root" by (rule plain_put) simp
  then have pl: "plain_node ?t" by (simp add: plain_node_def props_ok_def)
  have "encodable ?t" using plain_encodable [OF pl] news(2) by (simp add: nul_free_def of_new_root_def)
  moreover have "names_ok ?t" using news(2) root by (simp add: names_ok_unfold [of ?t])
  moreover have "state_to_node machine s None STATE_CONVERT_TO_NODE = Inr ?t"
    using mr news(1) by (simp add: state_to_node_def write_put)
  moreover have "\<exists>W'. state_from_node s2 ?t False = (Inr (), s2\<lparr>s_variables := W'\<rparr>)
      \<and> map sv_raw W' = map sv_raw (s_variables s) \<and> same_vars (s_variables s) W'"
    if W: "same_vars (s_variables s) (s_variables s2)" "s_magic s2 = 0 \<or> s_magic s2 = s_magic s" for s2
  proof -
    obtain W' q where w: "convert_children STATE_CONVERT_FROM_NODE [] news of_new_root (s_variables s2) = (Inr (), q, W')"
        "restores (s_variables s) (child_names [] (dn_children (the_node m r))) (s_variables s2) W'"
      using news(3) W(1) by blast
    have "of_property_read_u32 ?t ''magic'' = of_property_read_u32 ?root ''magic''"
      by (rule prop_u32.rd_find) (simp add: of_find_property_def)
    also have "\<dots> = Inr (s_magic s)" by (simp add: prop_u32.rd_put props_ok_def of_new_root_def)
    finally show ?thesis
      using w W(2) restored_raw [OF w(2) d] by (auto simp: state_from_node_def restores_def)
  qed
  ultimately show ?thesis using root by (intro exI [of _ ?t]) simp
qed

text \<open>
  C8: The device tree format loses nothing: a state whose variables are all described by the machine's tree, none
  of them a string, and whose tree fits the 64 KiB buffers is packed without error, the blob is verified by any
  later session, with whatever bytes behind it, and unpacking it gives every variable of that session the bytes it
  had in the first one, provided the session knows the same variables and the same magic or none.
\<close>

theorem dtb_pack_verify_unpack:
  assumes "described machine s" and "dtb_fits machine s"
  shows "\<exists>blob t. format_pack ks machine fresh s (Backend_dtb x) = (Inr blob, Backend_dtb (Some t))
    \<and> (\<forall>s2 y magic no_auth pad. same_vars (s_variables s) (s_variables s2) \<and> (s_magic s2 = 0 \<or> s_magic s2 = s_magic s) \<longrightarrow>
         format_verify ks (Backend_dtb y) magic (blob @ pad) (length (blob @ pad)) no_auth
           = ((Inr (), length blob), Backend_dtb (Some t))
         \<and> (\<exists>vars. format_unpack (Backend_dtb (Some t)) s2 (blob @ pad) (length blob)
               = (Inr (), s2\<lparr>s_variables := vars\<rparr>, Backend_dtb None)
             \<and> map sv_raw vars = map sv_raw (s_variables s)))"
proof -
  obtain t where t: "state_to_node machine s None STATE_CONVERT_TO_NODE = Inr t" "encodable t" "names_ok t"
      "dn_name t = []" "dn_full_name t = []"
      and conv_back: "\<forall>s2. same_vars (s_variables s) (s_variables s2) \<and> (s_magic s2 = 0 \<or> s_magic s2 = s_magic s) \<longrightarrow>
         (\<exists>W'. state_from_node s2 t False = (Inr (), s2\<lparr>s_variables := W'\<rparr>)
            \<and> map sv_raw W' = map sv_raw (s_variables s) \<and> same_vars (s_variables s) W')"
    using to_node_from_node [OF assms(1)] by blast
  have fit: "length (enc_node 0 t) + 1320 \<le> bufsize" "length (strs_node t) + 1024 \<le> bufsize"
    using assms(2) t(1) by (simp_all add: dtb_fits_def)
  let ?blob = "tree_blob t"
  obtain rest where fl: "of_flatten_dtb fresh t = Inr (?blob @ rest)"
    using flatten_blob [OF t(2) fit, of fresh] by (auto simp: tree_blob_def)
  have hdr: "fdt_header_of (?blob @ z) = tree_header t" for z by (rule tree_blob_total(1) [OF fit])
  have tot: "unat (fh_totalsize (tree_header t)) = length ?blob" by (rule tree_blob_total(2) [OF fit])
  have pk: "format_pack ks machine fresh s (Backend_dtb x) = (Inr ?blob, Backend_dtb (Some t))"
    using t(1) fl hdr [of rest] tot by (simp add: format_pack_def state_backend_format_dtb_pack_def)
  have len: "8 \<le> length ?blob" by (simp add: tree_blob_def)
  have be: "unat (get_unaligned_be32 (drop 4 (?blob @ z))) = length ?blob" for z
  proof -
    have "fh_totalsize (fdt_header_of b) = get_unaligned_be32 (drop 4 b)" for b by (simp add: fdt_header_of_def)
    then show ?thesis using hdr [of z] tot by metis
  qed
  have vf: "format_verify ks (Backend_dtb y) magic (?blob @ pad) (length (?blob @ pad)) no_auth
      = ((Inr (), length ?blob), Backend_dtb (Some t))" for y magic pad no_auth
    using len be [of pad] unflatten_blob [OF t(2-5) fit, of pad]
    by (simp add: format_verify_def state_backend_format_dtb_verify_def Let_def)
  have "\<exists>vars. format_unpack (Backend_dtb (Some t)) s2 (?blob @ pad) (length ?blob)
               = (Inr (), s2\<lparr>s_variables := vars\<rparr>, Backend_dtb None)
             \<and> map sv_raw vars = map sv_raw (s_variables s)"
    if W: "same_vars (s_variables s) (s_variables s2)" "s_magic s2 = 0 \<or> s_magic s2 = s_magic s" for s2 pad
  proof -
    obtain W' where "state_from_node s2 t False = (Inr (), s2\<lparr>s_variables := W'\<rparr>)" "map sv_raw W' = map sv_raw (s_variables s)"
      using conv_back W by blast
    then show ?thesis
      by (intro exI [of _ W']) (simp add: format_unpack_def state_backend_format_dtb_unpack_def)
  qed
  with pk vf show ?thesis by (intro exI [of _ ?blob] exI [of _ t]) simp
qed

text \<open>The state node of the machine, and two sessions of it.\<close>

definition demo_machine :: device_node where
  "demo_machine = Node [] [] 0 [] [demo_state_node]"

definition demo_dtb_session :: "u32 \<Rightarrow> u32 \<Rightarrow> state" where
  "demo_dtb_session a b = (state_new ''state'')\<lparr>s_of_path := ''/state'', s_magic := 7, s_variables := demo_vars a b\<rparr>"

lemma demo_described: "described (Some demo_machine) (demo_dtb_session 5 6)"
  by code_simp

definition demo_converted :: "string \<Rightarrow> string \<Rightarrow> u32 \<Rightarrow> u32 \<Rightarrow> bytes \<Rightarrow> device_node" where
  "demo_converted nm ty start n v = Node nm (''/'' @ nm) 0
     [\<lparr>pp_name = ''type'', pp_value = Some (str_bytes ty @ [0])\<rparr>,
      \<lparr>pp_name = ''reg'', pp_value = Some (put_unaligned_be32 start @ put_unaligned_be32 n)\<rparr>,
      \<lparr>pp_name = ''value'', pp_value = Some v\<rparr>] []"

lemma demo_to_node:
  "state_to_node (Some demo_machine) (demo_dtb_session 5 6) None STATE_CONVERT_TO_NODE =
     Inr (Node [] [] 0 [\<lparr>pp_name = ''magic'', pp_value = Some [0, 0, 0, 7]\<rparr>]
       [demo_converted ''b@4'' ''uint8'' 4 1 [0, 0, 0, 6], demo_converted ''a@0'' ''uint32'' 0 4 [0, 0, 0, 5]])"
  by code_simp

lemma demo_dtb_fits: "dtb_fits (Some demo_machine) (demo_dtb_session 5 6)"
  by (simp add: dtb_fits_def demo_to_node demo_converted_def length_enc_begin length_enc_prop up4_def pp_length_def
      strs_props_def bufsize_def)

lemma dtb_pack_verify_unpack_witness:
  "\<exists>blob t vars. format_pack no_keys (Some demo_machine) (\<lambda>_. 0xaa) (demo_dtb_session 5 6) (Backend_dtb None)
       = (Inr blob, Backend_dtb (Some t))
     \<and> format_unpack (Backend_dtb (Some t)) (demo_dtb_session 0 0) blob (length blob)
       = (Inr (), (demo_dtb_session 0 0)\<lparr>s_variables := vars\<rparr>, Backend_dtb None)
     \<and> map sv_raw vars = map sv_raw (demo_vars 5 6)"
proof -
  have "same_vars (demo_vars 5 6) (demo_vars 0 0)"
    by (auto simp: same_vars_def demo_vars_def new_var_def wf_var_def)
  then have s: "same_vars (s_variables (demo_dtb_session 5 6)) (s_variables (demo_dtb_session 0 0))"
      "s_magic (demo_dtb_session 0 0) = s_magic (demo_dtb_session 5 6)"
    by (simp_all add: demo_dtb_session_def)
  obtain blob t where p: "format_pack no_keys (Some demo_machine) (\<lambda>_. 0xaa) (demo_dtb_session 5 6) (Backend_dtb None)
       = (Inr blob, Backend_dtb (Some t))"
      and u: "\<exists>vars. format_unpack (Backend_dtb (Some t)) (demo_dtb_session 0 0) (blob @ []) (length blob)
               = (Inr (), (demo_dtb_session 0 0)\<lparr>s_variables := vars\<rparr>, Backend_dtb None)
             \<and> map sv_raw vars = map sv_raw (s_variables (demo_dtb_session 5 6))"
    using dtb_pack_verify_unpack [OF demo_described demo_dtb_fits, of no_keys "\<lambda>_. 0xaa" None] s by blast
  have v: "s_variables (demo_dtb_session 5 6) = demo_vars 5 6" by (simp add: demo_dtb_session_def)
  show ?thesis using p u unfolding v by auto
qed

section \<open>A stored type that is not the variable's\<close>

text \<open>The structure behind a variable of each type; the two integer types share one.\<close>

definition var_kind :: "state_variable_type \<Rightarrow> nat" where
  "var_kind t = (case t of STATE_VARIABLE_TYPE_UINT8 \<Rightarrow> 0 | STATE_VARIABLE_TYPE_UINT32 \<Rightarrow> 0
     | STATE_VARIABLE_TYPE_ENUM32 \<Rightarrow> 1 | STATE_VARIABLE_TYPE_MAC \<Rightarrow> 2 | STATE_VARIABLE_TYPE_STRING \<Rightarrow> 3)"

lemma import_wrong_kind:
  assumes "wf_var sv" and "var_kind (vt_type vt) \<noteq> var_kind (sv_type sv)"
  shows "vt_import vt sv node = (Inl FAULT, sv)"
  using assms(1)
  by (cases rule: wf_var_cases; use assms(2) in \<open>cases "vt_type vt"; simp add: var_kind_def vt_import_def
      state_uint32_import_def state_enum32_import_def state_mac_import_def state_string_import_def\<close>)

text \<open>
  The type of a variable is taken from the blob when a device tree state is unpacked, and it is not compared with the
  variable the session has under that name: when the first node of the stored tree carries another type (a MAC
  address where the session has an integer, say), unpacking accesses the variable through the wrong structure.
  The blob passes verification, which looks neither at the magic nor at the types.
\<close>

theorem dtb_type_confusion:
  assumes "of_property_read_u32 t ''magic'' = Inr magic" and "s_magic s = 0 \<or> s_magic s = magic"
    and "dn_children t = c # cs" and "dn_children c = []"
    and "of_property_read_string c ''type'' = Inr ty" and "state_find_type_by_name ty = Some vt"
    and "state_find_var (s_variables s) (variable_name [] (dn_name c)) = Inr sv" and "wf_var sv"
    and "var_kind (vt_type vt) \<noteq> var_kind (sv_type sv)"
  shows "fst (format_unpack (Backend_dtb (Some t)) s buf len) = Inl FAULT"
proof -
  obtain W where "convert_import vt (variable_name [] (dn_name c)) c (s_variables s) = (Inl FAULT, W)"
    using assms(7) import_wrong_kind [OF assms(8,9)] by (simp add: convert_import_def)
  then have cv: "fst (state_convert_node_variable STATE_CONVERT_FROM_NODE [] c p (s_variables s)) = Inl FAULT" for p
    using assms(4-6) by (simp add: convert_node_sel convert_variable_def exporting_def)
  have "fst (convert_children STATE_CONVERT_FROM_NODE [] (c # cs) p (s_variables s)) = Inl FAULT" for p
  proof -
    have "\<exists>a W. state_convert_node_variable STATE_CONVERT_FROM_NODE [] c p (s_variables s) = (Inl FAULT, a, W)"
      using cv [of p] by (metis prod.collapse)
    then show ?thesis by (auto simp: exporting_def)
  qed
  then have "fst (convert_children STATE_CONVERT_FROM_NODE [] (dn_children t) of_new_root (s_variables s)) = Inl FAULT"
    using assms(3) by metis
  then have "fst (state_from_node s t False) = Inl FAULT"
    using assms(1,2) by (auto simp: state_from_node_def split: prod.split)
  then show ?thesis by (cases "state_from_node s t False") (simp add: format_unpack_def state_backend_format_dtb_unpack_def)
qed

lemma dtb_type_confusion_witness:
  "fst (format_unpack (Backend_dtb (Some (Node [] [] 0 [\<lparr>pp_name = ''magic'', pp_value = Some [0, 0, 0, 7]\<rparr>]
      [demo_variable ''a'' ''mac'' 0 6]))) (demo_dtb_session 0 0) [] 0) = Inl FAULT"
proof -
  let ?sv = "hd (demo_vars 0 0)" and ?c = "demo_variable ''a'' ''mac'' 0 6"
    and ?vt = "\<lparr>vt_name = ''mac'', vt_type = STATE_VARIABLE_TYPE_MAC\<rparr>"
  let ?t = "Node [] [] 0 [\<lparr>pp_name = ''magic'', pp_value = Some [0, 0, 0, 7]\<rparr>] [?c]"
  have "of_property_read_u32 ?t ''magic'' = Inr 7" by code_simp
  moreover have "s_magic (demo_dtb_session 0 0) = 0 \<or> s_magic (demo_dtb_session 0 0) = 7" by code_simp
  moreover have "dn_children ?t = [?c]" "dn_children ?c = []" by code_simp+
  moreover have "of_property_read_string ?c ''type'' = Inr ''mac''" "state_find_type_by_name ''mac'' = Some ?vt" by code_simp+
  moreover have "state_find_var (s_variables (demo_dtb_session 0 0)) (variable_name [] (dn_name ?c)) = Inr ?sv" by code_simp
  moreover have "wf_var ?sv" "var_kind (vt_type ?vt) \<noteq> var_kind (sv_type ?sv)" by code_simp+
  ultimately show ?thesis by (rule dtb_type_confusion)
qed

end
