(* ===== verification/C_Text.thy ===== *)
theory C_Text
  imports DT_Prelude
begin

text \<open>
  Numbers as text, as the C library reads and prints them: \<open>strtoul\<close> as the standard defines it for the C locale and a
  64 bit \<open>unsigned long\<close>, and the conversions \<open>%u\<close>, \<open>%x\<close>, \<open>%08x\<close> and \<open>%02x\<close> of \<open>printf\<close>.
\<close>

section \<open>Reading and printing\<close>

definition isspace :: "char \<Rightarrow> bool" where
  "isspace c \<longleftrightarrow> (let n = of_char c :: nat in n = 32 \<or> 9 \<le> n \<and> n \<le> 13)"

definition digit_val :: "char \<Rightarrow> nat" where
  "digit_val c = (let n = of_char c :: nat in
     if 48 \<le> n \<and> n \<le> 57 then n - 48
     else if 97 \<le> n \<and> n \<le> 122 then n - 87
     else if 65 \<le> n \<and> n \<le> 90 then n - 55
     else 99)"

definition digits_int :: "int \<Rightarrow> string \<Rightarrow> int" where
  "digits_int b ds = foldl (\<lambda>n c. b * n + int (digit_val c)) 0 ds"

text \<open>A prefix \<open>0x\<close> counts only before a digit; base 0 lets the prefix choose.\<close>

definition hex_prefix :: "nat \<Rightarrow> string \<Rightarrow> bool" where
  "hex_prefix base s \<longleftrightarrow> (base = 0 \<or> base = 16) \<and>
     (case s of a # x # d # _ \<Rightarrow> a = CHR ''0'' \<and> (x = CHR ''x'' \<or> x = CHR ''X'') \<and> digit_val d < 16 | _ \<Rightarrow> False)"

definition chosen_base :: "nat \<Rightarrow> string \<Rightarrow> nat" where
  "chosen_base base s = (if hex_prefix base s then 16
     else if base = 0 then (case s of c # _ \<Rightarrow> if c = CHR ''0'' then 8 else 10 | [] \<Rightarrow> 10)
     else base)"

text \<open>
  The value, and the number of characters up to \<open>endptr\<close>: 0 when there is no digit.  A number that does not fit is
  \<open>ULONG_MAX\<close>; a minus sign negates modulo \<open>2 ^ 64\<close>.
\<close>

definition strtoul :: "string \<Rightarrow> nat \<Rightarrow> u64 \<times> nat" where
  "strtoul s base =
     (let s1 = dropWhile isspace s;
          neg = (s1 \<noteq> [] \<and> hd s1 = CHR ''-'');
          s2 = (if s1 \<noteq> [] \<and> (hd s1 = CHR ''-'' \<or> hd s1 = CHR ''+'') then tl s1 else s1);
          b = chosen_base base s2;
          s3 = (if hex_prefix base s2 then drop 2 s2 else s2);
          ds = takeWhile (\<lambda>c. digit_val c < b) s3
      in if ds = [] then (0, 0)
         else let n = digits_int (int b) ds;
                  v = (if 2 ^ 64 \<le> n then - 1 else if neg then word_of_int (- n) else word_of_int n)
              in (v, length s - length s3 + length ds))"

definition dec_digit :: "nat \<Rightarrow> char" where
  "dec_digit n = char_of (48 + n)"

function print_u :: "int \<Rightarrow> string" where
  "print_u n = (if n < 10 then [dec_digit (nat n)] else print_u (n div 10) @ [dec_digit (nat (n mod 10))])"
  by pat_completeness auto
termination by (relation "measure nat") auto

declare print_u.simps [simp del]

definition hex_digit :: "nat \<Rightarrow> char" where
  "hex_digit n = char_of (if n < 10 then 48 + n else 87 + n)"

definition print_02x :: "u8 \<Rightarrow> string" where
  "print_02x b = [hex_digit (unat b div 16), hex_digit (unat b mod 16)]"

text \<open>\<open>%x\<close>, and \<open>%08x\<close>, which fills up with zeros.\<close>

function print_x :: "int \<Rightarrow> string" where
  "print_x n = (if n < 16 then [hex_digit (nat n)] else print_x (n div 16) @ [hex_digit (nat (n mod 16))])"
  by pat_completeness auto
termination by (relation "measure nat") auto

declare print_x.simps [simp del]

definition print_08x :: "u32 \<Rightarrow> string" where
  "print_08x v = (let s = print_x (uint v) in replicate (8 - length s) (CHR ''0'') @ s)"

definition newline :: string where
  "newline = [CHR 0x0A]"

section \<open>Numbers as text\<close>

lemma of_dec_digit [simp]: "m < 10 \<Longrightarrow> (of_char (dec_digit m) :: nat) = 48 + m"
  by (simp add: dec_digit_def)

lemma digit_val_decimal [simp]: "m < 10 \<Longrightarrow> digit_val (dec_digit m) = m"
  by (simp add: digit_val_def Let_def)

lemma digits_int_snoc [simp]: "digits_int b (ds @ [c]) = b * digits_int b ds + int (digit_val c)"
  by (simp add: digits_int_def)

lemma print_u_digits: "0 \<le> n \<Longrightarrow> c \<in> set (print_u n) \<Longrightarrow> \<exists>m < 10. c = dec_digit m"
proof (induction n rule: print_u.induct)
  case (1 n)
  show ?case
  proof (cases "n < 10")
    case True
    with 1(2,3) show ?thesis by (subst (asm) print_u.simps) (auto intro!: exI [of _ "nat n"])
  next
    case False
    with 1(3) have "c \<in> set (print_u (n div 10)) \<or> c = dec_digit (nat (n mod 10))"
      by (subst (asm) print_u.simps) auto
    moreover have "nat (n mod 10) < 10" by simp
    ultimately show ?thesis using 1(1) [OF False] 1(2) by auto
  qed
qed

lemma print_u_value [simp]: "0 \<le> n \<Longrightarrow> digits_int 10 (print_u n) = n"
proof (induction n rule: print_u.induct)
  case (1 n)
  have "nat (n mod 10) < 10" by simp
  then show ?case
    by (cases "n < 10"; subst print_u.simps) (use 1 in \<open>simp_all add: digits_int_def [of _ "[_]"]\<close>)
qed

lemma print_u_head: "0 < n \<Longrightarrow> \<exists>m cs. print_u n = dec_digit m # cs \<and> 0 < m \<and> m < 10"
proof (induction n rule: print_u.induct)
  case (1 n)
  show ?case
  proof (cases "n < 10")
    case True
    then show ?thesis using 1(2) by (subst print_u.simps) (auto intro!: exI [of _ "nat n"])
  next
    case False
    then have "0 < n div 10" by simp
    from 1(1) [OF False this] False show ?thesis by (subst print_u.simps) auto
  qed
qed

lemma not_marks: "m < 10 \<Longrightarrow> \<not> isspace (dec_digit m)"
  "m < 10 \<Longrightarrow> dec_digit m \<noteq> CHR ''-''" "m < 10 \<Longrightarrow> dec_digit m \<noteq> CHR ''+''"
  "0 < m \<Longrightarrow> m < 10 \<Longrightarrow> dec_digit m \<noteq> CHR ''0''"
proof -
  show "m < 10 \<Longrightarrow> \<not> isspace (dec_digit m)" by (simp add: isspace_def Let_def)
  have c: "c \<noteq> d" if "(of_char c :: nat) \<noteq> of_char d" for c d :: char using that by blast
  show "m < 10 \<Longrightarrow> dec_digit m \<noteq> CHR ''-''" "m < 10 \<Longrightarrow> dec_digit m \<noteq> CHR ''+''"
    "0 < m \<Longrightarrow> m < 10 \<Longrightarrow> dec_digit m \<noteq> CHR ''0''"
    by (rule c; simp)+
qed

text \<open>A number without space, sign and prefix.\<close>

lemma strtoul_plain:
  assumes "\<not> isspace (hd s)" and "hd s \<noteq> CHR ''-''" and "hd s \<noteq> CHR ''+''" and "\<not> hex_prefix base s"
    and "chosen_base base s = b" and "takeWhile (\<lambda>c. digit_val c < b) s = ds" and "ds \<noteq> []" and "digits_int (int b) ds < 2 ^ 64"
  shows "strtoul s base = (word_of_int (digits_int (int b) ds), length ds)"
proof -
  have ne: "s \<noteq> []" using assms(6,7) by auto
  then have "dropWhile isspace s = s" using assms(1) by (cases s) auto
  then show ?thesis using assms(2-8) ne unfolding strtoul_def Let_def by simp
qed

lemma strtoul_print_u:
  assumes "0 \<le> n" and "n < 2 ^ 64"
  shows "fst (strtoul (print_u n) 0) = word_of_int n"
proof (cases "n = 0")
  case True
  have "fst (strtoul (print_u 0) 0) = word_of_int 0" by code_simp
  with True show ?thesis by simp
next
  case False
  with assms(1) obtain m cs where p: "print_u n = dec_digit m # cs" "0 < m" "m < 10" using print_u_head [of n] by auto
  note nm = not_marks [of m]
  have tw: "takeWhile (\<lambda>c. digit_val c < 10) (print_u n) = print_u n"
    using print_u_digits [OF assms(1)] by (fastforce simp: takeWhile_eq_all_conv)
  have b: "chosen_base 0 (print_u n) = 10" "\<not> hex_prefix 0 (print_u n)"
    using nm(4) p by (auto simp: chosen_base_def hex_prefix_def split: list.splits)
  have s: "\<not> isspace (hd (print_u n))" "hd (print_u n) \<noteq> CHR ''-''" "hd (print_u n) \<noteq> CHR ''+''" "print_u n \<noteq> []"
    using nm p by simp_all
  show ?thesis using strtoul_plain [OF s(1-3) b(2,1) tw s(4)] assms by simp
qed

section \<open>Hexadecimal digits\<close>

lemma hex_digit_facts:
  assumes "a < 16"
  shows "digit_val (hex_digit a) = a" "\<not> isspace (hex_digit a)"
    "hex_digit a \<noteq> CHR ''-''" "hex_digit a \<noteq> CHR ''+''" "hex_digit a \<noteq> CHR ''x''" "hex_digit a \<noteq> CHR ''X''" "hex_digit a \<noteq> CHR '':''"
proof -
  have oc: "(of_char (hex_digit a) :: nat) = (if a < 10 then 48 + a else 87 + a)" using assms by (simp add: hex_digit_def)
  have c: "c \<noteq> d" if "(of_char c :: nat) \<noteq> of_char d" for c d :: char using that by blast
  show "digit_val (hex_digit a) = a" using assms oc by (simp add: digit_val_def Let_def)
  show "\<not> isspace (hex_digit a)" using assms oc by (simp add: isspace_def Let_def)
  show "hex_digit a \<noteq> CHR ''-''" "hex_digit a \<noteq> CHR ''+''" "hex_digit a \<noteq> CHR ''x''" "hex_digit a \<noteq> CHR ''X''" "hex_digit a \<noteq> CHR '':''"
    by (rule c; use assms oc in simp)+
qed

lemma strtoul_hex:
  assumes "a < 16" and "b < 16" and "rest = [] \<or> hd rest = CHR '':''"
  shows "strtoul (hex_digit a # hex_digit b # rest) 16 = (word_of_int (16 * int a + int b), 2)"
proof -
  note fa = hex_digit_facts [OF assms(1)] and fb = hex_digit_facts [OF assms(2)]
  have r: "takeWhile (\<lambda>c. digit_val c < 16) rest = []"
    using assms(3) by (cases rest) (auto simp: digit_val_def Let_def)
  have tw: "takeWhile (\<lambda>c. digit_val c < 16) (hex_digit a # hex_digit b # rest) = [hex_digit a, hex_digit b]"
    using fa(1) fb(1) assms(1,2) r by simp
  have p: "hex_prefix 16 (hex_digit a # hex_digit b # rest) = False"
    using fb(5,6) by (simp add: hex_prefix_def split: list.split)
  have n: "digits_int 16 [hex_digit a, hex_digit b] = 16 * int a + int b" by (simp add: digits_int_def fa(1) fb(1))
  have b: "chosen_base 16 (hex_digit a # hex_digit b # rest) = 16" by (simp add: chosen_base_def)
  have "16 * int a + int b < 2 ^ 64" using assms(1,2) by simp
  with strtoul_plain [OF _ _ _ _ b tw] fa(2-4) p n show ?thesis by simp
qed

end
