(* ===== verification/Cli_Values.thy ===== *)
theory Cli_Values
  imports State C_Text
begin

text \<open>
  The values of state variables as text, in \<open>src/barebox-state.c\<close>: the setters and getters behind the options
  \<open>--set\<close> and \<open>--get\<close>, \<open>state_get_var\<close> and \<open>state_set_var\<close>.  Of the C library they use \<open>strtoul\<close>, modelled here as
  the standard defines it for the C locale and a 64 bit \<open>unsigned long\<close>, and \<open>asprintf\<close> with \<open>%u\<close> and \<open>%02x\<close>.
  A getter returns the string; a setter the variable afterwards.
\<close>

section \<open>Setters\<close>

definition state_uint32_set :: "state_variable \<Rightarrow> string \<Rightarrow> state_variable res" where
  "state_uint32_set var val = (case sv_data var of
     Var_u32 _ d \<Rightarrow> Inr (var\<lparr>sv_data := Var_u32 (ucast (fst (strtoul val 0))) d\<rparr>)
   | _ \<Rightarrow> Inl FAULT)"

definition state_uint8_set :: "state_variable \<Rightarrow> string \<Rightarrow> state_variable res" where
  "state_uint8_set var val = (case sv_data var of
     Var_u32 _ d \<Rightarrow>
       (let num = fst (strtoul val 0)
        in if 255 < num then Inl ERANGE else Inr (var\<lparr>sv_data := Var_u32 (ucast num) d\<rparr>))
   | _ \<Rightarrow> Inl FAULT)"

text \<open>The loop over the names: the first that is equal.\<close>

fun name_index :: "string list \<Rightarrow> string \<Rightarrow> nat option" where
  "name_index [] val = None"
| "name_index (n # ns) val = (if n = val then Some 0 else map_option Suc (name_index ns val))"

definition state_enum32_set :: "state_variable \<Rightarrow> string \<Rightarrow> state_variable res" where
  "state_enum32_set sv val = (case sv_data sv of
     Var_enum32 _ d ns \<Rightarrow> (case name_index ns val of
         None \<Rightarrow> Inl EINVAL | Some i \<Rightarrow> Inr (sv\<lparr>sv_data := Var_enum32 (word_of_nat i) d ns\<rparr>))
   | _ \<Rightarrow> Inl FAULT)"

text \<open>
  The loop over the six groups; \<open>str\<close> is the rest of the string.  \<open>e + 1\<close> may point one behind the terminating NUL,
  which nothing reads in the last round; reading from there is out of bounds.
\<close>

fun ethaddr_loop :: "nat \<Rightarrow> string option \<Rightarrow> bytes res" where
  "ethaddr_loop 0 str = Inr []"
| "ethaddr_loop (Suc k) None = Inl FAULT"
| "ethaddr_loop (Suc k) (Some str) =
     (case strtoul str 16 of (v, e) \<Rightarrow>
        bindE (ethaddr_loop k (if e < length str then Some (drop (Suc e) str) else None)) (\<lambda>rest. Inr (ucast v # rest)))"

definition string_to_ethaddr :: "string \<Rightarrow> bytes res" where
  "string_to_ethaddr str =
     (if length str \<noteq> 17 then Inl EINVAL
      else if str ! 2 \<noteq> CHR '':'' \<or> str ! 5 \<noteq> CHR '':'' \<or> str ! 8 \<noteq> CHR '':'' \<or> str ! 11 \<noteq> CHR '':'' \<or> str ! 14 \<noteq> CHR '':''
      then Inl EINVAL
      else ethaddr_loop 6 (Some str))"

definition state_mac_set :: "state_variable \<Rightarrow> string \<Rightarrow> state_variable res" where
  "state_mac_set var val = (case sv_data var of
     Var_mac _ d \<Rightarrow> bindE (string_to_ethaddr val) (\<lambda>mac. Inr (var\<lparr>sv_data := Var_mac mac d\<rparr>))
   | _ \<Rightarrow> Inl FAULT)"

definition state_string_set :: "state_variable \<Rightarrow> string \<Rightarrow> state_variable res" where
  "state_string_set sv val = bindE (state_string_copy_to_raw sv val) (\<lambda>sv1. case sv_data sv1 of
     Var_string _ d r \<Rightarrow> Inr (sv1\<lparr>sv_data := Var_string (Some val) d r\<rparr>)
   | _ \<Rightarrow> Inl FAULT)"

section \<open>Getters\<close>

definition state_uint32_get :: "state_variable \<Rightarrow> string res" where
  "state_uint32_get var = (case sv_data var of Var_u32 v _ \<Rightarrow> Inr (print_u (uint v)) | _ \<Rightarrow> Inl FAULT)"

text \<open>The value is used as an index without a test.\<close>

definition state_enum32_get :: "state_variable \<Rightarrow> string res" where
  "state_enum32_get var = (case sv_data var of
     Var_enum32 v _ ns \<Rightarrow> (if unat v < length ns then Inr (ns ! unat v) else Inl FAULT)
   | _ \<Rightarrow> Inl FAULT)"

definition mac_text :: "bytes \<Rightarrow> string" where
  "mac_text m = print_02x (m ! 0) @ '':'' @ print_02x (m ! 1) @ '':'' @ print_02x (m ! 2) @ '':'' @ print_02x (m ! 3)
     @ '':'' @ print_02x (m ! 4) @ '':'' @ print_02x (m ! 5)"

definition state_mac_get :: "state_variable \<Rightarrow> string res" where
  "state_mac_get var = (case sv_data var of
     Var_mac m _ \<Rightarrow> (if length m < 6 then Inl FAULT else Inr (mac_text m))
   | _ \<Rightarrow> Inl FAULT)"

text \<open>\<open>raw [0]\<close> of an empty string is behind the object.\<close>

definition state_string_get :: "state_variable \<Rightarrow> string res" where
  "state_string_get var = (case sv_data var of
     Var_string _ _ r \<Rightarrow>
       (case r of [] \<Rightarrow> Inl FAULT | b # _ \<Rightarrow> Inr (if b \<noteq> 0 then bytes_str (takeWhile (\<lambda>x. x \<noteq> 0) r) else []))
   | _ \<Rightarrow> Inl FAULT)"

definition state_enum32_info :: "state_variable \<Rightarrow> string res" where
  "state_enum32_info var = (case sv_data var of
     Var_enum32 _ _ ns \<Rightarrow> Inr ('', values=['' @ concat (map (\<lambda>i. ns ! i @ (if Suc i = length ns then [] else '','')) [0..<length ns]) @ '']'')
   | _ \<Rightarrow> Inl FAULT)"

section \<open>The table of the types\<close>

record variable_str_type =
  vs_type :: state_variable_type
  vs_name :: string

definition str_types :: "variable_str_type list" where
  "str_types = [\<lparr>vs_type = STATE_VARIABLE_TYPE_UINT8, vs_name = ''uint8''\<rparr>, \<lparr>vs_type = STATE_VARIABLE_TYPE_UINT32, vs_name = ''uint32''\<rparr>,
     \<lparr>vs_type = STATE_VARIABLE_TYPE_ENUM32, vs_name = ''enum32''\<rparr>, \<lparr>vs_type = STATE_VARIABLE_TYPE_MAC, vs_name = ''mac''\<rparr>,
     \<lparr>vs_type = STATE_VARIABLE_TYPE_STRING, vs_name = ''string''\<rparr>]"

definition state_find_type :: "state_variable_type \<Rightarrow> variable_str_type option" where
  "state_find_type t = find (\<lambda>vs. vs_type vs = t) str_types"

definition vs_get :: "variable_str_type \<Rightarrow> state_variable \<Rightarrow> string res" where
  "vs_get vs = (case vs_type vs of
     STATE_VARIABLE_TYPE_UINT8 \<Rightarrow> state_uint32_get
   | STATE_VARIABLE_TYPE_UINT32 \<Rightarrow> state_uint32_get
   | STATE_VARIABLE_TYPE_ENUM32 \<Rightarrow> state_enum32_get
   | STATE_VARIABLE_TYPE_MAC \<Rightarrow> state_mac_get
   | STATE_VARIABLE_TYPE_STRING \<Rightarrow> state_string_get)"

definition vs_set :: "variable_str_type \<Rightarrow> state_variable \<Rightarrow> string \<Rightarrow> state_variable res" where
  "vs_set vs = (case vs_type vs of
     STATE_VARIABLE_TYPE_UINT8 \<Rightarrow> state_uint8_set
   | STATE_VARIABLE_TYPE_UINT32 \<Rightarrow> state_uint32_set
   | STATE_VARIABLE_TYPE_ENUM32 \<Rightarrow> state_enum32_set
   | STATE_VARIABLE_TYPE_MAC \<Rightarrow> state_mac_set
   | STATE_VARIABLE_TYPE_STRING \<Rightarrow> state_string_set)"

text \<open>Only the enumeration has an \<open>info\<close>.\<close>

definition vs_info :: "variable_str_type \<Rightarrow> state_variable \<Rightarrow> string res" where
  "vs_info vs sv = (if vs_type vs = STATE_VARIABLE_TYPE_ENUM32 then state_enum32_info sv else Inr [])"

section \<open>Reading and writing a variable\<close>

text \<open>A null result is \<open>ENOENT\<close>.\<close>

definition state_get_var :: "state \<Rightarrow> string \<Rightarrow> string res" where
  "state_get_var state var = (case state_find_var (s_variables state) var of
     Inl _ \<Rightarrow> Inl ENOENT
   | Inr sv \<Rightarrow> (case state_find_type (sv_type sv) of None \<Rightarrow> Inl ENOENT | Some vtype \<Rightarrow> vs_get vtype sv))"

definition state_set_var :: "state \<Rightarrow> string \<Rightarrow> string \<Rightarrow> unit res \<times> state" where
  "state_set_var state var val = (case state_find_var (s_variables state) var of
     Inl e \<Rightarrow> (Inl e, state)
   | Inr sv \<Rightarrow> (case state_find_type (sv_type sv) of
       None \<Rightarrow> (Inl ENODEV, state)
     | Some vtype \<Rightarrow> (case vs_get vtype sv of
         Inl FAULT \<Rightarrow> (Inl FAULT, state)
       | oldval \<Rightarrow>
           if oldval = Inr val then (Inr (), state)
           else (case vs_set vtype sv val of
               Inl e \<Rightarrow> (Inl e, state)
             | Inr sv' \<Rightarrow> (Inr (), state\<lparr>s_variables := update_var var sv' (s_variables state), s_dirty := True\<rparr>)))))"

section \<open>MAC addresses as text\<close>

lemma ethaddr_group:
  assumes "rest = [] \<or> hd rest = CHR '':''"
  shows "ethaddr_loop (Suc k) (Some (print_02x b @ rest)) =
    bindE (ethaddr_loop k (if rest = [] then None else Some (tl rest))) (\<lambda>bs. Inr (b # bs))"
proof -
  have l: "unat b div 16 < 16" "unat b mod 16 < 16" using unsigned_less [of b, where 'a = nat] by simp_all
  have i: "16 * int (unat b div 16) + int (unat b mod 16) = uint b"
    by (simp add: of_nat_div of_nat_mod)
  have "(ucast (word_of_int (uint b) :: u64) :: u8) = b"
  proof -
    have "(word_of_int (uint b) :: u64) = ucast b" by (simp add: unsigned_ucast_eq word_eq_iff_unsigned)
    then show ?thesis by (simp add: word_eq_iff_unsigned unsigned_ucast_eq take_bit_word_eq_self)
  qed
  then show ?thesis
    using strtoul_hex [OF l assms] unfolding i by (cases rest) (simp_all add: print_02x_def)
qed

lemma ethaddr_mac_text: "length m = 6 \<Longrightarrow> string_to_ethaddr (mac_text m) = Inr m"
proof -
  assume l: "length m = 6"
  have L: "length (mac_text m) = 17" by (simp add: mac_text_def print_02x_def)
  have C: "mac_text m ! 2 = CHR '':''" "mac_text m ! 5 = CHR '':''" "mac_text m ! 8 = CHR '':''" "mac_text m ! 11 = CHR '':''"
      "mac_text m ! 14 = CHR '':''"
    by (simp_all add: mac_text_def print_02x_def)
  have six: "(6 :: nat) = Suc (Suc (Suc (Suc (Suc (Suc 0)))))" by simp
  have "ethaddr_loop 6 (Some (mac_text m)) = Inr [m ! 0, m ! 1, m ! 2, m ! 3, m ! 4, m ! 5]"
    unfolding six mac_text_def using ethaddr_group [of "[]" _ "m ! 5"]
    by (simp del: ethaddr_loop.simps(3) add: ethaddr_group)
  moreover have "[m ! 0, m ! 1, m ! 2, m ! 3, m ! 4, m ! 5] = m"
    using l by (intro nth_equalityI) (auto simp: less_Suc_eq numeral_eq_Suc)
  ultimately show ?thesis using L C by (simp add: string_to_ethaddr_def)
qed

text \<open>
  A conversion stops at a colon: the rest after a group has at most one colon less, so the six groups stay inside the
  string.
\<close>

lemma strtoul_stops: "snd (strtoul (xs @ CHR '':'' # ys) base) \<le> length xs" if "base = 16"
proof -
  have c: "\<not> isspace (CHR '':'')" "\<not> digit_val (CHR '':'') < 16" by code_simp+
  define s1 where "s1 = dropWhile isspace xs"
  define s2 where "s2 = (if s1 \<noteq> [] \<and> (hd s1 = CHR ''-'' \<or> hd s1 = CHR ''+'') then tl s1 else s1)"
  let ?w = "CHR '':'' # ys"
  have d1: "dropWhile isspace (xs @ ?w) = s1 @ ?w"
    unfolding s1_def using c(1) by (induction xs) auto
  have d2: "(if s1 @ ?w \<noteq> [] \<and> (hd (s1 @ ?w) = CHR ''-'' \<or> hd (s1 @ ?w) = CHR ''+'') then tl (s1 @ ?w) else s1 @ ?w) = s2 @ ?w"
    by (cases s1) (auto simp: s2_def)
  have p: "hex_prefix 16 (s2 @ ?w) \<Longrightarrow> 3 \<le> length s2"
    using c(2) by (auto simp: hex_prefix_def split: list.splits) (auto simp: append_eq_Cons_conv)
  define s3 where "s3 = (if hex_prefix 16 (s2 @ ?w) then drop 2 s2 else s2)"
  have d3: "(if hex_prefix 16 (s2 @ ?w) then drop 2 (s2 @ ?w) else s2 @ ?w) = s3 @ ?w"
    using p by (auto simp: s3_def)
  have tw: "takeWhile (\<lambda>c. digit_val c < 16) (s3 @ ?w) = takeWhile (\<lambda>c. digit_val c < 16) s3"
    using c(2) by (induction s3) auto
  have l: "length s3 \<le> length xs"
    unfolding s3_def s2_def s1_def using length_dropWhile_le [of isspace xs] by auto
  have "length (takeWhile (\<lambda>c. digit_val c < 16) s3) \<le> length s3" by (rule length_takeWhile_le)
  then show ?thesis unfolding that strtoul_def Let_def d1 d2 d3 using l by (simp add: chosen_base_def tw) linarith
qed

lemma ethaddr_loop_ok:
  "k \<le> count_list str (CHR '':'') \<Longrightarrow> \<exists>m. ethaddr_loop (Suc k) (Some str) = Inr m \<and> length m = Suc k"
proof (induction k arbitrary: str)
  case 0
  then show ?case by (simp split: prod.split)
next
  case (Suc k)
  then have "CHR '':'' \<in> set str" by (metis count_list_0_iff not_less_eq_eq zero_le)
  then obtain xs ys where s: "str = xs @ CHR '':'' # ys" "CHR '':'' \<notin> set xs" by (meson split_list_first)
  obtain v e where ve: "strtoul str 16 = (v, e)" by force
  have e: "e \<le> length xs" using strtoul_stops [of 16 xs ys] ve s(1) by simp
  have "drop (Suc e) (xs @ [CHR '':'']) @ ys = drop (Suc e) str" using e unfolding s(1) by (cases "e = length xs") simp_all
  then have "k \<le> count_list (drop (Suc e) str) (CHR '':'')"
  proof -
    have "count_list str (CHR '':'') = Suc (count_list ys (CHR '':''))" using s by simp
    then have "k \<le> count_list ys (CHR '':'')" using Suc.prems by simp
    also have "\<dots> \<le> count_list (drop (Suc e) (xs @ [CHR '':'']) @ ys) (CHR '':'')" by simp
    finally show ?thesis unfolding \<open>drop (Suc e) (xs @ [CHR '':'']) @ ys = drop (Suc e) str\<close> .
  qed
  from Suc.IH [OF this] obtain m where "ethaddr_loop (Suc k) (Some (drop (Suc e) str)) = Inr m" "length m = Suc k" by blast
  then show ?case using ve e s(1) by (subst ethaddr_loop.simps) simp
qed



definition mac_shape :: "string \<Rightarrow> bool" where
  "mac_shape str \<longleftrightarrow> length str = 17 \<and> str ! 2 = CHR '':'' \<and> str ! 5 = CHR '':'' \<and> str ! 8 = CHR '':'' \<and> str ! 11 = CHR '':''
     \<and> str ! 14 = CHR '':''"

lemma mac_shape_count: "mac_shape str \<Longrightarrow> 5 \<le> count_list str (CHR '':'')"
proof -
  assume s: "mac_shape str"
  let ?I = "{i. i < length str \<and> str ! i = CHR '':''}"
  have "{2, 5, 8, 11, 14} \<subseteq> ?I" using s by (auto simp: mac_shape_def)
  then have "card {2, 5, 8, 11, 14 :: nat} \<le> card ?I" by (rule card_mono [rotated]) simp
  then show ?thesis by (simp add: count_list_eq_length_filter length_filter_conv_card eq_commute)
qed

lemma ethaddr_shape: "mac_shape str \<Longrightarrow> \<exists>m. string_to_ethaddr str = Inr m \<and> length m = 6"
  using ethaddr_loop_ok [OF mac_shape_count] by (fastforce simp: string_to_ethaddr_def mac_shape_def eval_nat_numeral)

lemma ethaddr_no_shape: "\<not> mac_shape str \<Longrightarrow> string_to_ethaddr str = Inl EINVAL"
  by (auto simp: string_to_ethaddr_def mac_shape_def)

lemma ethaddr_six: "string_to_ethaddr str = Inr m \<Longrightarrow> length m = 6"
  using ethaddr_shape ethaddr_no_shape by (metis Inl_Inr_False Inr_inject)

text \<open>
  \<open>string_to_ethaddr\<close> never reads outside the string, whatever it is given: a string of 17 characters with the five colons
  in their places is turned into six bytes, any other is refused.  (Nothing else is looked at: the groups need not
  be hexadecimal digits.)
\<close>

theorem string_to_ethaddr_total:
  "if mac_shape str then \<exists>m. string_to_ethaddr str = Inr m \<and> length m = 6 else string_to_ethaddr str = Inl EINVAL"
  using ethaddr_shape [of str] ethaddr_no_shape [of str] by simp

section \<open>Setting and getting\<close>

text \<open>The text a getter gives after the setter took \<open>val\<close>.\<close>

definition shown :: "state_variable_type \<Rightarrow> string \<Rightarrow> string" where
  "shown ty val = (case ty of
     STATE_VARIABLE_TYPE_UINT8 \<Rightarrow> print_u (uint (ucast (fst (strtoul val 0)) :: u32))
   | STATE_VARIABLE_TYPE_UINT32 \<Rightarrow> print_u (uint (ucast (fst (strtoul val 0)) :: u32))
   | STATE_VARIABLE_TYPE_MAC \<Rightarrow> (case string_to_ethaddr val of Inl _ \<Rightarrow> [] | Inr m \<Rightarrow> mac_text m)
   | _ \<Rightarrow> val)"

lemma print_u_back: "(ucast (fst (strtoul (print_u (uint (v :: u32))) 0)) :: u32) = v"
proof -
  have "uint v < 2 ^ 64" using unsigned_less [of v, where 'a = int] by simp
  then have "fst (strtoul (print_u (uint v)) 0) = word_of_int (uint v)" by (intro strtoul_print_u) simp
  moreover have "(word_of_int (uint v) :: u64) = ucast v" by (simp add: unsigned_ucast_eq word_eq_iff_unsigned)
  moreover have "(ucast (ucast v :: u64) :: u32) = v" by (simp add: word_eq_iff_unsigned unsigned_ucast_eq take_bit_word_eq_self)
  ultimately show ?thesis by simp
qed

lemma name_index_nth: "name_index ns val = Some i \<Longrightarrow> i < length ns \<and> ns ! i = val"
  by (induction ns arbitrary: i) (auto split: if_splits)

lemma find_type_type: "state_find_type t = Some vs \<Longrightarrow> vs_type vs = t"
  by (auto simp: state_find_type_def find_Some_iff)

lemma state_find_type_some: "\<exists>vs. state_find_type t = Some vs \<and> vs_type vs = t"
  by (cases t) (simp_all add: state_find_type_def str_types_def)

lemma nul_free_bytes: "nul_free s \<Longrightarrow> takeWhile (\<lambda>x. x \<noteq> 0) (str_bytes s @ replicate k 0) = str_bytes s"
proof -
  assume "nul_free s"
  then have "x \<noteq> 0" if "x \<in> set (str_bytes s)" for x using that nul_notin_str_bytes by metis
  then show ?thesis by (simp add: takeWhile_append2)
qed

lemma string_get_text:
  "sv_data sv = Var_string s d r \<Longrightarrow>
     state_string_get sv = (if r = [] then Inl FAULT else Inr (bytes_str (takeWhile (\<lambda>x. x \<noteq> 0) r)))"
  by (cases r) (simp_all add: state_string_get_def bytes_str_def)

text \<open>An enumeration has fewer names than its value can count.\<close>

definition names_fit :: "state_variable \<Rightarrow> bool" where
  "names_fit sv \<longleftrightarrow> (case sv_data sv of Var_enum32 _ _ ns \<Rightarrow> length ns < 2 ^ 32 | _ \<Rightarrow> True)"

text \<open>What a getter shows is what the setter takes, and an accepted text is shown again.\<close>

lemma get_shown: "wf_var sv \<Longrightarrow> vs_type vs = sv_type sv \<Longrightarrow> vs_get vs sv = Inr val \<Longrightarrow> shown (sv_type sv) val = val"
  by (erule wf_var_cases)
    (auto simp: vs_get_def shown_def state_uint32_get_def state_mac_get_def print_u_back ethaddr_mac_text)

lemma set_shown:
  assumes "wf_var sv" and "vs_type vs = sv_type sv" and "vs_set vs sv val = Inr sv'" and "nul_free val"
    and "vs_get vs sv \<noteq> Inl FAULT" and "names_fit sv"
  shows "vs_get vs sv' = Inr (shown (sv_type sv) val) \<and> wf_var sv' \<and> sv_name sv' = sv_name sv \<and> sv_start sv' = sv_start sv
    \<and> sv_size sv' = sv_size sv \<and> sv_type sv' = sv_type sv"
  using assms(1)
proof (cases rule: wf_var_cases)
  case (enum v d ns)
  then obtain i where i: "name_index ns val = Some i" "sv' = sv\<lparr>sv_data := Var_enum32 (word_of_nat i) d ns\<rparr>"
    using assms(2,3) by (auto simp: vs_set_def state_enum32_set_def split: option.splits)
  from name_index_nth [OF i(1)] have "i < length ns" "ns ! i = val" by simp_all
  moreover have "length ns < 2 ^ 32" using assms(6) enum(2) by (simp add: names_fit_def)
  then have "unat (word_of_nat i :: u32) = i" using calculation(1) by (simp add: unsigned_of_nat take_bit_nat_eq_self)
  ultimately show ?thesis using enum i(2) assms(2) by (simp add: vs_get_def state_enum32_get_def shown_def wf_var_def)
next
  case (mac m d)
  then obtain m' where m': "string_to_ethaddr val = Inr m'" "sv' = sv\<lparr>sv_data := Var_mac m' d\<rparr>"
    using assms(2,3) by (auto simp: vs_set_def state_mac_set_def)
  then have "length m' = 6" using ethaddr_six by blast
  then show ?thesis using mac m' assms(2) by (simp add: vs_get_def state_mac_get_def shown_def wf_var_def)
next
  case (str s d r)
  let ?R = "str_bytes val @ replicate (unat (sv_size sv) - length val) 0"
  have l: "\<not> unat (sv_size sv) < length val" and s': "sv' = sv\<lparr>sv_data := Var_string (Some val) d ?R\<rparr>"
    using str assms(2,3) by (auto simp: vs_set_def state_string_set_def state_string_copy_to_raw_def Let_def split: if_splits)
  have "r \<noteq> []" using str assms(2,5) by (auto simp: vs_get_def string_get_text [OF str(2)])
  moreover have "length ?R = length r" using l str(4) by simp
  ultimately have "?R \<noteq> []" by (metis length_0_conv)
  moreover have "sv_data sv' = Var_string (Some val) d ?R" by (simp add: s')
  ultimately have "state_string_get sv' = Inr val" using string_get_text nul_free_bytes [OF assms(4)] by simp
  then show ?thesis using str assms(2) l by (simp add: vs_get_def shown_def wf_var_def s')
qed (use assms in \<open>auto simp: vs_set_def vs_get_def state_uint8_set_def state_uint32_set_def state_uint32_get_def shown_def
    wf_var_def Let_def split: if_splits\<close>)



lemma update_var_find:
  "find (\<lambda>v. sv_name v = k) V = Some sv \<Longrightarrow> sv_name sv' = k \<Longrightarrow>
     find (\<lambda>v. sv_name v = j) (update_var k sv' V) = (if j = k then Some sv' else find (\<lambda>v. sv_name v = j) V)
     \<and> set (update_var k sv' V) \<subseteq> insert sv' (set V)"
  by (induction V) auto

lemma update_var_map:
  "find (\<lambda>v. sv_name v = k) V = Some sv \<Longrightarrow> g sv' = g sv \<Longrightarrow> map g (update_var k sv' V) = map g V"
  by (induction V) (auto split: if_splits)

lemma find_var_some: "state_find_var V k = Inr sv \<longleftrightarrow> find (\<lambda>v. sv_name v = k) V = Some sv"
  by (simp add: state_find_var_def split: option.split)

lemma found_var: "state_find_var V k = Inr sv \<Longrightarrow> sv \<in> set V \<and> sv_name sv = k"
  by (auto simp: find_var_some find_Some_iff)

lemma get_var_found:
  "state_find_var (s_variables s) k = Inr sv \<Longrightarrow> state_find_type (sv_type sv) = Some vs \<Longrightarrow> state_get_var s k = vs_get vs sv"
  by (simp add: state_get_var_def)

text \<open>The three ways \<open>state_set_var\<close> ends.\<close>

lemma set_var_cases:
  assumes "state_set_var s k val = (r, s')"
  obtains (failed) e where "r = Inl e" "s' = s"
  | (same) sv vs where "r = Inr ()" "s' = s" "state_find_var (s_variables s) k = Inr sv" "state_find_type (sv_type sv) = Some vs"
      "vs_get vs sv = Inr val"
  | (changed) sv vs sv' where "r = Inr ()" "state_find_var (s_variables s) k = Inr sv" "state_find_type (sv_type sv) = Some vs"
      "vs_get vs sv \<noteq> Inr val" "vs_get vs sv \<noteq> Inl FAULT" "vs_set vs sv val = Inr sv'"
      "s' = s\<lparr>s_variables := update_var k sv' (s_variables s), s_dirty := True\<rparr>"
proof (cases "state_find_var (s_variables s) k")
  case (Inl e)
  then show thesis by (intro failed [of e]) (use assms in \<open>simp_all add: state_set_var_def\<close>)
next
  case (Inr sv)
  obtain vs where vs: "state_find_type (sv_type sv) = Some vs" using state_find_type_some by blast
  show thesis
  proof (cases "vs_get vs sv = Inl FAULT \<or> vs_get vs sv = Inr val")
    case True
    then show thesis using assms Inr vs failed same by (auto simp: state_set_var_def)
  next
    case False
    then have "state_set_var s k val = (case vs_set vs sv val of Inl e \<Rightarrow> (Inl e, s)
        | Inr sv' \<Rightarrow> (Inr (), s\<lparr>s_variables := update_var k sv' (s_variables s), s_dirty := True\<rparr>))"
      using Inr vs by (auto simp: state_set_var_def split: sum.split errno.split)
    then show thesis using assms Inr vs failed changed False by (auto split: sum.splits)
  qed
qed

text \<open>What \<open>state_set_var\<close> does, with the fields it leaves alone.\<close>

lemma set_var_effect:
  assumes "state_set_var s k val = (r, s')" and "\<forall>v \<in> set (s_variables s). wf_var v \<and> names_fit v" and "nul_free val"
  shows "s' = s\<lparr>s_variables := s_variables s', s_dirty := s_dirty s'\<rparr> \<and> (case r of Inl _ \<Rightarrow> s' = s
    | Inr _ \<Rightarrow> (\<exists>sv. state_find_var (s_variables s) k = Inr sv \<and> state_get_var s' k = Inr (shown (sv_type sv) val))
        \<and> (\<forall>j. j \<noteq> k \<longrightarrow> state_get_var s' j = state_get_var s j)
        \<and> map sv_name (s_variables s') = map sv_name (s_variables s) \<and> var_layout (s_variables s') = var_layout (s_variables s)
        \<and> (\<forall>v \<in> set (s_variables s'). wf_var v)
        \<and> (s_dirty s' \<longleftrightarrow> s_dirty s \<or> state_get_var s k \<noteq> Inr val))"
  using assms(1)
proof (cases rule: set_var_cases)
  case (same sv vs)
  have wf: "wf_var sv" using assms(2) found_var [OF same(3)] by blast
  have "state_get_var s k = Inr val" using get_var_found [OF same(3,4)] same(5) by simp
  moreover have "shown (sv_type sv) val = val" by (rule get_shown [OF wf find_type_type [OF same(4)] same(5)])
  ultimately show ?thesis using same(1-3) assms(2) by simp
next
  case (changed sv vs sv')
  have sv: "sv \<in> set (s_variables s)" "sv_name sv = k" using found_var [OF changed(2)] by simp_all
  have w: "wf_var sv" "names_fit sv" using assms(2) sv(1) by simp_all
  have n: "vs_get vs sv' = Inr (shown (sv_type sv) val)" "wf_var sv'" "sv_name sv' = k" "sv_start sv' = sv_start sv"
      "sv_size sv' = sv_size sv" "sv_type sv' = sv_type sv"
    using set_shown [OF w(1) find_type_type [OF changed(3)] changed(6) assms(3) changed(5) w(2)] sv(2) by simp_all
  note f = changed(2) [unfolded find_var_some]
  have fd: "find (\<lambda>v. sv_name v = j) (s_variables s') = (if j = k then Some sv' else find (\<lambda>v. sv_name v = j) (s_variables s))"
      "set (s_variables s') \<subseteq> insert sv' (set (s_variables s))" for j
    using update_var_find [OF f n(3), of j] by (simp_all add: changed(7))
  have "state_get_var s' k = Inr (shown (sv_type sv) val)"
    using get_var_found [of s' k sv' vs] fd(1) n(1,6) changed(3) by (simp add: find_var_some)
  moreover have "state_get_var s' j = state_get_var s j" if "j \<noteq> k" for j
    using fd(1) [of j] that by (simp add: state_get_var_def state_find_var_def)
  moreover have "map sv_name (s_variables s') = map sv_name (s_variables s)"
    using update_var_map [OF f, of sv_name sv'] n(3) sv(2) by (simp add: changed(7))
  moreover have "var_layout (s_variables s') = var_layout (s_variables s)"
    unfolding var_layout_def using update_var_map [OF f, of "\<lambda>v. (sv_start v, sv_size v)" sv'] n(4,5) by (simp add: changed(7))
  moreover have "\<forall>v \<in> set (s_variables s'). wf_var v" using fd(2) n(2) assms(2) by blast
  moreover have "state_get_var s k \<noteq> Inr val" using get_var_found [OF changed(2,3)] changed(4) by simp
  ultimately show ?thesis using changed(1,2,7) by simp
qed simp

text \<open>
  \<open>state_set_var\<close> does what \<open>--set\<close> promises, on every branch.  When it fails the state is unchanged.  When it succeeds,
  \<open>state_get_var\<close> shows the value that was set (numbers in decimal, MAC addresses in the canonical form, names and
  strings literally), every other variable shows what it showed before, names, positions and well-formedness of all
  variables are kept, and the state becomes dirty exactly when the value shown before was another one.
\<close>

theorem state_set_get:
  assumes "state_set_var s k val = (r, s')" and "\<forall>v \<in> set (s_variables s). wf_var v \<and> names_fit v" and "nul_free val"
  shows "case r of Inl _ \<Rightarrow> s' = s
    | Inr _ \<Rightarrow> (\<exists>sv. state_find_var (s_variables s) k = Inr sv \<and> state_get_var s' k = Inr (shown (sv_type sv) val))
        \<and> (\<forall>j. j \<noteq> k \<longrightarrow> state_get_var s' j = state_get_var s j)
        \<and> map sv_name (s_variables s') = map sv_name (s_variables s) \<and> var_layout (s_variables s') = var_layout (s_variables s)
        \<and> (\<forall>v \<in> set (s_variables s'). wf_var v)
        \<and> (s_dirty s' \<longleftrightarrow> s_dirty s \<or> state_get_var s k \<noteq> Inr val)"
  using set_var_effect [OF assms] by blast

lemma state_set_get_witness:
  "state_get_var (snd (state_set_var (demo_session 5 6) ''a'' ''0x10'')) ''a'' = Inr ''16''"
proof -
  let ?s = "demo_session 5 6"
  obtain r s' where e: "state_set_var ?s ''a'' ''0x10'' = (r, s')" by force
  have ok: "\<forall>v \<in> set (s_variables ?s). wf_var v \<and> names_fit v"
    by (simp add: demo_vars_def new_var_def wf_var_def names_fit_def)
  have "fst (state_set_var ?s ''a'' ''0x10'') = Inr ()" by code_simp
  then have r: "r = Inr ()" using e by simp
  have "\<exists>sv. state_find_var (s_variables ?s) ''a'' = Inr sv \<and> state_get_var s' ''a'' = Inr (shown (sv_type sv) ''0x10'')"
    using state_set_get [OF e ok] r by (simp add: nul_free_def)
  moreover have "state_find_var (s_variables ?s) ''a'' = Inr (hd (demo_vars 5 6))" by code_simp
  moreover have "shown (sv_type (hd (demo_vars 5 6))) ''0x10'' = ''16''" by code_simp
  ultimately show ?thesis using e by simp
qed



section \<open>Values through text\<close>

text \<open>
  The values a getter tells apart: an 8 bit integer holds 8 bits, the names of an enumeration differ, a string is padded
  with zero bytes.
\<close>

definition text_safe :: "state_variable \<Rightarrow> bool" where
  "text_safe sv \<longleftrightarrow> (case sv_data sv of
     Var_u32 v _ \<Rightarrow> sv_type sv = STATE_VARIABLE_TYPE_UINT8 \<longrightarrow> v < 256
   | Var_enum32 _ _ ns \<Rightarrow> distinct ns \<and> length ns < 2 ^ 32
   | Var_mac _ _ \<Rightarrow> True
   | Var_string _ _ r \<Rightarrow> (\<exists>s k. r = s @ replicate k 0 \<and> 0 \<notin> set s))"

definition vd_names_of :: "state_variable \<Rightarrow> string list" where
  "vd_names_of sv = (case sv_data sv of Var_enum32 _ _ ns \<Rightarrow> ns | _ \<Rightarrow> [])"

lemma name_index_distinct: "distinct ns \<Longrightarrow> i < length ns \<Longrightarrow> name_index ns (ns ! i) = Some i"
proof (induction ns arbitrary: i)
  case (Cons n ns)
  then show ?case by (cases i) auto
qed simp

lemma u8_text: "v < 256 \<Longrightarrow> \<not> 255 < fst (strtoul (print_u (uint (v :: u32))) 0)"
proof -
  assume v: "v < 256"
  have u: "uint v < 256" using v by (simp add: word_less_def)
  then have "fst (strtoul (print_u (uint v)) 0) = word_of_int (uint v)" by (intro strtoul_print_u) simp_all
  moreover have "uint (word_of_int (uint v) :: u64) = uint v" 
    using u by (subst uint_word_of_int_eq, intro take_bit_int_eq_self) simp_all
  ultimately show ?thesis using u by (simp add: word_less_def)
qed



section \<open>An enumeration out of range\<close>

text \<open>
  The raw format stores the number of an enumeration, and unpacking writes it through the pointer without comparing
  it to the number of names: a stored number that is too large makes the getter read behind the array, and the
  setter with it, which asks for the old value first.
\<close>

lemma enum_index_unchecked:
  assumes "sv_data sv = Var_enum32 v d ns" and "sv_type sv = STATE_VARIABLE_TYPE_ENUM32" and "length ns \<le> unat n"
    and "state_find_var (s_variables s) k = Inr (sv_set_raw sv (put_le32 n))"
  shows "state_get_var s k = Inl FAULT" and "state_set_var s k val = (Inl FAULT, s)"
proof -
  obtain vs where vs: "state_find_type STATE_VARIABLE_TYPE_ENUM32 = Some vs" "vs_type vs = STATE_VARIABLE_TYPE_ENUM32"
    using state_find_type_some by blast
  have g: "vs_get vs (sv_set_raw sv (put_le32 n)) = Inl FAULT"
    using assms(1,3) vs(2) by (simp add: vs_get_def state_enum32_get_def sv_set_raw_def mem_put_fits)
  show "state_get_var s k = Inl FAULT" using assms(2,4) vs g by (simp add: state_get_var_def)
  show "state_set_var s k val = (Inl FAULT, s)" using assms(2,4) vs g by (simp add: state_set_var_def)
qed

end
