(* ===== verification/Barebox_State.thy ===== *)
theory Barebox_State
  imports Cli_Values
begin

text \<open>
  The command \<open>barebox-state\<close> (\<open>src/barebox-state.c\<close>): \<open>state_get\<close>, which finds, creates and loads a state, and \<open>main\<close>.

  The options are given as \<open>getopt_long\<close> returns them, with the arguments that are left.  What \<open>main\<close> prints on the
  standard output is a string; the texts of \<open>--help\<close> and \<open>--version\<close> and the messages on the error output are not modelled.
  \<open>main\<close> works on any world \<open>'w\<close> through the two functions it calls, \<open>state_get\<close> and \<open>state_save\<close>; \<open>barebox_state\<close> is \<open>main\<close>
  with the model's own ones, for states on one device.
\<close>

section \<open>Opening a state\<close>

text \<open>
  The files, \<open>of_read_proc_devicetree\<close> and the search for the device behind the node of the backend are parameters.  A
  blob on which unflattening would not return counts as a fault.
\<close>

record environment =
  en_file :: "string \<Rightarrow> bytes option"
  en_proc :: "device_node res"
  en_resolve :: "device_node option \<Rightarrow> node_ref \<Rightarrow> backend_device res"

definition esp_paths :: "string list" where
  "esp_paths = [''/boot/EFI/BAREBOX/state.dtb'', ''/boot/efi/EFI/BAREBOX/state.dtb'', ''/efi/EFI/BAREBOX/state.dtb'']"

definition unflatten_file :: "bytes option \<Rightarrow> device_node res" where
  "unflatten_file fdt = (case fdt of
     None \<Rightarrow> Inl ENOENT
   | Some blob \<Rightarrow> (case of_unflatten_dtb blob of None \<Rightarrow> Inl FAULT | Some r \<Rightarrow> r))"

definition read_tree :: "environment \<Rightarrow> string option \<Rightarrow> device_node res" where
  "read_tree env filename = (case filename of
     Some f \<Rightarrow> unflatten_file (en_file env f)
   | None \<Rightarrow> (case en_proc env of
       Inl ENOENT \<Rightarrow> unflatten_file (case find (\<lambda>p. en_file env p \<noteq> None) esp_paths of None \<Rightarrow> None | Some p \<Rightarrow> en_file env p)
     | r \<Rightarrow> r))"

text \<open>Without a name the alias \<open>state\<close> is tried, then the node \<open>/state\<close>.\<close>

definition state_node :: "device_node option \<Rightarrow> device_node \<Rightarrow> string option \<Rightarrow> node_ref option" where
  "state_node root_nd root name = (case name of
     Some n \<Rightarrow> of_find_node_by_path_or_alias root_nd (Some root) n
   | None \<Rightarrow> (case of_find_node_by_path_or_alias root_nd (Some root) ''state'' of
       None \<Rightarrow> of_find_node_by_path_or_alias root_nd (Some root) ''/state'' | Some r \<Rightarrow> Some r))"

text \<open>
  The part up to the creation of the state.  The result of \<open>of_set_root_node\<close> is ignored: for a second state the
  tree of the first one stays.
\<close>

definition state_open ::
    "environment \<Rightarrow> string option \<Rightarrow> string option \<Rightarrow> bool \<Rightarrow> of_globals \<times> medium \<Rightarrow> state res \<times> of_globals \<times> medium" where
  "state_open env name filename readonly w = (case w of (g, m) \<Rightarrow>
     (case read_tree env filename of Inl e \<Rightarrow> (Inl e, g, m) | Inr root \<Rightarrow>
     (case of_set_root_node g (Some root) of Inl FAULT \<Rightarrow> (Inl FAULT, g, m) | set_root \<Rightarrow>
        let g1 = or_else set_root g in
        (case state_node (root_node g1) root name of None \<Rightarrow> (Inl ENOENT, g1, m) | Some r \<Rightarrow>
        (case state_new_from_node g1 (en_resolve env (root_node g1)) (the_node root r) readonly m of
           (st, m1) \<Rightarrow> (st, g1, m1))))))"

text \<open>The result of loading is only reported; the state is dirty when it failed.\<close>

definition state_get ::
    "environment \<Rightarrow> bool \<Rightarrow> bytes \<Rightarrow> keystore \<Rightarrow> string option \<Rightarrow> string option \<Rightarrow> bool \<Rightarrow> bool
      \<Rightarrow> of_globals \<times> medium \<Rightarrow> state res \<times> of_globals \<times> medium" where
  "state_get env bc stack ks name filename readonly auth w =
     (case state_open env name filename readonly w of
        (Inl e, w1) \<Rightarrow> (Inl e, w1)
      | (Inr state, g1, m1) \<Rightarrow>
          (case (if auth then state_load bc stack ks state m1 else state_load_no_auth bc stack ks state m1) of
             (Inl FAULT, _, m2) \<Rightarrow> (Inl FAULT, g1, m2)
           | (_, state', m2) \<Rightarrow> (Inr state', g1, m2)))"

section \<open>The options\<close>

datatype cli_option =
    Opt_help | Opt_version | Opt_get string | Opt_set string | Opt_force | Opt_dump | Opt_dump_shell
  | Opt_verbose | Opt_quiet | Opt_name string | Opt_input string | Opt_invalid

record state_set_get =
  sg_arg :: string
  sg_get :: bool

record cli =
  c_sg_list :: "state_set_get list"
  c_names :: "string list"
  c_do_dump :: bool
  c_do_dump_shell :: bool
  c_readonly :: bool
  c_pr_level :: int
  c_auth :: bool
  c_dtb :: "string option"

definition cli_start :: cli where
  "cli_start = \<lparr>c_sg_list = [], c_names = [], c_do_dump = False, c_do_dump_shell = False, c_readonly = True,
     c_pr_level = 5, c_auth = True, c_dtb = None\<rparr>"

text \<open>The loop over the options; \<open>Inl\<close> is an exit with its status.\<close>

fun parse_options :: "cli_option list \<Rightarrow> cli \<Rightarrow> nat + cli" where
  "parse_options [] c = Inr c"
| "parse_options (opt # opts) c = (case opt of
     Opt_help \<Rightarrow> Inl 0
   | Opt_version \<Rightarrow> Inl 0
   | Opt_get a \<Rightarrow> parse_options opts (c\<lparr>c_sg_list := c_sg_list c @ [\<lparr>sg_arg = a, sg_get = True\<rparr>]\<rparr>)
   | Opt_set a \<Rightarrow> parse_options opts (c\<lparr>c_sg_list := c_sg_list c @ [\<lparr>sg_arg = a, sg_get = False\<rparr>], c_readonly := False\<rparr>)
   | Opt_force \<Rightarrow> parse_options opts (c\<lparr>c_auth := False\<rparr>)
   | Opt_dump \<Rightarrow> parse_options opts (c\<lparr>c_do_dump := True\<rparr>)
   | Opt_dump_shell \<Rightarrow> parse_options opts (c\<lparr>c_do_dump_shell := True\<rparr>)
   | Opt_verbose \<Rightarrow> parse_options opts (c\<lparr>c_pr_level := c_pr_level c + 1\<rparr>)
   | Opt_quiet \<Rightarrow> parse_options opts (c\<lparr>c_pr_level := c_pr_level c - 1\<rparr>)
   | Opt_name a \<Rightarrow> parse_options opts (c\<lparr>c_names := c_names c @ [a]\<rparr>)
   | Opt_input a \<Rightarrow> parse_options opts (c\<lparr>c_dtb := Some a\<rparr>)
   | Opt_invalid \<Rightarrow> Inl 1)"

text \<open>The names of the states: one without a name when there is no \<open>--name\<close>.\<close>

definition wanted_states :: "cli \<Rightarrow> string option list" where
  "wanted_states c = (if c_names c = [] then [None] else map Some (c_names c))"

section \<open>The steps of \<open>main\<close>\<close>

record state_list =
  sl_name :: string
  sl_state :: state

fun open_states ::
    "(string option \<Rightarrow> 'w \<Rightarrow> state res \<times> 'w) \<Rightarrow> string option list \<Rightarrow> 'w \<Rightarrow> state_list list res \<times> 'w" where
  "open_states get [] w = (Inr [], w)"
| "open_states get (n # ns) w = (case get n w of
     (Inl e, w1) \<Rightarrow> (Inl e, w1)
   | (Inr st, w1) \<Rightarrow> (case open_states get ns w1 of
       (Inl e, w2) \<Rightarrow> (Inl e, w2)
     | (Inr sls, w2) \<Rightarrow> (Inr (\<lparr>sl_name = (case n of None \<Rightarrow> s_name st | Some x \<Rightarrow> x), sl_state = st\<rparr> # sls), w2)))"

text \<open>\<open>--dump\<close>: \<open>several\<close> states are told apart by their names, and the types are shown at a raised level.\<close>

fun dump_vars :: "string \<Rightarrow> bool \<Rightarrow> state_variable list \<Rightarrow> string res" where
  "dump_vars prefix verbose [] = Inr []"
| "dump_vars prefix verbose (v # vs) = (case state_find_type (sv_type v) of
     None \<Rightarrow> Inl ENODEV
   | Some vtype \<Rightarrow>
       bindE (vs_get vtype v) (\<lambda>text.
       bindE (if verbose then bindE (vs_info vtype v) (\<lambda>i. Inr ('', type='' @ vs_name vtype @ i)) else Inr []) (\<lambda>info.
       bindE (dump_vars prefix verbose vs) (\<lambda>rest.
         Inr (prefix @ sv_name v @ ''='' @ text @ info @ newline @ rest)))))"

fun dump_states :: "bool \<Rightarrow> bool \<Rightarrow> state_list list \<Rightarrow> string res" where
  "dump_states several verbose [] = Inr []"
| "dump_states several verbose (sl # sls) =
     bindE (dump_vars (if several then sl_name sl @ ''.'' else []) verbose (s_variables (sl_state sl))) (\<lambda>out.
     bindE (dump_states several verbose sls) (\<lambda>rest. Inr (out @ rest)))"

definition shell_name :: "string \<Rightarrow> string" where
  "shell_name name = map (\<lambda>c. if c = CHR ''.'' then CHR ''_'' else c) name"

fun dump_shell_vars :: "string \<Rightarrow> state_variable list \<Rightarrow> string res" where
  "dump_shell_vars state_name [] = Inr []"
| "dump_shell_vars state_name (v # vs) = (case state_find_type (sv_type v) of
     None \<Rightarrow> Inl FAULT
   | Some vtype \<Rightarrow>
       bindE (vs_get vtype v) (\<lambda>text.
       bindE (dump_shell_vars state_name vs) (\<lambda>rest.
         Inr (state_name @ ''_'' @ shell_name (sv_name v) @ [CHR ''='', CHR 0x22] @ text @ [CHR 0x22] @ newline @ rest))))"

fun dump_shell_states :: "state_list list \<Rightarrow> string res" where
  "dump_shell_states [] = Inr []"
| "dump_shell_states (sl # sls) =
     bindE (dump_shell_vars (sl_name sl) (s_variables (sl_state sl))) (\<lambda>out.
     bindE (dump_shell_states sls) (\<lambda>rest. Inr (out @ rest)))"

text \<open>
  The state an argument is about: the first whose name is the part before the first dot, and then the argument is
  the rest; else the first state, and the argument stays.
\<close>

fun index_of :: "char \<Rightarrow> string \<Rightarrow> nat option" where
  "index_of c [] = None"
| "index_of c (x # xs) = (if x = c then Some 0 else map_option Suc (index_of c xs))"

fun name_position :: "string \<Rightarrow> state_list list \<Rightarrow> nat option" where
  "name_position n [] = None"
| "name_position n (sl # sls) = (if sl_name sl = n then Some 0 else map_option Suc (name_position n sls))"

definition select_state :: "state_list list \<Rightarrow> string \<Rightarrow> nat \<times> string" where
  "select_state sls arg = (case index_of (CHR ''.'') arg of
     None \<Rightarrow> (0, arg)
   | Some i \<Rightarrow> (case name_position (take i arg) sls of None \<Rightarrow> (0, arg) | Some j \<Rightarrow> (j, drop (Suc i) arg)))"

text \<open>One \<open>--get\<close> or \<open>--set\<close>: what it prints and the states afterwards.  Every error ends the program with status 1.\<close>

definition run_one :: "state_set_get \<Rightarrow> state_list list \<Rightarrow> unit res \<times> string \<times> state_list list" where
  "run_one sg sls =
     (case select_state sls (sg_arg sg) of (j, arg) \<Rightarrow>
      let sl = sls ! j in
      if sg_get sg then
        (case state_get_var (sl_state sl) arg of Inl e \<Rightarrow> (Inl e, [], sls) | Inr val \<Rightarrow> (Inr (), val @ newline, sls))
      else (case index_of (CHR ''='') arg of
          None \<Rightarrow> (Inl EINVAL, [], sls)
        | Some i \<Rightarrow> (case state_set_var (sl_state sl) (take i arg) (drop (Suc i) arg) of
            (r, st') \<Rightarrow> (r, [], sls[j := sl\<lparr>sl_state := st'\<rparr>]))))"

fun run_ops :: "state_set_get list \<Rightarrow> state_list list \<Rightarrow> unit res \<times> string \<times> state_list list" where
  "run_ops [] sls = (Inr (), [], sls)"
| "run_ops (sg # sgs) sls = (case run_one sg sls of
     (Inl e, out, sls1) \<Rightarrow> (Inl e, out, sls1)
   | (Inr _, out, sls1) \<Rightarrow> (case run_ops sgs sls1 of (r, out2, sls2) \<Rightarrow> (r, out @ out2, sls2)))"

fun save_states :: "(state \<Rightarrow> 'w \<Rightarrow> unit res \<times> state \<times> 'w) \<Rightarrow> state_list list \<Rightarrow> 'w \<Rightarrow> unit res \<times> 'w" where
  "save_states save [] w = (Inr (), w)"
| "save_states save (sl # sls) w =
     (if s_dirty (sl_state sl) then
        (case save (sl_state sl) w of
           (Inl e, _, w1) \<Rightarrow> (Inl e, w1)
         | (Inr _, _, w1) \<Rightarrow> save_states save sls w1)
      else save_states save sls w)"

text \<open>The status: every error of a step is 1.\<close>

definition exit_status :: "'a res \<Rightarrow> nat res" where
  "exit_status r = (case r of Inl e \<Rightarrow> if e = FAULT then Inl FAULT else Inr 1 | Inr _ \<Rightarrow> Inr 0)"

section \<open>\<open>main\<close>\<close>

text \<open>\<open>lock\<close> tells whether the lock file can be opened and locked, or locking the device node was configured instead.\<close>

definition main_states ::
    "(state \<Rightarrow> 'w \<Rightarrow> unit res \<times> state \<times> 'w) \<Rightarrow> cli \<Rightarrow> state_list list \<Rightarrow> 'w \<Rightarrow> nat res \<times> string \<times> 'w" where
  "main_states save c sls w =
     (case (if c_do_dump c then dump_states (1 < length sls) (5 < c_pr_level c) sls else Inr []) of
        Inl e \<Rightarrow> (exit_status (Inl e :: unit res), [], w)
      | Inr out1 \<Rightarrow>
     (case (if c_do_dump_shell c then dump_shell_states sls else Inr []) of
        Inl e \<Rightarrow> (exit_status (Inl e :: unit res), out1, w)
      | Inr out2 \<Rightarrow>
     (case run_ops (c_sg_list c) sls of
        (Inl e, out3, _) \<Rightarrow> (exit_status (Inl e :: unit res), out1 @ out2 @ out3, w)
      | (Inr _, out3, sls') \<Rightarrow> (case save_states save sls' w of (r, w') \<Rightarrow> (exit_status r, out1 @ out2 @ out3, w')))))"

definition barebox_state_main ::
    "(string option \<Rightarrow> string option \<Rightarrow> bool \<Rightarrow> bool \<Rightarrow> 'w \<Rightarrow> state res \<times> 'w) \<Rightarrow> (state \<Rightarrow> 'w \<Rightarrow> unit res \<times> state \<times> 'w)
      \<Rightarrow> bool \<Rightarrow> cli_option list \<Rightarrow> string list \<Rightarrow> 'w \<Rightarrow> nat res \<times> string \<times> 'w" where
  "barebox_state_main get save lock opts extra w = (case parse_options opts cli_start of
     Inl code \<Rightarrow> (Inr code, [], w)
   | Inr c \<Rightarrow>
       if extra \<noteq> [] then (Inr 1, [], w)
       else if \<not> lock then (Inr 1, [], w)
       else (case open_states (\<lambda>n. get n (c_dtb c) (c_readonly c) (c_auth c)) (wanted_states c) w of
           (Inl e, w1) \<Rightarrow> (exit_status (Inl e :: unit res), [], w1)
         | (Inr sls, w1) \<Rightarrow> main_states save c sls w1))"

definition save_world ::
    "bool \<Rightarrow> keystore \<Rightarrow> (nat \<Rightarrow> u8) \<Rightarrow> state \<Rightarrow> of_globals \<times> medium \<Rightarrow> unit res \<times> state \<times> of_globals \<times> medium" where
  "save_world bc ks fresh st w = (case w of (g, m) \<Rightarrow>
     (case state_save bc ks (root_node g) fresh st m of (r, st', m') \<Rightarrow> (r, st', g, m')))"

definition barebox_state ::
    "environment \<Rightarrow> bool \<Rightarrow> bytes \<Rightarrow> (nat \<Rightarrow> u8) \<Rightarrow> keystore \<Rightarrow> bool \<Rightarrow> cli_option list \<Rightarrow> string list \<Rightarrow> of_globals \<times> medium
      \<Rightarrow> nat res \<times> string \<times> of_globals \<times> medium" where
  "barebox_state env bc stack fresh ks =
     barebox_state_main (state_get env bc stack ks) (save_world bc ks fresh)"

section \<open>A read only session\<close>

text \<open>
  In a session without \<open>--set\<close> the direct buckets are opened read only.  That makes no difference to what is loaded: the
  buckets are read the same way, and the outcome of the repairs is not looked at.
\<close>

definition rw_bucket :: "storage_bucket \<Rightarrow> storage_bucket" where
  "rw_bucket b = (case bk_ops b of
     Bucket_direct d \<Rightarrow> b\<lparr>bk_ops := Bucket_direct (d\<lparr>dir_readonly := False\<rparr>)\<rparr>
   | Bucket_circular c \<Rightarrow> b)"

definition rw_storage :: "backend_storage \<Rightarrow> backend_storage" where
  "rw_storage st = st\<lparr>st_buckets := map rw_bucket (st_buckets st)\<rparr>"

definition rw_session :: "state \<Rightarrow> state" where
  "rw_session s = s\<lparr>s_storage := rw_storage (s_storage s)\<rparr>"

lemma rw_bucket_fields [simp]:
  "bk_buf (rw_bucket b) = bk_buf b" "bk_len (rw_bucket b) = bk_len b"
  "rw_bucket (b\<lparr>bk_needs_refresh := x\<rparr>) = (rw_bucket b)\<lparr>bk_needs_refresh := x\<rparr>"
  "rw_bucket (b\<lparr>bk_len := n\<rparr>) = (rw_bucket b)\<lparr>bk_len := n\<rparr>"
  by (simp_all add: rw_bucket_def split: bucket_ops.split)

lemma rw_direct_read: "state_backend_bucket_direct_read bc stack (d\<lparr>dir_readonly := x\<rparr>) m = state_backend_bucket_direct_read bc stack d m"
proof -
  have e: "dir_offset (d\<lparr>dir_readonly := x\<rparr>) = dir_offset d" "dir_max_size (d\<lparr>dir_readonly := x\<rparr>) = dir_max_size d" by simp_all
  show ?thesis unfolding state_backend_bucket_direct_read_def e ..
qed

lemma rw_bucket_read:
  "bucket_read bc stack (rw_bucket b) m = (case bucket_read bc stack b m of (r, b', m') \<Rightarrow> (r, rw_bucket b', m'))"
  by (cases "bk_ops b")
    (auto simp: bucket_read_def rw_bucket_def rw_direct_read split: prod.split sum.split option.split)

lemma rw_check_loop:
  "storage_check_loop bc stack verify magic no_auth (map rw_bucket bs) i used f m =
     (case storage_check_loop bc stack verify magic no_auth bs i used f m of
        (u, bs', f', m') \<Rightarrow> (u, map rw_bucket bs', f', m'))"
proof (induction bs arbitrary: i used f m)
  case (Cons b bs)
  obtain ret b1 m1 where r: "bucket_read bc stack b m = (ret, b1, m1)" by (metis prod_cases3)
  have r': "bucket_read bc stack (rw_bucket b) m = (ret, rw_bucket b1, m1)" by (simp add: rw_bucket_read r)
  show ?case
  proof (cases "ret \<noteq> None \<and> ret \<noteq> Some EUCLEAN")
    case True
    then show ?thesis by (simp add: r r' Cons.IH split: prod.split)
  next
    case False
    then have nf: "(ret \<noteq> None \<and> ret \<noteq> Some EUCLEAN) = False" by simp
    define b2 where "b2 = (if ret = Some EUCLEAN then b1\<lparr>bk_needs_refresh := True\<rparr> else b1)"
    have b2: "(if ret = Some EUCLEAN then (rw_bucket b1)\<lparr>bk_needs_refresh := True\<rparr> else rw_bucket b1) = rw_bucket b2"
      by (simp add: b2_def)
    obtain q len f1 where v: "verify f magic (bk_buf b2) (bk_len b2) no_auth = ((q, len), f1)" by (metis prod.exhaust)
    obtain u bs2 f2 m2 where l: "storage_check_loop bc stack verify magic no_auth bs (Suc i)
        (if q = Inr () \<and> used = None then Some i else used) f1 m1 = (u, bs2, f2, m2)" by (metis prod_cases4)
    have 1: "storage_check_loop bc stack verify magic no_auth (b # bs) i used f m = (u, b2\<lparr>bk_len := len\<rparr> # bs2, f2, m2)"
      using False unfolding storage_check_loop.simps r prod.case Let_def nf if_False b2_def [symmetric] v l by simp
    have 2: "storage_check_loop bc stack verify magic no_auth (map rw_bucket (b # bs)) i used f m
        = (u, (rw_bucket b2)\<lparr>bk_len := len\<rparr> # map rw_bucket bs2, f2, m2)"
      using False Cons.IH [of "Suc i" "if q = Inr () \<and> used = None then Some i else used" f1 m1]
      unfolding list.map storage_check_loop.simps r' prod.case Let_def nf if_False b2 rw_bucket_fields(1,2) v l by simp
    show ?thesis unfolding 1 2 by simp
  qed
qed simp

lemma check_loop_index:
  "storage_check_loop bc stack verify magic no_auth bs i used f m = (Some j, bs', f', m') \<Longrightarrow>
     length bs' = length bs \<and> (used = Some j \<or> (i \<le> j \<and> j < i + length bs))"
proof (induction bs arbitrary: i used f m bs' f' m')
  case (Cons b bs)
  obtain ret b1 m1 where r: "bucket_read bc stack b m = (ret, b1, m1)" by (metis prod_cases3)
  show ?case
  proof (cases "ret \<noteq> None \<and> ret \<noteq> Some EUCLEAN")
    case True
    then show ?thesis using Cons.prems r Cons.IH by (fastforce split: prod.splits)
  next
    case False
    then have nf: "(ret \<noteq> None \<and> ret \<noteq> Some EUCLEAN) = False" by simp
    define b2 where "b2 = (if ret = Some EUCLEAN then b1\<lparr>bk_needs_refresh := True\<rparr> else b1)"
    obtain q len f1 where v: "verify f magic (bk_buf b2) (bk_len b2) no_auth = ((q, len), f1)" by (metis prod.exhaust)
    obtain u bs2 f2 m2 where l: "storage_check_loop bc stack verify magic no_auth bs (Suc i)
        (if q = Inr () \<and> used = None then Some i else used) f1 m1 = (u, bs2, f2, m2)" by (metis prod_cases4)
    have e: "u = Some j" "bs' = b2\<lparr>bk_len := len\<rparr> # bs2"
      using Cons.prems False unfolding storage_check_loop.simps r prod.case Let_def nf if_False b2_def [symmetric] v l by simp_all
    from Cons.IH [OF l [unfolded e(1)]] have "length bs2 = length bs
      \<and> ((if q = Inr () \<and> used = None then Some i else used) = Some j \<or> (Suc i \<le> j \<and> j < Suc i + length bs))" by blast
    then show ?thesis using e(2) by (auto split: if_splits)
  qed
qed simp

lemma storage_read_rw:
  assumes "state_storage_read bc stack verify (rw_storage st) f magic no_auth m = (Inr r, st', f', m')"
  shows "\<exists>st2 m2. state_storage_read bc stack verify st f magic no_auth m = (Inr r, st2, f', m2)"
proof -
  obtain u bs f1 m1 where c: "storage_check_loop bc stack verify magic no_auth (st_buckets st) 0 None f m = (u, bs, f1, m1)"
    by (metis prod_cases4)
  have c': "storage_check_loop bc stack verify magic no_auth (st_buckets (rw_storage st)) 0 None f m = (u, map rw_bucket bs, f1, m1)"
    using c by (simp add: rw_storage_def rw_check_loop)
  obtain i where i: "u = Some i" using assms c' by (cases u) (auto simp: state_storage_read_def)
  have "i < length bs" using check_loop_index [of bc stack verify magic no_auth "st_buckets st" 0 None f m i bs f1 m1] c i by simp
  then have r: "r = (bk_buf (bs ! i), bk_len (bs ! i))" "f' = f1"
    using assms c' i by (auto simp: state_storage_read_def Let_def split: prod.splits)
  show ?thesis using c i r by (auto simp: state_storage_read_def Let_def split: prod.split)
qed

text \<open>With a format of the raw kind, the format stays one.\<close>

lemma storage_read_raw_kind:
  assumes "state_storage_read bc stack (format_verify ks) st (Backend_raw f) magic no_auth m = (Inr r, st', fm, m')"
  shows "\<exists>f'. fm = Backend_raw f'"
  using assms by (auto simp: state_storage_read_def check_loop_raw Let_def split: prod.splits option.splits)

lemma unpack_raw_any: "backend_format_raw_unpack f vars buf = backend_format_raw_unpack f' vars buf"
  by (simp add: backend_format_raw_unpack_def)

lemma state_load_raw:
  assumes "s_format s = Some (Backend_raw f)"
    and "state_storage_read bc stack (format_verify ks) (s_storage s) (Backend_raw f) (s_magic s) False m = (Inr (buf, len), st, fm, m')"
    and "backend_format_raw_unpack f (s_variables s) buf = (Inr (), vars)"
  shows "\<exists>s'. state_load bc stack ks s m = (Inr (), s', m') \<and> s_variables s' = vars \<and> \<not> s_dirty s' \<and> s_name s' = s_name s"
proof -
  obtain f' where "fm = Backend_raw f'" using storage_read_raw_kind [OF assms(2)] by blast
  with assms unpack_raw_any [of f' _ _ f] show ?thesis
    by (simp add: state_load_def state_do_load_def format_unpack_def)
qed

lemma load_rw:
  assumes "state_load bc stack ks (rw_session s) m = (Inr (), s3, m3)" and "s_format s = Some (Backend_raw f)"
  shows "\<exists>s4 m4. state_load bc stack ks s m = (Inr (), s4, m4) \<and> s_variables s4 = s_variables s3 \<and> \<not> s_dirty s4
    \<and> s_name s4 = s_name s"
proof -
  obtain buf len st fm m1 where r: "state_storage_read bc stack (format_verify ks) (rw_storage (s_storage s)) (Backend_raw f) (s_magic s) False m
        = (Inr (buf, len), st, fm, m1)"
      and u: "fst (format_unpack fm (s\<lparr>s_storage := st\<rparr>) buf len) = Inr ()"
        "s_variables (fst (snd (format_unpack fm (s\<lparr>s_storage := st\<rparr>) buf len))) = s_variables s3"
    using assms by (auto simp: state_load_def state_do_load_def rw_session_def split: option.splits prod.splits sum.splits)
  obtain f' where f': "fm = Backend_raw f'" using storage_read_raw_kind [OF r] by blast
  have vars: "backend_format_raw_unpack f (s_variables s) buf = (Inr (), s_variables s3)"
    using u unpack_raw_any [of f' _ _ f] by (auto simp: f' format_unpack_def split: prod.splits)
  obtain st2 m2 where "state_storage_read bc stack (format_verify ks) (s_storage s) (Backend_raw f) (s_magic s) False m
        = (Inr (buf, len), st2, fm, m2)"
    using storage_read_rw [OF r] by blast
  from state_load_raw [OF assms(2) this vars] show ?thesis by blast
qed



section \<open>What a loaded variable shows\<close>

text \<open>An 8 bit integer whose 32 bit field holds no more than that.\<close>

definition small_u8 :: "state_variable \<Rightarrow> bool" where
  "small_u8 sv \<longleftrightarrow> (case sv_data sv of
     Var_u32 v _ \<Rightarrow> sv_type sv = STATE_VARIABLE_TYPE_UINT8 \<longrightarrow> (\<exists>c :: u8. v = ucast c) | _ \<Rightarrow> True)"

lemma put_le32_byte: "put_le32 (ucast (c :: u8)) = [c, 0, 0, 0]"
proof -
  have b: "\<not> bit c n" if "8 \<le> n" for n using that bit_imp_le_length [of c n] by fastforce
  have "rev (put_le32 (ucast c)) = [0, 0, 0, c]"
    unfolding put_le32_def put_unaligned_be32_def put_unaligned_be16_def
    by (auto simp: bit_simps b intro!: bit_word_eqI)
  then show ?thesis by (metis rev_rev_ident rev.simps append.simps)
qed

lemma get_le32_byte: "get_le32 [c, 0, 0, 0] = ucast (c :: u8)"
  using get_put_le32_exact [of "ucast c"] by (simp add: put_le32_byte)

lemma small_u8_set:
  assumes "small_u8 v" and "wf_var v" and "length bs \<le> unat (sv_size v)"
  shows "small_u8 (sv_set_raw v bs)"
  using assms(2)
proof (cases rule: wf_var_cases)
  case (u8 x d)
  obtain b where x: "x = ucast (b :: u8)" using assms(1) u8 by (auto simp: small_u8_def)
  from assms(3) u8 consider "bs = []" | c where "bs = [c]" by (cases bs) (auto simp: Suc_le_eq)
  then show ?thesis
    by cases (use u8 x in \<open>auto simp: small_u8_def sv_set_raw_def mem_put_def put_le32_byte get_le32_byte\<close>)
qed (simp_all add: small_u8_def sv_set_raw_def)

lemma set_raw_names [simp]: "vd_names_of (sv_set_raw v bs) = vd_names_of v"
  by (simp add: vd_names_of_def sv_set_raw_def split: var_data.split)

lemma unpack_shape:
  "unpack_loop buf vars ret = (r, vars') \<Longrightarrow>
     list_all2 (\<lambda>v v'. v' = v \<or> (\<exists>bs. length bs \<le> unat (sv_size v) \<and> v' = sv_set_raw v bs)) vars vars'"
proof (induction vars arbitrary: ret r vars')
  case (Cons sv rest)
  obtain r1 vs1 where 1: "unpack_loop buf rest (Inl ENOSPC) = (r1, vs1)" by force
  obtain r2 vs2 where 2: "unpack_loop buf rest ret = (r2, vs2)" by force
  have same: "list_all2 (\<lambda>v v'. v' = v \<or> (\<exists>bs. length bs \<le> unat (sv_size v) \<and> v' = sv_set_raw v bs)) vs vs" for vs
    by (simp add: list.rel_refl)
  show ?case
    using Cons.prems Cons.IH [OF 1] Cons.IH [OF 2] same [of rest] 1 2
    by (auto split: if_splits intro!: exI [of _ "take (unat (sv_size sv)) _"])
qed simp

text \<open>Two variables of the same kind with the same raw bytes show the same.\<close>

definition same_kind :: "state_variable \<Rightarrow> state_variable \<Rightarrow> bool" where
  "same_kind v w \<longleftrightarrow> sv_name w = sv_name v \<and> sv_type w = sv_type v \<and> sv_size w = sv_size v \<and> vd_names_of w = vd_names_of v"

lemma get_by_raw:
  assumes "wf_var v" and "wf_var w" and "same_kind v w" and "small_u8 v" and "small_u8 w" and "sv_raw w = sv_raw v"
    and "vs_type vs = sv_type v"
  shows "vs_get vs w = vs_get vs v"
  using assms(1)
proof (cases rule: wf_var_cases)
  case (u8 x d)
  with assms obtain x2 d2 where w: "sv_data w = Var_u32 x2 d2" by (cases rule: wf_var_cases [OF assms(2)]) (auto simp: same_kind_def)
  obtain a b :: u8 where "x = ucast a" "x2 = ucast b" using assms(3-5) u8 w by (auto simp: small_u8_def same_kind_def)
  with u8 w assms(3,6,7) show ?thesis
    by (simp add: sv_raw_def same_kind_def put_le32_byte vs_get_def state_uint32_get_def)
next
  case (u32 x d)
  with assms obtain x2 d2 where w: "sv_data w = Var_u32 x2 d2" by (cases rule: wf_var_cases [OF assms(2)]) (auto simp: same_kind_def)
  with u32 assms(3,6) have "put_le32 x2 = put_le32 x" by (simp add: sv_raw_def same_kind_def)
  then have "x2 = x" by (metis get_put_le32_exact)
  with u32 w assms(7) show ?thesis by (simp add: vs_get_def state_uint32_get_def)
next
  case (enum x d ns)
  with assms obtain x2 d2 ns2 where w: "sv_data w = Var_enum32 x2 d2 ns2" by (cases rule: wf_var_cases [OF assms(2)]) (auto simp: same_kind_def)
  with enum assms(3,6) have "put_le32 x2 = put_le32 x" "ns2 = ns" by (simp_all add: sv_raw_def same_kind_def vd_names_of_def)
  then have "x2 = x" "ns2 = ns" by (metis get_put_le32_exact)+
  with enum w assms(7) show ?thesis by (simp add: vs_get_def state_enum32_get_def)
next
  case (mac m d)
  with assms obtain m2 d2 where w: "sv_data w = Var_mac m2 d2" by (cases rule: wf_var_cases [OF assms(2)]) (auto simp: same_kind_def)
  with mac assms(6,7) show ?thesis by (simp add: sv_raw_def vs_get_def state_mac_get_def)
next
  case (str s d r)
  with assms obtain s2 d2 r2 where w: "sv_data w = Var_string s2 d2 r2" by (cases rule: wf_var_cases [OF assms(2)]) (auto simp: same_kind_def)
  with str assms(6,7) show ?thesis by (simp add: sv_raw_def vs_get_def state_string_get_def)
qed



section \<open>Setting in one run, getting in the next\<close>

text \<open>A state that can be saved on the device as it is.\<close>

definition savable :: "(nat \<Rightarrow> bool) \<Rightarrow> keystore \<Rightarrow> format_raw \<Rightarrow> state \<Rightarrow> medium \<Rightarrow> bool" where
  "savable bad ks f s m \<longleftrightarrow> s_format s = Some (Backend_raw f) \<and> raw_ok ks f \<and> packable (s_variables s)
     \<and> (s_keep_prev_content s \<longrightarrow> (\<forall>b \<in> set (st_buckets (s_storage s)). \<not> bk_wrong_magic b))
     \<and> buckets_inv bad (st_buckets (s_storage s)) m \<and> healthy m \<and> \<not> st_readonly (s_storage s) \<and> st_buckets (s_storage s) \<noteq> []
     \<and> (\<forall>b \<in> set (st_buckets (s_storage s)). geo_fits (bk_geo b) (16 + var_end (last (s_variables s)) + raw_mac_len f))"

text \<open>
  A state that another process creates from the same description: the same buckets (opened read only or not), variables
  of the same kinds with any values.
\<close>

definition same_session :: "(nat \<Rightarrow> bool) \<Rightarrow> keystore \<Rightarrow> state \<Rightarrow> state \<Rightarrow> medium \<Rightarrow> bool" where
  "same_session bad ks s s2 m \<longleftrightarrow> later_session bad ks s (rw_session s2) m
     \<and> list_all2 same_kind (s_variables s) (s_variables s2) \<and> (\<forall>v \<in> set (s_variables s2). small_u8 v) \<and> s_name s2 = s_name s"

lemma packable_layout:
  assumes "packable V" and "var_layout W = var_layout V" and "\<forall>v \<in> set W. wf_var v"
  shows "packable W \<and> var_end (last W) = var_end (last V)"
proof -
  have lo: "laid_out W = laid_out V"
    using assms(2) unfolding var_layout_def
  proof (induction V arbitrary: W rule: laid_out.induct)
    case (1 a b rest)
    from 1(2) obtain a' b' rest' where w: "W = a' # b' # rest'" by (cases W; cases "tl W") auto
    with 1(2) have e: "sv_start a' = sv_start a" "sv_size a' = sv_size a" "sv_start b' = sv_start b"
        "map (\<lambda>v. (sv_start v, sv_size v)) (b' # rest') = map (\<lambda>v. (sv_start v, sv_size v)) (b # rest)"
      by simp_all
    have "laid_out (b' # rest') = laid_out (b # rest)" by (rule 1(1) [OF e(4)])
    then show ?case unfolding w laid_out.simps var_end_def e(1-3) by simp
  qed (auto simp: Cons_eq_map_conv map_eq_Cons_conv)
  have "length W = length V" using assms(2) by (metis length_map var_layout_def)
  then have ne: "W \<noteq> []" using assms(1) by (auto simp: packable_def)
  then have "var_end (last W) = var_end (last V)"
    using layout_end [OF assms(2)] assms(1) by (metis last_map packable_def)
  with assms lo ne show ?thesis by (simp add: packable_def)
qed

text \<open>The variable of a name after loading, and what it shows.\<close>

lemma loaded_shows:
  assumes "backend_format_raw_unpack f W buf = (Inr (), W')" and "map sv_raw W' = map sv_raw V"
    and "list_all2 same_kind V W" and "\<forall>v \<in> set V. wf_var v \<and> small_u8 v" and "\<forall>v \<in> set W. wf_var v \<and> small_u8 v"
    and "s_variables s = V" and "s_variables s' = W'"
  shows "state_get_var s' k = state_get_var s k"
proof -
  have sh: "list_all2 (\<lambda>v v'. v' = v \<or> (\<exists>bs. length bs \<le> unat (sv_size v) \<and> v' = sv_set_raw v bs)) W W'"
    using assms(1) unpack_shape by (simp add: backend_format_raw_unpack_def)
  have len: "length W = length V" "length W' = length V" using assms(3) sh by (simp_all add: list_all2_lengthD [symmetric])
  have pt: "same_kind (V ! i) (W' ! i)" "wf_var (W' ! i)" "small_u8 (W' ! i)" "sv_raw (W' ! i) = sv_raw (V ! i)" if i: "i < length V" for i
  proof -
    have k: "same_kind (V ! i) (W ! i)" using assms(3) i by (simp add: list_all2_conv_all_nth)
    have w: "wf_var (W ! i)" "small_u8 (W ! i)" using assms(5) i len by simp_all
    from sh i len consider "W' ! i = W ! i" | bs where "length bs \<le> unat (sv_size (W ! i))" "W' ! i = sv_set_raw (W ! i) bs"
      by (auto simp: list_all2_conv_all_nth)
    then have "same_kind (V ! i) (W' ! i) \<and> wf_var (W' ! i) \<and> small_u8 (W' ! i)"
      by cases (use k w small_u8_set wf_set_raw in \<open>auto simp: same_kind_def\<close>)
    then show "same_kind (V ! i) (W' ! i)" "wf_var (W' ! i)" "small_u8 (W' ! i)" by simp_all
    show "sv_raw (W' ! i) = sv_raw (V ! i)" using arg_cong [OF assms(2), of "\<lambda>l. l ! i"] i len by simp
  qed
  have "length X = length Y \<Longrightarrow> \<forall>i < length X. sv_name (Y ! i) = sv_name (X ! i) \<Longrightarrow>
      (find (\<lambda>v. sv_name v = k) X = None \<and> find (\<lambda>v. sv_name v = k) Y = None)
      \<or> (\<exists>i < length X. find (\<lambda>v. sv_name v = k) X = Some (X ! i) \<and> find (\<lambda>v. sv_name v = k) Y = Some (Y ! i))" for X Y
  proof (induction X Y rule: list_induct2)
    case (Cons x X y Y)
    from Cons.prems have h: "sv_name y = sv_name x" "\<forall>i < length X. sv_name (Y ! i) = sv_name (X ! i)"
      by (metis length_Cons nth_Cons_0 zero_less_Suc, metis Suc_less_eq length_Cons nth_Cons_Suc)
    from Cons.IH [OF h(2)] h(1) show ?case by (cases "sv_name x = k") force+
  qed simp
  from this [of V W'] pt(1) len consider
      "find (\<lambda>v. sv_name v = k) V = None" "find (\<lambda>v. sv_name v = k) W' = None"
    | i where "i < length V" "find (\<lambda>v. sv_name v = k) V = Some (V ! i)" "find (\<lambda>v. sv_name v = k) W' = Some (W' ! i)"
    by (auto simp: same_kind_def)
  then show ?thesis
  proof cases
    case 1
    then show ?thesis using assms(6,7) by (simp add: state_get_var_def state_find_var_def)
  next
    case 2
    have v: "wf_var (V ! i)" "small_u8 (V ! i)" using assms(4) 2(1) by simp_all
    obtain vs where vs: "state_find_type (sv_type (V ! i)) = Some vs" "vs_type vs = sv_type (V ! i)"
      using state_find_type_some by blast
    have "vs_get vs (W' ! i) = vs_get vs (V ! i)"
      by (rule get_by_raw [OF v(1) pt(2) [OF 2(1)] pt(1) [OF 2(1)] v(2) pt(3) [OF 2(1)] pt(4) [OF 2(1)] vs(2)])
    moreover have "sv_type (W' ! i) = sv_type (V ! i)" using pt(1) [OF 2(1)] by (simp add: same_kind_def)
    ultimately show ?thesis using 2 assms(6,7) vs(1) by (simp add: state_get_var_def state_find_var_def)
  qed
qed



text \<open>An argument that does not start with the name of the state and a dot is about the first state as a whole.\<close>

lemma index_of_append: "c \<notin> set xs \<Longrightarrow> index_of c (xs @ c # ys) = Some (length xs)"
  by (induction xs) auto

lemma index_of_some: "index_of c xs = Some i \<Longrightarrow> i < length xs \<and> xs ! i = c"
  by (induction xs arbitrary: i) (auto split: if_splits)

lemma select_first:
  assumes "\<forall>rest. arg \<noteq> sl_name sl @ ''.'' @ rest"
  shows "select_state [sl] arg = (0, arg)"
proof -
  have "sl_name sl \<noteq> take i arg" if "index_of (CHR ''.'') arg = Some i" for i
  proof
    assume e: "sl_name sl = take i arg"
    have "arg = take i arg @ ''.'' @ drop (Suc i) arg"
      using index_of_some [OF that] id_take_nth_drop [of i arg] by simp
    with e assms show False by metis
  qed
  then show ?thesis by (auto simp: select_state_def split: option.split)
qed

text \<open>\<open>main\<close> with one option and one state.\<close>

lemma main_one_get:
  assumes "state_get env bc stack ks None None True True w = (Inr s, g, m)" and "\<not> s_dirty s"
    and "state_get_var s k = Inr val" and "\<forall>rest. k \<noteq> s_name s @ ''.'' @ rest"
  shows "barebox_state env bc stack fresh ks True [Opt_get k] [] w = (Inr 0, val @ newline, g, m)"
proof -
  have "select_state [\<lparr>sl_name = s_name s, sl_state = s\<rparr>] k = (0, k)" by (rule select_first) (use assms(4) in simp)
  then show ?thesis
    using assms(1-3)
    by (simp add: barebox_state_def save_world_def barebox_state_main_def cli_start_def wanted_states_def main_states_def run_one_def exit_status_def Let_def)
qed

lemma main_one_set:
  assumes "state_get env bc stack ks None None False True w = (Inr s, g, m)" and "state_set_var s k val = (Inr (), s')" and "s_dirty s'"
    and "state_save bc ks (root_node g) fresh s' m = (Inr (), s'', m')"
    and "CHR ''='' \<notin> set k" and "\<forall>rest. k @ ''='' @ val \<noteq> s_name s @ ''.'' @ rest"
  shows "barebox_state env bc stack fresh ks True [Opt_set (k @ ''='' @ val)] [] w = (Inr 0, [], g, m')"
proof -
  have "select_state [\<lparr>sl_name = s_name s, sl_state = s\<rparr>] (k @ ''='' @ val) = (0, k @ ''='' @ val)"
    by (rule select_first) (use assms(6) in simp)
  moreover have "index_of (CHR ''='') (k @ ''='' @ val) = Some (length k)" using index_of_append [OF assms(5)] by simp
  ultimately show ?thesis
    using assms(1-4)
    by (simp add: barebox_state_def save_world_def barebox_state_main_def cli_start_def wanted_states_def main_states_def run_one_def exit_status_def Let_def)
qed

text \<open>What a later process shows of a variable whose bytes it loads.\<close>

lemma later_get_shows:
  assumes op: "state_open env2 None None True (g0, m2) = (Inr s2, g2, m2)" and se: "same_session bad ks s' s2 m2"
    and ld: "\<exists>s3 m'' f2 buf2. state_load bc stack ks (rw_session s2) m2 = (Inr (), s3, m'')
        \<and> map sv_raw (s_variables s3) = map sv_raw (s_variables s') \<and> backend_format_raw_unpack f2 (s_variables s2) buf2 = (Inr (), s_variables s3)"
    and wf: "\<forall>v \<in> set (s_variables s'). wf_var v \<and> small_u8 v" and get: "state_get_var s' k = Inr val'"
    and name: "\<forall>rest. k @ ''='' @ val \<noteq> s_name s' @ ''.'' @ rest"
  shows "\<exists>m3. barebox_state env2 bc stack fresh ks True [Opt_get k] [] (g0, m2) = (Inr 0, val' @ newline, g2, m3)"
proof -
  have ls: "later_session bad ks s' (rw_session s2) m2" using se by (simp add: same_session_def)
  obtain s3 m'' f2 buf2 where l3: "state_load bc stack ks (rw_session s2) m2 = (Inr (), s3, m'')"
      "map sv_raw (s_variables s3) = map sv_raw (s_variables s')"
      "backend_format_raw_unpack f2 (s_variables s2) buf2 = (Inr (), s_variables s3)"
    using ld by blast
  obtain fm where fm: "s_format s2 = Some (Backend_raw fm)" using ls by (auto simp: later_session_def rw_session_def)
  obtain s4 m4 where l4: "state_load bc stack ks s2 m2 = (Inr (), s4, m4)" "s_variables s4 = s_variables s3" "\<not> s_dirty s4"
      "s_name s4 = s_name s2"
    using load_rw [OF l3(1) fm] by blast
  have "state_get_var s4 k = state_get_var s' k"
    by (rule loaded_shows [OF l3(3,2) _ _ _ refl l4(2)])
      (use se ls wf in \<open>auto simp: same_session_def later_session_def rw_session_def\<close>)
  moreover have "state_get env2 bc stack ks None None True True (g0, m2) = (Inr s4, g2, m4)"
    using op l4(1) by (simp add: state_get_def)
  moreover have "\<forall>rest. k \<noteq> s_name s4 @ ''.'' @ rest"
    using name l4(4) se by (auto simp: same_session_def)
  ultimately show ?thesis using main_one_get [OF _ l4(3)] get by (intro exI [of _ m4]) simp
qed


text \<open>A machine whose state has two variables on a card, as the witness.\<close>

definition demo_prop :: "string \<Rightarrow> bytes \<Rightarrow> property" where
  "demo_prop n v = \<lparr>pp_name = n, pp_value = Some v\<rparr>"

definition cli_node :: device_node where
  "cli_node = Node ''state'' ''/state'' 0
     [demo_prop ''magic'' [0, 0, 0, 7], demo_prop ''backend'' [0, 0, 0, 1], demo_prop ''backend-type'' (str_bytes ''raw'' @ [0]),
      demo_prop ''backend-stridesize'' [0, 0, 0, 32]]
     [demo_variable ''b@4'' ''uint8'' 4 1, demo_variable ''a@0'' ''uint32'' 0 4]"

definition cli_machine :: device_node where
  "cli_machine = Node [] [] 0 []
     [Node ''aliases'' ''/aliases'' 0 [demo_prop ''state'' (str_bytes ''/state'' @ [0])] [],
      Node ''card'' ''/card'' 1 [demo_prop ''phandle'' [0, 0, 0, 1]] [], cli_node]"

definition cli_env :: environment where
  "cli_env = \<lparr>en_file = \<lambda>_. None, en_proc = Inr cli_machine,
     en_resolve = \<lambda>_ r. if r = [1] then Inr \<lparr>bd_offset = 0, bd_size = 0, bd_meminfo = None, bd_bad = \<lambda>_. False\<rparr> else Inl ENODEV\<rparr>"

definition no_globals :: of_globals where
  "no_globals = \<lparr>root_node = None, of_aliases = None, aliases_lookup = []\<rparr>"

definition cli_globals :: of_globals where
  "cli_globals = \<lparr>root_node = Some cli_machine, of_aliases = Some [0],
     aliases_lookup = [\<lparr>ap_alias = ''state'', ap_np = [2], ap_id = 0, ap_stem = ''state''\<rparr>]\<rparr>"

definition cli_format :: format_raw where
  "cli_format = demo_plain\<lparr>fr_secret_name := ''state''\<rparr>"

definition cli_session :: "bool \<Rightarrow> state" where
  "cli_session ro = (state_new ''state'')\<lparr>s_of_path := ''/state'', s_magic := 7, s_variables := demo_vars 0 0,
     s_format := Some (Backend_raw cli_format), s_init_from_defaults := True,
     s_storage := \<lparr>st_readonly = ro, st_buckets = map (\<lambda>i. new_bucket (Bucket_direct \<lparr>dir_offset = 32 * i, dir_max_size = 32, dir_readonly = ro\<rparr>) (32 * i) i) [0, 1, Suc 1],
        st_name = None, st_offset = 0, st_max_size = 0, st_stridesize = 32\<rparr>\<rparr>"

lemma cli_set_root: "of_set_root_node no_globals (Some cli_machine) = Inr cli_globals"
proof -
  let ?v = "str_bytes ''/state'' @ [0]"
  have a: "of_find_node_by_path (Some cli_machine) ''/aliases'' = Some [0]"
    "dn_properties (the_node cli_machine [0]) = [demo_prop ''state'' ?v]"
    "of_find_node_by_path (Some cli_machine) (cstr_at ?v) = Some [2]" "alias_stem ''state'' = ''state''" by code_simp+
  have i: "alias_id [] = 0" by (simp add: alias_id_def digits_value_def)
  have "alias_loop cli_machine [demo_prop ''state'' ?v] =
      Inr [\<lparr>ap_alias = ''state'', ap_np = [2], ap_id = 0, ap_stem = ''state''\<rparr>]"
    using a(3,4) i by (simp add: demo_prop_def Let_def)
  with a(1,2) show ?thesis by (simp add: of_set_root_node_def of_alias_scan_def no_globals_def cli_globals_def)
qed

lemma cli_find:
  "state_node (root_node cli_globals) cli_machine None = Some [2]" "the_node cli_machine [2] = cli_node"
  "of_alias_get cli_globals cli_node = Inr (Some ''state'')" "root_node cli_globals = Some cli_machine"
  "of_parse_phandle cli_machine cli_node ''backend'' 0 = Inr (Some [1])"
  "of_property_read_string cli_node ''backend-type'' = Inr ''raw''"
  "of_property_read_u32 cli_node ''backend-stridesize'' = Inr 32"
  "of_property_read_string cli_node ''backend-storage-type'' = Inl EINVAL"
  "of_property_read_bool cli_node ''keep-previous-content'' = False"
  "state_format_init (Some ''raw'') cli_node ''state'' = Inr (Backend_raw cli_format)"
  by code_simp+

lemma cli_created:
  "s_variables s = [] \<Longrightarrow>
     state_from_node s cli_node True = (Inr (), s\<lparr>s_of_path := ''/state'', s_magic := 7, s_variables := demo_vars 0 0\<rparr>)"
proof -
  have "of_property_read_u32 cli_node ''magic'' = Inr 7" by code_simp
  moreover have "\<exists>n. convert_children STATE_CONVERT_FROM_NODE_CREATE [] (dn_children cli_node) of_new_root [] = (Inr (), n, demo_vars 0 0)"
  proof -
    have "fst (convert_children STATE_CONVERT_FROM_NODE_CREATE [] (dn_children cli_node) of_new_root []) = Inr ()"
      "snd (snd (convert_children STATE_CONVERT_FROM_NODE_CREATE [] (dn_children cli_node) of_new_root [])) = demo_vars 0 0" by code_simp+
    then show ?thesis by (metis prod.collapse)
  qed
  moreover have "overlap_ok (demo_vars 0 0)" by code_simp
  moreover have "dn_full_name cli_node = ''/state''" by code_simp
  ultimately show "s_variables s = [] \<Longrightarrow> ?thesis" by (auto simp: state_from_node_def)
qed

lemma cli_storage:
  "healthy m \<Longrightarrow> state_storage_init ro bad None 0 0 32 None m =
     (Inr (), s_storage (cli_session ro), m)"
  by (simp add: state_storage_init_def state_storage_file_buckets_init_def desired_buckets_def
      state_backend_bucket_direct_create_def upt_rec cli_session_def)

lemma cli_open: "healthy m \<Longrightarrow> state_open cli_env None None ro (no_globals, m) = (Inr (cli_session ro), cli_globals, m)"
proof -
  assume h: "healthy m"
  let ?res = "\<lambda>r :: node_ref. if r = [1] then Inr \<lparr>bd_offset = 0, bd_size = 0, bd_meminfo = None, bd_bad = \<lambda>_. False\<rparr> else Inl ENODEV"
  have "state_new_from_node cli_globals ?res cli_node ro m = (Inr (cli_session ro), m)"
    using cli_storage [OF h]
    by (simp add: state_new_from_node_def cli_find Let_def or_else_def cli_created state_new_def state_backend_set_readonly_def
        state_storage_set_readonly_def) (simp add: cli_session_def state_new_def)
  then show ?thesis
    using cli_find(1,2) by (simp add: state_open_def read_tree_def cli_env_def cli_set_root or_else_def Let_def)
qed

lemma cli_get:
  "\<exists>s. state_get cli_env False [] no_keys None None False True (no_globals, demo_card) = (Inr s, cli_globals, demo_card)
     \<and> s = (cli_session False)\<lparr>s_dirty := True\<rparr>"
proof -
  have "state_load False [] no_keys (cli_session False) demo_card = (Inl ENOENT, (cli_session False)\<lparr>s_dirty := True\<rparr>, demo_card)"
    by code_simp
  moreover have "healthy demo_card" by (simp add: demo_card_def healthy_def)
  ultimately show ?thesis using cli_open [of demo_card False] by (simp add: state_get_def)
qed

lemma cli_ready:
  "savable (\<lambda>_. False) no_keys cli_format ((cli_session False)\<lparr>s_dirty := True\<rparr>) demo_card"
  using demo_vars_ok(1) [of 0 0]
  by (auto simp: savable_def cli_session_def state_new_def cli_format_def demo_plain_def raw_ok_def raw_mac_len_def demo_vars_def
      new_var_def var_end_def new_bucket_def demo_card_def buckets_inv_def direct_inv_def healthy_def direct_fits_def apart_def
      disjoint_regions_def)

lemma cli_set:
  "state_set_var ((cli_session False)\<lparr>s_dirty := True\<rparr>) ''a'' ''42'' =
     (Inr (), (cli_session False)\<lparr>s_variables := demo_vars 42 0, s_dirty := True\<rparr>)"
  by code_simp

lemma cli_same_session:
  assumes "healthy m"
  shows "same_session (\<lambda>_. False) no_keys ((cli_session False)\<lparr>s_variables := demo_vars 42 0, s_dirty := True\<rparr>) (cli_session True) m"
proof -
  have "var_layout (demo_vars 0 0) = var_layout (demo_vars 42 0)" by (rule demo_vars_ok(3))
  moreover have "list_all2 same_kind (demo_vars 42 0) (demo_vars 0 0)"
    by (simp add: demo_vars_def new_var_def same_kind_def vd_names_of_def)
  moreover have "\<forall>v \<in> set (demo_vars 0 0). small_u8 v"
    by (auto simp: demo_vars_def new_var_def small_u8_def intro!: exI [of _ 0])
  ultimately show ?thesis
    using demo_vars_ok(2) [of 0 0] assms same_format_refl [of cli_format]
    by (simp add: same_session_def later_session_def rw_session_def rw_storage_def rw_bucket_def cli_session_def state_new_def
        new_bucket_def reopened_def state_backend_bucket_direct_create_def raw_ok_def cli_format_def demo_plain_def)
qed




section \<open>Runs that write nothing\<close>

lemma parse_keeps:
  "parse_options opts c = Inr c' \<Longrightarrow> \<forall>a. Opt_set a \<notin> set opts \<Longrightarrow> c_readonly c \<and> (\<forall>sg \<in> set (c_sg_list c). sg_get sg) \<Longrightarrow>
     c_readonly c' \<and> (\<forall>sg \<in> set (c_sg_list c'). sg_get sg)"
proof (induction opts arbitrary: c)
  case (Cons opt opts)
  have "\<forall>a. Opt_set a \<notin> set opts" using Cons.prems(2) by simp
  moreover obtain c1 where "parse_options opts c1 = Inr c'" "c_readonly c1 \<and> (\<forall>sg \<in> set (c_sg_list c1). sg_get sg)"
    using Cons.prems by (cases opt) auto
  ultimately show ?case using Cons.IH by blast
qed simp

lemma storage_init_readonly: "state_storage_init ro bad mi offset n stride ty m = (r, st, m') \<Longrightarrow> st_readonly st = ro"
  by (auto simp: state_storage_init_def state_storage_file_buckets_init_def state_storage_mtd_buckets_init_def Let_def
      split: option.splits if_splits prod.splits)

lemma from_node_storage: "state_from_node s node create = (r, s') \<Longrightarrow> s_storage s' = s_storage s"
  by (auto simp: state_from_node_def Let_def split: sum.splits if_splits prod.splits)

lemma new_readonly: "state_new_from_node g resolve node True m = (Inr s, m') \<Longrightarrow> st_readonly (s_storage s)"
  by (auto simp: state_new_from_node_def Let_def state_backend_set_readonly_def state_storage_set_readonly_def
      split: sum.splits option.splits prod.splits dest!: storage_init_readonly from_node_storage)

lemma unpack_storage: "format_unpack f s buf len = (r, s', f') \<Longrightarrow> s_storage s' = s_storage s"
  by (auto simp: format_unpack_def state_backend_format_dtb_unpack_def dest: from_node_storage
      split: backend_format.splits prod.splits option.splits sum.splits errno.splits if_splits)

lemma read_readonly: "state_storage_read bc stack v st f magic na m = (r, st', f', m') \<Longrightarrow> st_readonly st' = st_readonly st"
  by (auto simp: state_storage_read_def Let_def split: prod.splits option.splits)

lemma load_readonly: "state_do_load bc stack ks na s m = (r, s', m') \<Longrightarrow> st_readonly (s_storage s') = st_readonly (s_storage s)"
  by (auto simp: state_do_load_def split: option.splits prod.splits sum.splits dest!: unpack_storage dest: read_readonly)

lemma state_open_readonly:
  assumes "state_open env n f True w = (Inr s, w')" shows "st_readonly (s_storage s)"
proof -
  obtain g m where w: "w = (g, m)" by force
  obtain root where root: "read_tree env f = Inr root" using assms by (auto simp: state_open_def w split: sum.splits)
  let ?sr = "of_set_root_node g (Some root)"
  have "?sr \<noteq> Inl FAULT" using assms root by (auto simp: state_open_def w)
  then have "state_open env n f True w =
      (let g1 = or_else ?sr g in
        (case state_node (root_node g1) root n of None \<Rightarrow> (Inl ENOENT, g1, m) | Some r \<Rightarrow>
        (case state_new_from_node g1 (en_resolve env (root_node g1)) (the_node root r) True m of
           (st, m1) \<Rightarrow> (st, g1, m1))))"
    using root by (simp add: state_open_def w split: sum.split errno.split)
  then show ?thesis using assms new_readonly by (auto simp: Let_def split: option.splits prod.splits)
qed

lemma get_readonly:
  assumes "state_get env bc stack ks n f True auth w = (Inr s, w')" shows "st_readonly (s_storage s)"
proof -
  obtain s0 g1 m1 where o: "state_open env n f True w = (Inr s0, g1, m1)"
    using assms by (cases "state_open env n f True w" rule: prod_cases3) (auto simp: state_get_def split: sum.splits)
  obtain r s1 m2 where l: "state_do_load bc stack ks (\<not> auth) s0 m1 = (r, s1, m2)" by (metis prod_cases3)
  have "(if auth then state_load bc stack ks s0 m1 else state_load_no_auth bc stack ks s0 m1) = (r, s1, m2)"
    using l by (cases auth) (simp_all add: state_load_def state_load_no_auth_def)
  then have "s = s1" using assms o by (cases r) (auto simp: state_get_def split: errno.splits)
  then show ?thesis using load_readonly [OF l] state_open_readonly [OF o] by simp
qed

lemma open_readonly:
  "open_states (\<lambda>n. state_get env bc stack ks n f True auth) ns w = (Inr sls, w') \<Longrightarrow>
     \<forall>sl \<in> set sls. st_readonly (s_storage (sl_state sl))"
proof (induction ns arbitrary: w sls)
  case (Cons n ns)
  obtain r1 w1 where 1: "state_get env bc stack ks n f True auth w = (r1, w1)" by (rule prod.exhaust)
  then obtain s where s: "r1 = Inr s" using Cons.prems by (cases r1) auto
  obtain r2 w2 where 2: "open_states (\<lambda>n. state_get env bc stack ks n f True auth) ns w1 = (r2, w2)" by (rule prod.exhaust)
  then obtain sls2 where "r2 = Inr sls2" "sls = \<lparr>sl_name = (case n of None \<Rightarrow> s_name s | Some x \<Rightarrow> x), sl_state = s\<rparr> # sls2" "w2 = w'"
    using Cons.prems 1 s by (cases r2) auto
  then show ?case using Cons.IH 2 get_readonly 1 s by auto
qed simp

lemma run_one_get: "sg_get sg \<Longrightarrow> run_one sg sls = (r, out, sls') \<Longrightarrow> sls' = sls"
  by (auto simp: run_one_def Let_def split: prod.splits sum.splits)

lemma run_ops_get: "\<forall>sg \<in> set sgs. sg_get sg \<Longrightarrow> run_ops sgs sls = (r, out, sls') \<Longrightarrow> sls' = sls"
proof (induction sgs arbitrary: r out sls')
  case (Cons sg sgs)
  obtain r1 out1 sls1 where o: "run_one sg sls = (r1, out1, sls1)" by (metis prod_cases3)
  then have s: "sls1 = sls" using run_one_get Cons.prems(1) by auto
  show ?case
  proof (cases r1)
    case (Inl e)
    then show ?thesis using Cons.prems(2) o s by simp
  next
    case (Inr u)
    obtain r2 out2 sls2 where 2: "run_ops sgs sls = (r2, out2, sls2)" by (metis prod_cases3)
    then have "sls2 = sls" using Cons.IH Cons.prems(1) by simp
    then show ?thesis using Cons.prems(2) o s Inr 2 by simp
  qed
qed simp

lemma save_readonly:
  "st_readonly (s_storage s) \<Longrightarrow> state_save bc ks machine fresh s m = (r, s', m') \<Longrightarrow> m' = m"
  by (auto simp: state_save_def state_storage_write_def Let_def split: if_splits option.splits prod.splits sum.splits)

lemma save_states_readonly:
  "\<forall>sl \<in> set sls. st_readonly (s_storage (sl_state sl)) \<Longrightarrow> save_states (save_world bc ks fresh) sls w = (r, w') \<Longrightarrow> w' = w"
proof (induction sls arbitrary: w)
  case (Cons sl sls)
  obtain g m where w: "w = (g, m)" by force
  obtain r1 st' w1 where s: "save_world bc ks fresh (sl_state sl) w = (r1, st', w1)" by (rule prod_cases3)
  have "w1 = w" using s Cons.prems(1) by (auto simp: w save_world_def split: prod.splits dest: save_readonly)
  moreover have "r1 = Inr () \<or> (\<exists>e. r1 = Inl e)" by (cases r1) auto
  ultimately show ?case using Cons.prems Cons.IH [of w] s by (cases "s_dirty (sl_state sl)") auto
qed simp

lemma main_states_save:
  assumes "main_states save c sls w = (code, out, w')"
  shows "w' = w \<or> (\<exists>r out2 sls'. run_ops (c_sg_list c) sls = (Inr (), out2, sls') \<and> save_states save sls' w = (r, w') \<and> code = exit_status r)"
  using assms by (auto simp: main_states_def split: sum.splits prod.splits)

text \<open>
  C18: A run without \<open>--set\<close> saves nothing: whatever its other options, the device is at the end as it was when all states had
  been opened.  (Opening a state may repair its buckets, also in such a run.)
\<close>

theorem main_without_set:
  assumes "\<forall>a. Opt_set a \<notin> set opts" and "parse_options opts cli_start = Inr c"
    and "open_states (\<lambda>n. state_get env bc stack ks n (c_dtb c) (c_readonly c) (c_auth c)) (wanted_states c) w = (r, w1)"
    and "barebox_state env bc stack fresh ks True opts [] w = (code, out, w')"
  shows "w' = w1"
proof -
  have c: "c_readonly c" "\<forall>sg \<in> set (c_sg_list c). sg_get sg"
    using parse_keeps [OF assms(2,1)] by (simp_all add: cli_start_def)
  show ?thesis
  proof (cases r)
    case (Inl e)
    then show ?thesis using assms(2-4) by (simp add: barebox_state_def barebox_state_main_def)
  next
    case (Inr sls)
    have ro: "\<forall>sl \<in> set sls. st_readonly (s_storage (sl_state sl))"
      using open_readonly assms(3) c(1) Inr by metis
    have "main_states (save_world bc ks fresh) c sls w1 = (code, out, w')"
      using assms(2-4) Inr by (simp add: barebox_state_def barebox_state_main_def)
    from main_states_save [OF this] show ?thesis
    proof (elim disjE exE conjE)
      fix q out2 sls' assume o: "run_ops (c_sg_list c) sls = (Inr (), out2, sls')" "save_states (save_world bc ks fresh) sls' w1 = (q, w')"
      have "sls' = sls" by (rule run_ops_get [OF c(2) o(1)])
      then show ?thesis using save_states_readonly [OF ro] o(2) by simp
    qed
  qed
qed




lemma main_without_set_witness:
  "snd (snd (barebox_state cli_env False [] (\<lambda>_. 0) no_keys True [Opt_get ''a''] [] (no_globals, demo_card))) = (cli_globals, demo_card)"
proof -
  let ?c = "cli_start\<lparr>c_sg_list := [\<lparr>sg_arg = ''a'', sg_get = True\<rparr>]\<rparr>"
  have p: "parse_options [Opt_get ''a''] cli_start = Inr ?c" by (simp add: cli_start_def)
  have "state_load False [] no_keys (cli_session True) demo_card = (Inl ENOENT, (cli_session True)\<lparr>s_dirty := True\<rparr>, demo_card)"
    by code_simp
  moreover have "healthy demo_card" by (simp add: demo_card_def healthy_def)
  ultimately have "state_get cli_env False [] no_keys None None True True (no_globals, demo_card)
      = (Inr ((cli_session True)\<lparr>s_dirty := True\<rparr>), cli_globals, demo_card)"
    using cli_open [of demo_card True] by (simp add: state_get_def)
  then have o: "open_states (\<lambda>n. state_get cli_env False [] no_keys n (c_dtb ?c) (c_readonly ?c) (c_auth ?c)) (wanted_states ?c)
      (no_globals, demo_card) = (Inr [\<lparr>sl_name = s_name (cli_session True), sl_state = (cli_session True)\<lparr>s_dirty := True\<rparr>\<rparr>], cli_globals, demo_card)"
    by (simp add: cli_start_def wanted_states_def)
  obtain code out w' where r: "barebox_state cli_env False [] (\<lambda>_. 0) no_keys True [Opt_get ''a''] [] (no_globals, demo_card) = (code, out, w')"
    by (rule prod_cases3)
  have "w' = (cli_globals, demo_card)" by (rule main_without_set [OF _ p o r]) simp
  with r show ?thesis by simp
qed


end
