(* ===== verification/Pinmux_Tables.thy ===== *)
theory Pinmux_Tables
  imports DT_Prelude
begin

text \<open>
  The pad tables of \<open>src/dtblint-imx-pinmux.c\<close>: for each of the three system chips the registers of its pads, in
  the order of the source.  A table is cut into parts; \<open>pad\<close> is an initializer with all members, \<open>mux_pad\<close> one of a
  pad without a control register (offset -1), \<open>bare_pad\<close> one of a pad without a multiplexer, whose other members C
  initializes to zero.
\<close>

section \<open>Data\<close>

text \<open>An \<open>off_t\<close> is a signed number that holds any 32 bit register offset.\<close>

record padinfo =
  padname :: string
  swmux_regoffset :: int
  swmux_reset_default :: u32
  swmux_writeable_mask :: u32
  swpad_regoffset :: int
  swpad_reset_default :: u32
  swpad_writeable_mask :: u32

definition pad :: "string \<Rightarrow> int \<Rightarrow> u32 \<Rightarrow> u32 \<Rightarrow> int \<Rightarrow> u32 \<Rightarrow> u32 \<Rightarrow> padinfo" where
  "pad name mux_offset mux_default mux_mask pad_offset pad_default pad_mask =
     \<lparr>padname = name, swmux_regoffset = mux_offset, swmux_reset_default = mux_default, swmux_writeable_mask = mux_mask,
      swpad_regoffset = pad_offset, swpad_reset_default = pad_default, swpad_writeable_mask = pad_mask\<rparr>"

definition mux_pad :: "string \<Rightarrow> int \<Rightarrow> u32 \<Rightarrow> u32 \<Rightarrow> padinfo" where
  "mux_pad name mux_offset mux_default mux_mask = pad name mux_offset mux_default mux_mask (- 1) 0 0"

definition bare_pad :: "string \<Rightarrow> int \<Rightarrow> u32 \<Rightarrow> u32 \<Rightarrow> padinfo" where
  "bare_pad name pad_offset pad_default pad_mask = pad name 0 0 0 pad_offset pad_default pad_mask"

section \<open>imx25\<close>

definition imx25_pads_1 :: "padinfo list" where
  "imx25_pads_1 = [
    mux_pad ''A10'' 0x8 0 0x7,
    pad ''A13'' 0xc 0 0x7 0x22c 0x80 0x80,
    pad ''A14'' 0x10 0 0x17 0x230 0x80 0x80,
    pad ''A15'' 0x14 0 0x17 0x234 0x80 0x80,
    mux_pad ''A16'' 0x18 0 0x17,
    pad ''A17'' 0x1c 0 0x17 0x238 0 0x80,
    pad ''A18'' 0x20 0 0x17 0x23c 0 0x80,
    pad ''A19'' 0x24 0 0x17 0x240 0 0x80,
    pad ''A20'' 0x28 0 0x17 0x244 0 0x80,
    pad ''A21'' 0x2c 0 0x17 0x248 0 0x80,
    mux_pad ''A22'' 0x30 0 0x17,
    pad ''A23'' 0x34 0 0x17 0x24c 0 0x80,
    pad ''A24'' 0x38 0 0x17 0x250 0 0x80,
    pad ''A25'' 0x3c 0 0x17 0x254 0 0x80,
    pad ''EB0'' 0x40 0 0x17 0x258 0 0x80,
    pad ''EB1'' 0x44 0 0x17 0x25c 0 0x80,
    pad ''OE'' 0x48 0 0x17 0x260 0 0x80,
    mux_pad ''CS0'' 0x4c 0 0x7,
    mux_pad ''CS1'' 0x50 0 0x7]"

definition imx25_pads_2 :: "padinfo list" where
  "imx25_pads_2 = [
    pad ''CS4'' 0x54 0 0x17 0x264 0x2001 0x20b1,
    pad ''CS5'' 0x58 0 0x17 0x268 0x2001 0x21b1,
    pad ''NF_CE0'' 0x5c 0 0x17 0x26c 0x1 0x81,
    pad ''ECB'' 0x60 0 0x17 0x270 0x2e80 0x2180,
    pad ''LBA'' 0x64 0 0x17 0x274 0 0x80,
    mux_pad ''BCLK'' 0x68 0 0x7,
    pad ''RW'' 0x6c 0 0x17 0x278 0 0x80,
    mux_pad ''NFWE_B'' 0x70 0 0x17,
    mux_pad ''NFRE_B'' 0x74 0 0x17,
    mux_pad ''NFALE'' 0x78 0 0x17,
    mux_pad ''NFCLE'' 0x7c 0 0x17,
    mux_pad ''NFWP_B'' 0x80 0 0x17,
    pad ''NFRB'' 0x84 0 0x17 0x27c 0xe0 0x80,
    pad ''D15'' 0x88 0 0x7 0x280 0xa1 0x1f1,
    pad ''D14'' 0x8c 0 0x7 0x284 0xa1 0x1f1,
    pad ''D13'' 0x90 0 0x7 0x288 0xa1 0x1f1,
    pad ''D12'' 0x94 0 0x7 0x28c 0xa1 0x1f1,
    pad ''D11'' 0x98 0 0x7 0x290 0x21 0xf1,
    pad ''D10'' 0x9c 0 0x7 0x294 0xa1 0x1f1]"

definition imx25_pads_3 :: "padinfo list" where
  "imx25_pads_3 = [
    pad ''D9'' 0xa0 0 0x7 0x298 0xa1 0xf1,
    pad ''D8'' 0xa4 0 0x7 0x29c 0xa1 0x1f1,
    pad ''D7'' 0xa8 0 0x7 0x2a0 0x80 0x40,
    pad ''D6'' 0xac 0 0x7 0x2a4 0x80 0x40,
    pad ''D5'' 0xb0 0 0x7 0x2a8 0x80 0x40,
    pad ''D4'' 0xb4 0 0x7 0x2ac 0x80 0x40,
    pad ''D3'' 0xb8 0 0x7 0x2b0 0x80 0x40,
    pad ''D2'' 0xbc 0 0x7 0x2b4 0x80 0x40,
    pad ''D1'' 0xc0 0 0x7 0x2b8 0 0x40,
    pad ''D0'' 0xc4 0 0x7 0x2bc 0x80 0x40,
    pad ''LD0'' 0xc8 0 0x17 0x2c0 0x60 0xf0,
    pad ''LD1'' 0xcc 0 0x17 0x2c4 0x60 0xf0,
    pad ''LD2'' 0xd0 0 0x17 0x2c8 0x60 0xf1,
    pad ''LD3'' 0xd4 0 0x17 0x2cc 0x60 0xf0,
    pad ''LD4'' 0xd8 0 0x17 0x2d0 0x60 0xf1,
    pad ''LD5'' 0xdc 0 0x17 0x2d4 0x60 0xf1,
    pad ''LD6'' 0xe0 0 0x17 0x2d8 0x60 0xf1,
    pad ''LD7'' 0xe4 0 0x17 0x2dc 0x60 0xf1]"

definition imx25_pads_4 :: "padinfo list" where
  "imx25_pads_4 = [
    pad ''LD8'' 0xe8 0 0x17 0x2e0 0x60 0xf1,
    pad ''LD9'' 0xec 0 0x17 0x2e4 0x160 0x1f1,
    pad ''LD10'' 0xf0 0 0x17 0x2e8 0x60 0xf1,
    pad ''LD11'' 0xf4 0 0x17 0x2ec 0x60 0xf1,
    pad ''LD12'' 0xf8 0 0x17 0x2f0 0x60 0xf9,
    pad ''LD13'' 0xfc 0 0x17 0x2f4 0x60 0xf9,
    pad ''LD14'' 0x100 0 0x17 0x2f8 0x20 0xb8,
    pad ''LD15'' 0x104 0 0x17 0x2fc 0x60 0xf8,
    pad ''HSYNC'' 0x108 0 0x17 0x300 0x60 0xf9,
    pad ''VSYNC'' 0x10c 0 0x17 0x304 0x60 0xf9,
    pad ''LSCLK'' 0x110 0 0x17 0x308 0x61 0xf1,
    pad ''OE_ACD'' 0x114 0 0x17 0x30c 0x60 0xf1,
    pad ''CONTRAST'' 0x118 0 0x17 0x310 0x60 0xf0,
    pad ''PWM'' 0x11c 0 0x17 0x314 0xc0 0xf6,
    pad ''CSI_D2'' 0x120 0 0x17 0x318 0xa1 0xf1,
    pad ''CSI_D3'' 0x124 0 0x17 0x31c 0xa0 0xf1,
    pad ''CSI_D4'' 0x128 0 0x17 0x320 0x1a1 0x1f1,
    pad ''CSI_D5'' 0x12c 0 0x17 0x324 0xa0 0xf1]"

definition imx25_pads_5 :: "padinfo list" where
  "imx25_pads_5 = [
    pad ''CSI_D6'' 0x130 0 0x17 0x328 0xa0 0xf9,
    pad ''CSI_D7'' 0x134 0 0x17 0x32c 0x1a0 0x1f9,
    pad ''CSI_D8'' 0x138 0 0x17 0x330 0xa0 0xf9,
    pad ''CSI_D9'' 0x13c 0 0x17 0x334 0xa0 0xf9,
    pad ''CSI_MCLK'' 0x140 0 0x17 0x338 0x61 0xf1,
    pad ''CSI_VSYNC'' 0x144 0 0x17 0x33c 0xa0 0xf1,
    pad ''CSI_HSYNC'' 0x148 0 0x17 0x340 0xa0 0xf1,
    pad ''CSI_PIXCLK'' 0x14c 0 0x17 0x344 0x1a0 0x1f1,
    pad ''I2C1_CLK'' 0x150 0 0x17 0x348 0xe8 0xbe,
    pad ''I2C1_DAT'' 0x154 0 0x17 0x34c 0xe8 0xbe,
    pad ''CSPI1_MOSI'' 0x158 0 0x17 0x350 0xe0 0xb1,
    pad ''CSPI1_MISO'' 0x15c 0 0x17 0x354 0xa0 0xb1,
    pad ''CSPI1_SS0'' 0x160 0 0x17 0x358 0xe0 0xf1,
    pad ''CSPI1_SS1'' 0x164 0 0x17 0x35c 0xe0 0xb9,
    pad ''CSPI1_SCLK'' 0x168 0 0x17 0x360 0xe0 0xb1,
    pad ''CSPI1_RDY'' 0x16c 0 0x17 0x364 0xe0 0xb1,
    pad ''UART1_RXD'' 0x170 0 0x17 0x368 0xa0 0xb0,
    pad ''UART1_TXD'' 0x174 0 0x17 0x36c 0x20 0xb0]"

definition imx25_pads_6 :: "padinfo list" where
  "imx25_pads_6 = [
    pad ''UART1_RTS'' 0x178 0 0x17 0x370 0xe0 0xf0,
    pad ''UART1_CTS'' 0x17c 0 0x17 0x374 0x60 0xf0,
    pad ''UART2_RXD'' 0x180 0 0x17 0x378 0xe0 0xf0,
    pad ''UART2_TXD'' 0x184 0 0x17 0x37c 0x60 0xf1,
    pad ''UART2_RTS'' 0x188 0 0x17 0x380 0xe1 0xf1,
    pad ''UART2_CTS'' 0x18c 0 0x17 0x384 0x60 0xf1,
    pad ''SD1_CMD'' 0x190 0 0x17 0x388 0xd1 0xf1,
    pad ''SD1_CLK'' 0x194 0 0x17 0x38c 0xd1 0x1f1,
    pad ''SD1_DATA0'' 0x198 0 0x17 0x390 0xd1 0xf1,
    pad ''SD1_DATA1'' 0x19c 0 0x17 0x394 0xd1 0xf1,
    pad ''SD1_DATA2'' 0x1a0 0 0x17 0x398 0xd1 0xf1,
    pad ''SD1_DATA3'' 0x1a4 0 0x17 0x39c 0xd1 0xf1,
    pad ''KPP_ROW0'' 0x1a8 0 0x17 0x3a0 0xe0 0xb8,
    pad ''KPP_ROW1'' 0x1ac 0 0x17 0x3a4 0xe0 0xb8,
    pad ''KPP_ROW2'' 0x1b0 0 0x17 0x3a8 0xe0 0xf8,
    pad ''KPP_ROW3'' 0x1b4 0 0x17 0x3ac 0xe0 0xf8,
    pad ''KPP_COL0'' 0x1b8 0 0x17 0x3b0 0xa8 0xb8,
    pad ''KPP_COL1'' 0x1bc 0 0x17 0x3b4 0xa8 0xb8]"

definition imx25_pads_7 :: "padinfo list" where
  "imx25_pads_7 = [
    pad ''KPP_COL2'' 0x1c0 0 0x17 0x3b8 0xa8 0xb8,
    pad ''KPP_COL3'' 0x1c4 0 0x17 0x3bc 0xa8 0xb8,
    pad ''FEC_MDC'' 0x1c8 0 0x17 0x3c0 0x60 0xf1,
    pad ''FEC_MDIO'' 0x1cc 0 0x17 0x3c4 0x1f0 0x1f1,
    pad ''FEC_TDATA0'' 0x1d0 0 0x17 0x3c8 0x60 0xf1,
    pad ''FEC_TDATA1'' 0x1d4 0 0x17 0x3cc 0x60 0xf1,
    pad ''FEC_TX_EN'' 0x1d8 0 0x17 0x3d0 0x60 0xf9,
    pad ''FEC_RDATA0'' 0x1dc 0 0x17 0x3d4 0xc1 0xf9,
    pad ''FEC_RDATA1'' 0x1e0 0 0x17 0x3d8 0xc0 0xf9,
    pad ''FEC_RX_DV'' 0x1e4 0 0x17 0x3dc 0xc0 0xf9,
    pad ''FEC_TX_CLK'' 0x1e8 0 0x17 0x3e0 0xc0 0x1f1,
    pad ''RTCK'' 0x1ec 0 0x17 0x3e4 0x62 0xff,
    bare_pad ''TDO'' 0x3e8 0x2 0x6,
    pad ''DE_B'' 0x1f0 0 0x17 0x3ec 0xd0 0x6,
    pad ''GPIO_A'' 0x1f4 0 0x17 0x3f0 0xc0 0xfe,
    pad ''GPIO_B'' 0x1f8 0 0x17 0x3f4 0xc0 0xfe,
    pad ''GPIO_C'' 0x1fc 0 0x17 0x3f8 0xc0 0xfe,
    pad ''GPIO_D'' 0x200 0 0x17 0x3fc 0x20 0xbe]"

definition imx25_pads_8 :: "padinfo list" where
  "imx25_pads_8 = [
    pad ''GPIO_E'' 0x204 0 0x17 0x400 0xe8 0xbe,
    pad ''GPIO_F'' 0x208 0 0x17 0x404 0x20 0xb6,
    mux_pad ''EXT_ARMCLK'' 0x20c 0 0x17,
    mux_pad ''UPLL_BYPCLK'' 0x210 0 0x17,
    pad ''VSTBY_REQ'' 0x214 0 0x17 0x408 0 0x86,
    pad ''VSTBY_ACK'' 0x218 0 0x17 0x40c 0x80 0xb6,
    pad ''POWER_FAIL'' 0x21c 0 0x17 0x410 0xc0 0xb6,
    pad ''CLKO'' 0x220 0 0x17 0x414 0x4 0x6,
    mux_pad ''BOOT_MODE0'' 0x224 0 0x7,
    mux_pad ''BOOT_MODE1'' 0x228 0 0x7]"

definition imx25_iomux_padinfo :: "padinfo list" where
  "imx25_iomux_padinfo =
     imx25_pads_1 @ imx25_pads_2 @ imx25_pads_3 @ imx25_pads_4 @ imx25_pads_5 @
     imx25_pads_6 @ imx25_pads_7 @ imx25_pads_8"

section \<open>imx6dl\<close>

definition imx6dl_pads_1 :: "padinfo list" where
  "imx6dl_pads_1 = [
    pad ''CSI0_DAT10'' 0x4c 0x5 0x17 0x360 0x1b0b0 0x1f8f9,
    pad ''CSI0_DAT11'' 0x50 0x5 0x17 0x364 0x1b0b0 0x1f8f9,
    pad ''CSI0_DAT12'' 0x54 0x5 0x17 0x368 0x1b0b0 0x1f8f9,
    pad ''CSI0_DAT13'' 0x58 0x5 0x17 0x36c 0x1b0b0 0x1f8f9,
    pad ''CSI0_DAT14'' 0x5c 0x5 0x17 0x370 0x1b0b0 0x1f8f9,
    pad ''CSI0_DAT15'' 0x60 0x5 0x17 0x374 0x1b0b0 0x1f8f9,
    pad ''CSI0_DAT16'' 0x64 0x5 0x17 0x378 0x1b0b0 0x1f8f9,
    pad ''CSI0_DAT17'' 0x68 0x5 0x17 0x37c 0x1b0b0 0x1f8f9,
    pad ''CSI0_DAT18'' 0x6c 0x5 0x17 0x380 0x1b0b0 0x1f8f9,
    pad ''CSI0_DAT19'' 0x70 0x5 0x17 0x384 0x1b0b0 0x1f8f9,
    pad ''CSI0_DAT4'' 0x74 0x5 0x17 0x388 0x1b0b0 0x1f8f9,
    pad ''CSI0_DAT5'' 0x78 0x5 0x17 0x38c 0x1b0b0 0x1f8f9,
    pad ''CSI0_DAT6'' 0x7c 0x5 0x17 0x390 0x1b0b0 0x1f8f9,
    pad ''CSI0_DAT7'' 0x80 0x5 0x17 0x394 0x1b0b0 0x1f8f9,
    pad ''CSI0_DAT8'' 0x84 0x5 0x17 0x398 0x1b0b0 0x1f8f9,
    pad ''CSI0_DAT9'' 0x88 0x5 0x17 0x39c 0x1b0b0 0x1f8f9,
    pad ''CSI0_DATA_EN'' 0x8c 0x5 0x17 0x3a0 0x1b0b0 0x1f8f9,
    pad ''CSI0_DATA_EN'' 0x8c 0x5 0x17 0x3a0 0x1b0b0 0x1f8f9]"

definition imx6dl_pads_2 :: "padinfo list" where
  "imx6dl_pads_2 = [
    pad ''CSI0_MCLK'' 0x90 0x5 0x17 0x3a4 0x1b0b0 0x1f8f9,
    pad ''CSI0_PIXCLK'' 0x94 0x5 0x17 0x3a8 0x1b0b0 0x1f8f9,
    pad ''CSI0_VSYNC'' 0x98 0x5 0x17 0x3ac 0x1b0b0 0x1f8f9,
    pad ''DI0_DISP_CLK'' 0x9c 0x5 0x1f 0x3b0 0x1b0b0 0x1f8f9,
    pad ''DI0_DISP_CLK'' 0x9c 0x5 0x1f 0x3b0 0x1b0b0 0x1f8f9,
    pad ''DI0_PIN15'' 0xa0 0x5 0x1f 0x3b4 0x1b0b0 0x1f8f9,
    pad ''DI0_PIN2'' 0xa4 0x5 0x1f 0x3b8 0x1b0b0 0x1f8f9,
    pad ''DI0_PIN3'' 0xa8 0x5 0x1f 0x3bc 0x1b0b0 0x1f8f9,
    pad ''DI0_PIN4'' 0xac 0x5 0x1f 0x3c0 0x1b0b0 0x1f8f9,
    pad ''DISP0_DAT0'' 0xb0 0x5 0x17 0x3c4 0x1b0b0 0x1f8f9,
    pad ''DISP0_DAT1'' 0xb4 0x5 0x17 0x3c8 0x1b0b0 0x1f8f9,
    pad ''DISP0_DAT10'' 0xb8 0x5 0x17 0x3cc 0x1b0b0 0x1f8f9,
    pad ''DISP0_DAT11'' 0xbc 0x5 0x17 0x3d0 0x1b0b0 0x1f8f9,
    pad ''DISP0_DAT12'' 0xc0 0x5 0x17 0x3d4 0x1b0b0 0x1f8f9,
    pad ''DISP0_DAT13'' 0xc4 0x5 0x17 0x3d8 0x1b0b0 0x1f8f9,
    pad ''DISP0_DAT14'' 0xc8 0x5 0x17 0x3dc 0x1b0b0 0x1f8f9,
    pad ''DISP0_DAT15'' 0xcc 0x5 0x17 0x3e0 0x1b0b0 0x1f8f9,
    pad ''DISP0_DAT16'' 0xd0 0x5 0x17 0x3e4 0x1b0b0 0x1f8f9]"

definition imx6dl_pads_3 :: "padinfo list" where
  "imx6dl_pads_3 = [
    pad ''DISP0_DAT17'' 0xd4 0x5 0x17 0x3e8 0x1b0b0 0x1f8f9,
    pad ''DISP0_DAT18'' 0xd8 0x5 0x17 0x3ec 0x1b0b0 0x1f8f9,
    pad ''DISP0_DAT19'' 0xdc 0x5 0x17 0x3f0 0x1b0b0 0x1f8f9,
    pad ''DISP0_DAT2'' 0xe0 0x5 0x17 0x3f4 0x1b0b0 0x1f8f9,
    pad ''DISP0_DAT20'' 0xe4 0x5 0x17 0x3f8 0x1b0b0 0x1f8f9,
    pad ''DISP0_DAT21'' 0xe8 0x5 0x17 0x3fc 0x1b0b0 0x1f8f9,
    pad ''DISP0_DAT22'' 0xec 0x5 0x17 0x400 0x1b0b0 0x1f8f9,
    pad ''DISP0_DAT23'' 0xf0 0x5 0x17 0x404 0x1b0b0 0x1f8f9,
    pad ''DISP0_DAT3'' 0xf4 0x5 0x17 0x408 0x1b0b0 0x1f8f9,
    pad ''DISP0_DAT4'' 0xf8 0x5 0x17 0x40c 0x1b0b0 0x1f8f9,
    pad ''DISP0_DAT5'' 0xfc 0x5 0x17 0x410 0x1b0b0 0x1f8f9,
    pad ''DISP0_DAT6'' 0x100 0x5 0x17 0x414 0x1b0b0 0x1f8f9,
    pad ''DISP0_DAT7'' 0x104 0x5 0x17 0x418 0x1b0b0 0x1f8f9,
    pad ''DISP0_DAT8'' 0x108 0x5 0x17 0x41c 0x1b0b0 0x1f8f9,
    pad ''DISP0_DAT9'' 0x10c 0x5 0x17 0x420 0x1b0b0 0x1f8f9,
    pad ''EIM_A16'' 0x110 0 0x1f 0x4e0 0xb0b1 0x1f8f9,
    pad ''EIM_A17'' 0x114 0 0x1f 0x4e4 0xb0b1 0x1f8f9,
    pad ''EIM_A18'' 0x118 0 0x1f 0x4e8 0xb0b1 0x1f8f9]"

definition imx6dl_pads_4 :: "padinfo list" where
  "imx6dl_pads_4 = [
    pad ''EIM_A19'' 0x11c 0 0x1f 0x4ec 0xb0b1 0x1f8f9,
    pad ''EIM_A20'' 0x120 0 0x1f 0x4f0 0xb0b1 0x1f8f9,
    pad ''EIM_A21'' 0x124 0 0x1f 0x4f4 0xb0b1 0x1f8f9,
    pad ''EIM_A22'' 0x128 0 0x1f 0x4f8 0xb0b1 0x1f8f9,
    pad ''EIM_A23'' 0x12c 0 0x1f 0x4fc 0xb0b1 0x1f8f9,
    pad ''EIM_A24'' 0x130 0 0x1f 0x500 0xb0b1 0x1f8f9,
    pad ''EIM_A25'' 0x134 0 0x1f 0x504 0xb0b1 0x1f8f9,
    pad ''EIM_BCLK'' 0x138 0 0x1f 0x508 0xb0b1 0x1f8f9,
    pad ''EIM_CS0'' 0x13c 0 0x1f 0x50c 0xb0b1 0x1f8f9,
    pad ''EIM_CS1'' 0x140 0 0x1f 0x510 0xb0b1 0x1f8f9,
    pad ''EIM_D16'' 0x144 0x5 0x1f 0x514 0x1b0b0 0x1f8f9,
    pad ''EIM_D17'' 0x148 0x5 0x1f 0x518 0x1b0b0 0x1f8f9,
    pad ''EIM_D18'' 0x14c 0x5 0x1f 0x51c 0x1b0b0 0x1f8f9,
    pad ''EIM_D19'' 0x150 0x5 0x1f 0x520 0x1b0b0 0x1f8f9,
    pad ''EIM_D20'' 0x154 0x5 0x17 0x524 0x1b0b0 0x1f8f9,
    pad ''EIM_D21'' 0x158 0x5 0x17 0x528 0x1b0b0 0x1f8f9,
    pad ''EIM_D22'' 0x15c 0x5 0x1f 0x52c 0x1b0b0 0x1f8f9,
    pad ''EIM_D23'' 0x160 0x5 0x1f 0x530 0x1b0b0 0x1f8f9]"

definition imx6dl_pads_5 :: "padinfo list" where
  "imx6dl_pads_5 = [
    pad ''EIM_D24'' 0x164 0x5 0x1f 0x534 0x1b0b0 0x1f8f9,
    pad ''EIM_D25'' 0x168 0x5 0x1f 0x538 0x1b0b0 0x1f8f9,
    pad ''EIM_D26'' 0x16c 0x5 0x1f 0x53c 0x1b0b0 0x1f8f9,
    pad ''EIM_D27'' 0x170 0x5 0x1f 0x540 0x1b0b0 0x1f8f9,
    pad ''EIM_D28'' 0x174 0x5 0x1f 0x544 0x1b0b0 0x1f8f9,
    pad ''EIM_D29'' 0x178 0x5 0x1f 0x548 0x1b0b0 0x1f8f9,
    pad ''EIM_D30'' 0x17c 0x5 0x1f 0x54c 0x1b0b0 0x1f8f9,
    pad ''EIM_D31'' 0x180 0x5 0x1f 0x550 0x1b0b0 0x1f8f9,
    pad ''EIM_DA0'' 0x184 0 0x1f 0x554 0xb0b1 0x1f8f9,
    pad ''EIM_DA1'' 0x188 0 0x1f 0x558 0xb0b1 0x1f8f9,
    pad ''EIM_DA10'' 0x18c 0 0x1f 0x55c 0xb0b1 0x1f8f9,
    pad ''EIM_DA11'' 0x190 0 0x1f 0x560 0xb0b1 0x1f8f9,
    pad ''EIM_DA12'' 0x194 0 0x1f 0x564 0xb0b1 0x1f8f9,
    pad ''EIM_DA13'' 0x198 0 0x1f 0x568 0xb0b1 0x1f8f9,
    pad ''EIM_DA14'' 0x19c 0 0x1f 0x56c 0xb0b1 0x1f8f9,
    pad ''EIM_DA15'' 0x1a0 0 0x1f 0x570 0xb0b1 0x1f8f9,
    pad ''EIM_DA2'' 0x1a4 0 0x1f 0x574 0xb0b1 0x1f8f9,
    pad ''EIM_DA3'' 0x1a8 0 0x1f 0x578 0xb0b1 0x1f8f9]"

definition imx6dl_pads_6 :: "padinfo list" where
  "imx6dl_pads_6 = [
    pad ''EIM_DA4'' 0x1ac 0 0x1f 0x57c 0xb0b1 0x1f8f9,
    pad ''EIM_DA5'' 0x1b0 0 0x1f 0x580 0xb0b1 0x1f8f9,
    pad ''EIM_DA6'' 0x1b4 0 0x1f 0x584 0xb0b1 0x1f8f9,
    pad ''EIM_DA7'' 0x1b8 0 0x1f 0x588 0xb0b1 0x1f8f9,
    pad ''EIM_DA8'' 0x1bc 0 0x1f 0x58c 0xb0b1 0x1f8f9,
    pad ''EIM_DA9'' 0x1c0 0 0x1f 0x590 0xb0b1 0x1f8f9,
    pad ''EIM_EB0'' 0x1c4 0 0x1f 0x594 0xb0b1 0x1f8f9,
    pad ''EIM_EB1'' 0x1c8 0 0x1f 0x598 0xb0b1 0x1f8f9,
    pad ''EIM_EB2'' 0x1cc 0x5 0x1f 0x59c 0x1b0b0 0x1f8f9,
    pad ''EIM_EB3'' 0x1d0 0x5 0x1f 0x5a0 0x1b0b0 0x1f8f9,
    pad ''EIM_LBA'' 0x1d4 0 0x1f 0x5a4 0xb0b1 0x1f8f9,
    pad ''EIM_OE'' 0x1d8 0 0x1f 0x5a8 0xb0b1 0x1f8f9,
    pad ''EIM_RW'' 0x1dc 0 0x1f 0x5ac 0xb0b1 0x1f8f9,
    pad ''EIM_WAIT'' 0x1e0 0 0x17 0x5b0 0xb060 0x1f8f9,
    pad ''ENET_CRS_DV'' 0x1e4 0x5 0x17 0x5b4 0x1b0b0 0x1f839,
    pad ''ENET_MDC'' 0x1e8 0x5 0x17 0x5b8 0x1b0b0 0x1f8f9,
    pad ''ENET_MDIO'' 0x1ec 0x5 0x17 0x5bc 0x1b0b0 0x1f8f9,
    pad ''ENET_REF_CLK'' 0x1f0 0x5 0x17 0x5c0 0x1b0b0 0x1f8f9]"

definition imx6dl_pads_7 :: "padinfo list" where
  "imx6dl_pads_7 = [
    pad ''ENET_RX_ER'' 0x1f4 0x5 0x17 0x5c4 0x1b0b0 0x1f8f9,
    pad ''ENET_RXD0'' 0x1f8 0x5 0x17 0x5c8 0x1b0b0 0x1f839,
    pad ''ENET_RXD1'' 0x1fc 0x5 0x17 0x5cc 0x1b0b0 0x1f8f9,
    pad ''ENET_TX_EN'' 0x200 0x5 0x1f 0x5d0 0x1b0b0 0x1f8f9,
    pad ''ENET_TXD0'' 0x204 0x5 0x17 0x5d4 0x1b0b0 0x1f8f9,
    pad ''ENET_TXD1'' 0x208 0x5 0x1f 0x5d8 0x1b0b0 0x1f8f9,
    pad ''GPIO_0'' 0x20c 0x5 0x17 0x5dc 0x130b0 0x1f839,
    pad ''GPIO_1'' 0x210 0x5 0x17 0x5e0 0x1b0b0 0x1f8f9,
    pad ''GPIO_16'' 0x214 0x5 0x17 0x5e4 0x1b0b0 0x1f8f9,
    pad ''GPIO_17'' 0x218 0x5 0x17 0x5e8 0x1b0b0 0x1f839,
    pad ''GPIO_18'' 0x21c 0x5 0x17 0x5ec 0x1b0b0 0x1f8f9,
    pad ''GPIO_19'' 0x220 0x5 0x17 0x5f0 0x1b0b0 0x1f8f9,
    pad ''GPIO_2'' 0x224 0x5 0x17 0x5f4 0x1b0b0 0x1f8f9,
    pad ''GPIO_3'' 0x228 0x5 0x17 0x5f8 0x1b0b0 0x1f8f9,
    pad ''GPIO_4'' 0x22c 0x5 0x17 0x5fc 0x1b0b0 0x1f8f9,
    pad ''GPIO_5'' 0x230 0x5 0x17 0x600 0x1b0b0 0x1f8f9,
    pad ''GPIO_6'' 0x234 0x5 0x17 0x604 0x1b0b0 0x1f8f9,
    pad ''GPIO_7'' 0x238 0x5 0x1f 0x608 0x1b0b0 0x1f8f9]"

definition imx6dl_pads_8 :: "padinfo list" where
  "imx6dl_pads_8 = [
    pad ''GPIO_8'' 0x23c 0x5 0x1f 0x60c 0x1b0b0 0x1f8f9,
    pad ''GPIO_9'' 0x240 0x5 0x17 0x610 0x1b0b0 0x1f8f9,
    pad ''KEY_COL0'' 0x244 0x5 0x17 0x62c 0x1b0b0 0x1f8f9,
    pad ''KEY_COL1'' 0x248 0x5 0x17 0x630 0x1b0b0 0x1f8f9,
    pad ''KEY_COL2'' 0x24c 0x5 0x17 0x634 0x1b0b0 0x1f8f9,
    pad ''KEY_COL3'' 0x250 0x5 0x17 0x638 0x1b0b0 0x1f8f9,
    pad ''KEY_COL4'' 0x254 0x5 0x17 0x63c 0x1b0b0 0x1f8f9,
    pad ''KEY_ROW0'' 0x258 0x5 0x17 0x640 0x1b0b0 0x1f8f9,
    pad ''KEY_ROW1'' 0x25c 0x5 0x17 0x644 0x1b0b0 0x1f8f9,
    pad ''KEY_ROW2'' 0x260 0x5 0x17 0x648 0x1b0b0 0x1f8f9,
    pad ''KEY_ROW3'' 0x264 0x5 0x17 0x64c 0x1b0b0 0x1f8f9,
    pad ''KEY_ROW4'' 0x268 0x5 0x17 0x650 0x130b0 0x1f8f9,
    pad ''NANDF_ALE'' 0x26c 0x5 0x1f 0x654 0x1b0b0 0x1f8f9,
    pad ''NANDF_CLE'' 0x270 0x5 0x1f 0x658 0x1b0b0 0x1f8f9,
    pad ''NANDF_CS0'' 0x274 0x5 0x1f 0x65c 0x1b0b0 0x1f8f9,
    pad ''NANDF_CS1'' 0x278 0x5 0x1f 0x660 0x1b0b0 0x1f8f9,
    pad ''NANDF_CS2'' 0x27c 0x5 0x1f 0x664 0x1b0b0 0x1f8f9,
    pad ''NANDF_CS3'' 0x280 0x5 0x1f 0x668 0x1b0b0 0x1f8f9]"

definition imx6dl_pads_9 :: "padinfo list" where
  "imx6dl_pads_9 = [
    pad ''NANDF_D0'' 0x284 0x5 0x17 0x66c 0x1b0b0 0x1f8f9,
    pad ''NANDF_D1'' 0x288 0x5 0x17 0x670 0x1b0b0 0x1f8f9,
    pad ''NANDF_D2'' 0x28c 0x5 0x17 0x674 0x1b0b0 0x1f8f9,
    pad ''NANDF_D3'' 0x290 0x5 0x17 0x678 0x1b0b0 0x1f8f9,
    pad ''NANDF_D4'' 0x294 0x5 0x17 0x67c 0x1b0b0 0x1f8f9,
    pad ''NANDF_D5'' 0x298 0x5 0x17 0x680 0x1b0b0 0x1f8f9,
    pad ''NANDF_D6'' 0x29c 0x5 0x17 0x684 0x1b0b0 0x1f8f9,
    pad ''NANDF_D7'' 0x2a0 0x5 0x17 0x688 0x1b0b0 0x1f8f9,
    pad ''NANDF_RB0'' 0x2a4 0x5 0x1f 0x68c 0x1b0b0 0x1f8f9,
    pad ''NANDF_WP_B'' 0x2a8 0x5 0x1f 0x690 0x1b0b0 0x1f8f9,
    pad ''RGMII_RD0'' 0x2ac 0x5 0x17 0x694 0x1b030 0x3f038,
    pad ''RGMII_RD1'' 0x2b0 0x5 0x17 0x698 0x1b030 0x3f038,
    pad ''RGMII_RD2'' 0x2b4 0x5 0x17 0x69c 0x1b030 0x3f038,
    pad ''RGMII_RD3'' 0x2b8 0x5 0x17 0x6a0 0x1b030 0x3f038,
    pad ''RGMII_RX_CTL'' 0x2bc 0x5 0x17 0x6a4 0x13030 0x3f038,
    pad ''RGMII_RXC'' 0x2c0 0x5 0x17 0x6a8 0x13030 0x3f038,
    pad ''RGMII_TD0'' 0x2c4 0x5 0x17 0x6ac 0x1b030 0x3f038,
    pad ''RGMII_TD1'' 0x2c8 0x5 0x17 0x6b0 0x1b030 0x3f038]"

definition imx6dl_pads_10 :: "padinfo list" where
  "imx6dl_pads_10 = [
    pad ''RGMII_TD2'' 0x2cc 0x5 0x17 0x6b4 0x1b030 0x3f038,
    pad ''RGMII_TD3'' 0x2d0 0x5 0x17 0x6b8 0x1b030 0x3f038,
    pad ''RGMII_TX_CTL'' 0x2d4 0x5 0x17 0x6bc 0x13030 0x1f038,
    pad ''RGMII_TXC'' 0x2d8 0x5 0x17 0x6c0 0x13030 0x1f038,
    pad ''SD1_CLK'' 0x2dc 0x5 0x17 0x6c4 0x1b0b0 0x1f8f9,
    pad ''SD1_CMD'' 0x2e0 0x5 0x17 0x6c8 0x1b0b0 0x1f8f9,
    pad ''SD1_DAT0'' 0x2e4 0x5 0x17 0x6cc 0x1b0b0 0x1f8f9,
    pad ''SD1_DAT1'' 0x2e8 0x5 0x17 0x6d0 0x1b0b0 0x1f8f9,
    pad ''SD1_DAT2'' 0x2ec 0x5 0x17 0x6d4 0x1b0b0 0x1f8f9,
    pad ''SD1_DAT3'' 0x2f0 0x5 0x17 0x6d8 0x1b0b0 0x1f8f9,
    pad ''SD2_CLK'' 0x2f4 0x5 0x17 0x6dc 0x1b0b0 0x1f8f9,
    pad ''SD2_CMD'' 0x2f8 0x5 0x17 0x6e0 0x1b0b0 0x1f8f9,
    pad ''SD2_DAT0'' 0x2fc 0x5 0x17 0x6e4 0x1b0b0 0x1f8f9,
    pad ''SD2_DAT1'' 0x300 0x5 0x17 0x6e8 0x1b0b0 0x1f8f9,
    pad ''SD2_DAT2'' 0x304 0x5 0x17 0x6ec 0x1b0b0 0x1f8f9,
    pad ''SD2_DAT3'' 0x308 0x5 0x17 0x6f0 0x1b0b0 0x1f8f9,
    pad ''SD3_CLK'' 0x30c 0x5 0x17 0x6f4 0x1b0b0 0x1f8f9,
    pad ''SD3_CMD'' 0x310 0x5 0x17 0x6f8 0x1b0b0 0x1f8f9]"

definition imx6dl_pads_11 :: "padinfo list" where
  "imx6dl_pads_11 = [
    pad ''SD3_DAT0'' 0x314 0x5 0x17 0x6fc 0x1b0b0 0x1f8f9,
    pad ''SD3_DAT1'' 0x318 0x5 0x17 0x700 0x1b0b0 0x1f8f9,
    pad ''SD3_DAT2'' 0x31c 0x5 0x17 0x704 0x1b0b0 0x1f8f9,
    pad ''SD3_DAT3'' 0x320 0x5 0x17 0x708 0x1b0b0 0x1f8f9,
    pad ''SD3_DAT4'' 0x324 0x5 0x17 0x70c 0x1b0b0 0x1f8f9,
    pad ''SD3_DAT5'' 0x328 0x5 0x17 0x710 0x1b0b0 0x1f8f9,
    pad ''SD3_DAT6'' 0x32c 0x5 0x17 0x714 0x1b0b0 0x1f8f9,
    pad ''SD3_DAT7'' 0x330 0x5 0x17 0x718 0x1b0b0 0x1f8f9,
    pad ''SD3_RST'' 0x334 0x5 0x17 0x71c 0x1b0b0 0x1f8f9,
    pad ''SD4_CLK'' 0x338 0x5 0x17 0x720 0x1b0b0 0x1f8f9,
    pad ''SD4_CMD'' 0x33c 0x5 0x17 0x724 0x1b0b0 0x1f8f9,
    pad ''SD4_DAT0'' 0x340 0x5 0x17 0x728 0x1b0b0 0x1f8f9,
    pad ''SD4_DAT1'' 0x344 0x5 0x17 0x72c 0x1b0b0 0x1f8f9,
    pad ''SD4_DAT2'' 0x348 0x5 0x17 0x730 0x1b0b0 0x1f8f9,
    pad ''SD4_DAT3'' 0x34c 0x5 0x17 0x734 0x1b0b0 0x1f8f9,
    pad ''SD4_DAT4'' 0x350 0x5 0x17 0x738 0x1b0b0 0x1f8f9,
    pad ''SD4_DAT5'' 0x354 0x5 0x17 0x73c 0x1b0b0 0x1f8f9,
    pad ''SD4_DAT6'' 0x358 0x5 0x17 0x740 0x1b0b0 0x1f8f9]"

definition imx6dl_pads_12 :: "padinfo list" where
  "imx6dl_pads_12 = [
    pad ''SD4_DAT7'' 0x35c 0x5 0x17 0x744 0x1b0b0 0x1f8f9]"

definition imx6dl_iomux_padinfo :: "padinfo list" where
  "imx6dl_iomux_padinfo =
     imx6dl_pads_1 @ imx6dl_pads_2 @ imx6dl_pads_3 @ imx6dl_pads_4 @ imx6dl_pads_5 @
     imx6dl_pads_6 @ imx6dl_pads_7 @ imx6dl_pads_8 @ imx6dl_pads_9 @ imx6dl_pads_10 @
     imx6dl_pads_11 @ imx6dl_pads_12"

section \<open>imx6q\<close>

definition imx6q_pads_1 :: "padinfo list" where
  "imx6q_pads_1 = [
    pad ''SD2_DATA1'' 0x4c 0x5 0x17 0x360 0x1b0b0 0x1f8f9,
    pad ''SD2_DATA2'' 0x50 0x5 0x17 0x364 0x1b0b0 0x1f8f9,
    pad ''SD2_DATA0'' 0x54 0x5 0x17 0x368 0x1b0b0 0x1f8f9,
    pad ''RGMII_TXC'' 0x58 0x5 0x17 0x36c 0x13030 0x1f038,
    pad ''RGMII_TD0'' 0x5c 0x5 0x17 0x370 0x1b030 0x1f038,
    pad ''RGMII_TD1'' 0x60 0x5 0x17 0x374 0x1b030 0x1f038,
    pad ''RGMII_TD2'' 0x64 0x5 0x17 0x378 0x1b030 0x1f038,
    pad ''RGMII_TD3'' 0x68 0x5 0x17 0x37c 0x1b030 0x1f038,
    pad ''RGMII_RX_CTL'' 0x6c 0x5 0x17 0x380 0x13030 0x1f038,
    pad ''RGMII_RD0'' 0x70 0x5 0x17 0x384 0x1b030 0x1f038,
    pad ''RGMII_TX_CTL'' 0x74 0x5 0x17 0x388 0x13030 0x1f038,
    pad ''RGMII_RD1'' 0x78 0x5 0x17 0x38c 0x1b030 0x1f038,
    pad ''RGMII_RD2'' 0x7c 0x5 0x17 0x390 0x1b030 0x1f038,
    pad ''RGMII_RD3'' 0x80 0x5 0x17 0x394 0x1b030 0x1f038,
    pad ''RGMII_RXC'' 0x84 0x5 0x17 0x398 0x13030 0x1f038,
    pad ''EIM_ADDR25'' 0x88 0 0x17 0x39c 0xb0b1 0x1f8f9,
    pad ''EIM_EB2_B'' 0x8c 0x5 0x17 0x3a0 0x1b0b0 0x1f8f9,
    pad ''EIM_DATA16'' 0x90 0x5 0x17 0x3a4 0x1b0b0 0x1f8f9]"

definition imx6q_pads_2 :: "padinfo list" where
  "imx6q_pads_2 = [
    pad ''EIM_DATA17'' 0x94 0x5 0x17 0x3a8 0x1b0b0 0x1f8f9,
    pad ''EIM_DATA18'' 0x98 0x5 0x17 0x3ac 0x1b0b0 0x1f8f9,
    pad ''EIM_DATA19'' 0x9c 0x5 0x17 0x3b0 0x1b0b0 0x1f8f9,
    pad ''EIM_DATA20'' 0xa0 0x5 0x17 0x3b4 0x1b0b0 0x1f8f9,
    pad ''EIM_DATA21'' 0xa4 0x5 0x17 0x3b8 0x1b0b0 0x1f8f9,
    pad ''EIM_DATA22'' 0xa8 0x5 0x17 0x3bc 0x1b0b0 0x1f8f9,
    pad ''EIM_DATA23'' 0xac 0x5 0x17 0x3c0 0x1b0b0 0x1f8f9,
    pad ''EIM_EB3_B'' 0xb0 0x5 0x17 0x3c4 0x1b0b0 0x1f8f9,
    pad ''EIM_DATA24'' 0xb4 0x5 0x17 0x3c8 0x1b0b0 0x1f8f9,
    pad ''EIM_DATA25'' 0xb8 0x5 0x17 0x3cc 0x1b0b0 0x1f8f9,
    pad ''EIM_DATA26'' 0xbc 0x5 0x17 0x3d0 0x1b0b0 0x1f8f9,
    pad ''EIM_DATA27'' 0xc0 0x5 0x17 0x3d4 0x1b0b0 0x1f8f9,
    pad ''EIM_DATA28'' 0xc4 0x5 0x17 0x3d8 0x1b0b0 0x1f8f9,
    pad ''EIM_DATA29'' 0xc8 0x5 0x17 0x3dc 0x1b0b0 0x1f8f9,
    pad ''EIM_DATA30'' 0xcc 0x5 0x17 0x3e0 0x1b0b0 0x1f8f9,
    pad ''EIM_DATA31'' 0xd0 0x5 0x17 0x3e4 0x1b0b0 0x1f8f9,
    pad ''EIM_ADDR24'' 0xd4 0 0x17 0x3e8 0xb0b1 0x1f8f9,
    pad ''EIM_ADDR23'' 0xd8 0 0x17 0x3ec 0xb0b1 0x1f8f9]"

definition imx6q_pads_3 :: "padinfo list" where
  "imx6q_pads_3 = [
    pad ''EIM_ADDR22'' 0xdc 0 0x17 0x3f0 0xb0b1 0x1f8f9,
    pad ''EIM_ADDR21'' 0xe0 0 0x17 0x3f4 0xb0b1 0x1f8f9,
    pad ''EIM_ADDR20'' 0xe4 0 0x17 0x3f8 0xb0b1 0x1f8f9,
    pad ''EIM_ADDR19'' 0xe8 0 0x17 0x3fc 0xb0b1 0x1f8f9,
    pad ''EIM_ADDR18'' 0xec 0 0x17 0x400 0xb0b1 0x1f8f9,
    pad ''EIM_ADDR17'' 0xf0 0 0x17 0x404 0xb0b1 0x1f8f9,
    pad ''EIM_ADDR16'' 0xf4 0 0x17 0x408 0xb0b1 0x1f8f9,
    pad ''EIM_CS0_B'' 0xf8 0 0x17 0x40c 0xb0b1 0x1f8f9,
    pad ''EIM_CS1_B'' 0xfc 0 0x17 0x410 0xb0b1 0x1f8f9,
    pad ''EIM_OE_B'' 0x100 0 0x17 0x414 0xb0b1 0x1f8f9,
    pad ''EIM_RW'' 0x104 0 0x17 0x418 0xb0b1 0x1f8f9,
    pad ''EIM_LBA_B'' 0x108 0 0x17 0x41c 0xb0b1 0x1f8f9,
    pad ''EIM_EB0_B'' 0x10c 0 0x17 0x420 0xb0b1 0x1f8f9,
    pad ''EIM_EB1_B'' 0x110 0 0x17 0x424 0xb0b1 0x1f8f9,
    pad ''EIM_AD00'' 0x114 0 0x17 0x428 0xb0b1 0x1f8f9,
    pad ''EIM_AD01'' 0x118 0 0x17 0x42c 0xb0b1 0x1f8f9,
    pad ''EIM_AD02'' 0x11c 0 0x17 0x430 0xb0b1 0x1f8f9,
    pad ''EIM_AD03'' 0x120 0 0x17 0x434 0xb0b1 0x1f8f9]"

definition imx6q_pads_4 :: "padinfo list" where
  "imx6q_pads_4 = [
    pad ''EIM_AD04'' 0x124 0 0x17 0x438 0xb0b1 0x1f8f9,
    pad ''EIM_AD05'' 0x128 0 0x17 0x43c 0xb0b1 0x1f8f9,
    pad ''EIM_AD06'' 0x12c 0 0x17 0x440 0xb0b1 0x1f8f9,
    pad ''EIM_AD07'' 0x130 0 0x17 0x444 0xb0b1 0x1f8f9,
    pad ''EIM_AD08'' 0x134 0 0x17 0x448 0xb0b1 0x1f8f9,
    pad ''EIM_AD09'' 0x138 0 0x17 0x44c 0xb0b1 0x1f8f9,
    pad ''EIM_AD10'' 0x13c 0 0x17 0x450 0xb0b1 0x1f8f9,
    pad ''EIM_AD11'' 0x140 0 0x17 0x454 0xb0b1 0x1f8f9,
    pad ''EIM_AD12'' 0x144 0 0x17 0x458 0xb0b1 0x1f8f9,
    pad ''EIM_AD13'' 0x148 0 0x17 0x45c 0xb0b1 0x1f8f9,
    pad ''EIM_AD14'' 0x14c 0 0x17 0x460 0xb0b1 0x1f8f9,
    pad ''EIM_AD15'' 0x150 0 0x17 0x464 0xb0b1 0x1f8f9,
    pad ''EIM_WAIT_B'' 0x154 0 0x17 0x468 0xb060 0x1f8f9,
    pad ''EIM_BCLK'' 0x158 0 0x17 0x46c 0xb0b1 0x1f8f9,
    pad ''DI0_DISP_CLK'' 0x15c 0x5 0x17 0x470 0x1b0b0 0x1f8f9,
    pad ''DI0_PIN15'' 0x160 0x5 0x17 0x474 0x1b0b0 0x1f8f9,
    pad ''DI0_PIN02'' 0x164 0x5 0x17 0x478 0x1b0b0 0x1f8f9,
    pad ''DI0_PIN03'' 0x168 0x5 0x17 0x47c 0x1b0b0 0x1f8f9]"

definition imx6q_pads_5 :: "padinfo list" where
  "imx6q_pads_5 = [
    pad ''DI0_PIN04'' 0x16c 0x5 0x17 0x480 0x1b0b0 0x1f8f9,
    pad ''DISP0_DATA00'' 0x170 0x5 0x17 0x484 0x1b0b0 0x1f8f9,
    pad ''DISP0_DATA01'' 0x174 0x5 0x17 0x488 0x1b0b0 0x1f8f9,
    pad ''DISP0_DATA02'' 0x178 0x5 0x17 0x48c 0x1b0b0 0x1f8f9,
    pad ''DISP0_DATA03'' 0x17c 0x5 0x17 0x490 0x1b0b0 0x1f8f9,
    pad ''DISP0_DATA04'' 0x180 0x5 0x17 0x494 0x1b0b0 0x1f8f9,
    pad ''DISP0_DATA05'' 0x184 0x5 0x17 0x498 0x1b0b0 0x1f8f9,
    pad ''DISP0_DATA06'' 0x188 0x5 0x17 0x49c 0x1b0b0 0x1f8f9,
    pad ''DISP0_DATA07'' 0x18c 0x5 0x17 0x4a0 0x1b0b0 0x1f8f9,
    pad ''DISP0_DATA08'' 0x190 0x5 0x17 0x4a4 0x1b0b0 0x1f8f9,
    pad ''DISP0_DATA09'' 0x194 0x5 0x17 0x4a8 0x1b0b0 0x1f8f9,
    pad ''DISP0_DATA10'' 0x198 0x5 0x17 0x4ac 0x1b0b0 0x1f8f9,
    pad ''DISP0_DATA11'' 0x19c 0x5 0x17 0x4b0 0x1b0b0 0x1f8f9,
    pad ''DISP0_DATA12'' 0x1a0 0x5 0x17 0x4b4 0x1b0b0 0x1f8f9,
    pad ''DISP0_DATA13'' 0x1a4 0x5 0x17 0x4b8 0x1b0b0 0x1f8f9,
    pad ''DISP0_DATA14'' 0x1a8 0x5 0x17 0x4bc 0x1b0b0 0x1f8f9,
    pad ''DISP0_DATA15'' 0x1ac 0x5 0x17 0x4c0 0x1b0b0 0x1f8f9,
    pad ''DISP0_DATA16'' 0x1b0 0x5 0x17 0x4c4 0x1b0b0 0x1f8f9]"

definition imx6q_pads_6 :: "padinfo list" where
  "imx6q_pads_6 = [
    pad ''DISP0_DATA17'' 0x1b4 0x5 0x17 0x4c8 0x1b0b0 0x1f8f9,
    pad ''DISP0_DATA18'' 0x1b8 0x5 0x17 0x4cc 0x1b0b0 0x1f8f9,
    pad ''DISP0_DATA19'' 0x1bc 0x5 0x17 0x4d0 0x1b0b0 0x1f8f9,
    pad ''DISP0_DATA20'' 0x1c0 0x5 0x17 0x4d4 0x1b0b0 0x1f8f9,
    pad ''DISP0_DATA21'' 0x1c4 0x5 0x17 0x4d8 0x1b0b0 0x1f8f9,
    pad ''DISP0_DATA22'' 0x1c8 0x5 0x17 0x4dc 0x1b0b0 0x1f8f9,
    pad ''DISP0_DATA23'' 0x1cc 0x5 0x17 0x4e0 0x1b0b0 0x1f8f9,
    pad ''ENET_MDIO'' 0x1d0 0x5 0x17 0x4e4 0x1b0b0 0x1f8f9,
    pad ''ENET_REF_CLK'' 0x1d4 0x5 0x17 0x4e8 0x1b0b0 0x1f8f9,
    pad ''ENET_RX_ER'' 0x1d8 0x5 0x17 0x4ec 0x1b0b0 0x1f8f9,
    pad ''ENET_CRS_DV'' 0x1dc 0x5 0x17 0x4f0 0x1b0b0 0x1f8f9,
    pad ''ENET_RX_DATA1'' 0x1e0 0x5 0x17 0x4f4 0x1b0b0 0x1f8f9,
    pad ''ENET_RX_DATA0'' 0x1e4 0x5 0x17 0x4f8 0x1b0b0 0x1f8f9,
    pad ''ENET_TX_EN'' 0x1e8 0x5 0x17 0x4fc 0x1b0b0 0x1f8f9,
    pad ''ENET_TX_DATA1'' 0x1ec 0x5 0x17 0x500 0x1b0b0 0x1f8f9,
    pad ''ENET_TX_DATA0'' 0x1f0 0x5 0x17 0x504 0x1b0b0 0x1f8f9,
    pad ''ENET_MDC'' 0x1f4 0x5 0x17 0x508 0x1b0b0 0x1f8f9,
    pad ''KEY_COL0'' 0x1f8 0x5 0x17 0x5c8 0x1b0b0 0x1f8f9]"

definition imx6q_pads_7 :: "padinfo list" where
  "imx6q_pads_7 = [
    pad ''KEY_ROW0'' 0x1fc 0x5 0x17 0x5cc 0x1b0b0 0x1f8f9,
    pad ''KEY_COL1'' 0x200 0x5 0x17 0x5d0 0x1b0b0 0x1f8f9,
    pad ''KEY_ROW1'' 0x204 0x5 0x17 0x5d4 0x1b0b0 0x1f8f9,
    pad ''KEY_COL2'' 0x208 0x5 0x17 0x5d8 0x1b0b0 0x1f8f9,
    pad ''KEY_ROW2'' 0x20c 0x5 0x17 0x5dc 0x1b0b0 0x1f8f9,
    pad ''KEY_COL3'' 0x210 0x5 0x17 0x5e0 0x1b0b0 0x1f8f9,
    pad ''KEY_ROW3'' 0x214 0x5 0x17 0x5e4 0x1b0b0 0x1f8f9,
    pad ''KEY_COL4'' 0x218 0x5 0x17 0x5e8 0x1b0b0 0x1f8f9,
    pad ''KEY_ROW4'' 0x21c 0x5 0x17 0x5ec 0x1b0b0 0x1f8f9,
    pad ''GPIO00'' 0x220 0x5 0x17 0x5f0 0x1b0b0 0x1f8f9,
    pad ''GPIO01'' 0x224 0x5 0x17 0x5f4 0x1b0b0 0x1f8f9,
    pad ''GPIO09'' 0x228 0x5 0x17 0x5f8 0x1b0b0 0x1f8f9,
    pad ''GPIO03'' 0x22c 0x5 0x17 0x5fc 0x1b0b0 0x1f8f9,
    pad ''GPIO06'' 0x230 0x5 0x17 0x600 0x1b0b0 0x1f8f9,
    pad ''GPIO02'' 0x234 0x5 0x17 0x604 0x1b0b0 0x1f8f9,
    pad ''GPIO04'' 0x238 0x5 0x17 0x608 0x1b0b0 0x1f8f9,
    pad ''GPIO05'' 0x23c 0x5 0x17 0x60c 0x1b0b0 0x1f8f9,
    pad ''GPIO07'' 0x240 0x5 0x17 0x610 0x1b0b0 0x1f8f9]"

definition imx6q_pads_8 :: "padinfo list" where
  "imx6q_pads_8 = [
    pad ''GPIO08'' 0x244 0x5 0x17 0x614 0x1b0b0 0x1f8f9,
    pad ''GPIO16'' 0x248 0x5 0x17 0x618 0x1b0b0 0x1f8f9,
    pad ''GPIO17'' 0x24c 0x5 0x17 0x61c 0x1b0b0 0x1f8f9,
    pad ''GPIO18'' 0x250 0x5 0x17 0x620 0x1b0b0 0x1f8f9,
    pad ''GPIO19'' 0x254 0x5 0x17 0x624 0x1b0b0 0x1f8f9,
    pad ''CSI0_PIXCLK'' 0x258 0x5 0x17 0x628 0x1b0b0 0x1f8f9,
    pad ''CSI0_HSYNC'' 0x25c 0x5 0x17 0x62c 0x1b0b0 0x1f8f9,
    pad ''CSI0_DATA_EN'' 0x260 0x5 0x17 0x630 0x1b0b0 0x1f8f9,
    pad ''CSI0_VSYNC'' 0x264 0x5 0x17 0x634 0x1b0b0 0x1f8f9,
    pad ''CSI0_DATA04'' 0x268 0x5 0x17 0x638 0x1b0b0 0x1f8f9,
    pad ''CSI0_DATA05'' 0x26c 0x5 0x17 0x63c 0x1b0b0 0x1f8f9,
    pad ''CSI0_DATA06'' 0x270 0x5 0x17 0x640 0x1b0b0 0x1f8f9,
    pad ''CSI0_DATA07'' 0x274 0x5 0x17 0x644 0x1b0b0 0x1f8f9,
    pad ''CSI0_DATA08'' 0x278 0x5 0x17 0x648 0x1b0b0 0x1f8f9,
    pad ''CSI0_DATA9'' 0x27c 0x5 0x17 0x64c 0x1b0b0 0x1f8f9,
    pad ''CSI0_DATA10'' 0x280 0x5 0x17 0x650 0x1b0b0 0x1f8f9,
    pad ''CSI0_DATA11'' 0x284 0x5 0x17 0x654 0x1b0b0 0x1f8f9,
    pad ''CSI0_DATA12'' 0x288 0x5 0x17 0x658 0x1b0b0 0x1f8f9]"

definition imx6q_pads_9 :: "padinfo list" where
  "imx6q_pads_9 = [
    pad ''CSI0_DATA13'' 0x28c 0x5 0x17 0x65c 0x1b0b0 0x1f8f9,
    pad ''CSI0_DATA14'' 0x290 0x5 0x17 0x660 0x1b0b0 0x1f8f9,
    pad ''CSI0_DATA15'' 0x294 0x5 0x17 0x664 0x1b0b0 0x1f8f9,
    pad ''CSI0_DATA16'' 0x298 0x5 0x17 0x668 0x1b0b0 0x1f8f9,
    pad ''CSI0_DATA17'' 0x29c 0x5 0x17 0x66c 0x1b0b0 0x1f8f9,
    pad ''CSI0_DATA18'' 0x2a0 0x5 0x17 0x670 0x1b0b0 0x1f8f9,
    pad ''CSI0_DATA19'' 0x2a4 0x5 0x17 0x674 0x1b0b0 0x1f8f9,
    bare_pad ''JTAG_TMS'' 0x678 0x7060 0x1d000,
    pad ''SD3_DATA7'' 0x2a8 0x5 0x17 0x690 0x1b0b0 0x1f8f9,
    pad ''SD3_DATA6'' 0x2ac 0x5 0x17 0x694 0x1b0b0 0x1f8f9,
    pad ''SD3_DATA5'' 0x2b0 0x5 0x17 0x698 0x1b0b0 0x1f8f9,
    pad ''SD3_DATA4'' 0x2b4 0x5 0x17 0x69c 0x1b0b0 0x1f8f9,
    pad ''SD3_CMD'' 0x2b8 0x5 0x17 0x6a0 0x1b0b0 0x1f8f9,
    pad ''SD3_CLK'' 0x2bc 0x5 0x17 0x6a4 0x1b0b0 0x1f8f9,
    pad ''SD3_DATA0'' 0x2c0 0x5 0x17 0x6a8 0x1b0b0 0x1f8f9,
    pad ''SD3_DATA1'' 0x2c4 0x5 0x17 0x6ac 0x1b0b0 0x1f8f9,
    pad ''SD3_DATA2'' 0x2c8 0x5 0x17 0x6b0 0x1b0b0 0x1f8f9,
    pad ''SD3_DATA3'' 0x2cc 0x5 0x17 0x6b4 0x1b0b0 0x1f8f9]"

definition imx6q_pads_10 :: "padinfo list" where
  "imx6q_pads_10 = [
    pad ''SD3_RESET'' 0x2d0 0x5 0x17 0x6b8 0x1b0b0 0x1f8f9,
    pad ''NAND_CLE'' 0x2d4 0x5 0x17 0x6bc 0x1b0b0 0x1f8f9,
    pad ''NAND_ALE'' 0x2d8 0x5 0x17 0x6c0 0x1b0b0 0x1f8f9,
    pad ''NAND_WP_B'' 0x2dc 0x5 0x17 0x6c4 0x1b0b0 0x1f8f9,
    pad ''NAND_READY_B'' 0x2e0 0x5 0x17 0x6c8 0x1b0b0 0x1f8f9,
    pad ''NAND_CS0_B'' 0x2e4 0x5 0x17 0x6cc 0x1b0b0 0x1f8f9,
    pad ''NAND_CS1_B'' 0x2e8 0x5 0x17 0x6d0 0x1b0b0 0x1f8f9,
    pad ''NAND_CS2_B'' 0x2ec 0x5 0x17 0x6d4 0x1b0b0 0x1f8f9,
    pad ''NAND_CS3_B'' 0x2f0 0x5 0x17 0x6d8 0x1b0b0 0x1f8f9,
    pad ''SD4_CMD'' 0x2f4 0x5 0x17 0x6dc 0x1b0b0 0x1f8f9,
    pad ''SD4_CLK'' 0x2f8 0x5 0x17 0x6e0 0x1b0b0 0x1f8f9,
    pad ''NAND_DATA00'' 0x2fc 0x5 0x17 0x6e4 0x1b0b0 0x1f8f9,
    pad ''NAND_DATA01'' 0x300 0x5 0x17 0x6e8 0x1b0b0 0x1f8f9,
    pad ''NAND_DATA02'' 0x304 0x5 0x17 0x6ec 0x1b0b0 0x1f8f9,
    pad ''NAND_DATA03'' 0x308 0x5 0x17 0x6f0 0x1b0b0 0x1f8f9,
    pad ''NAND_DATA04'' 0x30c 0x5 0x17 0x6f4 0x1b0b0 0x1f8f9,
    pad ''NAND_DATA05'' 0x310 0x5 0x17 0x6f8 0x1b0b0 0x1f8f9,
    pad ''NAND_DATA06'' 0x314 0x5 0x17 0x6fc 0x1b0b0 0x1f8f9]"

definition imx6q_pads_11 :: "padinfo list" where
  "imx6q_pads_11 = [
    pad ''NAND_DATA07'' 0x318 0x5 0x17 0x700 0x1b0b0 0x1f8f9,
    pad ''SD4_DATA0'' 0x31c 0x5 0x17 0x704 0x1b0b0 0x1f8f9,
    pad ''SD4_DATA1'' 0x320 0x5 0x17 0x708 0x1b0b0 0x1f8f9,
    pad ''SD4_DATA2'' 0x324 0x5 0x17 0x70c 0x1b0b0 0x1f8f9,
    pad ''SD4_DATA3'' 0x328 0x5 0x17 0x710 0x1b0b0 0x1f8f9,
    pad ''SD4_DATA4'' 0x32c 0x5 0x17 0x714 0x1b0b0 0x1f8f9,
    pad ''SD4_DATA5'' 0x330 0x5 0x17 0x718 0x1b0b0 0x1f8f9,
    pad ''SD4_DATA6'' 0x334 0x5 0x17 0x71c 0x1b0b0 0x1f8f9,
    pad ''SD4_DATA7'' 0x338 0x5 0x17 0x720 0x1b0b0 0x1f8f9,
    pad ''SD1_DATA1'' 0x33c 0x5 0x17 0x724 0x1b0b0 0x1f8f9,
    pad ''SD1_DATA0'' 0x340 0x5 0x17 0x728 0x1b0b0 0x1f8f9,
    pad ''SD1_DATA3'' 0x344 0x5 0x17 0x72c 0x1b0b0 0x1f8f9,
    pad ''SD1_CMD'' 0x348 0x5 0x17 0x730 0x1b0b0 0x1f8f9,
    pad ''SD1_DATA2'' 0x34c 0x5 0x17 0x734 0x1b0b0 0x1f8f9,
    pad ''SD1_CLK'' 0x350 0x5 0x17 0x738 0x1b0b0 0x1f8f9,
    pad ''SD2_CLK'' 0x354 0x5 0x17 0x73c 0x1b0b0 0x1f8f9,
    pad ''SD2_CMD'' 0x358 0x5 0x17 0x740 0x1b0b0 0x1f8f9,
    pad ''SD2_DATA3'' 0x35c 0x5 0x17 0x744 0x1b0b0 0x1f8f9]"

definition imx6q_iomux_padinfo :: "padinfo list" where
  "imx6q_iomux_padinfo =
     imx6q_pads_1 @ imx6q_pads_2 @ imx6q_pads_3 @ imx6q_pads_4 @ imx6q_pads_5 @
     imx6q_pads_6 @ imx6q_pads_7 @ imx6q_pads_8 @ imx6q_pads_9 @ imx6q_pads_10 @
     imx6q_pads_11"

lemmas pad_defs = pad_def mux_pad_def bare_pad_def

lemmas imx25_defs = imx25_iomux_padinfo_def imx25_pads_1_def imx25_pads_2_def imx25_pads_3_def imx25_pads_4_def imx25_pads_5_def imx25_pads_6_def imx25_pads_7_def imx25_pads_8_def

lemmas imx6dl_defs = imx6dl_iomux_padinfo_def imx6dl_pads_1_def imx6dl_pads_2_def imx6dl_pads_3_def imx6dl_pads_4_def imx6dl_pads_5_def imx6dl_pads_6_def imx6dl_pads_7_def imx6dl_pads_8_def imx6dl_pads_9_def imx6dl_pads_10_def imx6dl_pads_11_def imx6dl_pads_12_def

lemmas imx6q_defs = imx6q_iomux_padinfo_def imx6q_pads_1_def imx6q_pads_2_def imx6q_pads_3_def imx6q_pads_4_def imx6q_pads_5_def imx6q_pads_6_def imx6q_pads_7_def imx6q_pads_8_def imx6q_pads_9_def imx6q_pads_10_def imx6q_pads_11_def

end
