(* ===== verification/Pinmux.thy ===== *)
theory Pinmux
  imports Dt_Nodes C_Text Pinmux_Tables
begin

text \<open>
  The check of the pin groups of the i.MX chips, \<open>src/dtblint-imx-pinmux.c\<close>, and the loop over the nodes of a
  compatible string (\<open>for_each_compatible_node\<close> of \<open>src/dt/dt.h\<close>) the checks of \<open>dtblint\<close> share.  What a check
  prints is a list of reports, to the standard output (the complaints) or to the error output.
\<close>

section \<open>Reports and the loop over compatible nodes\<close>

datatype report = Out string | Err string

lemma nodes_from_next_shorter:
  assumes "r \<in> set (nodes_from root from)"
  shows "length (nodes_from root r) < length (nodes_from root from)"
proof -
  let ?l = "node_list [] root"
  obtain ys zs where nf: "nodes_from root from = ys @ r # zs" using assms by (auto simp: in_set_conv_decomp)
  then obtain xs where "?l = xs @ r # zs"
    using append_take_drop_id [of 1 "dropWhile (\<lambda>r. r \<noteq> from) ?l"] takeWhile_dropWhile_id [of "\<lambda>r. r \<noteq> from" ?l]
    unfolding nodes_from_def by (metis append.assoc)
  then have "dropWhile (\<lambda>x. x \<noteq> r) ?l = r # zs" using dropWhile_to [of xs r zs] node_list_distinct(1) [of "[]" root] by simp
  then show ?thesis using nf by (simp add: nodes_from_def)
qed

lemma find_res_in: "find_res f xs = Inr (Some x) \<Longrightarrow> x \<in> set xs"
  by (induction xs) (auto simp: bindE_eq_Inr split: if_splits)

text \<open>\<open>for_each_compatible_node (np, NULL, compatible)\<close> with a body that prints; \<open>from\<close> is the node of the last round.\<close>

function for_each_compatible_node ::
    "device_node \<Rightarrow> string \<Rightarrow> (node_ref \<Rightarrow> report list) \<Rightarrow> node_ref \<Rightarrow> report list res" where
  "for_each_compatible_node root compatible body from =
     (case of_find_compatible_node root from compatible of
        Inl e \<Rightarrow> Inl e
      | Inr None \<Rightarrow> Inr []
      | Inr (Some np) \<Rightarrow>
          bindE (for_each_compatible_node root compatible body np) (\<lambda>rest. Inr (body np @ rest)))"
  by pat_completeness auto
termination
  by (relation "measure (\<lambda>(root, compatible, body, from). length (nodes_from root from))")
    (auto simp: of_find_compatible_node_def intro: nodes_from_next_shorter dest: find_res_in)

declare for_each_compatible_node.simps [simp del]

section \<open>The check of a pin group\<close>

type_synonym socinfo = "padinfo list"

definition find_padinfo :: "int \<Rightarrow> socinfo \<Rightarrow> padinfo option" where
  "find_padinfo swmux_regoffset_arg socinfo = find (\<lambda>p. swmux_regoffset p = swmux_regoffset_arg) socinfo"

definition imx_pad_sion :: u32 where
  "imx_pad_sion = 0x40000000"

text \<open>
  One round of the loop: the six cells of a pin are the multiplexer register, the control register (0 for none), the
  input register, the multiplexer mode, the input value and the control value.  The two input cells are not looked
  at; the mode is computed, with the bit \<open>IOMUXC_CONFIG_SION\<close> from the control value, and not used.
\<close>

definition check_pad :: "padinfo \<Rightarrow> int \<Rightarrow> u32 \<Rightarrow> report list" where
  "check_pad padinfo conf_reg config =
     (if conf_reg \<noteq> swpad_regoffset padinfo
      then [Out (''E: wrong offset for SW_PAD register ('' @ padname padinfo @ '')'' @ newline)] else []) @
     (if conf_reg = - 1 then
        (if config \<noteq> 0x80000000
         then [Out (''E: config value without config register ('' @ padname padinfo @ '')'' @ newline)] else [])
      else if config = 0x80000000 then
        [Out (''S: explicitly use 0x'' @ print_08x (swpad_reset_default padinfo) @ '' as config value for '' @
              padname padinfo @ newline)]
      else let reserved = (config XOR swpad_reset_default padinfo) AND NOT (swpad_writeable_mask padinfo)
           in if reserved \<noteq> 0
              then [Out (''E: config value specified for reserved bit differ from reset value ('' @ padname padinfo @
                    '', '' @ print_x (uint reserved) @ '')'' @ newline)] else [])"

definition check_pin :: "socinfo \<Rightarrow> u32 \<Rightarrow> u32 \<Rightarrow> u32 \<Rightarrow> report list" where
  "check_pin socinfo mux_reg conf_cell config_cell =
     (let conf_reg = (if conf_cell = 0 then - 1 else uint conf_cell);
          config = config_cell AND NOT imx_pad_sion
      in case find_padinfo (uint mux_reg) socinfo of
           None \<Rightarrow> [Err (''unknown pad (muxreg: '' @ print_x (uint mux_reg) @ '')'' @ newline)]
         | Some padinfo \<Rightarrow> check_pad padinfo conf_reg config)"

fun check_pins :: "socinfo \<Rightarrow> u32 list \<Rightarrow> report list" where
  "check_pins socinfo (mux_reg # conf_reg # input_reg # mux_mode # input_val # config # rest) =
     check_pin socinfo mux_reg conf_reg config @ check_pins socinfo rest"
| "check_pins socinfo _ = []"

definition parse_function :: "device_node \<Rightarrow> socinfo \<Rightarrow> unit res \<times> report list" where
  "parse_function funcnode socinfo = (case of_get_property funcnode ''fsl,pins'' of
     None \<Rightarrow> (Inl EINVAL, [Err (''no fsl,pins property in node '' @ dn_full_name funcnode @ newline)])
   | Some v \<Rightarrow>
       if length v = 0 \<or> length v mod 24 \<noteq> 0
       then (Inl EINVAL, [Err (''fsl,pins invalid in node '' @ dn_full_name funcnode @ newline)])
       else (Inr (), check_pins socinfo (be32_cells v)))"

definition iomux_id :: "(string \<times> socinfo) list" where
  "iomux_id = [(''fsl,imx25-iomuxc'', imx25_iomux_padinfo), (''fsl,imx6dl-iomuxc'', imx6dl_iomux_padinfo),
     (''fsl,imx6q-iomuxc'', imx6q_iomux_padinfo)]"

text \<open>A child of the controller is a group itself, or holds groups; the value \<open>parse_function\<close> returns is not used.\<close>

definition check_function_node :: "socinfo \<Rightarrow> device_node \<Rightarrow> report list" where
  "check_function_node socinfo npc =
     (if of_property_read_bool npc ''fsl,pins'' then snd (parse_function npc socinfo)
      else concat (map (\<lambda>npcc. snd (parse_function npcc socinfo)) (dn_children npc)))"

definition check_controller :: "socinfo \<Rightarrow> device_node \<Rightarrow> report list" where
  "check_controller socinfo np = concat (map (check_function_node socinfo) (dn_children np))"

fun pinmux_loop :: "device_node \<Rightarrow> (string \<times> socinfo) list \<Rightarrow> report list res" where
  "pinmux_loop root [] = Inr []"
| "pinmux_loop root ((compatible, socinfo) # ids) =
     bindE (for_each_compatible_node root compatible (\<lambda>np. check_controller socinfo (the_node root np)) [])
       (\<lambda>out. bindE (pinmux_loop root ids) (\<lambda>rest. Inr (out @ rest)))"

definition dtblint_imx_pinmux :: "device_node \<Rightarrow> report list res" where
  "dtblint_imx_pinmux root = pinmux_loop root iomux_id"

section \<open>The tables\<close>

text \<open>A lookup by a key that tells the elements of a table apart finds each of them, also one that stands there twice.\<close>

lemma lookup_all:
  assumes "distinct (map f (remdups_adj xs))"
  shows "map (\<lambda>x. find (\<lambda>y. f y = f x) xs) xs = map Some xs"
proof -
  have inj: "inj_on f (set xs)" using assms by (simp add: distinct_map)
  have "find (\<lambda>y. f y = f x) xs = Some x" if x: "x \<in> set xs" for x
  proof (cases "find (\<lambda>y. f y = f x) xs")
    case None
    then show ?thesis using x by (auto simp: find_None_iff)
  next
    case (Some y)
    then have "y \<in> set xs" "f y = f x" by (auto simp: find_Some_iff)
    with inj x Some show ?thesis by (auto dest: inj_onD)
  qed
  then show ?thesis by simp
qed

lemma imx25_offsets: "distinct (map swmux_regoffset (remdups_adj imx25_iomux_padinfo))"
  by (simp add: imx25_defs pad_defs)

lemma imx6dl_offsets: "distinct (map swmux_regoffset (remdups_adj imx6dl_iomux_padinfo))"
  by (simp add: imx6dl_defs pad_defs)

lemma imx6q_offsets: "distinct (map swmux_regoffset (remdups_adj imx6q_iomux_padinfo))"
  by (simp add: imx6q_defs pad_defs)

text \<open>
  The lookup by the offset of the multiplexer register finds every pad of the three tables, each entry as it stands in
  the table: no pad hides another one, although two of the i.MX6DL stand there twice and a pad without a multiplexer
  has the offset 0.
\<close>

theorem pad_lookup_complete:
  "list_all (\<lambda>(compatible, socinfo). map (\<lambda>p. find_padinfo (swmux_regoffset p) socinfo) socinfo = map Some socinfo) iomux_id"
  unfolding iomux_id_def find_padinfo_def list.pred_inject(2) prod.case
  by (intro conjI list.pred_inject(1) lookup_all imx25_offsets imx6dl_offsets imx6q_offsets)

section \<open>The loop and its reference\<close>

text \<open>Without a compatible property that runs over its end, the loop visits the compatible nodes in the order of the list.\<close>

definition compat_ok :: "device_node \<Rightarrow> string \<Rightarrow> bool" where
  "compat_ok root compatible \<longleftrightarrow> (\<forall>r \<in> set (nodes_from root []). \<exists>b. of_device_is_compatible (the_node root r) compatible = Inr b)"

definition is_compatible :: "device_node \<Rightarrow> string \<Rightarrow> node_ref \<Rightarrow> bool" where
  "is_compatible root compatible r \<longleftrightarrow> of_device_is_compatible (the_node root r) compatible = Inr True"

lemma find_res_first:
  assumes "\<forall>x \<in> set xs. \<exists>b. f x = Inr b"
  shows "find_res f xs = Inr (case filter (\<lambda>x. f x = Inr True) xs of [] \<Rightarrow> None | x # _ \<Rightarrow> Some x)"
  using assms
proof (induction xs)
  case (Cons x xs)
  then obtain b where "f x = Inr b" by auto
  with Cons show ?case by (cases b) simp_all
qed simp

lemma nodes_from_found:
  assumes "filter P (nodes_from root from) = np # rest"
  shows "filter P (nodes_from root np) = rest" and "np \<in> set (nodes_from root from)" and "set (nodes_from root np) \<subseteq> set (nodes_from root from)"
proof -
  obtain ys zs where nf: "nodes_from root from = ys @ np # zs" and f: "filter P zs = rest"
    using assms by (auto simp: filter_eq_Cons_iff)
  have "nodes_from root np = zs"
    using nf by (induction ys arbitrary: "from") (auto dest: nodes_from_step(2))
  then show "filter P (nodes_from root np) = rest" "np \<in> set (nodes_from root from)" "set (nodes_from root np) \<subseteq> set (nodes_from root from)"
    using f nf by auto
qed

lemma for_each_compatible:
  assumes "\<forall>r \<in> set (nodes_from root from). \<exists>b. of_device_is_compatible (the_node root r) compatible = Inr b"
  shows "for_each_compatible_node root compatible body from =
    Inr (concat (map body (filter (is_compatible root compatible) (nodes_from root from))))"
  using assms
proof (induction "filter (is_compatible root compatible) (nodes_from root from)" arbitrary: "from")
  case Nil
  then have "of_find_compatible_node root from compatible = Inr None"
    using find_res_first [of "nodes_from root from" "\<lambda>r. of_device_is_compatible (the_node root r) compatible"]
    by (simp add: of_find_compatible_node_def is_compatible_def [abs_def])
  then show ?case unfolding Nil(1) [symmetric] by (subst for_each_compatible_node.simps) simp
next
  case (Cons np rest)
  have f: "of_find_compatible_node root from compatible = Inr (Some np)"
    using find_res_first [OF Cons(3)] Cons(2) [symmetric]
    by (simp add: of_find_compatible_node_def is_compatible_def [abs_def])
  note s = nodes_from_found [OF Cons(2) [symmetric]]
  have "for_each_compatible_node root compatible body np = Inr (concat (map body rest))"
    using Cons(1) [OF s(1) [symmetric]] Cons(3) s(1,3) by auto
  then show ?case unfolding Cons(2) [symmetric] using f by (subst for_each_compatible_node.simps) simp
qed

section \<open>What a silent check means\<close>

text \<open>
  A pin entry is consistent: its multiplexer register is one of a pad, and the control register is the pad's.  A pad
  without one gets the value for "no control"; the value for another agrees with the reset value in every bit
  that cannot be written.  The SION bit (30) stands for a bit of the multiplexer and is left out.
\<close>

definition pin_ok :: "socinfo \<Rightarrow> u32 \<Rightarrow> u32 \<Rightarrow> u32 \<Rightarrow> bool" where
  "pin_ok socinfo mux_reg conf_reg config \<longleftrightarrow> (\<exists>p \<in> set socinfo. swmux_regoffset p = uint mux_reg \<and>
     (if conf_reg = 0 then swpad_regoffset p = - 1 \<and> config AND NOT imx_pad_sion = 0x80000000
      else swpad_regoffset p = uint conf_reg \<and> config AND NOT imx_pad_sion \<noteq> 0x80000000 \<and>
           (\<forall>n < 32. n \<noteq> 30 \<longrightarrow> \<not> bit (swpad_writeable_mask p) n \<longrightarrow> (bit config n \<longleftrightarrow> bit (swpad_reset_default p) n))))"

definition table_ok :: "socinfo \<Rightarrow> bool" where
  "table_ok socinfo \<longleftrightarrow> inj_on swmux_regoffset (set socinfo) \<and> (\<forall>p \<in> set socinfo. \<not> bit (swpad_reset_default p) 30)"

lemma tables_ok: "(compatible, socinfo) \<in> set iomux_id \<Longrightarrow> table_ok socinfo"
proof -
  have i: "distinct (map swmux_regoffset (remdups_adj t)) \<Longrightarrow> inj_on swmux_regoffset (set t)" for t
    by (simp add: distinct_map)
  have b: "\<not> bit r 30" if "r < 0x40000000" for r :: u32
  proof -
    have "uint r < 2 ^ 30" using that by (simp add: word_less_def)
    then have "\<not> bit (uint r) 30" by (simp add: bit_iff_odd)
    then show ?thesis by (simp add: bit_uint_iff)
  qed
  have "list_all (\<lambda>p. swpad_reset_default p < 0x40000000) imx25_iomux_padinfo"
      "list_all (\<lambda>p. swpad_reset_default p < 0x40000000) imx6dl_iomux_padinfo"
      "list_all (\<lambda>p. swpad_reset_default p < 0x40000000) imx6q_iomux_padinfo"
    by (simp_all add: imx25_defs imx6dl_defs imx6q_defs pad_defs)
  with b have l: "\<forall>p \<in> set imx25_iomux_padinfo. \<not> bit (swpad_reset_default p) 30"
      "\<forall>p \<in> set imx6dl_iomux_padinfo. \<not> bit (swpad_reset_default p) 30"
      "\<forall>p \<in> set imx6q_iomux_padinfo. \<not> bit (swpad_reset_default p) 30"
    by (simp_all add: list_all_iff)
  assume "(compatible, socinfo) \<in> set iomux_id"
  then show ?thesis
    using i [OF imx25_offsets] i [OF imx6dl_offsets] i [OF imx6q_offsets] l by (auto simp: iomux_id_def table_ok_def)
qed

lemma bit_sion: "bit imx_pad_sion n \<longleftrightarrow> n = 30"
proof -
  have p: "imx_pad_sion = push_bit 30 1" by (simp add: imx_pad_sion_def)
  show ?thesis unfolding p bit_push_bit_iff bit_1_iff by auto
qed

lemma reserved_bits:
  assumes "\<not> bit r 30"
  shows "((config AND NOT imx_pad_sion) XOR r) AND NOT m = (0 :: u32) \<longleftrightarrow>
    (\<forall>n < 32. n \<noteq> 30 \<longrightarrow> \<not> bit m n \<longrightarrow> (bit config n \<longleftrightarrow> bit r n))"
proof -
  have z: "w = 0 \<longleftrightarrow> (\<forall>n < 32. \<not> bit w n)" for w :: u32 by (auto intro: bit_word_eqI)
  show ?thesis unfolding z using assms
    by (auto simp: bit_and_iff bit_xor_iff bit_not_iff bit_sion)
qed

lemma find_key:
  assumes "inj_on f (set xs)"
  shows "find (\<lambda>x. f x = k) xs = Some p \<longleftrightarrow> p \<in> set xs \<and> f p = k"
proof
  show "find (\<lambda>x. f x = k) xs = Some p \<Longrightarrow> p \<in> set xs \<and> f p = k" by (auto simp: find_Some_iff)
  assume p: "p \<in> set xs \<and> f p = k"
  then obtain q where q: "find (\<lambda>x. f x = k) xs = Some q" by (cases "find (\<lambda>x. f x = k) xs") (auto simp: find_None_iff)
  then have "q \<in> set xs" "f q = k" by (auto simp: find_Some_iff)
  with assms p q show "find (\<lambda>x. f x = k) xs = Some p" by (auto dest: inj_onD)
qed

lemma check_pin_silent:
  assumes "table_ok socinfo"
  shows "check_pin socinfo mux_reg conf_reg config = [] \<longleftrightarrow> pin_ok socinfo mux_reg conf_reg config"
proof (cases "find_padinfo (uint mux_reg) socinfo")
  case None
  then have "\<forall>p \<in> set socinfo. swmux_regoffset p \<noteq> uint mux_reg" by (auto simp: find_padinfo_def find_None_iff)
  with None show ?thesis by (auto simp: check_pin_def pin_ok_def Let_def)
next
  case (Some p)
  then have p: "p \<in> set socinfo" "swmux_regoffset p = uint mux_reg" by (auto simp: find_padinfo_def find_Some_iff)
  have u: "q = p" if "q \<in> set socinfo" "swmux_regoffset q = uint mux_reg" for q
    using assms p that inj_onD [of swmux_regoffset "set socinfo" q p] by (simp add: table_ok_def)
  have b: "\<not> bit (swpad_reset_default p) 30" using assms p by (simp add: table_ok_def)
  have ok: "pin_ok socinfo mux_reg conf_reg config \<longleftrightarrow>
      (if conf_reg = 0 then swpad_regoffset p = - 1 \<and> config AND NOT imx_pad_sion = 0x80000000
       else swpad_regoffset p = uint conf_reg \<and> config AND NOT imx_pad_sion \<noteq> 0x80000000 \<and>
         ((config AND NOT imx_pad_sion) XOR swpad_reset_default p) AND NOT (swpad_writeable_mask p) = 0)"
    unfolding reserved_bits [OF b] pin_ok_def using p u by blast
  have "uint conf_reg \<noteq> - 1" using unsigned_greater_eq [of conf_reg, where 'a = int] by linarith
  then show ?thesis unfolding ok by (simp add: check_pin_def check_pad_def Let_def Some)
qed

lemma check_pins_nth:
  "check_pins socinfo cs = [] \<longleftrightarrow>
    (\<forall>i < length cs div 6. check_pin socinfo (cs ! (6 * i)) (cs ! (6 * i + 1)) (cs ! (6 * i + 5)) = [])"
proof (induction socinfo cs rule: check_pins.induct)
  case (1 socinfo a b c d e f rest)
  let ?cs = "a # b # c # d # e # f # rest"
  have l: "length ?cs div 6 = Suc (length rest div 6)" by simp
  have n: "?cs ! (6 * Suc i) = rest ! (6 * i)" "?cs ! (6 * Suc i + 1) = rest ! (6 * i + 1)" "?cs ! (6 * Suc i + 5) = rest ! (6 * i + 5)" for i
    by (simp_all add: nth_Cons' add.commute)
  have z: "?cs ! (6 * 0) = a" "?cs ! (6 * 0 + 1) = b" "?cs ! (6 * 0 + 5) = f" by simp_all
  show ?case unfolding l All_less_Suc2 n z check_pins.simps(1) append_is_Nil_conv 1 ..
qed auto

lemma cell_nth: "i < length v div 4 \<Longrightarrow> be32_cells v ! i = get_unaligned_be32 (drop (4 * i) v)"
  by (simp add: be32_cells_def)

text \<open>A function node is consistent: the property holds a positive number of entries, each of them consistent.\<close>

definition pins_ok :: "socinfo \<Rightarrow> device_node \<Rightarrow> bool" where
  "pins_ok socinfo funcnode \<longleftrightarrow> (\<exists>v. of_get_property funcnode ''fsl,pins'' = Some v \<and> v \<noteq> [] \<and> 24 dvd length v \<and>
     (\<forall>i < length v div 24. pin_ok socinfo (get_unaligned_be32 (drop (24 * i) v)) (get_unaligned_be32 (drop (24 * i + 4) v))
        (get_unaligned_be32 (drop (24 * i + 20) v))))"

lemma parse_function_silent:
  assumes "table_ok socinfo"
  shows "snd (parse_function funcnode socinfo) = [] \<longleftrightarrow> pins_ok socinfo funcnode"
proof (cases "of_get_property funcnode ''fsl,pins''")
  case (Some v)
  show ?thesis
  proof (cases "v = [] \<or> \<not> 24 dvd length v")
    case True
    then show ?thesis using Some by (auto simp: parse_function_def pins_ok_def dvd_eq_mod_eq_0)
  next
    case False
    then obtain k where k: "length v = 24 * k" by (auto elim: dvdE)
    have "be32_cells v ! (6 * i + j) = get_unaligned_be32 (drop (24 * i + 4 * j) v)" if "i < k" "j < 6" for i j
      using cell_nth [of "6 * i + j" v] that k by (simp add: algebra_simps)
    from this [of _ 0] this [of _ 1] this [of _ 5]
    have c: "be32_cells v ! (6 * i) = get_unaligned_be32 (drop (24 * i) v)"
        "be32_cells v ! (6 * i + 1) = get_unaligned_be32 (drop (24 * i + 4) v)"
        "be32_cells v ! (6 * i + 5) = get_unaligned_be32 (drop (24 * i + 20) v)" if "i < k" for i
      using that by simp_all
    have n: "length (be32_cells v) div 6 = k" by (simp add: be32_cells_def k)
    have "snd (parse_function funcnode socinfo) = check_pins socinfo (be32_cells v)"
      using False Some by (simp add: parse_function_def dvd_eq_mod_eq_0)
    then show ?thesis using False Some k c
      by (simp add: check_pins_nth n check_pin_silent [OF assms] pins_ok_def)
  qed
qed (simp add: parse_function_def pins_ok_def)

text \<open>The nodes under a controller that hold pins: a child with the property, or the children of one without.\<close>

definition function_nodes :: "device_node \<Rightarrow> device_node list" where
  "function_nodes np = concat (map (\<lambda>npc. if of_property_read_bool npc ''fsl,pins'' then [npc] else dn_children npc) (dn_children np))"

lemma check_controller_silent:
  assumes "table_ok socinfo"
  shows "check_controller socinfo np = [] \<longleftrightarrow> (\<forall>f \<in> set (function_nodes np). pins_ok socinfo f)"
proof -
  have "check_function_node socinfo c = [] \<longleftrightarrow>
      (\<forall>f \<in> set (if of_property_read_bool c ''fsl,pins'' then [c] else dn_children c). pins_ok socinfo f)" for c
    by (simp add: check_function_node_def parse_function_silent [OF assms])
  then have "check_controller socinfo np = [] \<longleftrightarrow> (\<forall>c \<in> set (dn_children np).
      \<forall>f \<in> set (if of_property_read_bool c ''fsl,pins'' then [c] else dn_children c). pins_ok socinfo f)"
    by (simp add: check_controller_def)
  also have "\<dots> \<longleftrightarrow> (\<forall>f \<in> set (function_nodes np). pins_ok socinfo f)"
    unfolding function_nodes_def set_concat set_map by blast
  finally show ?thesis .
qed

lemma pinmux_loop_silent:
  assumes "\<forall>(c, s) \<in> set ids. compat_ok root c \<and> table_ok s"
  shows "\<exists>out. pinmux_loop root ids = Inr out \<and> (out = [] \<longleftrightarrow> (\<forall>(c, s) \<in> set ids. \<forall>r \<in> set (nodes_from root []).
     is_compatible root c r \<longrightarrow> (\<forall>f \<in> set (function_nodes (the_node root r)). pins_ok s f)))"
  using assms
proof (induction ids)
  case (Cons i ids)
  obtain c s where i: "i = (c, s)" by (cases i)
  then have ok: "compat_ok root c" "table_ok s" using Cons(2) by auto
  have "\<forall>(c, s) \<in> set ids. compat_ok root c \<and> table_ok s" using Cons(2) by simp
  from Cons(1) [OF this] obtain out where "pinmux_loop root ids = Inr out"
      "out = [] \<longleftrightarrow> (\<forall>(c, s) \<in> set ids. \<forall>r \<in> set (nodes_from root []).
         is_compatible root c r \<longrightarrow> (\<forall>f \<in> set (function_nodes (the_node root r)). pins_ok s f))"
    by blast
  then show ?case using for_each_compatible [OF ok(1) [unfolded compat_ok_def], of "\<lambda>np. check_controller s (the_node root np)"]
    by (auto simp: i check_controller_silent [OF ok(2)])
qed simp

text \<open>
  C36: the check of the pin groups prints nothing exactly if every pin group below every controller of the tree is
  consistent: the property is there, holds a positive number of six-cell entries, and in every entry the multiplexer
  register belongs to a pad of the chip, the control register is that pad's, and the control value agrees with the
  reset value in all bits that cannot be written (or is "no control" where there is no register).
\<close>

theorem dtblint_imx_pinmux_silent:
  assumes "\<forall>(compatible, socinfo) \<in> set iomux_id. compat_ok root compatible"
  shows "dtblint_imx_pinmux root = Inr [] \<longleftrightarrow>
    (\<forall>(compatible, socinfo) \<in> set iomux_id. \<forall>r \<in> set (nodes_from root []). is_compatible root compatible r \<longrightarrow>
       (\<forall>f \<in> set (function_nodes (the_node root r)). pins_ok socinfo f))"
proof -
  have "\<forall>(c, s) \<in> set iomux_id. compat_ok root c \<and> table_ok s" using assms tables_ok by fast
  from pinmux_loop_silent [OF this] show ?thesis by (auto simp: dtblint_imx_pinmux_def)
qed

text \<open>A group for the pad A13 of the i.MX25 with its reset value.\<close>

definition demo_cells :: bytes where
  "demo_cells = [0, 0, 0, 0x0c, 0, 0, 0x02, 0x2c, 0, 0, 0, 0, 0, 0, 0, 5, 0, 0, 0, 0, 0, 0, 0, 0x80]"

definition demo_pins :: device_node where
  "demo_pins = Node ''pins'' ''/iomuxc/pins'' 0
     [\<lparr>pp_name = ''fsl,pins'', pp_value = Some demo_cells\<rparr>] []"

definition demo_machine :: device_node where
  "demo_machine = Node [] [] 0 [] [Node ''iomuxc'' ''/iomuxc'' 0
     [\<lparr>pp_name = ''compatible'', pp_value = Some (map of_char ''fsl,imx25-iomuxc'' @ [0])\<rparr>] [demo_pins]]"

lemma demo_nodes: "nodes_from demo_machine [] = [[0], [0, 0]]"
  by code_simp

lemma demo_compatible:
  "of_device_is_compatible (the_node demo_machine [0]) ''fsl,imx25-iomuxc'' = Inr True"
  "of_device_is_compatible (the_node demo_machine [0, 0]) ''fsl,imx25-iomuxc'' = Inr False"
  "of_device_is_compatible (the_node demo_machine [0]) ''fsl,imx6dl-iomuxc'' = Inr False"
  "of_device_is_compatible (the_node demo_machine [0, 0]) ''fsl,imx6dl-iomuxc'' = Inr False"
  "of_device_is_compatible (the_node demo_machine [0]) ''fsl,imx6q-iomuxc'' = Inr False"
  "of_device_is_compatible (the_node demo_machine [0, 0]) ''fsl,imx6q-iomuxc'' = Inr False"
  by code_simp+

lemma dtblint_imx_pinmux_silent_witness: "dtblint_imx_pinmux demo_machine = Inr []"
proof -
  have ok: "\<forall>(compatible, socinfo) \<in> set iomux_id. compat_ok demo_machine compatible"
    by (simp add: iomux_id_def compat_ok_def demo_nodes demo_compatible ex_bool_eq)
  have p: "pad ''A13'' 0xc 0 0x7 0x22c 0x80 0x80 \<in> set imx25_iomux_padinfo"
    by (simp add: imx25_iomux_padinfo_def imx25_pads_1_def)
  have "pin_ok imx25_iomux_padinfo 0xc 0x22c 0x80"
    unfolding pin_ok_def by (rule bexI [OF _ p]) (simp add: pad_def imx_pad_sion_def)
  moreover have "length demo_cells = 24" by (simp add: demo_cells_def)
  moreover have "get_unaligned_be32 (drop 0 demo_cells) = 0xc" "get_unaligned_be32 (drop 4 demo_cells) = 0x22c"
      "get_unaligned_be32 (drop 20 demo_cells) = 0x80"
    by code_simp+
  ultimately have "pins_ok imx25_iomux_padinfo demo_pins"
    unfolding pins_ok_def by (auto simp: demo_pins_def of_get_property_def of_find_property_def)
  moreover have "function_nodes (the_node demo_machine [0]) = [demo_pins]" by code_simp
  ultimately show ?thesis
    unfolding dtblint_imx_pinmux_silent [OF ok]
    by (simp add: iomux_id_def demo_nodes demo_compatible is_compatible_def)
qed

end
