(* ===== verification/Dtblint.thy ===== *)
theory Dtblint
  imports Pinmux Fdt
begin

text \<open>
  The program \<open>dtblint\<close>, \<open>src/dtblint.c\<close>: the checks of the reset polarity of the ethernet and PCIe controllers, and
  \<open>main\<close>, which reads a flat device tree and runs the checks.  The file system is a parameter of \<open>main\<close>.
\<close>

section \<open>The reset polarity\<close>

definition fsl_fec_compatibles :: "string list" where
  "fsl_fec_compatibles = [''fsl,imx25-fec'', ''fsl,imx27-fec'', ''fsl,imx28-fec'', ''fsl,imx6q-fec'',
     ''fsl,imx6sx-fec'', ''fsl,mvf600-fec'']"

definition fsl_pcie_compatibles :: "string list" where
  "fsl_pcie_compatibles = [''fsl,imx6q-pcie'', ''fsl,imx6sx-pcie'', ''fsl,imx6qp-pcie'', ''fsl,imx7d-pcie'']"

text \<open>
  The bodies of the two loops.  An error of \<open>of_parse_phandle_with_args\<close> skips the node; so does a GPIO specifier
  without a flag cell.
\<close>

definition fec_body :: "device_node \<Rightarrow> node_ref \<Rightarrow> report list" where
  "fec_body root r =
     (let np = the_node root r;
          active_high_property = of_property_read_bool np ''phy-reset-active-high''
      in case of_parse_phandle_with_args root np ''phy-reset-gpios'' ''#gpio-cells'' 0 of
           Inr (Found out_args) \<Rightarrow>
             if pa_args_count out_args < 2 then []
             else let active_high_gpio_flag = (pa_args out_args ! 1 = 0)
                  in if active_high_gpio_flag \<noteq> active_high_property
                     then [Out (''E: phy-reset-gpios flags don't match presence of phy-reset-active-high property ('' @
                           dn_full_name np @ '')'' @ newline)]
                     else []
         | _ \<Rightarrow> [])"

definition pcie_body :: "device_node \<Rightarrow> node_ref \<Rightarrow> report list" where
  "pcie_body root r =
     (let np = the_node root r;
          active_high_property = of_property_read_bool np ''reset-gpio-active-high''
      in case of_parse_phandle_with_args root np ''reset-gpio'' ''#gpio-cells'' 0 of
           Inr (Found out_args) \<Rightarrow>
             if pa_args_count out_args < 2 then []
             else let active_high_gpio_flag = (pa_args out_args ! 1 = 0)
                  in if active_high_gpio_flag \<noteq> active_high_property
                     then [Out (''E: reset-gpios flags don't match presence of reset-gpio-active-high property ('' @
                           dn_full_name np @ '')'' @ newline)]
                     else []
         | _ \<Rightarrow> [])"

fun compatibles_loop :: "device_node \<Rightarrow> (node_ref \<Rightarrow> report list) \<Rightarrow> string list \<Rightarrow> report list res" where
  "compatibles_loop root body [] = Inr []"
| "compatibles_loop root body (c # cs) =
     bindE (for_each_compatible_node root c body [])
       (\<lambda>out. bindE (compatibles_loop root body cs) (\<lambda>rest. Inr (out @ rest)))"

definition fsl_fec_reset_polarity :: "device_node \<Rightarrow> report list res" where
  "fsl_fec_reset_polarity root = compatibles_loop root (fec_body root) fsl_fec_compatibles"

definition fsl_pcie_reset_polarity :: "device_node \<Rightarrow> report list res" where
  "fsl_pcie_reset_polarity root = compatibles_loop root (pcie_body root) fsl_pcie_compatibles"

section \<open>The program\<close>

text \<open>
  \<open>argv\<close> without the name of the program.  The exit status and what was printed; a read out of bounds ends the
  program, as does an input on which \<open>of_unflatten_dtb\<close> does not return.  The message for an input that is not a
  device tree ends in the number of the error, which is left out.
\<close>

definition run_checks :: "device_node \<Rightarrow> report list res" where
  "run_checks root =
     bindE (dtblint_imx_pinmux root) (\<lambda>out1. bindE (fsl_fec_reset_polarity root) (\<lambda>out2.
       bindE (fsl_pcie_reset_polarity root) (\<lambda>out3. Inr (out1 @ out2 @ out3))))"

definition start_globals :: of_globals where
  "start_globals = \<lparr>root_node = None, of_aliases = None, aliases_lookup = []\<rparr>"

definition dtblint :: "(string \<Rightarrow> bytes option) \<Rightarrow> string list \<Rightarrow> (nat \<times> report list) res" where
  "dtblint read_file argv = (case argv of
     [] \<Rightarrow> Inr (1, [Err (''No filename given'' @ newline)])
   | name # _ \<Rightarrow> (case read_file name of
       None \<Rightarrow> Inr (1, [Err (''failed to read dtb'' @ newline)])
     | Some fdt \<Rightarrow> (case of_unflatten_dtb fdt of
         None \<Rightarrow> Inl FAULT
       | Some (Inl e) \<Rightarrow> if e = FAULT then Inl FAULT else Inr (1, [Err ''failed to unflatten device tree''])
       | Some (Inr root) \<Rightarrow>
           bindE (of_set_root_node start_globals (Some root)) (\<lambda>g. bindE (run_checks root) (\<lambda>out. Inr (0, out))))))"

section \<open>What the polarity checks report\<close>

text \<open>
  The GPIO entry of a node has a flag cell, and it says the opposite of the node's property: the first phandle of the
  list names a provider whose \<open>#gpio-cells\<close> is at least two, and the second cell behind the phandle is 0 although the
  property is missing, or is not 0 although it is there.
\<close>

definition polarity_mismatch :: "device_node \<Rightarrow> string \<Rightarrow> string \<Rightarrow> node_ref \<Rightarrow> bool" where
  "polarity_mismatch root gpios active_high r \<longleftrightarrow> (\<exists>v phandle rest provider n.
     of_get_property (the_node root r) gpios = Some v \<and> be32_cells v = phandle # rest \<and> phandle \<noteq> 0 \<and>
     of_find_node_by_phandle root phandle = Some provider \<and>
     of_property_read_u32 (the_node root provider) ''#gpio-cells'' = Inr n \<and> 2 \<le> unat n \<and> unat n \<le> length rest \<and>
     (rest ! 1 = 0) \<noteq> of_property_read_bool (the_node root r) active_high)"

definition polarity_message :: "string \<Rightarrow> device_node \<Rightarrow> node_ref \<Rightarrow> report" where
  "polarity_message msg root r = Out (msg @ dn_full_name (the_node root r) @ '')'' @ newline)"

lemma first_phandle:
  "of_parse_phandle_with_args root np list_name cells_name 0 = Inr (Found a) \<longleftrightarrow>
    (\<exists>v phandle rest provider n. of_get_property np list_name = Some v \<and> be32_cells v = phandle # rest \<and> phandle \<noteq> 0 \<and>
       of_find_node_by_phandle root phandle = Some provider \<and>
       of_property_read_u32 (the_node root provider) cells_name = Inr n \<and> unat n \<le> length rest \<and>
       a = \<lparr>pa_np = provider, pa_args_count = min (unat n) max_phandle_args, pa_args = take (min (unat n) max_phandle_args) rest\<rparr>)"
proof (cases "of_get_property np list_name")
  case (Some v)
  then show ?thesis
    by (cases "be32_cells v")
      (auto simp: of_parse_phandle_with_args_def parse_phandle_with_args_def parse_args_loop.simps Let_def not_less
        split: option.splits sum.splits if_splits)
qed (simp add: of_parse_phandle_with_args_def parse_phandle_with_args_def)

lemma polarity_body:
  assumes "body = (case of_parse_phandle_with_args root (the_node root r) gpios ''#gpio-cells'' 0 of
       Inr (Found a) \<Rightarrow> if pa_args_count a < 2 then [] else
         if (pa_args a ! 1 = 0) \<noteq> of_property_read_bool (the_node root r) high then [m] else []
     | _ \<Rightarrow> [])"
  shows "body = (if polarity_mismatch root gpios high r then [m] else [])"
proof (cases "\<exists>a. of_parse_phandle_with_args root (the_node root r) gpios ''#gpio-cells'' 0 = Inr (Found a)")
  case True
  then obtain a where a: "of_parse_phandle_with_args root (the_node root r) gpios ''#gpio-cells'' 0 = Inr (Found a)" by blast
  then obtain v phandle rest provider n where f: "of_get_property (the_node root r) gpios = Some v" "be32_cells v = phandle # rest"
      "phandle \<noteq> 0" "of_find_node_by_phandle root phandle = Some provider"
      "of_property_read_u32 (the_node root provider) ''#gpio-cells'' = Inr n" "unat n \<le> length rest"
      "a = \<lparr>pa_np = provider, pa_args_count = min (unat n) max_phandle_args, pa_args = take (min (unat n) max_phandle_args) rest\<rparr>"
    unfolding first_phandle by blast
  have "polarity_mismatch root gpios high r \<longleftrightarrow> 2 \<le> unat n \<and> (rest ! 1 = 0) \<noteq> of_property_read_bool (the_node root r) high"
    unfolding polarity_mismatch_def using f(1-6) by auto
  then show ?thesis unfolding assms a f(7) by (auto simp: max_phandle_args_def)
next
  case False
  then have "\<not> polarity_mismatch root gpios high r" unfolding first_phandle polarity_mismatch_def by blast
  then show ?thesis unfolding assms using False by (auto split: sum.splits parsed.splits)
qed

lemma fec_body: "fec_body root r = (if polarity_mismatch root ''phy-reset-gpios'' ''phy-reset-active-high'' r
    then [polarity_message ''E: phy-reset-gpios flags don't match presence of phy-reset-active-high property ('' root r] else [])"
  by (rule polarity_body) (unfold fec_body_def polarity_message_def Let_def, rule refl)

lemma pcie_body: "pcie_body root r = (if polarity_mismatch root ''reset-gpio'' ''reset-gpio-active-high'' r
    then [polarity_message ''E: reset-gpios flags don't match presence of reset-gpio-active-high property ('' root r] else [])"
  by (rule polarity_body) (unfold pcie_body_def polarity_message_def Let_def, rule refl)

lemma compatibles_loop_reports:
  assumes "\<forall>c \<in> set cs. compat_ok root c"
  shows "compatibles_loop root body cs =
    Inr (concat (map (\<lambda>c. concat (map body (filter (is_compatible root c) (nodes_from root [])))) cs))"
  using assms
proof (induction cs)
  case (Cons c cs)
  then have "compat_ok root c" by simp
  from for_each_compatible [OF this [unfolded compat_ok_def], of body] Cons show ?case by simp
qed simp

text \<open>
  C37: the two polarity checks report exactly the nodes whose GPIO flag and property contradict each other: on a tree
  whose compatible properties are well formed the checks run to the end, and a report stands in the output if and only if it
  names a node below the root that is compatible with one of the listed controllers and contradicts itself.
\<close>

theorem reset_polarity_reports:
  assumes "\<forall>c \<in> set fsl_fec_compatibles \<union> set fsl_pcie_compatibles. compat_ok root c"
  shows "\<exists>fec pcie. fsl_fec_reset_polarity root = Inr fec \<and> fsl_pcie_reset_polarity root = Inr pcie \<and>
    set fec = polarity_message ''E: phy-reset-gpios flags don't match presence of phy-reset-active-high property ('' root `
      {r. r \<noteq> [] \<and> valid_ref root r \<and> (\<exists>c \<in> set fsl_fec_compatibles. is_compatible root c r) \<and>
          polarity_mismatch root ''phy-reset-gpios'' ''phy-reset-active-high'' r} \<and>
    set pcie = polarity_message ''E: reset-gpios flags don't match presence of reset-gpio-active-high property ('' root `
      {r. r \<noteq> [] \<and> valid_ref root r \<and> (\<exists>c \<in> set fsl_pcie_compatibles. is_compatible root c r) \<and>
          polarity_mismatch root ''reset-gpio'' ''reset-gpio-active-high'' r}"
proof -
  have reports: "\<exists>out. compatibles_loop root body cs = Inr out \<and> set out = polarity_message msg root `
      {r. r \<noteq> [] \<and> valid_ref root r \<and> (\<exists>c \<in> set cs. is_compatible root c r) \<and> P r}"
    if "\<forall>c \<in> set cs. compat_ok root c" and b: "\<And>r. body r = (if P r then [polarity_message msg root r] else [])" for body cs msg P
    using compatibles_loop_reports [OF that(1), of body] set_nodes_from_root [of root] by (auto simp: b)
  show ?thesis
    using reports [of fsl_fec_compatibles "fec_body root", OF _ fec_body] reports [of fsl_pcie_compatibles "pcie_body root", OF _ pcie_body] assms
    unfolding fsl_fec_reset_polarity_def fsl_pcie_reset_polarity_def by fastforce
qed

text \<open>A controller whose reset GPIO is active low (flag 1) although the property says active high.\<close>

definition fec_machine :: device_node where
  "fec_machine = Node [] [] 0 []
     [Node ''gpio'' ''/gpio'' 1 [\<lparr>pp_name = ''#gpio-cells'', pp_value = Some [0, 0, 0, 2]\<rparr>] [],
      Node ''fec'' ''/fec'' 0
        [\<lparr>pp_name = ''compatible'', pp_value = Some (map of_char ''fsl,imx27-fec'' @ [0])\<rparr>,
         \<lparr>pp_name = ''phy-reset-gpios'', pp_value = Some [0, 0, 0, 1, 0, 0, 0, 5, 0, 0, 0, 1]\<rparr>,
         \<lparr>pp_name = ''phy-reset-active-high'', pp_value = Some []\<rparr>] []]"

lemma fec_machine_compatible:
  "nodes_from fec_machine [] = [[1], [0]]"
  "\<forall>c \<in> set fsl_fec_compatibles \<union> set fsl_pcie_compatibles. of_device_is_compatible (the_node fec_machine [0]) c = Inr False"
  "\<forall>c \<in> set fsl_fec_compatibles \<union> set fsl_pcie_compatibles.
     of_device_is_compatible (the_node fec_machine [1]) c = Inr (c = ''fsl,imx27-fec'')"
  by code_simp+

lemma reset_polarity_reports_witness:
  "\<exists>fec. fsl_fec_reset_polarity fec_machine = Inr fec \<and>
     Out (''E: phy-reset-gpios flags don't match presence of phy-reset-active-high property (/fec)'' @ newline) \<in> set fec"
proof -
  have ok: "\<forall>c \<in> set fsl_fec_compatibles \<union> set fsl_pcie_compatibles. compat_ok fec_machine c"
    using fec_machine_compatible(2,3) by (simp add: compat_ok_def fec_machine_compatible(1) ex_bool_eq)
  have v: "valid_ref fec_machine [1]" by (simp add: fec_machine_def)
  have c: "is_compatible fec_machine ''fsl,imx27-fec'' [1]" unfolding is_compatible_def by code_simp
  have p: "of_get_property (the_node fec_machine [1]) ''phy-reset-gpios'' = Some [0, 0, 0, 1, 0, 0, 0, 5, 0, 0, 0, 1]"
      "be32_cells [0, 0, 0, 1, 0, 0, 0, 5, 0, 0, 0, 1] = 1 # [5, 1]" "of_find_node_by_phandle fec_machine 1 = Some [0]"
      "of_property_read_u32 (the_node fec_machine [0]) ''#gpio-cells'' = Inr 2"
      "of_property_read_bool (the_node fec_machine [1]) ''phy-reset-active-high''"
      "dn_full_name (the_node fec_machine [1]) = ''/fec''"
    by code_simp+
  have m: "polarity_mismatch fec_machine ''phy-reset-gpios'' ''phy-reset-active-high'' [1]"
    unfolding polarity_mismatch_def using p(1-5) by fastforce
  have i: "''fsl,imx27-fec'' \<in> set fsl_fec_compatibles" by (simp add: fsl_fec_compatibles_def)
  obtain fec where f: "fsl_fec_reset_polarity fec_machine = Inr fec"
      "polarity_message ''E: phy-reset-gpios flags don't match presence of phy-reset-active-high property ('' fec_machine [1] \<in> set fec"
    using reset_polarity_reports [OF ok] v c m i by blast
  with p(6) show ?thesis by (simp add: polarity_message_def)
qed

end
