(* ===== verification/Cdev.thy ===== *)
theory Cdev
  imports State C_Text
begin

text \<open>
  Finding the device behind a partition node: the second half of \<open>src/libdt.c\<close>, from \<open>udev_device_get_of_path\<close> to
  \<open>cdev_is_block_disk\<close>, and the part of \<open>state_new_from_node\<close> (\<open>src/barebox-state/state.c\<close>) that uses it.  The library
  libudev and the file system are a parameter: a record of what their functions return for a device \<open>'d\<close>.  The list
  of the devices that have a device tree path, \<open>udev_of_devices\<close>, is state; it is filled once and kept.
\<close>

section \<open>The environment\<close>

record file_stat =
  st_block :: bool
  st_char :: bool
  st_major :: nat
  st_minor :: nat

text \<open>
  \<open>ud_enumerate\<close> lists the devices below a parent, if one is given, of one of the subsystems, if any is named, in the
  order of libudev.  \<open>ud_new\<close> tells whether \<open>udev_new\<close> returns a context.
\<close>

record 'd udev =
  ud_new :: bool
  ud_enumerate :: "'d option \<Rightarrow> string list \<Rightarrow> 'd list"
  ud_from_syspath :: "string \<Rightarrow> 'd option"
  ud_property :: "'d \<Rightarrow> string \<Rightarrow> string option"
  ud_sysattr :: "'d \<Rightarrow> string \<Rightarrow> string option"
  ud_devtype :: "'d \<Rightarrow> string option"
  ud_devnode :: "'d \<Rightarrow> string option"
  ud_subsystem :: "'d \<Rightarrow> string"
  ud_sysname :: "'d \<Rightarrow> string"
  ud_syspath :: "'d \<Rightarrow> string"
  ud_stat :: "string \<Rightarrow> file_stat res"
  ud_test_loopback :: bool

text \<open>\<open>off_t\<close> is a signed 64 bit number, \<open>size_t\<close> an unsigned one.\<close>

record cdev =
  cd_devpath :: "string option"
  cd_offset :: u64
  cd_size :: u64
  cd_is_gpt_partitioned :: bool
  cd_is_block_disk :: bool

definition cdev_start :: cdev where
  "cdev_start = \<lparr>cd_devpath = None, cd_offset = 0, cd_size = 0, cd_is_gpt_partitioned = False, cd_is_block_disk = False\<rparr>"

section \<open>Devices with a device tree path\<close>

definition udev_device_get_of_path :: "'d udev \<Rightarrow> 'd \<Rightarrow> string option" where
  "udev_device_get_of_path ud dev = (case ud_property ud dev ''OF_FULLNAME'' of
     Some of_path \<Rightarrow> Some of_path
   | None \<Rightarrow>
       if ud_test_loopback ud \<and> ud_subsystem ud dev = ''block'' \<and> take 4 (ud_sysname ud dev) = ''loop''
       then Some (ud_sysname ud dev) else None)"

type_synonym 'd udev_of_paths = "(string \<times> 'd) list"

definition of_scan_udev_devices :: "'d udev \<Rightarrow> 'd udev_of_paths \<Rightarrow> 'd udev_of_paths" where
  "of_scan_udev_devices ud udev_of_devices =
     (if \<not> ud_new ud then udev_of_devices
      else udev_of_devices @ List.map_filter (\<lambda>dev. map_option (\<lambda>p. (p, dev)) (udev_device_get_of_path ud dev))
        (ud_enumerate ud None ([''platform'', ''i2c'', ''spi'', ''mtd'', ''amba''] @
           (if ud_test_loopback ud then [''block''] else []))))"

definition of_find_device_by_node_path ::
    "'d udev \<Rightarrow> string \<Rightarrow> 'd udev_of_paths \<Rightarrow> 'd option \<times> 'd udev_of_paths" where
  "of_find_device_by_node_path ud of_full_path udev_of_devices =
     (let l = (if udev_of_devices = [] then of_scan_udev_devices ud udev_of_devices else udev_of_devices)
      in (map_option snd (find (\<lambda>(p, _). p = of_full_path) l), l))"

definition of_find_device_by_node ::
    "'d udev \<Rightarrow> device_node \<Rightarrow> 'd udev_of_paths \<Rightarrow> 'd option \<times> 'd udev_of_paths" where
  "of_find_device_by_node ud np udev_of_devices =
     (case of_find_device_by_node_path ud (dn_full_name np) udev_of_devices of
        (Some dev, l) \<Rightarrow> (Some dev, l)
      | (None, l) \<Rightarrow>
          (case of_property_read_string np ''barebox,filename'' of
             Inl _ \<Rightarrow> (None, l)
           | Inr filename \<Rightarrow>
               if ud_test_loopback ud \<and> take 5 filename = ''/dev/''
               then (map_option snd (find (\<lambda>(p, _). p = drop 5 filename) l), l) else (None, l)))"

definition device_find_mtd_partition :: "'d udev \<Rightarrow> 'd \<Rightarrow> string \<Rightarrow> 'd option" where
  "device_find_mtd_partition ud dev name =
     (if \<not> ud_new ud then None
      else find (\<lambda>part. ud_sysattr ud part ''name'' = Some name) (ud_enumerate ud (Some dev) []))"

definition udev_device_parse_sysattr_u64 :: "'d udev \<Rightarrow> 'd \<Rightarrow> string \<Rightarrow> u64 res" where
  "udev_device_parse_sysattr_u64 ud dev attr = (case ud_sysattr ud dev attr of
     None \<Rightarrow> Inl EINVAL
   | Some str \<Rightarrow> (case strtoul str 0 of (v, e) \<Rightarrow> if str = [] \<or> e \<noteq> length str then Inl EINVAL else Inr v))"

section \<open>Block devices and their partitions\<close>

text \<open>The four numbers are \<open>loff_t\<close>, which is signed.\<close>

definition region_contains :: "u64 \<Rightarrow> u64 \<Rightarrow> u64 \<Rightarrow> u64 \<Rightarrow> bool" where
  "region_contains starta enda startb endb \<longleftrightarrow> sint starta \<le> sint startb \<and> sint endb \<le> sint enda"

text \<open>The loop over the block devices below a device: the best match so far, and the region, relative to the device found.\<close>

fun block_loop :: "'d udev \<Rightarrow> cdev \<Rightarrow> 'd option \<Rightarrow> 'd list \<Rightarrow> 'd option \<times> cdev" where
  "block_loop ud cdev best_match [] = (best_match, cdev)"
| "block_loop ud cdev best_match (part # rest) = (case ud_devtype ud part of
     None \<Rightarrow> block_loop ud cdev best_match rest
   | Some devtype \<Rightarrow>
       if devtype = ''disk'' \<and> best_match = None then
         (if cd_size cdev = 0 then (Some part, cdev) else block_loop ud cdev (Some part) rest)
       else if cd_size cdev \<noteq> 0 \<and> devtype = ''partition'' then
         (case (udev_device_parse_sysattr_u64 ud part ''start'', udev_device_parse_sysattr_u64 ud part ''size'') of
            (Inr start, Inr sz) \<Rightarrow>
              (let partstart = start * 512; partsize = sz * 512
               in if \<not> region_contains partstart (partstart + partsize) (cd_offset cdev) (cd_offset cdev + cd_size cdev)
                  then block_loop ud cdev best_match rest
                  else (Some part, cdev\<lparr>cd_offset := cd_offset cdev - partstart\<rparr>))
          | _ \<Rightarrow> block_loop ud cdev best_match rest)
       else block_loop ud cdev best_match rest)"

text \<open>\<open>strdup\<close> of a device without a device node reads from a null pointer.\<close>

definition cdev_from_block_device :: "'d udev \<Rightarrow> 'd \<Rightarrow> cdev \<Rightarrow> unit res \<times> cdev" where
  "cdev_from_block_device ud dev cdev =
     (if \<not> ud_new ud then (Inl ENODEV, cdev)
      else (case block_loop ud cdev None (ud_enumerate ud (Some dev) [''block'']) of
          (None, c) \<Rightarrow> (Inl ENODEV, c)
        | (Some best_match, c) \<Rightarrow> (case ud_devnode ud best_match of
              None \<Rightarrow> (Inl FAULT, c)
            | Some devnode \<Rightarrow> (Inr (), c\<lparr>cd_devpath := Some devnode,
                cd_is_gpt_partitioned := (ud_property ud best_match ''ID_PART_TABLE_TYPE'' = Some ''gpt'')\<rparr>))))"

text \<open>
  \<open>of_parse_partition\<close> reads as many cells as the parents say, without a look at the length of the property; more
  cells than the property has, or a negative number of them, is a read out of bounds.
\<close>

definition of_parse_partition :: "device_node \<Rightarrow> node_ref \<Rightarrow> (u64 \<times> u64) res" where
  "of_parse_partition root r = (case of_get_property (the_node root r) ''reg'' of
     None \<Rightarrow> Inl EINVAL
   | Some reg \<Rightarrow> bindE (of_n_addr_cells root r) (\<lambda>a_cells. bindE (of_n_size_cells root r) (\<lambda>s_cells.
       if a_cells < 0 \<or> s_cells < 0 \<or> int (length reg) < 4 * (a_cells + s_cells) then Inl FAULT
       else Inr (of_read_number reg (nat a_cells), of_read_number (drop (4 * nat a_cells) reg) (nat s_cells)))))"

section \<open>MTD devices and EEPROMs\<close>

definition udev_device_is_mtd :: "'d udev \<Rightarrow> 'd \<Rightarrow> bool" where
  "udev_device_is_mtd ud dev \<longleftrightarrow> ud_devtype ud dev = Some ''mtd''"

definition eeprom_path :: "'d udev \<Rightarrow> 'd \<Rightarrow> string" where
  "eeprom_path ud dev = ud_syspath ud dev @ ''/eeprom''"

definition udev_device_is_eeprom :: "'d udev \<Rightarrow> 'd \<Rightarrow> bool" where
  "udev_device_is_eeprom ud dev \<longleftrightarrow> (case ud_stat ud (eeprom_path ud dev) of Inl _ \<Rightarrow> False | Inr _ \<Rightarrow> True)"

text \<open>The size is stored before the device node is looked for, and stays when there is none.\<close>

definition udev_parse_mtd :: "'d udev \<Rightarrow> 'd \<Rightarrow> cdev \<Rightarrow> unit res \<times> cdev" where
  "udev_parse_mtd ud dev cdev =
     (if \<not> udev_device_is_mtd ud dev then (Inl EINVAL, cdev)
      else (case udev_device_parse_sysattr_u64 ud dev ''size'' of
          Inl e \<Rightarrow> (Inl e, cdev)
        | Inr mtdsize \<Rightarrow> (case ud_devnode ud dev of
              None \<Rightarrow> (Inl ENOENT, cdev\<lparr>cd_size := mtdsize\<rparr>)
            | Some outpath \<Rightarrow> (Inr (), cdev\<lparr>cd_size := mtdsize, cd_devpath := Some outpath\<rparr>))))"

definition udev_parse_eeprom :: "'d udev \<Rightarrow> 'd \<Rightarrow> cdev \<Rightarrow> unit res \<times> cdev" where
  "udev_parse_eeprom ud dev cdev = (case ud_stat ud (eeprom_path ud dev) of
     Inl e \<Rightarrow> (Inl e, cdev) | Inr _ \<Rightarrow> (Inr (), cdev\<lparr>cd_devpath := Some (eeprom_path ud dev)\<rparr>))"

definition of_find_mtd_device :: "'d udev \<Rightarrow> 'd \<Rightarrow> 'd option" where
  "of_find_mtd_device ud parent =
     (if \<not> ud_new ud then None
      else case ud_enumerate ud (Some parent) [''mtd''] of [] \<Rightarrow> None | dev # _ \<Rightarrow> Some dev)"

definition uuid_matches :: "'d udev \<Rightarrow> string \<Rightarrow> bool \<Rightarrow> 'd \<Rightarrow> bool" where
  "uuid_matches ud uuid type_uuid device = (case ud_devtype ud device of
     None \<Rightarrow> False
   | Some devtype \<Rightarrow>
       (case (if type_uuid then Some ''ID_PART_ENTRY_TYPE''
              else if devtype = ''disk'' then Some ''ID_PART_TABLE_UUID''
              else if devtype = ''partition'' then Some ''ID_PART_ENTRY_UUID'' else None) of
          None \<Rightarrow> False
        | Some pp \<Rightarrow> (case ud_property ud device pp of None \<Rightarrow> False | Some dev_uuid \<Rightarrow> strcasecmp_eq dev_uuid uuid)))"

definition of_find_device_by_uuid :: "'d udev \<Rightarrow> 'd option \<Rightarrow> string \<Rightarrow> bool \<Rightarrow> 'd option" where
  "of_find_device_by_uuid ud parent uuid type_uuid =
     (if \<not> ud_new ud then None
      else find (uuid_matches ud uuid type_uuid) (ud_enumerate ud parent [''block'']))"

section \<open>From the partition node to the device\<close>

text \<open>
  \<open>cdev_direct\<close> is the part for a node that is a device itself, \<open>cdev_by_partuuid\<close> the one for a fixed partition that
  names a partition of a disk, \<open>cdev_parent_device\<close> finds the device the partition is on, and \<open>cdev_on_device\<close> the
  partition there.  A root node as partition has a null parent.
\<close>

definition cdev_direct :: "'d udev \<Rightarrow> 'd \<Rightarrow> cdev \<Rightarrow> unit res \<times> cdev" where
  "cdev_direct ud dev cdev =
     (if udev_device_is_eeprom ud dev then udev_parse_eeprom ud dev cdev
      else (case udev_parse_mtd ud dev cdev of
          (Inr _, c) \<Rightarrow> (Inr (), c)
        | (Inl _, c) \<Rightarrow> (case cdev_from_block_device ud dev c of
              (Inr _, c') \<Rightarrow> (Inr (), c'\<lparr>cd_is_block_disk := True\<rparr>)
            | (Inl e, c') \<Rightarrow> (Inl (if e = FAULT then FAULT else ENODEV), c'))))"

definition cdev_by_partuuid :: "'d udev \<Rightarrow> string \<Rightarrow> cdev \<Rightarrow> unit res \<times> cdev" where
  "cdev_by_partuuid ud uuid cdev = (case of_find_device_by_uuid ud None uuid False of
     None \<Rightarrow> (Inl ENODEV, cdev)
   | Some dev \<Rightarrow> (case udev_device_parse_sysattr_u64 ud dev ''size'' of
         Inl _ \<Rightarrow> (Inl EINVAL, cdev)
       | Inr partsize \<Rightarrow> (case ud_devnode ud dev of
             None \<Rightarrow> (Inl FAULT, cdev)
           | Some devnode \<Rightarrow> (Inr (), cdev\<lparr>cd_size := partsize * 512, cd_devpath := Some devnode\<rparr>))))"

definition cdev_parent_device :: "'d udev \<Rightarrow> device_node \<Rightarrow> 'd udev_of_paths \<Rightarrow> 'd res \<times> 'd udev_of_paths" where
  "cdev_parent_device ud node l = (case of_device_is_compatible node ''barebox,storage-by-uuid'' of
     Inl e \<Rightarrow> (Inl e, l)
   | Inr True \<Rightarrow> (case of_property_read_string node ''uuid'' of
         Inl _ \<Rightarrow> (Inl ENODEV, l)
       | Inr uuid \<Rightarrow> ((case of_find_device_by_uuid ud None uuid False of None \<Rightarrow> Inl ENODEV | Some dev \<Rightarrow> Inr dev), l))
   | Inr False \<Rightarrow> (case of_find_device_by_node ud node l of
         (None, l1) \<Rightarrow> (Inl ENODEV, l1) | (Some dev, l1) \<Rightarrow> (Inr dev, l1)))"

definition cdev_on_device :: "'d udev \<Rightarrow> device_node \<Rightarrow> node_ref \<Rightarrow> 'd \<Rightarrow> cdev \<Rightarrow> unit res \<times> cdev" where
  "cdev_on_device ud root r dev cdev = (case of_find_mtd_device ud dev of
     Some mtd \<Rightarrow> (case of_property_read_string (the_node root r) ''label'' of
         Inl e \<Rightarrow> (Inl e, cdev)
       | Inr partname \<Rightarrow> (case device_find_mtd_partition ud dev partname of
             None \<Rightarrow> (Inl ENODEV, cdev)
           | Some partdev \<Rightarrow> udev_parse_mtd ud partdev cdev))
   | None \<Rightarrow>
       if udev_device_is_eeprom ud dev then
         (case udev_parse_eeprom ud dev cdev of
            (Inl e, c) \<Rightarrow> (Inl e, c)
          | (Inr _, c) \<Rightarrow> (case of_parse_partition root r of
                Inl e \<Rightarrow> (Inl e, c) | Inr (offset, sz) \<Rightarrow> (Inr (), c\<lparr>cd_offset := offset, cd_size := sz\<rparr>)))
       else (case of_parse_partition root r of
            Inl e \<Rightarrow> (Inl e, cdev)
          | Inr (offset, sz) \<Rightarrow> cdev_from_block_device ud dev (cdev\<lparr>cd_offset := offset, cd_size := sz\<rparr>)))"

definition cdev_of_partition ::
    "'d udev \<Rightarrow> device_node \<Rightarrow> node_ref \<Rightarrow> cdev \<Rightarrow> 'd udev_of_paths \<Rightarrow> (unit res \<times> cdev) \<times> 'd udev_of_paths" where
  "cdev_of_partition ud root r cdev l =
     (if r = [] then ((Inl FAULT, cdev), l)
      else let pr = butlast r; parent = the_node root pr in
        (case of_device_is_compatible parent ''fixed-partitions'' of
           Inl e \<Rightarrow> ((Inl e, cdev), l)
         | Inr fixed \<Rightarrow>
             (case (if fixed then of_property_read_string (the_node root r) ''partuuid'' else Inl EINVAL) of
                Inr uuid \<Rightarrow> (cdev_by_partuuid ud uuid cdev, l)
              | Inl _ \<Rightarrow>
                  (let node = (if dn_name parent = ''partitions'' then the_node root (butlast pr) else parent)
                   in case cdev_parent_device ud node l of
                        (Inl e, l1) \<Rightarrow> ((Inl e, cdev), l1)
                      | (Inr dev, l1) \<Rightarrow> (cdev_on_device ud root r dev cdev, l1)))))"

definition of_cdev_find_into ::
    "'d udev \<Rightarrow> device_node \<Rightarrow> node_ref \<Rightarrow> cdev \<Rightarrow> 'd udev_of_paths \<Rightarrow> (unit res \<times> cdev) \<times> 'd udev_of_paths" where
  "of_cdev_find_into ud root r cdev0 l =
     (let cdev = cdev0\<lparr>cd_offset := 0, cd_size := 0, cd_is_gpt_partitioned := False, cd_is_block_disk := False\<rparr>
      in case of_find_device_by_node ud (the_node root r) l of
           (Some dev, l1) \<Rightarrow> (cdev_direct ud dev cdev, l1)
         | (None, l1) \<Rightarrow> cdev_of_partition ud root r cdev l1)"

definition of_cdev_find ::
    "'d udev \<Rightarrow> device_node \<Rightarrow> node_ref \<Rightarrow> 'd udev_of_paths \<Rightarrow> cdev res \<times> 'd udev_of_paths" where
  "of_cdev_find ud root r l = (case of_cdev_find_into ud root r cdev_start l of
     ((Inl e, _), l1) \<Rightarrow> (Inl e, l1) | ((Inr _, cdev), l1) \<Rightarrow> (Inr cdev, l1))"

definition of_get_devicepath ::
    "'d udev \<Rightarrow> device_node \<Rightarrow> node_ref \<Rightarrow> 'd udev_of_paths \<Rightarrow> (string option \<times> u64 \<times> u64) res \<times> 'd udev_of_paths" where
  "of_get_devicepath ud root r l = (case of_cdev_find_into ud root r cdev_start l of
     ((Inl e, _), l1) \<Rightarrow> (Inl e, l1)
   | ((Inr _, cdev), l1) \<Rightarrow> (Inr (cd_devpath cdev, cd_offset cdev, cd_size cdev), l1))"

definition cdev_to_devpath :: "cdev \<Rightarrow> string option \<times> u64 \<times> u64" where
  "cdev_to_devpath cdev = (cd_devpath cdev, cd_offset cdev, cd_size cdev)"

definition cdev_is_block_disk :: "cdev \<Rightarrow> bool" where
  "cdev_is_block_disk cdev = cd_is_block_disk cdev"

section \<open>The state partition of a disk\<close>

text \<open>The path fits the 64 bytes of the buffer unless a number has more than twenty digits; what does not fit is cut off.\<close>

definition udev_from_devpath :: "'d udev \<Rightarrow> string \<Rightarrow> 'd option" where
  "udev_from_devpath ud devpath = (case ud_stat ud devpath of
     Inl _ \<Rightarrow> None
   | Inr st \<Rightarrow>
       if \<not> st_block st \<and> \<not> st_char st then None
       else if st_major st = 0 then None
       else ud_from_syspath ud (take 63 (''/sys/dev/'' @ (if st_block st then ''block'' else ''char'') @ ''/'' @
              print_u (int (st_major st)) @ '':'' @ print_u (int (st_minor st)))))"

definition cdev_find_child_by_gpt_typeuuid :: "'d udev \<Rightarrow> cdev \<Rightarrow> string \<Rightarrow> cdev res" where
  "cdev_find_child_by_gpt_typeuuid ud cdev typeuuid =
     (if \<not> cd_is_gpt_partitioned cdev then Inl EINVAL
      else if \<not> ud_new ud then Inl ENOMEM
      else (case cd_devpath cdev of None \<Rightarrow> Inl FAULT | Some devpath \<Rightarrow>
           (case udev_from_devpath ud devpath of None \<Rightarrow> Inl ENOENT | Some parent \<Rightarrow>
           (case of_find_device_by_uuid ud (Some parent) typeuuid True of None \<Rightarrow> Inl ENOENT | Some child \<Rightarrow>
           (case udev_device_parse_sysattr_u64 ud child ''size'' of Inl _ \<Rightarrow> Inl ENOENT | Inr sz \<Rightarrow>
           (case ud_devnode ud child of None \<Rightarrow> Inl FAULT | Some devnode \<Rightarrow>
             Inr (cdev_start\<lparr>cd_size := sz * 512, cd_devpath := Some devnode\<rparr>)))))))"

definition barebox_state_partition_guid :: string where
  "barebox_state_partition_guid = ''4778ed65-bf42-45fa-9c5b-287a1dc4aab1''"

text \<open>The part of \<open>state_new_from_node\<close> that turns the backend node into a device.\<close>

definition state_backend_cdev ::
    "'d udev \<Rightarrow> device_node \<Rightarrow> node_ref \<Rightarrow> 'd udev_of_paths \<Rightarrow> cdev res \<times> 'd udev_of_paths" where
  "state_backend_cdev ud root partition_node l = (case of_cdev_find ud root partition_node l of
     (Inl e, l1) \<Rightarrow> (Inl e, l1)
   | (Inr cdev, l1) \<Rightarrow>
       if cdev_is_block_disk cdev
       then ((case cdev_find_child_by_gpt_typeuuid ud cdev barebox_state_partition_guid of
                Inl e \<Rightarrow> Inl (if e = FAULT then FAULT else EINVAL) | Inr child \<Rightarrow> Inr child), l1)
       else (Inr cdev, l1))"

text \<open>
  The device as the storage sees it: the range, and what opening \<open>devpath\<close> tells of it, which is a parameter (the MTD
  geometry, if it is one, and the bad blocks).
\<close>

definition backend_resolve ::
    "'d udev \<Rightarrow> (string \<Rightarrow> mtd_info option \<times> (nat \<Rightarrow> bool)) \<Rightarrow> 'd udev_of_paths \<Rightarrow> device_node \<Rightarrow> node_ref \<Rightarrow> backend_device res" where
  "backend_resolve ud open_mtd l root r = (case state_backend_cdev ud root r l of
     (Inl e, _) \<Rightarrow> Inl e
   | (Inr cdev, _) \<Rightarrow> (case cdev_to_devpath cdev of
         (None, _, _) \<Rightarrow> Inl FAULT
       | (Some path, offset, sz) \<Rightarrow> (case open_mtd path of
             (info, bad) \<Rightarrow> Inr \<lparr>bd_offset = unat offset, bd_size = unat sz, bd_meminfo = info, bd_bad = bad\<rparr>)))"

section \<open>Which device a block partition is on\<close>

text \<open>
  The start and the length of a partition in bytes, the region check on natural numbers, and the byte of the disk that a
  byte of a block device is.
\<close>

definition part_extent :: "'d udev \<Rightarrow> 'd \<Rightarrow> (nat \<times> nat) option" where
  "part_extent ud d =
     (if ud_devtype ud d \<noteq> Some ''partition'' then None
      else case (udev_device_parse_sysattr_u64 ud d ''start'', udev_device_parse_sysattr_u64 ud d ''size'') of
        (Inr start, Inr sz) \<Rightarrow> Some (512 * unat start, 512 * unat sz) | _ \<Rightarrow> None)"

definition holds_region :: "'d udev \<Rightarrow> nat \<Rightarrow> nat \<Rightarrow> 'd \<Rightarrow> bool" where
  "holds_region ud offset len d \<longleftrightarrow>
     (case part_extent ud d of None \<Rightarrow> False | Some (s, z) \<Rightarrow> s \<le> offset \<and> offset + len \<le> s + z)"

definition is_disk :: "'d udev \<Rightarrow> 'd \<Rightarrow> bool" where
  "is_disk ud d \<longleftrightarrow> ud_devtype ud d = Some ''disk''"

definition disk_address :: "'d udev \<Rightarrow> 'd \<Rightarrow> nat \<Rightarrow> nat option" where
  "disk_address ud d k = (if is_disk ud d then Some k else map_option (\<lambda>(s, _). s + k) (part_extent ud d))"

definition extents_fit :: "'d udev \<Rightarrow> 'd list \<Rightarrow> bool" where
  "extents_fit ud ds \<longleftrightarrow> (\<forall>d \<in> set ds. \<forall>s z. part_extent ud d = Some (s, z) \<longrightarrow> s + z < 2 ^ 63)"

lemma sint_small: "unat (w :: u64) < 2 ^ 63 \<Longrightarrow> sint w = int (unat w)"
proof -
  assume "unat w < 2 ^ 63"
  then have "int (unat w) < int (2 ^ 63)" by (simp only: of_nat_less_iff)
  then have u: "uint w < 2 ^ 63" by simp
  have l: "- (2 ^ 63) \<le> uint w" by (rule order_trans [of _ 0]) simp_all
  from signed_take_bit_int_eq_self [OF l u] show ?thesis by (simp add: sint_uint)
qed

lemma unat_sectors: "512 * unat (s :: u64) < 2 ^ 63 \<Longrightarrow> unat (s * 512) = 512 * unat s"
  by (simp add: unat_word_ariths)

lemma unat_sum: "unat (a :: u64) + unat b < 2 ^ 63 \<Longrightarrow> unat (a + b) = unat a + unat b"
  by (simp add: unat_word_ariths)

lemma region_contains_nat:
  assumes "512 * unat start + 512 * unat sz < 2 ^ 63" and "unat offset + unat len < 2 ^ 63"
  shows "region_contains (start * 512) (start * 512 + sz * 512) offset (offset + len) \<longleftrightarrow>
    512 * unat start \<le> unat offset \<and> unat offset + unat len \<le> 512 * unat start + 512 * unat sz"
proof -
  have u: "unat (start * 512) = 512 * unat start" "unat (sz * 512) = 512 * unat sz" using assms(1) by (simp_all add: unat_sectors)
  then have e: "unat (start * 512 + sz * 512) = 512 * unat start + 512 * unat sz" using assms(1) by (simp add: unat_sum)
  note u' = unat_sum [OF assms(2)]
  have "sint (start * 512) = int (512 * unat start)" "sint (start * 512 + sz * 512) = int (512 * unat start + 512 * unat sz)"
      "sint offset = int (unat offset)" "sint (offset + len) = int (unat offset + unat len)"
    using sint_small [of "start * 512"] sint_small [of "start * 512 + sz * 512"] sint_small [of offset] sint_small [of "offset + len"]
      u(1) e u' assms by auto
  then show ?thesis unfolding region_contains_def by (simp only: of_nat_le_iff)
qed

lemma block_loop_spec:
  assumes "cd_size c \<noteq> 0" and "unat (cd_offset c) + unat (cd_size c) < 2 ^ 63" and "extents_fit ud ds"
  shows "block_loop ud c best ds =
    (case find (holds_region ud (unat (cd_offset c)) (unat (cd_size c))) ds of
       Some p \<Rightarrow> (Some p, c\<lparr>cd_offset := word_of_nat (unat (cd_offset c) - fst (the (part_extent ud p)))\<rparr>)
     | None \<Rightarrow> (if best = None then find (is_disk ud) ds else best, c))"
  using assms(3)
proof (induction ds arbitrary: best)
  case (Cons d ds)
  let ?off = "unat (cd_offset c)" and ?len = "unat (cd_size c)"
  have IH: "block_loop ud c b ds = (case find (holds_region ud ?off ?len) ds of
       Some p \<Rightarrow> (Some p, c\<lparr>cd_offset := word_of_nat (?off - fst (the (part_extent ud p)))\<rparr>)
     | None \<Rightarrow> (if b = None then find (is_disk ud) ds else b, c))" for b
    using Cons(1,2) by (simp add: extents_fit_def)
  show ?case
  proof (cases "part_extent ud d")
    case None
    then have h: "\<not> holds_region ud ?off ?len d" by (simp add: holds_region_def)
    have "block_loop ud c best (d # ds) = block_loop ud c (if best = None \<and> is_disk ud d then Some d else best) ds"
      using None assms(1) by (auto simp: part_extent_def is_disk_def split: option.splits sum.splits if_splits)
    with h show ?thesis unfolding IH by (auto split: option.split)
  next
    case (Some e)
    then obtain start sz where p: "ud_devtype ud d = Some ''partition''"
        "udev_device_parse_sysattr_u64 ud d ''start'' = Inr start" "udev_device_parse_sysattr_u64 ud d ''size'' = Inr sz"
        "e = (512 * unat start, 512 * unat sz)"
      by (auto simp: part_extent_def split: sum.splits if_splits)
    have b: "512 * unat start + 512 * unat sz < 2 ^ 63" using Cons(2) Some p(4) by (simp add: extents_fit_def)
    have r: "region_contains (start * 512) (start * 512 + sz * 512) (cd_offset c) (cd_offset c + cd_size c) \<longleftrightarrow> holds_region ud ?off ?len d"
      unfolding region_contains_nat [OF b assms(2)] by (simp add: holds_region_def Some p(4))
    have nd: "\<not> is_disk ud d" using p(1) by (simp add: is_disk_def)
    have o: "word_of_nat (?off - 512 * unat start) = cd_offset c - start * 512" if "512 * unat start \<le> ?off"
      using that by (simp add: of_nat_diff mult.commute)
    show ?thesis
    proof (cases "holds_region ud ?off ?len d")
      case True
      then have "512 * unat start \<le> ?off" by (simp add: holds_region_def Some p(4))
      with True r o p assms(1) show ?thesis by (simp add: Let_def Some)
    next
      case False
      with r p assms(1) nd show ?thesis by (auto simp: Let_def IH split: option.split)
    qed
  qed
qed simp


text \<open>A disk with one partition of 64 sectors from sector 256 on.\<close>

definition demo_udev :: "nat udev" where
  "demo_udev = \<lparr>ud_new = True, ud_enumerate = (\<lambda>_ _. [0, 1]), ud_from_syspath = (\<lambda>_. Some 0),
     ud_property = (\<lambda>d k. if d = 0 \<and> k = ''ID_PART_TABLE_TYPE'' then Some ''gpt''
       else if d = 0 \<and> k = ''OF_FULLNAME'' then Some ''/disk''
       else if d = 1 \<and> k = ''ID_PART_ENTRY_TYPE'' then Some ''4778ED65-BF42-45FA-9C5B-287A1DC4AAB1'' else None),
     ud_sysattr = (\<lambda>d k. if d = 1 \<and> k = ''start'' then Some ''256'' else if d = 1 \<and> k = ''size'' then Some ''64'' else None),
     ud_devtype = (\<lambda>d. if d = 0 then Some ''disk'' else Some ''partition''),
     ud_devnode = (\<lambda>d. if d = 0 then Some ''/dev/mmcblk0'' else Some ''/dev/mmcblk0p1''),
     ud_subsystem = (\<lambda>_. ''block''), ud_sysname = (\<lambda>_. ''mmcblk0''), ud_syspath = (\<lambda>_. ''/sys/block''),
     ud_stat = (\<lambda>p. if p = ''/dev/mmcblk0'' then Inr \<lparr>st_block = True, st_char = False, st_major = 179, st_minor = 0\<rparr> else Inl ENOENT),
     ud_test_loopback = False\<rparr>"

lemma demo_udev_simps:
  "ud_enumerate demo_udev p ss = [0, 1]" "part_extent demo_udev 0 = None" "part_extent demo_udev 1 = Some (131072, 32768)"
  "is_disk demo_udev 0" "ud_devnode demo_udev 1 = Some ''/dev/mmcblk0p1''"
proof -
  have "strtoul ''256'' 0 = (256, 3)" "strtoul ''64'' 0 = (64, 2)" by code_simp+
  then have "udev_device_parse_sysattr_u64 demo_udev 1 ''start'' = Inr 256" "udev_device_parse_sysattr_u64 demo_udev 1 ''size'' = Inr 64"
    by (simp_all add: udev_device_parse_sysattr_u64_def demo_udev_def)
  then show "part_extent demo_udev 1 = Some (131072, 32768)"
    by (simp add: part_extent_def) (simp add: demo_udev_def)
qed (simp_all add: demo_udev_def part_extent_def is_disk_def)


section \<open>The backend of a state\<close>

lemma block_has_path: "cdev_from_block_device ud dev c = (Inr u, c') \<Longrightarrow> cd_devpath c' \<noteq> None"
  by (auto simp: cdev_from_block_device_def split: if_splits prod.splits option.splits)

lemma mtd_has_path: "udev_parse_mtd ud dev c = (Inr u, c') \<Longrightarrow> cd_devpath c' \<noteq> None"
  by (auto simp: udev_parse_mtd_def split: if_splits sum.splits option.splits)

lemma eeprom_has_path: "udev_parse_eeprom ud dev c = (Inr u, c') \<Longrightarrow> cd_devpath c' \<noteq> None"
  by (auto simp: udev_parse_eeprom_def split: sum.splits)

lemma on_device_has_path: "cdev_on_device ud root r dev c = (Inr u, c') \<Longrightarrow> cd_devpath c' \<noteq> None"
  by (auto simp: cdev_on_device_def dest: block_has_path mtd_has_path eeprom_has_path split: if_splits sum.splits option.splits prod.splits)

lemma find_into_has_path:
  assumes "of_cdev_find_into ud root r c l = ((Inr u, c'), l')"
  shows "cd_devpath c' \<noteq> None"
proof -
  have d: "cd_devpath c2 \<noteq> None" if "cdev_direct ud dev c1 = (Inr v, c2)" for dev c1 v c2
    using that by (auto simp: cdev_direct_def dest: block_has_path mtd_has_path eeprom_has_path split: if_splits sum.splits prod.splits)
  have p: "cd_devpath c2 \<noteq> None" if "cdev_by_partuuid ud uuid c1 = (Inr v, c2)" for uuid c1 v c2
    using that by (auto simp: cdev_by_partuuid_def split: sum.splits option.splits)
  have q: "cd_devpath c2 \<noteq> None" if "cdev_of_partition ud root r c1 l1 = ((Inr v, c2), l2)" for c1 l1 v c2 l2
    using that p on_device_has_path by (fastforce simp: cdev_of_partition_def Let_def split: if_splits sum.splits prod.splits)
  show ?thesis using assms d q by (fastforce simp: of_cdev_find_into_def Let_def split: prod.splits option.splits)
qed


definition disk_machine :: device_node where
  "disk_machine = Node [] [] 0 [] [Node ''disk'' ''/disk'' 1 [] []]"

lemma disk_backend:
  "state_backend_cdev demo_udev disk_machine [0] [] =
     (Inr (cdev_start\<lparr>cd_size := 32768, cd_devpath := Some ''/dev/mmcblk0p1''\<rparr>), [(''/disk'', 0)])"
  by code_simp


end
