(* ===== verification/Linked_List.thy ===== *)
theory Linked_List
  imports State_Vars
begin

text \<open>
  The doubly linked lists of \<open>src/dt/list.h\<close>, on which nodes, properties, variables, buckets and options are kept.  The
  components of this development hold them as HOL lists; here the pointers are modelled, and the operations proved to do on the
  list a head stands for what the components take them to do.  A list head is an address \<open>'a\<close>, and the memory a
  function from addresses to the two pointers of the head.
\<close>

section \<open>Memory\<close>

datatype 'a ptr = Ptr 'a | Null | Poison1 | Poison2

record 'a links =
  l_next :: "'a \<Rightarrow> 'a ptr"
  l_prev :: "'a \<Rightarrow> 'a ptr"

text \<open>Loads and stores through a pointer; one that does not point to a list head is a fault.\<close>

fun load_next :: "'a ptr \<Rightarrow> 'a links \<Rightarrow> 'a ptr res" where
  "load_next (Ptr a) h = Inr (l_next h a)"
| "load_next _ h = Inl FAULT"

fun load_prev :: "'a ptr \<Rightarrow> 'a links \<Rightarrow> 'a ptr res" where
  "load_prev (Ptr a) h = Inr (l_prev h a)"
| "load_prev _ h = Inl FAULT"

fun store_next :: "'a ptr \<Rightarrow> 'a ptr \<Rightarrow> 'a links \<Rightarrow> 'a links res" where
  "store_next (Ptr a) p h = Inr (h\<lparr>l_next := (l_next h)(a := p)\<rparr>)"
| "store_next _ p h = Inl FAULT"

fun store_prev :: "'a ptr \<Rightarrow> 'a ptr \<Rightarrow> 'a links \<Rightarrow> 'a links res" where
  "store_prev (Ptr a) p h = Inr (h\<lparr>l_prev := (l_prev h)(a := p)\<rparr>)"
| "store_prev _ p h = Inl FAULT"

section \<open>Operations\<close>

definition init_list_head :: "'a \<Rightarrow> 'a links \<Rightarrow> 'a links res" where
  "init_list_head list h = bindE (store_next (Ptr list) (Ptr list) h) (store_prev (Ptr list) (Ptr list))"

text \<open>\<open>__list_add\<close> and \<open>__list_del\<close>: four and two stores, in the order of the source.\<close>

definition list_add_between :: "'a \<Rightarrow> 'a ptr \<Rightarrow> 'a ptr \<Rightarrow> 'a links \<Rightarrow> 'a links res" where
  "list_add_between new prv nxt h =
     bindE (store_prev nxt (Ptr new) h) (\<lambda>h. bindE (store_next (Ptr new) nxt h) (\<lambda>h.
       bindE (store_prev (Ptr new) prv h) (store_next prv (Ptr new))))"

definition list_add :: "'a \<Rightarrow> 'a \<Rightarrow> 'a links \<Rightarrow> 'a links res" where
  "list_add new head h = list_add_between new (Ptr head) (l_next h head) h"

definition list_add_tail :: "'a \<Rightarrow> 'a \<Rightarrow> 'a links \<Rightarrow> 'a links res" where
  "list_add_tail new head h = list_add_between new (l_prev h head) (Ptr head) h"

definition list_del_between :: "'a ptr \<Rightarrow> 'a ptr \<Rightarrow> 'a links \<Rightarrow> 'a links res" where
  "list_del_between prv nxt h = bindE (store_prev nxt prv h) (store_next prv nxt)"

definition list_unlink :: "'a \<Rightarrow> 'a links \<Rightarrow> 'a links res" where
  "list_unlink e h = list_del_between (l_prev h e) (l_next h e) h"

definition list_del :: "'a \<Rightarrow> 'a links \<Rightarrow> 'a links res" where
  "list_del e h = bindE (list_unlink e h) (\<lambda>h. bindE (store_next (Ptr e) Poison1 h) (store_prev (Ptr e) Poison2))"

definition list_del_init :: "'a \<Rightarrow> 'a links \<Rightarrow> 'a links res" where
  "list_del_init e h = bindE (list_unlink e h) (init_list_head e)"

definition list_move :: "'a \<Rightarrow> 'a \<Rightarrow> 'a links \<Rightarrow> 'a links res" where
  "list_move list head h = bindE (list_unlink list h) (list_add list head)"

definition list_move_tail :: "'a \<Rightarrow> 'a \<Rightarrow> 'a links \<Rightarrow> 'a links res" where
  "list_move_tail list head h = bindE (list_unlink list h) (list_add_tail list head)"

definition list_replace :: "'a \<Rightarrow> 'a \<Rightarrow> 'a links \<Rightarrow> 'a links res" where
  "list_replace old new h =
     bindE (store_next (Ptr new) (l_next h old) h) (\<lambda>h. bindE (store_prev (l_next h new) (Ptr new) h) (\<lambda>h.
       bindE (store_prev (Ptr new) (l_prev h old) h) (\<lambda>h. store_next (l_prev h new) (Ptr new) h)))"

definition list_replace_init :: "'a \<Rightarrow> 'a \<Rightarrow> 'a links \<Rightarrow> 'a links res" where
  "list_replace_init old new h = bindE (list_replace old new h) (init_list_head old)"

definition list_is_last :: "'a \<Rightarrow> 'a \<Rightarrow> 'a links \<Rightarrow> bool" where
  "list_is_last list head h \<longleftrightarrow> l_next h list = Ptr head"

definition list_empty :: "'a \<Rightarrow> 'a links \<Rightarrow> bool" where
  "list_empty head h \<longleftrightarrow> l_next h head = Ptr head"

definition list_empty_careful :: "'a \<Rightarrow> 'a links \<Rightarrow> bool" where
  "list_empty_careful head h \<longleftrightarrow> l_next h head = Ptr head \<and> l_next h head = l_prev h head"

definition list_is_singular :: "'a \<Rightarrow> 'a links \<Rightarrow> bool" where
  "list_is_singular head h \<longleftrightarrow> \<not> list_empty head h \<and> l_next h head = l_prev h head"

definition list_splice_at :: "'a \<Rightarrow> 'a \<Rightarrow> 'a links \<Rightarrow> 'a links res" where
  "list_splice_at list head h =
     (let first = l_next h list; last = l_prev h list; at = l_next h head
      in bindE (store_prev first (Ptr head) h) (\<lambda>h. bindE (store_next (Ptr head) first h) (\<lambda>h.
         bindE (store_next last at h) (store_prev at last))))"

definition list_splice :: "'a \<Rightarrow> 'a \<Rightarrow> 'a links \<Rightarrow> 'a links res" where
  "list_splice list head h = (if \<not> list_empty list h then list_splice_at list head h else Inr h)"

definition list_splice_init :: "'a \<Rightarrow> 'a \<Rightarrow> 'a links \<Rightarrow> 'a links res" where
  "list_splice_init list head h =
     (if \<not> list_empty list h then bindE (list_splice_at list head h) (init_list_head list) else Inr h)"

text \<open>
  The loops.  \<open>list_for_each\<close> visits the nodes from \<open>pos\<close> up to the head; \<open>sort_pos\<close> is the loop of \<open>list_add_sort\<close>, which
  stops at the first node not before the new one.  On a memory whose pointers do not lead back to the head they do
  not end.
\<close>

partial_function (option) list_for_each :: "'a links \<Rightarrow> 'a \<Rightarrow> 'a ptr \<Rightarrow> 'a list res option" where
  "list_for_each h head pos =
     (if pos = Ptr head then Some (Inr [])
      else case pos of
        Ptr a \<Rightarrow> Option.bind (list_for_each h head (l_next h a)) (\<lambda>r. Some (bindE r (\<lambda>xs. Inr (a # xs))))
      | _ \<Rightarrow> Some (Inl FAULT))"

partial_function (option) list_for_each_prev :: "'a links \<Rightarrow> 'a \<Rightarrow> 'a ptr \<Rightarrow> 'a list res option" where
  "list_for_each_prev h head pos =
     (if pos = Ptr head then Some (Inr [])
      else case pos of
        Ptr a \<Rightarrow> Option.bind (list_for_each_prev h head (l_prev h a)) (\<lambda>r. Some (bindE r (\<lambda>xs. Inr (a # xs))))
      | _ \<Rightarrow> Some (Inl FAULT))"

partial_function (option) sort_pos :: "'a links \<Rightarrow> 'a \<Rightarrow> ('a \<Rightarrow> 'a \<Rightarrow> int) \<Rightarrow> 'a \<Rightarrow> 'a ptr \<Rightarrow> 'a res option" where
  "sort_pos h head compare new pos =
     (if pos = Ptr head then Some (Inr head)
      else case pos of
        Ptr a \<Rightarrow> if compare a new < 0 then sort_pos h head compare new (l_next h a) else Some (Inr a)
      | _ \<Rightarrow> Some (Inl FAULT))"

definition list_add_sort_links :: "'a \<Rightarrow> 'a \<Rightarrow> ('a \<Rightarrow> 'a \<Rightarrow> int) \<Rightarrow> 'a links \<Rightarrow> 'a links res option" where
  "list_add_sort_links new head compare h =
     Option.bind (sort_pos h head compare new (l_next h head)) (\<lambda>r. Some (bindE r (\<lambda>pos. list_add_tail new pos h)))"

section \<open>The list a head stands for\<close>

text \<open>Each address of a chain points to the next one and that one points back; a list is a cycle through its head.\<close>

fun chain :: "'a links \<Rightarrow> 'a list \<Rightarrow> bool" where
  "chain h (a # b # cs) \<longleftrightarrow> l_next h a = Ptr b \<and> l_prev h b = Ptr a \<and> chain h (b # cs)"
| "chain h _ \<longleftrightarrow> True"

definition holds_list :: "'a links \<Rightarrow> 'a \<Rightarrow> 'a list \<Rightarrow> bool" where
  "holds_list h head xs \<longleftrightarrow> distinct (head # xs) \<and> chain h (head # xs @ [head])"

lemma chain_split: "chain h (xs @ a # ys) \<longleftrightarrow> chain h (xs @ [a]) \<and> chain h (a # ys)"
  by (induction h xs rule: chain.induct) auto

lemma chain_cong:
  "(\<And>x. x \<in> set (butlast cs) \<Longrightarrow> l_next h' x = l_next h x) \<Longrightarrow> (\<And>x. x \<in> set (tl cs) \<Longrightarrow> l_prev h' x = l_prev h x) \<Longrightarrow>
     chain h' cs = chain h cs"
  by (induction h cs rule: chain.induct) auto

lemma split_disjoint:
  assumes "distinct (butlast (ps @ a # b # qs))" and "distinct (tl (ps @ a # b # qs))"
  shows "a \<notin> set ps" "a \<notin> set (butlast (b # qs))" "b \<notin> set qs" "b \<notin> set (tl (ps @ [a]))"
  using assms by (cases ps; auto simp: butlast_append split: if_splits)+

lemma in_butlast_tl: "x \<in> set (butlast cs) \<Longrightarrow> x \<in> set cs" "x \<in> set (tl cs) \<Longrightarrow> x \<in> set cs"
  by (auto dest: in_set_butlastD list.set_sel(2) [rotated]) (cases cs; simp)

text \<open>Inserting between two neighbours, and taking out what is between two.\<close>

lemma chain_insert:
  assumes "chain h (ps @ a # b # qs)" and "distinct (butlast (ps @ a # b # qs))" and "distinct (tl (ps @ a # b # qs))"
    and "new \<notin> set (ps @ a # b # qs)"
    and "l_next h' = (l_next h)(new := Ptr b, a := Ptr new)" and "l_prev h' = (l_prev h)(b := Ptr new, new := Ptr a)"
  shows "chain h' (ps @ a # new # b # qs)"
proof -
  have c: "chain h (ps @ [a])" "chain h (b # qs)"
    using assms(1) chain_split [of h ps a "b # qs"] by auto
  note d = split_disjoint [OF assms(2,3)]
  have "chain h' (ps @ [a]) = chain h (ps @ [a])"
    using d(1,4) assms(4) by (intro chain_cong) (auto simp: assms(5,6) dest: in_butlast_tl)
  moreover have "chain h' (b # qs) = chain h (b # qs)"
    using d(2,3) assms(4) by (intro chain_cong) (auto simp: assms(5,6) dest: in_butlast_tl split: if_splits)
  moreover have "l_next h' a = Ptr new" "l_prev h' new = Ptr a" "l_next h' new = Ptr b" "l_prev h' b = Ptr new"
    using assms(4-6) by auto
  ultimately show ?thesis
    using c by (subst chain_split) simp
qed

lemma chain_remove:
  assumes "chain h (ps @ a # e # b # qs)" and "distinct (butlast (ps @ a # b # qs))" and "distinct (tl (ps @ a # b # qs))"
    and "l_next h' = (l_next h)(a := Ptr b)" and "l_prev h' = (l_prev h)(b := Ptr a)"
  shows "chain h' (ps @ a # b # qs)"
proof -
  have c: "chain h (ps @ [a])" "chain h (b # qs)"
    using assms(1) chain_split [of h ps a "e # b # qs"] by auto
  note d = split_disjoint [OF assms(2,3)]
  have "chain h' (ps @ [a]) = chain h (ps @ [a])"
    using d(1,4) by (intro chain_cong) (auto simp: assms(4,5) dest: in_butlast_tl)
  moreover have "chain h' (b # qs) = chain h (b # qs)"
    using d(2,3) by (intro chain_cong) (auto simp: assms(4,5) dest: in_butlast_tl split: if_splits)
  moreover have "l_next h' a = Ptr b" "l_prev h' b = Ptr a" using assms(4,5) by simp_all
  ultimately show ?thesis
    using c by (subst chain_split) simp
qed

text \<open>The neighbours of an element of a list, and of the head.\<close>

lemma chain_neighbours: "chain h (ps @ a # b # qs) \<Longrightarrow> l_next h a = Ptr b \<and> l_prev h b = Ptr a"
  using chain_split [of h ps a "b # qs"] by simp

lemma holds_distinct:
  assumes "head # xs @ [head] = ps @ a # b # qs" and "distinct (head # xs)"
  shows "distinct (butlast (ps @ a # b # qs))" and "distinct (tl (ps @ a # b # qs))"
proof -
  have "butlast (head # xs @ [head]) = head # xs" "tl (head # xs @ [head]) = xs @ [head]" by (simp_all add: butlast_append)
  then show "distinct (butlast (ps @ a # b # qs))" "distinct (tl (ps @ a # b # qs))"
    using assms(2) unfolding assms(1) by auto
qed

text \<open>Memories that agree at some addresses.\<close>

definition same_at :: "'a set \<Rightarrow> 'a links \<Rightarrow> 'a links \<Rightarrow> bool" where
  "same_at A h h' \<longleftrightarrow> (\<forall>x \<in> A. l_next h' x = l_next h x \<and> l_prev h' x = l_prev h x)"

lemma same_at_mono: "same_at A h h' \<Longrightarrow> B \<subseteq> A \<Longrightarrow> same_at B h h'"
  unfolding same_at_def by blast

lemma same_at_trans: "same_at A h h1 \<Longrightarrow> same_at A h1 h2 \<Longrightarrow> same_at A h h2"
  unfolding same_at_def by simp

lemma same_at_store: "e \<notin> A \<Longrightarrow> same_at A h (h\<lparr>l_next := (l_next h)(e := p), l_prev := (l_prev h)(e := q)\<rparr>)"
  unfolding same_at_def by auto

text \<open>What inserting between the neighbours \<open>a\<close> and \<open>b\<close> and removing the element between them leaves.\<close>

lemma add_between_memory:
  "list_add_between new (Ptr a) (Ptr b) h =
     Inr (h\<lparr>l_next := (l_next h)(new := Ptr b, a := Ptr new), l_prev := (l_prev h)(b := Ptr new, new := Ptr a)\<rparr>)"
  by (simp add: list_add_between_def)

lemma add_between_holds:
  assumes "holds_list h head (xs @ ys)" and "new \<notin> set (head # xs @ ys)"
    and "a = last (head # xs)" and "b = hd (ys @ [head])"
  shows "\<exists>h'. list_add_between new (Ptr a) (Ptr b) h = Inr h' \<and> holds_list h' head (xs @ new # ys) \<and>
    same_at (- set (head # new # xs @ ys)) h h'"
proof -
  let ?h = "h\<lparr>l_next := (l_next h)(new := Ptr b, a := Ptr new), l_prev := (l_prev h)(b := Ptr new, new := Ptr a)\<rparr>"
  define ps where "ps = butlast (head # xs)"
  define qs where "qs = tl (ys @ [head])"
  have s: "head # xs = ps @ [a]" "ys @ [head] = b # qs"
    using assms(3,4) by (simp_all add: ps_def qs_def append_butlast_last_id [symmetric])
  then have c: "head # (xs @ ys) @ [head] = ps @ a # b # qs" by (metis append.assoc append_Cons append_Nil)
  have d: "distinct (head # xs @ ys)" "chain h (ps @ a # b # qs)" using assms(1) c by (auto simp: holds_list_def)
  have "new \<notin> set (ps @ a # b # qs)" using assms(2) unfolding c [symmetric] by auto
  from chain_insert [OF d(2) holds_distinct [OF c d(1)] this, of ?h] have "chain ?h (ps @ a # new # b # qs)" by simp
  moreover have "head # (xs @ new # ys) @ [head] = ps @ a # new # b # qs" using s by (metis append.assoc append_Cons append_Nil)
  ultimately have "holds_list ?h head (xs @ new # ys)" using d(1) assms(2) by (auto simp: holds_list_def)
  moreover have ab: "a \<in> set (head # xs @ ys)" "b \<in> set (head # xs @ ys)" using s by (metis Un_iff c list.set_intros(1) set_append in_set_conv_decomp list.set_intros(2) rotate1.simps(2) set_rotate1 append_Cons)+
  then have "same_at (- set (head # new # xs @ ys)) h ?h" unfolding same_at_def by auto
  ultimately show ?thesis unfolding add_between_memory by (intro exI [of _ ?h]) simp
qed

text \<open>Where the head points, and what depends only on the members of a list.\<close>

lemma holds_ends:
  assumes "holds_list h head xs"
  shows "l_next h head = Ptr (hd (xs @ [head]))" and "l_prev h head = Ptr (last (head # xs))"
proof -
  have c: "chain h (head # xs @ [head])" using assms by (simp add: holds_list_def)
  then show "l_next h head = Ptr (hd (xs @ [head]))" by (cases xs) auto
  have "chain h (butlast (head # xs) @ last (head # xs) # head # [])"
    using c append_butlast_last_id [of "head # xs"] by (metis append.assoc append_Cons append_Nil list.discI)
  from chain_neighbours [OF this] show "l_prev h head = Ptr (last (head # xs))" ..
qed

lemma holds_mid:
  assumes "holds_list h head (xs @ e # ys)"
  shows "l_prev h e = Ptr (last (head # xs))" and "l_next h e = Ptr (hd (ys @ [head]))"
proof -
  have c: "chain h (head # xs @ e # ys @ [head])" using assms by (simp add: holds_list_def)
  have l: "head # xs = butlast (head # xs) @ [last (head # xs)]" by (rule append_butlast_last_id [symmetric]) simp
  have "chain h (butlast (head # xs) @ last (head # xs) # e # (ys @ [head]))" using c l by (metis append.assoc append_Cons append_Nil)
  from chain_neighbours [OF this] show "l_prev h e = Ptr (last (head # xs))" ..
  have s: "ys @ [head] = hd (ys @ [head]) # tl (ys @ [head])" by simp
  have "chain h ((head # xs) @ e # hd (ys @ [head]) # tl (ys @ [head]))" using c unfolding s [symmetric] by simp
  from chain_neighbours [OF this] show "l_next h e = Ptr (hd (ys @ [head]))" ..
qed

lemma holds_same: "same_at (set (head # xs)) h h' \<Longrightarrow> holds_list h' head xs \<longleftrightarrow> holds_list h head xs"
proof -
  assume "same_at (set (head # xs)) h h'"
  then have "chain h' (head # xs @ [head]) = chain h (head # xs @ [head])"
    by (intro chain_cong) (auto simp: same_at_def butlast_append split: if_splits)
  then show ?thesis by (simp add: holds_list_def)
qed

lemma init_holds:
  "\<exists>h'. init_list_head head h = Inr h' \<and> holds_list h' head [] \<and> same_at (- {head}) h h'"
  by (simp add: init_list_head_def holds_list_def same_at_def)

lemma list_add_tail_holds:
  assumes "holds_list h head xs" and "new \<notin> set (head # xs)"
  shows "\<exists>h'. list_add_tail new head h = Inr h' \<and> holds_list h' head (xs @ [new]) \<and> same_at (- set (head # new # xs)) h h'"
  unfolding list_add_tail_def holds_ends(2) [OF assms(1)]
  using add_between_holds [of h head xs "[]" new] assms by (simp del: last.simps)

lemma list_add_holds:
  assumes "holds_list h head xs" and "new \<notin> set (head # xs)"
  shows "\<exists>h'. list_add new head h = Inr h' \<and> holds_list h' head (new # xs) \<and> same_at (- set (head # new # xs)) h h'"
  unfolding list_add_def holds_ends(1) [OF assms(1)]
  using add_between_holds [of h head "[]" xs new head] assms by simp

lemma list_add_before:
  assumes "holds_list h head (xs @ pos # ys)" and "new \<notin> set (head # xs @ pos # ys)"
  shows "\<exists>h'. list_add_tail new pos h = Inr h' \<and> holds_list h' head (xs @ new # pos # ys) \<and>
    same_at (- set (head # new # xs @ pos # ys)) h h'"
  unfolding list_add_tail_def holds_mid(1) [OF assms(1)]
  using add_between_holds [of h head xs "pos # ys" new] assms by (simp del: last.simps)

lemma list_unlink_holds:
  assumes "holds_list h head (xs @ e # ys)"
  shows "\<exists>h'. list_unlink e h = Inr h' \<and> holds_list h' head (xs @ ys) \<and> same_at (- set (head # xs @ ys)) h h'"
proof -
  let ?a = "last (head # xs)" and ?b = "hd (ys @ [head])"
  let ?h = "h\<lparr>l_next := (l_next h)(?a := Ptr ?b), l_prev := (l_prev h)(?b := Ptr ?a)\<rparr>"
  define ps where "ps = butlast (head # xs)"
  define qs where "qs = tl (ys @ [head])"
  have s: "head # xs = ps @ [?a]" "ys @ [head] = ?b # qs"
    by (simp_all add: ps_def qs_def append_butlast_last_id [symmetric])
  have c: "head # (xs @ ys) @ [head] = ps @ ?a # ?b # qs" "head # (xs @ e # ys) @ [head] = ps @ ?a # e # ?b # qs"
    using s by (metis append.assoc append_Cons append_Nil)+
  have d: "distinct (head # xs @ ys)" using assms by (auto simp: holds_list_def)
  have "chain h (ps @ ?a # e # ?b # qs)" using assms unfolding holds_list_def c(2) by blast
  from chain_remove [OF this holds_distinct [OF c(1) d], of ?h] have "chain ?h (ps @ ?a # ?b # qs)" by simp
  then have "holds_list ?h head (xs @ ys)" using d c(1) by (simp add: holds_list_def)
  moreover have "list_unlink e h = Inr ?h"
    using holds_mid [OF assms] by (simp add: list_unlink_def list_del_between_def)
  moreover have "?a \<in> set (head # xs @ ys)" "?b \<in> set (head # xs @ ys)"
    using last_in_set [of "head # xs"] hd_in_set [of "ys @ [head]"] by auto
  then have "same_at (- set (head # xs @ ys)) h ?h" unfolding same_at_def by auto
  ultimately show ?thesis by blast
qed

lemma list_del_holds:
  assumes "holds_list h head (xs @ e # ys)"
  shows "\<exists>h'. list_del e h = Inr h' \<and> holds_list h' head (xs @ ys) \<and> same_at (- set (head # xs @ e # ys)) h h' \<and>
    l_next h' e = Poison1 \<and> l_prev h' e = Poison2"
proof -
  obtain h1 where h1: "list_unlink e h = Inr h1" "holds_list h1 head (xs @ ys)" "same_at (- set (head # xs @ ys)) h h1"
    using list_unlink_holds [OF assms] by blast
  let ?h = "h1\<lparr>l_next := (l_next h1)(e := Poison1), l_prev := (l_prev h1)(e := Poison2)\<rparr>"
  have "e \<notin> set (head # xs @ ys)" using assms by (auto simp: holds_list_def)
  then have "same_at (set (head # xs @ ys)) h1 ?h" by (rule same_at_store)
  from holds_same [OF this] have "holds_list ?h head (xs @ ys)" using h1(2) by simp
  moreover have "list_del e h = Inr ?h" using h1(1) by (simp add: list_del_def)
  moreover have "same_at (- set (head # xs @ e # ys)) h ?h"
    by (rule same_at_trans [OF same_at_mono [OF h1(3)] same_at_store]) (simp_all, blast)
  ultimately show ?thesis by (intro exI [of _ ?h]) simp
qed

lemma list_del_init_holds:
  assumes "holds_list h head (xs @ e # ys)"
  shows "\<exists>h'. list_del_init e h = Inr h' \<and> holds_list h' head (xs @ ys) \<and> holds_list h' e []"
proof -
  obtain h1 where h1: "list_unlink e h = Inr h1" "holds_list h1 head (xs @ ys)" using list_unlink_holds [OF assms] by blast
  obtain h2 where h2: "init_list_head e h1 = Inr h2" "holds_list h2 e []" "same_at (- {e}) h1 h2"
    using init_holds [of e h1] by blast
  have "e \<notin> set (head # xs @ ys)" using assms by (auto simp: holds_list_def)
  then have "same_at (set (head # xs @ ys)) h1 h2" by (intro same_at_mono [OF h2(3)]) auto
  from holds_same [OF this] have "holds_list h2 head (xs @ ys)" using h1(2) by simp
  with h1(1) h2 show ?thesis by (simp add: list_del_init_def)
qed

lemma list_move_tail_holds:
  assumes "holds_list h head (xs @ e # ys)"
  shows "\<exists>h'. list_move_tail e head h = Inr h' \<and> holds_list h' head (xs @ ys @ [e])"
proof -
  obtain h1 where h1: "list_unlink e h = Inr h1" "holds_list h1 head (xs @ ys)" using list_unlink_holds [OF assms] by blast
  have "e \<notin> set (head # xs @ ys)" using assms by (auto simp: holds_list_def)
  from list_add_tail_holds [OF h1(2) this] h1(1) show ?thesis by (auto simp: list_move_tail_def)
qed

lemma list_move_holds:
  assumes "holds_list h head (xs @ e # ys)"
  shows "\<exists>h'. list_move e head h = Inr h' \<and> holds_list h' head (e # xs @ ys)"
proof -
  obtain h1 where h1: "list_unlink e h = Inr h1" "holds_list h1 head (xs @ ys)" using list_unlink_holds [OF assms] by blast
  have "e \<notin> set (head # xs @ ys)" using assms by (auto simp: holds_list_def)
  from list_add_holds [OF h1(2) this] h1(1) show ?thesis by (auto simp: list_move_def)
qed

section \<open>Tests and loops\<close>

lemma list_empty_holds: "holds_list h head xs \<Longrightarrow> list_empty head h \<longleftrightarrow> xs = []"
  using holds_ends(1) [of h head xs] by (cases xs) (auto simp: list_empty_def holds_list_def)

lemma list_singular_holds: "holds_list h head xs \<Longrightarrow> list_is_singular head h \<longleftrightarrow> length xs = 1"
proof -
  assume h: "holds_list h head xs"
  then have d: "distinct xs" by (simp add: holds_list_def)
  show ?thesis
  proof (cases xs)
    case (Cons x ys)
    have "x = last (x # ys) \<longleftrightarrow> ys = []" using d Cons last_in_set [of ys] by auto
    then show ?thesis using holds_ends [OF h] list_empty_holds [OF h] Cons by (auto simp: list_is_singular_def)
  qed (use list_empty_holds [OF h] in \<open>simp add: list_is_singular_def\<close>)
qed

lemma for_each_chain:
  "distinct (head # xs) \<Longrightarrow> chain h (a # xs @ [head]) \<Longrightarrow> list_for_each h head (l_next h a) = Some (Inr xs)"
proof (induction xs arbitrary: a)
  case Nil
  then show ?case by (simp add: list_for_each.simps)
next
  case (Cons x xs)
  then have "chain h (x # xs @ [head])" "l_next h a = Ptr x" "x \<noteq> head" by auto
  with Cons show ?case by (subst list_for_each.simps) simp
qed

lemma list_for_each_holds: "holds_list h head xs \<Longrightarrow> list_for_each h head (l_next h head) = Some (Inr xs)"
  by (auto simp: holds_list_def intro: for_each_chain)

lemma for_each_prev_chain:
  "distinct (head # xs) \<Longrightarrow> chain h (head # xs @ [a]) \<Longrightarrow> list_for_each_prev h head (l_prev h a) = Some (Inr (rev xs))"
proof (induction xs arbitrary: a rule: rev_induct)
  case Nil
  then show ?case by (simp add: list_for_each_prev.simps)
next
  case (snoc x xs)
  then have "chain h (head # xs @ [x])" "l_prev h a = Ptr x" "x \<noteq> head"
    using chain_split [of h "head # xs" x "[a]"] by auto
  with snoc show ?case by (subst list_for_each_prev.simps) simp
qed

lemma list_for_each_prev_holds: "holds_list h head xs \<Longrightarrow> list_for_each_prev h head (l_prev h head) = Some (Inr (rev xs))"
  by (auto simp: holds_list_def intro: for_each_prev_chain)

section \<open>Replacing, splicing, sorted insertion\<close>

lemma list_replace_holds:
  assumes "holds_list h head (xs @ old # ys)" and "new \<notin> set (head # xs @ old # ys)"
  shows "\<exists>h'. list_replace old new h = Inr h' \<and> holds_list h' head (xs @ new # ys)"
proof -
  let ?a = "last (head # xs)" and ?b = "hd (ys @ [head])"
  note m = holds_mid [OF assms(1)]
  obtain h1 where h1: "list_unlink old h = Inr h1" "holds_list h1 head (xs @ ys)" using list_unlink_holds [OF assms(1)] by blast
  have "new \<notin> set (head # xs @ ys)" using assms(2) by auto
  from add_between_holds [OF h1(2) this refl refl]
  obtain h2 where h2: "list_add_between new (Ptr ?a) (Ptr ?b) h1 = Inr h2" "holds_list h2 head (xs @ new # ys)" by blast
  have ne: "?a \<noteq> new" "?b \<noteq> new" "?b \<noteq> old"
  proof -
    have i: "?a \<in> set (head # xs @ ys)" "?b \<in> set (head # xs @ ys)"
      using last_in_set [of "head # xs"] hd_in_set [of "ys @ [head]"] by auto
    then show "?a \<noteq> new" "?b \<noteq> new" using assms(2) by auto
    show "?b \<noteq> old" using i assms(1) by (auto simp: holds_list_def)
  qed
  have "h1 = h\<lparr>l_next := (l_next h)(?a := Ptr ?b), l_prev := (l_prev h)(?b := Ptr ?a)\<rparr>"
    using h1(1) by (auto simp: list_unlink_def list_del_between_def m simp del: last.simps)
  then have "h2 = h\<lparr>l_next := (l_next h)(new := Ptr ?b, ?a := Ptr new), l_prev := (l_prev h)(?b := Ptr new, new := Ptr ?a)\<rparr>"
    using h2(1) ne(1,2) by (simp add: add_between_memory fun_upd_twist del: last.simps)
  moreover have "list_replace old new h =
      Inr (h\<lparr>l_next := (l_next h)(new := Ptr ?b, ?a := Ptr new), l_prev := (l_prev h)(?b := Ptr new, new := Ptr ?a)\<rparr>)"
    using ne assms(2) by (simp add: list_replace_def m del: last.simps)
  ultimately show ?thesis using h2(2) by auto
qed

lemma chain_join:
  "as \<noteq> [] \<Longrightarrow> bs \<noteq> [] \<Longrightarrow> chain h (as @ bs) \<longleftrightarrow>
     chain h as \<and> chain h bs \<and> l_next h (last as) = Ptr (hd bs) \<and> l_prev h (hd bs) = Ptr (last as)"
proof (induction as)
  case (Cons a as)
  obtain b bs' where b: "bs = b # bs'" using Cons(3) by (cases bs) auto
  show ?case using Cons(1,3) by (cases as) (auto simp: b)
qed simp

lemma list_splice_init_holds:
  assumes "holds_list h list ys" and "holds_list h head xs" and "set (list # ys) \<inter> set (head # xs) = {}"
  shows "\<exists>h'. list_splice_init list head h = Inr h' \<and> holds_list h' head (ys @ xs) \<and> holds_list h' list []"
proof (cases "ys = []")
  case True
  then show ?thesis using assms(1,2) list_empty_holds [OF assms(1)] by (simp add: list_splice_init_def)
next
  case False
  let ?f = "hd ys" and ?l = "last ys" and ?at = "hd (xs @ [head])"
  let ?h = "h\<lparr>l_next := (l_next h)(head := Ptr ?f, ?l := Ptr ?at), l_prev := (l_prev h)(?f := Ptr head, ?at := Ptr ?l)\<rparr>"
  have e: "l_next h list = Ptr ?f" "l_prev h list = Ptr ?l" "l_next h head = Ptr ?at"
    using holds_ends [OF assms(1)] holds_ends(1) [OF assms(2)] False by simp_all
  have in_ys: "?f \<in> set ys" "?l \<in> set ys" using False by simp_all
  have in_xs: "?at \<in> set (head # xs)" using hd_in_set [of "xs @ [head]"] by auto
  have d: "distinct ys" "distinct (head # xs)" "list \<notin> set ys" using assms(1,2) by (simp_all add: holds_list_def)
  have c: "chain h ys" "chain h (xs @ [head])"
    using assms(1,2) chain_join [of "list # ys" "[list]" h] chain_join [of "[list]" ys h] chain_join [of "[head]" "xs @ [head]" h] False
    by (simp_all add: holds_list_def)
  have ys: "ys = butlast ys @ [?l]" "ys = ?f # tl ys" using False by simp_all
  have y: "?l \<notin> set (butlast ys)" "?f \<notin> set (tl ys)" using d(1) ys by (metis distinct_append disjoint_insert(2) list.simps(15) inf_commute, metis distinct.simps(2))
  have x: "?at \<notin> set (tl (xs @ [head]))" using d(2) by (cases xs) auto
  have "chain ?h ys = chain h ys"
    using y in_xs assms(3) in_butlast_tl [of _ ys] by (intro chain_cong) auto
  moreover have "chain ?h (xs @ [head]) = chain h (xs @ [head])"
    using x d(2) in_ys assms(3) in_butlast_tl(2) [of _ "xs @ [head]"] by (intro chain_cong) auto
  moreover have "?l \<noteq> head" "?f \<noteq> ?at" using in_ys in_xs assms(3) by auto
  ultimately have "chain ?h (head # ys @ xs @ [head])"
    using c False chain_join [of "[head]" "ys @ xs @ [head]" ?h] chain_join [of ys "xs @ [head]" ?h] by auto
  then have hh: "holds_list ?h head (ys @ xs)" using d assms(3) by (auto simp: holds_list_def)
  obtain h2 where h2: "init_list_head list ?h = Inr h2" "holds_list h2 list []" "same_at (- {list}) ?h h2" using init_holds [of list ?h] by blast
  have "same_at (set (head # ys @ xs)) ?h h2" by (rule same_at_mono [OF h2(3)]) (use assms(3) d(3) in auto)
  from holds_same [OF this] have "holds_list h2 head (ys @ xs)" using hh by simp
  moreover have "list_splice_init list head h = Inr h2"
    using h2(1) list_empty_holds [OF assms(1)] False e by (simp add: list_splice_init_def list_splice_at_def Let_def)
  ultimately show ?thesis using h2(2) by blast
qed

lemma sort_pos_chain:
  "distinct (head # xs) \<Longrightarrow> chain h (a # xs @ [head]) \<Longrightarrow>
     sort_pos h head compare new (l_next h a) = Some (Inr (hd (dropWhile (\<lambda>x. compare x new < 0) xs @ [head])))"
proof (induction xs arbitrary: a)
  case Nil
  then show ?case by (simp add: sort_pos.simps)
next
  case (Cons x xs)
  then have "chain h (x # xs @ [head])" "l_next h a = Ptr x" "x \<noteq> head" by auto
  with Cons show ?case by (subst sort_pos.simps) simp
qed

lemma list_add_sort_parts:
  "list_add_sort compare new xs = takeWhile (\<lambda>x. compare x new < 0) xs @ new # dropWhile (\<lambda>x. compare x new < 0) xs"
  by (induction xs) auto

lemma list_add_sort_map: "map f (list_add_sort (\<lambda>a b. compare (f a) (f b)) new xs) = list_add_sort compare (f new) (map f xs)"
  by (induction xs) auto

lemma list_add_sort_holds:
  assumes "holds_list h head xs" and "new \<notin> set (head # xs)"
  shows "\<exists>h'. list_add_sort_links new head compare h = Some (Inr h') \<and> holds_list h' head (list_add_sort compare new xs)"
proof -
  let ?P = "\<lambda>x. compare x new < 0"
  have s: "sort_pos h head compare new (l_next h head) = Some (Inr (hd (dropWhile ?P xs @ [head])))"
    using assms(1) by (intro sort_pos_chain) (simp_all add: holds_list_def)
  have "\<exists>h'. list_add_tail new (hd (dropWhile ?P xs @ [head])) h = Inr h' \<and> holds_list h' head (list_add_sort compare new xs)"
  proof (cases "dropWhile ?P xs")
    case Nil
    then have t: "takeWhile ?P xs = xs" by (metis append_Nil2 takeWhile_dropWhile_id)
    then show ?thesis using list_add_tail_holds [OF assms] unfolding list_add_sort_parts Nil t by auto
  next
    case (Cons pos rest)
    then have x: "xs = takeWhile ?P xs @ pos # rest" by (metis takeWhile_dropWhile_id)
    have "holds_list h head (takeWhile ?P xs @ pos # rest)" "new \<notin> set (head # takeWhile ?P xs @ pos # rest)"
      using assms unfolding x [symmetric] .
    from list_add_before [OF this] show ?thesis using Cons by (auto simp: list_add_sort_parts)
  qed
  then show ?thesis using s by (auto simp: list_add_sort_links_def)
qed

section \<open>The interface the components use\<close>

text \<open>
  What a client of the lists relies on: appending and deleting, over what a head holds.  The two loops are those of the
  sources: entries appended one by one as they are read, and a list taken down with \<open>list_for_each_entry_safe\<close>.
\<close>

fun add_all :: "('a \<Rightarrow> 'a \<Rightarrow> 'm \<Rightarrow> 'm res) \<Rightarrow> 'a list \<Rightarrow> 'a \<Rightarrow> 'm \<Rightarrow> 'm res" where
  "add_all add [] head m = Inr m"
| "add_all add (n # ns) head m = bindE (add n head m) (add_all add ns head)"

fun del_all :: "('a \<Rightarrow> 'm \<Rightarrow> 'm res) \<Rightarrow> 'a list \<Rightarrow> 'm \<Rightarrow> 'm res" where
  "del_all del [] m = Inr m"
| "del_all del (e # es) m = bindE (del e m) (del_all del es)"

locale linked_seq =
  fixes holds :: "'m \<Rightarrow> 'a \<Rightarrow> 'a list \<Rightarrow> bool"
    and add :: "'a \<Rightarrow> 'a \<Rightarrow> 'm \<Rightarrow> 'm res"
    and del :: "'a \<Rightarrow> 'm \<Rightarrow> 'm res"
  assumes add_law: "holds m head xs \<Longrightarrow> n \<notin> set (head # xs) \<Longrightarrow> \<exists>m'. add n head m = Inr m' \<and> holds m' head (xs @ [n])"
    and del_law: "holds m head (xs @ e # ys) \<Longrightarrow> \<exists>m'. del e m = Inr m' \<and> holds m' head (xs @ ys)"
begin

lemma fill:
  "holds m head xs \<Longrightarrow> distinct (head # xs @ ns) \<Longrightarrow> \<exists>m'. add_all add ns head m = Inr m' \<and> holds m' head (xs @ ns)"
proof (induction ns arbitrary: m xs)
  case (Cons n ns)
  then obtain m1 where "add n head m = Inr m1" "holds m1 head (xs @ [n])" using add_law [of m head xs n] by auto
  with Cons(1) [of m1 "xs @ [n]"] Cons(3) show ?case by auto
qed auto

lemma drain: "holds m head xs \<Longrightarrow> \<exists>m'. del_all del xs m = Inr m' \<and> holds m' head []"
proof (induction xs arbitrary: m)
  case (Cons x xs)
  then obtain m1 where "del x m = Inr m1" "holds m1 head xs" using del_law [of m head "[]" x xs] by auto
  with Cons(1) show ?case by auto
qed simp

end

interpretation links: linked_seq holds_list list_add_tail list_del
proof
  fix m head xs and n :: 'a
  assume "holds_list m head xs" "n \<notin> set (head # xs)"
  then show "\<exists>m'. list_add_tail n head m = Inr m' \<and> holds_list m' head (xs @ [n])"
    using list_add_tail_holds [of m head xs n] by blast
next
  fix m head xs ys and e :: 'a
  assume "holds_list m head (xs @ e # ys)"
  then show "\<exists>m'. list_del e m = Inr m' \<and> holds_list m' head (xs @ ys)"
    using list_del_holds [of m head xs e ys] by blast
qed

text \<open>
  C23: the pointer operations do on the list of a head what their names say: whatever list a head holds, adding at the front
  and at the end, deleting, moving to the end and replacing an element succeed and leave the list with that change,
  and the loops over the list visit its elements in order and in reverse order.
\<close>

theorem links_refine_lists:
  assumes "holds_list h head (xs @ e # ys)" and "new \<notin> set (head # xs @ e # ys)"
  shows "(\<exists>h'. list_add new head h = Inr h' \<and> holds_list h' head (new # xs @ e # ys)) \<and>
    (\<exists>h'. list_add_tail new head h = Inr h' \<and> holds_list h' head (xs @ e # ys @ [new])) \<and>
    (\<exists>h'. list_del e h = Inr h' \<and> holds_list h' head (xs @ ys)) \<and>
    (\<exists>h'. list_move_tail e head h = Inr h' \<and> holds_list h' head (xs @ ys @ [e])) \<and>
    (\<exists>h'. list_replace e new h = Inr h' \<and> holds_list h' head (xs @ new # ys)) \<and>
    list_for_each h head (l_next h head) = Some (Inr (xs @ e # ys)) \<and>
    list_for_each_prev h head (l_prev h head) = Some (Inr (rev (xs @ e # ys)))"
proof (intro conjI)
  show "\<exists>h'. list_add new head h = Inr h' \<and> holds_list h' head (new # xs @ e # ys)"
    using list_add_holds [OF assms] by blast
  show "\<exists>h'. list_add_tail new head h = Inr h' \<and> holds_list h' head (xs @ e # ys @ [new])"
    using list_add_tail_holds [OF assms] by auto
  show "\<exists>h'. list_del e h = Inr h' \<and> holds_list h' head (xs @ ys)" using list_del_holds [OF assms(1)] by blast
qed (rule list_move_tail_holds [OF assms(1)] list_replace_holds [OF assms] list_for_each_holds [OF assms(1)]
    list_for_each_prev_holds [OF assms(1)])+

text \<open>Three heads of variables in a memory built by the operations themselves.\<close>

definition no_links :: "nat links" where
  "no_links = \<lparr>l_next = (\<lambda>_. Null), l_prev = (\<lambda>_. Null)\<rparr>"

definition demo_links :: "nat list \<Rightarrow> nat links res" where
  "demo_links ns = bindE (init_list_head 0 no_links) (add_all list_add_tail ns 0)"

lemma demo_links_hold: "distinct (0 # ns) \<Longrightarrow> \<exists>h. demo_links ns = Inr h \<and> holds_list h 0 ns"
proof -
  assume d: "distinct (0 # ns)"
  obtain h1 where "init_list_head 0 no_links = Inr h1" "holds_list h1 0 []" using init_holds [of 0 no_links] by blast
  with links.fill [of h1 0 "[]" ns] d show ?thesis by (simp add: demo_links_def)
qed

lemma links_refine_lists_witness:
  "\<exists>h h'. demo_links [1, 2, 3] = Inr h \<and> list_del 2 h = Inr h' \<and> holds_list h' 0 [1, 3]"
proof -
  obtain h where h: "demo_links [1, 2, 3] = Inr h" "holds_list h 0 ([1] @ 2 # [3])" using demo_links_hold [of "[1, 2, 3]"] by auto
  from links_refine_lists [OF h(2), of 4] h(1) show ?thesis by auto
qed

text \<open>
  C22: a variable inserted with \<open>list_add_sort\<close> into the linked list of a state ends up where the model of the state inserts it: the
  loop over the list afterwards visits the variables of \<open>state_add_var\<close>, in that order, and the pointer code returns for
  every list.
\<close>

theorem list_add_sort_refines:
  assumes "holds_list h head xs" and "new \<notin> set (head # xs)"
  shows "\<exists>h' zs. list_add_sort_links new head (\<lambda>a b. state_var_compare (var a) (var b)) h = Some (Inr h') \<and>
    holds_list h' head zs \<and> list_for_each h' head (l_next h' head) = Some (Inr zs) \<and>
    map var zs = state_add_var (map var xs) (var new)"
proof -
  obtain h' where h': "list_add_sort_links new head (\<lambda>a b. state_var_compare (var a) (var b)) h = Some (Inr h')"
      "holds_list h' head (list_add_sort (\<lambda>a b. state_var_compare (var a) (var b)) new xs)"
    using list_add_sort_holds [OF assms] by blast
  with list_for_each_holds [OF h'(2)] list_add_sort_map [of var state_var_compare new xs] show ?thesis
    unfolding state_add_var_def by blast
qed

lemma list_add_sort_refines_witness:
  "\<forall>v. \<exists>h h'. demo_links [1, 2] = Inr h \<and>
     list_add_sort_links 3 0 (\<lambda>a b. state_var_compare (v a) (v b)) h = Some (Inr h')"
proof
  fix v :: "nat \<Rightarrow> state_variable"
  obtain h where "demo_links [1, 2] = Inr h" "holds_list h 0 [1, 2]" using demo_links_hold [of "[1, 2]"] by auto
  with list_add_sort_refines [of h 0 "[1, 2]" 3 v]
  show "\<exists>h h'. demo_links [1, 2] = Inr h \<and> list_add_sort_links 3 0 (\<lambda>a b. state_var_compare (v a) (v b)) h = Some (Inr h')"
    by auto
qed

end
