(* ===== verification/Proc_Tree.thy ===== *)
theory Proc_Tree
  imports Fdt
begin

text \<open>
  Reading the device tree of the running system: \<open>scan_proc_dir\<close> and \<open>of_read_proc_devicetree\<close> of \<open>src/libdt.c\<close>.  The
  kernel shows a node as a directory, a property as a file.  The file system is a parameter, a tree in which every entry
  tells what \<open>stat\<close>, \<open>opendir\<close>, \<open>open\<close> and \<open>read\<close> do with it.
\<close>

section \<open>The file system\<close>

text \<open>
  A regular file has the size \<open>stat\<close> tells, and what a \<open>read\<close> of that many bytes delivers or the error of \<open>open\<close> or
  \<open>read\<close>; a directory the entries in the order of \<open>readdir\<close> or the error of \<open>opendir\<close>; \<open>Unknown\<close> is an entry
  \<open>stat\<close> fails on.
\<close>

datatype fs_entry =
  Regular nat "bytes res"
| Directory "(string \<times> fs_entry) list res"
| Special
| Unknown errno

section \<open>Reading a directory\<close>

definition proc_property :: "device_node \<Rightarrow> string \<Rightarrow> nat \<Rightarrow> bytes \<Rightarrow> device_node res" where
  "proc_property node d_name st_size got =
     (let buf = got @ replicate (st_size - length got) 0;
          node1 = of_new_property node d_name buf
      in if d_name = ''phandle''
         then (if length buf < 4 then Inl FAULT else Inr (set_phandle node1 (get_unaligned_be32 buf)))
         else Inr node1)"

text \<open>The result of reading a directory inside is not used; the new node stays as far as it was read.\<close>

fun scan_proc_dir :: "device_node \<Rightarrow> fs_entry \<Rightarrow> unit res \<times> device_node"
and scan_entries :: "device_node \<Rightarrow> (string \<times> fs_entry) list \<Rightarrow> unit res \<times> device_node" where
  "scan_proc_dir node (Directory (Inr entries)) = scan_entries node entries"
| "scan_proc_dir node (Directory (Inl e)) = (Inl e, node)"
| "scan_proc_dir node (Unknown e) = (Inl e, node)"
| "scan_proc_dir node (Regular _ _) = (Inl EINVAL, node)"
| "scan_proc_dir node Special = (Inl EINVAL, node)"
| "scan_entries node [] = (Inr (), node)"
| "scan_entries node ((d_name, f) # rest) =
     (if take 1 d_name = ''.'' then scan_entries node rest
      else case f of
        Unknown e \<Rightarrow> (Inl e, node)
      | Special \<Rightarrow> scan_entries node rest
      | Regular st_size (Inl e) \<Rightarrow> (Inl e, node)
      | Regular st_size (Inr got) \<Rightarrow>
          (case proc_property node d_name st_size got of
             Inl e \<Rightarrow> (Inl e, node) | Inr node1 \<Rightarrow> scan_entries node1 rest)
      | Directory _ \<Rightarrow>
          (case scan_proc_dir (new_child node d_name) f of
             (r, new) \<Rightarrow>
               let node1 = set_children node (dn_children node @ [new])
               in if r = Inl FAULT then (Inl FAULT, node1) else scan_entries node1 rest))"

text \<open>
  \<open>of_read_proc_devicetree\<close>: the blob of the firmware if there is one, else the two directories.  What the first one
  left in the root before its error is still there when the second is read.
\<close>

definition of_read_proc_devicetree :: "(string \<Rightarrow> bytes option) \<Rightarrow> (string \<Rightarrow> fs_entry) \<Rightarrow> device_node res" where
  "of_read_proc_devicetree read_file dir = (case read_file ''/sys/firmware/fdt'' of
     Some fdt \<Rightarrow> (case of_unflatten_dtb fdt of None \<Rightarrow> Inl FAULT | Some r \<Rightarrow> r)
   | None \<Rightarrow>
       (case scan_proc_dir of_new_root (dir ''/sys/firmware/devicetree/base'') of
          (Inr _, root) \<Rightarrow> Inr root
        | (Inl e, root) \<Rightarrow>
            if e = FAULT then Inl FAULT
            else (case scan_proc_dir root (dir ''/proc/device-tree'') of
                (Inr _, root1) \<Rightarrow> Inr root1 | (Inl e1, _) \<Rightarrow> Inl e1)))"

section \<open>What the kernel shows of a tree\<close>

fun proc_entry :: "device_node \<Rightarrow> fs_entry" where
  "proc_entry (Node n f h ps cs) = Directory (Inr
     (map (\<lambda>p. (pp_name p, Regular (pp_length p) (Inr (case pp_value p of None \<Rightarrow> [] | Some v \<Rightarrow> v)))) ps @
      map (\<lambda>c. (dn_name c, proc_entry c)) cs))"

text \<open>
  A tree as a booted kernel has it: names that are not hidden, the phandle of a node as its property tells it, full names
  made of the names, and a value for every property.
\<close>

definition phandle_of :: "property list \<Rightarrow> u32" where
  "phandle_of ps = foldl (\<lambda>h p. if pp_name p = ''phandle'' then (case pp_value p of None \<Rightarrow> h | Some v \<Rightarrow> get_unaligned_be32 v) else h) 0 ps"

definition shown_prop :: "property \<Rightarrow> bool" where
  "shown_prop p \<longleftrightarrow> take 1 (pp_name p) \<noteq> ''.'' \<and> (\<exists>v. pp_value p = Some v \<and> (pp_name p = ''phandle'' \<longrightarrow> 4 \<le> length v))"

fun kernel_tree :: "device_node \<Rightarrow> bool" where
  "kernel_tree (Node n f h ps cs) \<longleftrightarrow> (\<forall>p \<in> set ps. shown_prop p) \<and> h = phandle_of ps \<and>
     (\<forall>c \<in> set cs. take 1 (dn_name c) \<noteq> ''.'' \<and> dn_full_name c = f @ ''/'' @ dn_name c \<and> kernel_tree c)"

lemma scan_properties:
  "(\<forall>p \<in> set ps. shown_prop p) \<Longrightarrow>
     scan_entries (Node n f (phandle_of qs) qs []) (map (\<lambda>p. (pp_name p, Regular (pp_length p) (Inr (case pp_value p of None \<Rightarrow> [] | Some v \<Rightarrow> v)))) ps @ es) =
     scan_entries (Node n f (phandle_of (qs @ ps)) (qs @ ps) []) es"
proof (induction ps arbitrary: qs)
  case (Cons p ps)
  then obtain v where v: "pp_value p = Some v" "take 1 (pp_name p) \<noteq> ''.''" "pp_name p = ''phandle'' \<longrightarrow> 4 \<le> length v"
    by (auto simp: shown_prop_def)
  have l: "pp_length p = length v" by (simp add: pp_length_def v(1))
  have "proc_property (Node n f (phandle_of qs) qs []) (pp_name p) (length v) v = Inr (Node n f (phandle_of (qs @ [p])) (qs @ [p]) [])"
    using v by (cases p) (auto simp: proc_property_def of_new_property_def phandle_of_def Let_def)
  with Cons(1) [of "qs @ [p]"] Cons(2) v(2) show ?case by (simp add: v(1) l)
qed simp

lemma scan_children:
  assumes "\<And>c. c \<in> set cs \<Longrightarrow> take 1 (dn_name c) \<noteq> ''.'' \<and> dn_full_name c = f @ ''/'' @ dn_name c \<and>
    scan_proc_dir (Node (dn_name c) (dn_full_name c) 0 [] []) (proc_entry c) = (Inr (), c)"
  shows "scan_entries (Node n f h ps ds) (map (\<lambda>c. (dn_name c, proc_entry c)) cs) = (Inr (), Node n f h ps (ds @ cs))"
  using assms
proof (induction cs arbitrary: ds)
  case (Cons c cs)
  obtain e where e: "proc_entry c = Directory e" by (cases c) simp
  have "scan_entries (Node n f h ps (ds @ [c])) (map (\<lambda>c. (dn_name c, proc_entry c)) cs) = (Inr (), Node n f h ps ((ds @ [c]) @ cs))"
    by (rule Cons(1), rule Cons(2)) simp
  moreover have "take 1 (dn_name c) \<noteq> ''.''" "scan_proc_dir (new_child (Node n f h ps ds) (dn_name c)) (Directory e) = (Inr (), c)"
    using Cons(2) [of c] e by (auto simp: new_child_def)
  ultimately show ?case by (simp add: e)
qed simp

lemma scan_kernel_tree:
  "kernel_tree t \<Longrightarrow> scan_proc_dir (Node (dn_name t) (dn_full_name t) 0 [] []) (proc_entry t) = (Inr (), t)"
proof (induction t)
  case (Node n f h ps cs)
  have "scan_entries (Node n f h ps []) (map (\<lambda>c. (dn_name c, proc_entry c)) cs) = (Inr (), Node n f h ps cs)"
    using scan_children [of cs f n h ps "[]"] Node by simp
  moreover have "phandle_of [] = 0" by (simp add: phandle_of_def)
  ultimately show ?case
    using scan_properties [of ps n f "[]" "map (\<lambda>c. (dn_name c, proc_entry c)) cs"] Node(2) by simp
qed


definition kernel_demo :: device_node where
  "kernel_demo = Node [] [] 0 [\<lparr>pp_name = ''model'', pp_value = Some [0x61, 0]\<rparr>]
     [Node ''gpio'' ''/gpio'' 7 [\<lparr>pp_name = ''phandle'', pp_value = Some [0, 0, 0, 7]\<rparr>] []]"


end
