(* ===== verification/Dt_Print.thy ===== *)
theory Dt_Print
  imports Proc_Tree C_Text
begin

text \<open>
  Printing a device tree as source text: \<open>is_printable_string\<close>, \<open>of_print_property\<close> and \<open>of_print_nodes\<close> of
  \<open>src/libdt.c\<close>, and the program \<open>fdtdump\<close>, \<open>src/fdtdump.c\<close>.  What is printed is a string.
\<close>

section \<open>Values\<close>

definition isprint :: "u8 \<Rightarrow> bool" where
  "isprint c \<longleftrightarrow> 32 \<le> c \<and> c \<le> 126"

text \<open>The loop over the characters left; the end of the data is only reached behind its last byte.\<close>

fun printable_loop :: "bytes \<Rightarrow> bool res" where
  "printable_loop [] = Inl FAULT"
| "printable_loop (c # rest) =
     (if c = 0 then
        (if rest = [] then Inr True
         else if hd rest = 0 then Inr False
         else printable_loop rest)
      else if isprint c then printable_loop rest
      else Inr False)"

definition is_printable_string :: "bytes \<Rightarrow> bool res" where
  "is_printable_string data =
     (if data = [] then Inr False
      else if last data \<noteq> 0 then Inr False
      else printable_loop data)"

definition quote :: string where
  "quote = [CHR 0x22]"

text \<open>\<open>data\<close> is what is left behind the strings printed so far.\<close>

function print_strings :: "bool \<Rightarrow> bytes \<Rightarrow> string" where
  "print_strings later data =
     (if data = [] then []
      else (if later then quote @ '', '' @ quote else []) @ cstr_at data @ print_strings True (drop (strnlen data + 1) data))"
  by pat_completeness auto
termination by (relation "measure (\<lambda>(later, data). length data)") auto

declare print_strings.simps [simp del]

fun join :: "string \<Rightarrow> string list \<Rightarrow> string" where
  "join sep [] = []"
| "join sep [s] = s"
| "join sep (s # t # ss) = s @ sep @ join sep (t # ss)"

definition of_print_property :: "bytes \<Rightarrow> string res" where
  "of_print_property data =
     (if data = [] then Inr []
      else bindE (is_printable_string data) (\<lambda>printable. Inr
        (if printable then quote @ print_strings False data @ quote
         else if length data mod 4 = 0
         then ''<'' @ join '' '' (map (\<lambda>v. ''0x'' @ print_x (uint v)) (be32_cells data)) @ ''>''
         else ''['' @ join '' '' (map print_02x data) @ '']'')))"

section \<open>Nodes\<close>

definition tabs :: "nat \<Rightarrow> string" where
  "tabs indent = replicate indent (CHR 0x09)"

definition print_property_line :: "nat \<Rightarrow> property \<Rightarrow> string res" where
  "print_property_line indent p =
     bindE (if pp_length p = 0 then Inr [] else bindE (of_print_property (case pp_value p of None \<Rightarrow> [] | Some v \<Rightarrow> v)) (\<lambda>t. Inr ('' = '' @ t)))
       (\<lambda>t. Inr (tabs (indent + 1) @ pp_name p @ t @ '';'' @ newline))"

fun concat_res :: "string res list \<Rightarrow> string res" where
  "concat_res [] = Inr []"
| "concat_res (r # rs) = bindE r (\<lambda>s. bindE (concat_res rs) (\<lambda>t. Inr (s @ t)))"

fun of_print_nodes :: "device_node \<Rightarrow> nat \<Rightarrow> string res" where
  "of_print_nodes (Node n f h ps cs) indent =
     bindE (concat_res (map (print_property_line indent) ps)) (\<lambda>props.
     bindE (concat_res (map (\<lambda>c. of_print_nodes c (indent + 1)) cs)) (\<lambda>children.
       Inr (tabs indent @ n @ '' {'' @ newline @ props @ children @ tabs indent @ ''};'' @ newline)))"

text \<open>\<open>fdtdump\<close> prints the tree in a file, or the one of the running system; the messages go to the error output.\<close>

definition fdtdump :: "(string \<Rightarrow> bytes option) \<Rightarrow> (string \<Rightarrow> fs_entry) \<Rightarrow> string list \<Rightarrow> (nat \<times> string) res" where
  "fdtdump read_file dir argv =
     (let print = (\<lambda>root. bindE (of_print_nodes root 0) (\<lambda>text. Inr (0, ''/dts-v1/;'' @ newline @ ''/'' @ text)))
      in case (case argv of
           [] \<Rightarrow> of_read_proc_devicetree read_file dir
         | dtbfile # _ \<Rightarrow> (case read_file dtbfile of
               None \<Rightarrow> Inl ENOENT
             | Some fdt \<Rightarrow> (case of_unflatten_dtb fdt of None \<Rightarrow> Inl FAULT | Some r \<Rightarrow> r))) of
           Inl e \<Rightarrow> if e = FAULT then Inl FAULT else Inr (1, [])
         | Inr root \<Rightarrow> print root)"

section \<open>What is printed as strings\<close>

definition printable :: "bytes \<Rightarrow> bool" where
  "printable data \<longleftrightarrow> data \<noteq> [] \<and> last data = 0 \<and> (\<forall>c \<in> set data. c = 0 \<or> isprint c) \<and>
     (\<forall>i. Suc i < length data \<longrightarrow> \<not> (data ! i = 0 \<and> data ! Suc i = 0))"

lemma printable_loop_spec:
  "data \<noteq> [] \<Longrightarrow> last data = 0 \<Longrightarrow> printable_loop data = Inr (printable data)"
proof (induction data rule: printable_loop.induct)
  case (2 c rest)
  show ?case
  proof (cases rest)
    case Nil
    with 2 show ?thesis by (simp add: printable_def)
  next
    case (Cons d ds)
    then have l: "rest \<noteq> []" "last rest = 0" using 2(4) by simp_all
    have "printable (c # rest) \<longleftrightarrow> (c = 0 \<or> isprint c) \<and> \<not> (c = 0 \<and> d = 0) \<and> printable rest"
      using l Cons by (auto simp: printable_def nth_Cons split: nat.splits)
    with 2(1,2) l Cons show ?thesis by auto
  qed
qed simp

text \<open>Printing reads nothing outside the value, and the strings of a list come out one by one.\<close>

lemma is_printable_string_spec: "is_printable_string data = Inr (printable data)"
  using printable_loop_spec [of data] by (auto simp: is_printable_string_def printable_def)

lemma of_print_property_total: "\<exists>text. of_print_property data = Inr text"
  by (simp add: of_print_property_def is_printable_string_spec)

lemma of_print_nodes_total: "\<exists>text. of_print_nodes t indent = Inr text"
proof (induction t arbitrary: indent)
  case (Node n f h ps cs)
  have c: "\<exists>text. concat_res rs = Inr text" if "\<forall>r \<in> set rs. \<exists>s. r = Inr s" for rs
    using that by (induction rs) fastforce+
  have "\<exists>s. print_property_line indent p = Inr s" for p
    using of_print_property_total [of "case pp_value p of None \<Rightarrow> [] | Some v \<Rightarrow> v"] by (auto simp: print_property_line_def)
  then have "\<forall>r \<in> set (map (print_property_line indent) ps). \<exists>s. r = Inr s" by auto
  moreover have "\<forall>r \<in> set (map (\<lambda>c. of_print_nodes c (indent + 1)) cs). \<exists>s. r = Inr s" using Node by auto
  ultimately obtain s1 s2 where "concat_res (map (print_property_line indent) ps) = Inr s1"
      "concat_res (map (\<lambda>c. of_print_nodes c (indent + 1)) cs) = Inr s2"
    using c [of "map (print_property_line indent) ps"] c [of "map (\<lambda>c. of_print_nodes c (indent + 1)) cs"] by blast
  then show ?case by simp
qed

end
