(* ===== verification/Common.thy ===== *)
theory Common
  imports Medium
begin

text \<open>
  The helpers of \<open>src/dt/common.h\<close> the program is built on: errors kept in pointers, strings that are copied into
  buffers, alignment, the name of a device and whole files.  The byte order helpers are in \<open>DT_Prelude\<close>, the reading
  and writing of descriptors in \<open>Medium\<close>.
\<close>

section \<open>Errors in pointers\<close>

text \<open>A pointer is an \<open>unsigned long\<close>; the last 4095 values are errors.\<close>

definition ERR_PTR :: "int \<Rightarrow> u64" where
  "ERR_PTR error = word_of_int error"

definition PTR_ERR :: "u64 \<Rightarrow> int" where
  "PTR_ERR ptr = sint ptr"

definition IS_ERR_VALUE :: "u64 \<Rightarrow> bool" where
  "IS_ERR_VALUE x \<longleftrightarrow> - 4095 \<le> x"

definition IS_ERR_OR_NULL :: "u64 \<Rightarrow> bool" where
  "IS_ERR_OR_NULL ptr \<longleftrightarrow> ptr = 0 \<or> IS_ERR_VALUE ptr"

text \<open>The result is an \<open>int\<close>.\<close>

definition PTR_ERR_OR_ZERO :: "u64 \<Rightarrow> int" where
  "PTR_ERR_OR_ZERO ptr = (if IS_ERR_VALUE ptr then signed_take_bit 31 (PTR_ERR ptr) else 0)"

text \<open>
  The errors are exactly the values \<open>ERR_PTR\<close> gives for \<open>-errno\<close>, and \<open>PTR_ERR\<close> gives the number back: this is what
  lets the development use a sum type for a pointer that may be an error.
\<close>

lemma uint_ERR_PTR:
  assumes "1 \<le> e" and "e \<le> 4095"
  shows "uint (ERR_PTR (- e)) = 2 ^ 64 - e"
proof -
  have "uint (ERR_PTR (- e)) = (- e) mod 2 ^ 64"
    unfolding ERR_PTR_def by (simp add: unsigned_of_int take_bit_eq_mod del: of_int_minus)
  also have "\<dots> = (2 ^ 64 - e) mod 2 ^ 64" by (simp add: mod_diff_left_eq [symmetric])
  also have "\<dots> = 2 ^ 64 - e" using assms by (intro mod_pos_pos_trivial) simp_all
  finally show ?thesis .
qed

lemma uint_err_limit: "uint (- 4095 :: u64) = 2 ^ 64 - 4095"
  by simp

lemma IS_ERR_iff: "IS_ERR_VALUE p \<longleftrightarrow> (\<exists>e. 1 \<le> e \<and> e \<le> 4095 \<and> p = ERR_PTR (- e))"
proof
  assume "IS_ERR_VALUE p"
  then have "2 ^ 64 - 4095 \<le> uint p" by (simp add: IS_ERR_VALUE_def word_le_def)
  moreover have "uint p < 2 ^ 64" using unsigned_less [of p, where ?'a = int] by simp
  moreover have "p = ERR_PTR (- (2 ^ 64 - uint p))" by (simp add: ERR_PTR_def)
  ultimately show "\<exists>e. 1 \<le> e \<and> e \<le> 4095 \<and> p = ERR_PTR (- e)" by (intro exI [of _ "2 ^ 64 - uint p"]) simp
next
  assume "\<exists>e. 1 \<le> e \<and> e \<le> 4095 \<and> p = ERR_PTR (- e)"
  then obtain e where "1 \<le> e" "e \<le> 4095" "p = ERR_PTR (- e)" by blast
  then have "uint p = 2 ^ 64 - e" "e \<le> 4095" using uint_ERR_PTR by auto
  then show "IS_ERR_VALUE p" by (simp add: IS_ERR_VALUE_def word_le_def)
qed

lemma PTR_ERR_back:
  assumes "1 \<le> e" and "e \<le> 4095"
  shows "PTR_ERR (ERR_PTR (- e)) = - e" and "PTR_ERR_OR_ZERO (ERR_PTR (- e)) = - e"
proof -
  show p: "PTR_ERR (ERR_PTR (- e)) = - e"
    using assms by (simp add: PTR_ERR_def ERR_PTR_def signed_of_int signed_take_bit_int_eq_self del: of_int_minus)
  have "IS_ERR_VALUE (ERR_PTR (- e))" using assms IS_ERR_iff by blast
  with p assms show "PTR_ERR_OR_ZERO (ERR_PTR (- e)) = - e"
    by (simp add: PTR_ERR_OR_ZERO_def signed_take_bit_int_eq_self)
qed

section \<open>Strings\<close>

text \<open>\<open>DT_strlcpy\<close>: the length of the source, and the destination; a copy that leaves the buffer is a fault.\<close>

definition DT_strlcpy :: "bytes \<Rightarrow> string \<Rightarrow> nat \<Rightarrow> (nat \<times> bytes) res" where
  "DT_strlcpy dest src sz =
     (let ret = length src
      in if sz = 0 then Inr (ret, dest)
         else let len = (if sz \<le> ret then sz - 1 else ret)
              in if length dest < len + 1 then Inl FAULT
                 else Inr (ret, mem_put dest 0 (str_bytes (take len src) @ [0])))"

text \<open>The destination is a string again, cut where there is no room, and the result tells whether it was cut.\<close>

lemma DT_strlcpy_spec:
  assumes "sz \<le> length dest" and "0 < sz" and "nul_free src"
  shows "\<exists>d. DT_strlcpy dest src sz = Inr (length src, d) \<and> length d = length dest \<and> cstr_at d = take (sz - 1) src
    \<and> (cstr_at d = src \<longleftrightarrow> length src < sz)"
proof -
  let ?t = "take (sz - 1) src"
  have t: "(if sz \<le> length src then sz - 1 else length src) = length ?t" using assms(2) by auto
  have t2: "take (length ?t) src = ?t" by (metis append_eq_conv_conj append_take_drop_id)
  have l: "length ?t + 1 \<le> length dest" using assms(1,2) by (simp add: min_def) linarith
  have "nul_free ?t" using assms(3) by (auto simp: nul_free_def dest: in_set_takeD)
  then have "cstr_at (str_bytes ?t @ 0 # r) = ?t" for r by (subst cstr_at_append_nul) simp_all
  moreover have "mem_put dest 0 (str_bytes ?t @ [0]) = str_bytes ?t @ 0 # drop (length ?t + 1) dest"
    using l mem_put_fits [of 0 "str_bytes ?t @ [0]" dest] by (simp del: length_take)
  ultimately have "cstr_at (mem_put dest 0 (str_bytes ?t @ [0])) = ?t" by (simp only:)
  moreover have "?t = src \<longleftrightarrow> length src < sz" using assms(2) by (auto simp: take_all_iff)
  moreover have "DT_strlcpy dest src sz = Inr (length src, mem_put dest 0 (str_bytes ?t @ [0]))"
    unfolding DT_strlcpy_def Let_def t t2 using assms(2) l by (simp del: length_take)
  ultimately show ?thesis by simp
qed

text \<open>\<open>xstrndup\<close>: \<open>m\<close> is an \<open>int\<close>, which counts down from \<open>n\<close>.\<close>

fun strndup_left :: "int \<Rightarrow> string \<Rightarrow> int" where
  "strndup_left m [] = m"
| "strndup_left m (c # t) = (if m = 0 then 0 else strndup_left (m - 1) t)"

definition xstrndup :: "string \<Rightarrow> u64 \<Rightarrow> string res" where
  "xstrndup s n =
     (let n1 = n - word_of_int (strndup_left (signed_take_bit 31 (uint n)) s)
      in if unat n1 \<le> length s then Inr (take (unat n1) s) else Inl FAULT)"

lemma strndup_left_value: "strndup_left (int m) s = int m - int (min m (length s))"
proof (induction s arbitrary: m)
  case (Cons c s)
  show ?case
  proof (cases m)
    case (Suc k)
    with Cons [of k] show ?thesis by simp
  qed simp
qed simp

lemma xstrndup_take:
  assumes "unat n < 2 ^ 31"
  shows "xstrndup s n = Inr (take (unat n) s)"
proof -
  have "uint n < 2 ^ 31" using assms by (metis of_nat_less_iff of_nat_numeral of_nat_power of_nat_unat)
  then have "signed_take_bit 31 (uint n) = int (unat n)"
    using signed_take_bit_int_eq_self [of 31 "uint n"] unsigned_greater_eq [of n, where ?'a = int] by simp
  then have "strndup_left (signed_take_bit 31 (uint n)) s = int (unat n) - int (min (unat n) (length s))"
    using strndup_left_value by metis
  then have "n - word_of_int (strndup_left (signed_take_bit 31 (uint n)) s) = word_of_nat (min (unat n) (length s))"
    by simp
  moreover have "unat (word_of_nat (min (unat n) (length s)) :: u64) = min (unat n) (length s)"
    using assms by (simp add: unsigned_of_nat take_bit_nat_eq_self)
  ultimately show ?thesis by (simp add: xstrndup_def Let_def min_def)
qed

section \<open>Alignment\<close>

definition ALIGN :: "'a::len word \<Rightarrow> 'a word \<Rightarrow> 'a word" where
  "ALIGN x a = (x + (a - 1)) AND NOT (a - 1)"

definition IS_ALIGNED :: "'a::len word \<Rightarrow> 'a word \<Rightarrow> bool" where
  "IS_ALIGNED x a \<longleftrightarrow> x AND (a - 1) = 0"

text \<open>For a power of two, and where nothing wraps: the least multiple that is not below.\<close>

lemma ALIGN_value:
  fixes x :: "'a::len word"
  assumes "k < LENGTH('a)" and "unat x + (2 ^ k - 1) < 2 ^ LENGTH('a)"
  shows "unat (ALIGN x (2 ^ k)) = (unat x + (2 ^ k - 1)) div 2 ^ k * 2 ^ k"
proof -
  let ?y = "x + mask k"
  have "unat (mask k :: 'a word) = 2 ^ k - 1"
  proof -
    have "(mask k :: 'a word) = word_of_nat (mask k)" by (simp add: of_nat_mask_eq)
    moreover have "(mask k :: nat) < 2 ^ LENGTH('a)"
      using assms(1) power_strict_increasing [of k "LENGTH('a)" "2 :: nat"] by (simp add: mask_eq_exp_minus_1 less_imp_diff_less)
    ultimately have "unat (mask k :: 'a word) = mask k" by (metis unsigned_of_nat take_bit_nat_eq_self of_nat_id)
    then show ?thesis by (simp only: mask_eq_exp_minus_1)
  qed
  then have y: "unat ?y = unat x + (2 ^ k - 1)" using assms(2) by (simp add: unat_word_ariths)
  have "ALIGN x (2 ^ k) = push_bit k (drop_bit k ?y)"
    unfolding ALIGN_def mask_eq_exp_minus_1 [symmetric] by (rule bit_word_eqI) (auto simp: bit_simps)
  then have "unat (ALIGN x (2 ^ k)) = take_bit LENGTH('a) (unat ?y div 2 ^ k * 2 ^ k)"
    by (simp only: unsigned_push_bit_eq unsigned_drop_bit_eq) (simp add: push_bit_eq_mult drop_bit_eq_div take_bit_nat_eq_self)
  moreover have "unat ?y div 2 ^ k * 2 ^ k < 2 ^ LENGTH('a)"
    using unsigned_less [of ?y, where ?'a = nat] div_times_less_eq_dividend [of "unat ?y" "2 ^ k"] by linarith
  ultimately show ?thesis by (simp add: take_bit_nat_eq_self y)
qed

section \<open>Device names\<close>

text \<open>
  \<open>dev_set_name\<close> for a text without conversions: what \<open>vsnprintf\<close> would write is copied without its NUL, so that
  more of a longer name stays.
\<close>

definition dev_set_name :: "bytes \<Rightarrow> string \<Rightarrow> bytes" where
  "dev_set_name name fmt = (mem_put name 0 (str_bytes (take 31 fmt)))[31 := 0]"

lemma dev_set_name_fresh: "nul_free s \<Longrightarrow> cstr_at (dev_set_name (replicate 32 0) s) = take 31 s"
proof -
  assume s: "nul_free s"
  let ?t = "str_bytes (take 31 s)" and ?n = "32 - length (take 31 s)"
  have l: "length ?t \<le> 31" by simp
  have "mem_put (replicate 32 0) 0 ?t = ?t @ replicate ?n 0"
    using l mem_put_fits [of 0 ?t "replicate 32 0"] by (simp del: length_take)
  moreover have "replicate ?n 0 = (0 :: u8) # replicate (31 - length (take 31 s)) 0"
    using l by (simp add: Suc_diff_le numeral_eq_Suc del: length_take replicate_Suc flip: replicate_Suc)
  ultimately have "dev_set_name (replicate 32 0) s = (?t @ 0 # replicate (31 - length (take 31 s)) 0)[31 := 0]"
    by (simp only: dev_set_name_def)
  also have "\<dots> = ?t @ 0 # replicate (31 - length (take 31 s)) 0"
    by (rule nth_equalityI) (auto simp: nth_list_update nth_append nth_Cons split: nat.split)
  finally show ?thesis using s by (simp only:) (subst cstr_at_append_nul, auto simp: nul_free_def dest: in_set_takeD)
qed

lemma dev_set_name_again: "cstr_at (dev_set_name (dev_set_name (replicate 32 0) ''state'') ''a'') = ''atate''"
  by code_simp

section \<open>Files that are read in pieces\<close>

text \<open>
  \<open>read_file\<close>: the whole file and a NUL, or a null pointer.  The number of bytes \<open>read_full\<close> returns is an \<open>int\<close>, so
  that a file of 2 GiB or more looks incomplete.
\<close>

definition read_file :: "medium \<Rightarrow> bytes option \<times> medium" where
  "read_file m = (case sys_simple m of
     (Inl e, m1) \<Rightarrow> (None, m1)
   | (Inr _, m1) \<Rightarrow> (case sys_simple m1 of
       (Inl e, m2) \<Rightarrow> (None, m2)
     | (Inr _, m2) \<Rightarrow> (case read_full m2 0 (length (m_bytes m)) [] of
           (Inl e, m3) \<Rightarrow> (None, m3)
         | (Inr bs, m3) \<Rightarrow>
             (if length bs < length (m_bytes m) \<or> 2 ^ 31 \<le> length bs then (None, m3) else (Some (bs @ [0]), m3)))))"

text \<open>A script of calls that do their work, possibly in parts.\<close>

definition obliging :: "medium \<Rightarrow> bool" where
  "obliging m \<longleftrightarrow> (\<forall>x \<in> set (m_script m). x = Io_ok \<or> (\<exists>k. x = Io_part k))"

lemma next_io_obliging:
  "obliging m \<Longrightarrow> \<exists>x m'. next_io m = (x, m') \<and> (x = Io_ok \<or> (\<exists>k. x = Io_part k)) \<and> obliging m' \<and> m_bytes m' = m_bytes m"
  by (auto simp: next_io_def obliging_def split: list.splits)

lemma sys_simple_obliging:
  "obliging m \<Longrightarrow> \<exists>m'. sys_simple m = (Inr (), m') \<and> obliging m' \<and> m_bytes m' = m_bytes m"
  using next_io_obliging [of m] by (auto simp: sys_simple_def)

lemma sys_read_obliging:
  assumes "obliging m" and "0 < n"
  shows "\<exists>k m'. sys_read m pos n = (Inr (take k (drop pos (m_bytes m))), m') \<and> 0 < k \<and> k \<le> n \<and> obliging m' \<and> m_bytes m' = m_bytes m"
proof -
  obtain x m' where x: "next_io m = (x, m')" "x = Io_ok \<or> (\<exists>k. x = Io_part k)" "obliging m'" "m_bytes m' = m_bytes m"
    using next_io_obliging [OF assms(1)] by blast
  from x(2) show ?thesis
  proof (elim disjE exE)
    assume "x = Io_ok"
    with x assms(2) show ?thesis by (intro exI [of _ n] exI [of _ m']) (simp add: sys_read_def)
  next
    fix k assume "x = Io_part k"
    with x assms(2) show ?thesis by (intro exI [of _ "min n (Suc k)"] exI [of _ m']) (simp add: sys_read_def)
  qed
qed

lemma read_full_obliging:
  assumes "obliging m"
  shows "\<exists>m'. read_full m pos n acc = (Inr (acc @ take n (drop pos (m_bytes m))), m') \<and> obliging m' \<and> m_bytes m' = m_bytes m"
  using assms
proof (induction m pos n acc rule: read_full.induct)
  case (1 m pos n acc)
  show ?case
  proof (cases "n = 0")
    case False
    then obtain k m1 where r: "sys_read m pos n = (Inr (take k (drop pos (m_bytes m))), m1)"
        "0 < k" "k \<le> n" "obliging m1" "m_bytes m1 = m_bytes m"
      using sys_read_obliging [OF 1(2), of n pos] by auto
    let ?b = "take k (drop pos (m_bytes m))"
    show ?thesis
    proof (cases "?b = []")
      case True
      then have "drop pos (m_bytes m) = []" using r(2) by auto
      with False r True show ?thesis by (simp add: read_full.simps [of m pos n acc])
    next
      case nonempty: False
      have "take k (drop pos (m_bytes m)) = take k (take n (drop pos (m_bytes m)))" using r(3) by (simp add: take_take)
      then have "?b = take (length ?b) (take n (drop pos (m_bytes m)))"
        by (metis length_take take_all_iff take_take nle_le min.idem append_eq_conv_conj append_take_drop_id)
      then have w: "?b @ drop (length ?b) (take n (drop pos (m_bytes m))) = take n (drop pos (m_bytes m))"
        by (metis append_take_drop_id)
      have "take (n - length ?b) (drop (pos + length ?b) (m_bytes m1)) = drop (length ?b) (take n (drop pos (m_bytes m)))"
        by (simp add: r(5) drop_take add.commute)
      with 1(1) [OF False r(1) [symmetric] refl nonempty r(4)] r(1,5) False nonempty w show ?thesis
        by (simp add: read_full.simps [of m pos n acc])
    qed
  qed (use 1 in \<open>simp add: read_full.simps\<close>)
qed

text \<open>Short reads do not matter to \<open>read_file\<close>: a file below 2 GiB is read as a whole.\<close>

lemma read_file_whole:
  assumes "obliging m" and "length (m_bytes m) < 2 ^ 31"
  shows "\<exists>m'. read_file m = (Some (m_bytes m @ [0]), m')"
proof -
  obtain m1 where m1: "sys_simple m = (Inr (), m1)" "obliging m1" "m_bytes m1 = m_bytes m"
    using sys_simple_obliging [OF assms(1)] by blast
  obtain m2 where m2: "sys_simple m1 = (Inr (), m2)" "obliging m2" "m_bytes m2 = m_bytes m1"
    using sys_simple_obliging [OF m1(2)] by blast
  obtain m3 where "read_full m2 0 (length (m_bytes m)) [] = (Inr (m_bytes m), m3)"
    using read_full_obliging [OF m2(2), of 0 "length (m_bytes m)" "[]"] m2(3) m1(3) by auto
  with m1(1) m2(1) assms(2) show ?thesis by (simp add: read_file_def)
qed

text \<open>A file of 2 GiB or more is never delivered.\<close>

lemma read_file_huge: "2 ^ 31 \<le> length (m_bytes m) \<Longrightarrow> fst (read_file m) = None"
  by (auto simp: read_file_def split: prod.split sum.split)

end
