(* ===== verification/Digest_File.thy ===== *)
theory Digest_File
  imports Digest Common
begin

text \<open>
  The digest of a file and the digests by number, \<open>src/crypto/digest.c\<close>: \<open>digest_file_window\<close>, \<open>digest_file\<close>,
  \<open>digest_file_by_name\<close>, \<open>digest_algo_get_by_algo\<close>, \<open>digest_alloc_by_algo\<close> and \<open>digest_algo_unregister\<close>.  The
  file is a device of the theory \<open>Medium\<close>; \<open>memmap\<close> of \<open>src/dt/common.h\<close> always fails, so the file is read.
\<close>

section \<open>Algorithms by number\<close>

datatype hash_algo =
    HASH_ALGO_MD4 | HASH_ALGO_MD5 | HASH_ALGO_SHA1 | HASH_ALGO_RIPE_MD_160 | HASH_ALGO_SHA224 | HASH_ALGO_SHA256
  | HASH_ALGO_SHA384 | HASH_ALGO_SHA512 | HASH_ALGO_RIPE_MD_128 | HASH_ALGO_RIPE_MD_256 | HASH_ALGO_RIPE_MD_320
  | HASH_ALGO_WP_256 | HASH_ALGO_WP_384 | HASH_ALGO_WP_512 | HASH_ALGO_TGR_128 | HASH_ALGO_TGR_160 | HASH_ALGO_TGR_192

text \<open>The member \<open>base.algo\<close>: the HMACs leave it at 0, the number of MD4.\<close>

definition base_algo :: "digest_algo \<Rightarrow> hash_algo" where
  "base_algo a = (case alg_ops a of
     Ops_hash Ops_sha1 \<Rightarrow> HASH_ALGO_SHA1 | Ops_hash Ops_sha224 \<Rightarrow> HASH_ALGO_SHA224
   | Ops_hash Ops_sha256 \<Rightarrow> HASH_ALGO_SHA256 | Ops_hmac _ _ \<Rightarrow> HASH_ALGO_MD4)"

fun get_by_algo_loop :: "hash_algo \<Rightarrow> digest_algo list \<Rightarrow> digest_algo option \<Rightarrow> int \<Rightarrow> digest_algo option" where
  "get_by_algo_loop algo [] d priority = d"
| "get_by_algo_loop algo (tmp # rest) d priority =
     (if base_algo tmp \<noteq> algo then get_by_algo_loop algo rest d priority
      else if alg_priority tmp \<le> priority then get_by_algo_loop algo rest d priority
      else get_by_algo_loop algo rest (Some tmp) (alg_priority tmp))"

definition digest_algo_get_by_algo :: "digest_algo list \<Rightarrow> hash_algo \<Rightarrow> digest_algo option" where
  "digest_algo_get_by_algo ds algo = get_by_algo_loop algo ds None (- 1)"

definition digest_alloc_by_algo :: "digest_algo list \<Rightarrow> hash_algo \<Rightarrow> digest option" where
  "digest_alloc_by_algo ds algo = (case digest_algo_get_by_algo ds algo of
     None \<Rightarrow> None
   | Some a \<Rightarrow> (case alg_ops a of
         Ops_hash h \<Rightarrow> Some \<lparr>d_algo = a, d_ctx = Ctx_hash (hash_zero_ctx h), d_length = 0\<rparr>
       | Ops_hmac n p \<Rightarrow> (case digest_hmac_alloc ds a n p of Inl _ \<Rightarrow> None | Inr d \<Rightarrow> Some d)))"

definition digest_algo_unregister :: "digest_algo list \<Rightarrow> digest_algo \<Rightarrow> digest_algo list" where
  "digest_algo_unregister ds d = remove1 d ds"

text \<open>The hashes are found by their number; the number of MD4, which the program does not have, finds an HMAC.\<close>

lemma digest_alloc_by_algo_values:
  "digest_alloc_by_algo digests HASH_ALGO_SHA1 = digest_alloc digests (Some ''sha1'')"
  "digest_alloc_by_algo digests HASH_ALGO_SHA224 = digest_alloc digests (Some ''sha224'')"
  "digest_alloc_by_algo digests HASH_ALGO_SHA256 = digest_alloc digests (Some ''sha256'')"
  "digest_alloc_by_algo digests HASH_ALGO_MD5 = None"
  "digest_alloc_by_algo digests HASH_ALGO_MD4 = digest_alloc digests (Some ''hmac(sha1)'')"
  by (simp_all add: digest_alloc_by_algo_def digest_alloc_def digest_algo_get_by_algo_def registry_simps base_algo_def hmac_algo_def)

section \<open>The digest of a file\<close>

text \<open>The loop over the file at the position \<open>pos\<close>; \<open>left\<close> is \<open>size\<close>.  A \<open>read\<close> that returns nothing ends it.\<close>

function window_loop :: "digest \<Rightarrow> medium \<Rightarrow> nat \<Rightarrow> nat \<Rightarrow> digest res \<times> medium" where
  "window_loop d m pos left =
     (if left = 0 then (Inr d, m)
      else (case sys_read m pos (min 4096 left) of
          (Inl e, m1) \<Rightarrow> (Inl e, m1)
        | (Inr buf, m1) \<Rightarrow>
            if buf = [] then (Inr d, m1)
            else (case digest_update d buf of
                Inl e \<Rightarrow> (Inl e, m1)
              | Inr d1 \<Rightarrow> window_loop d1 m1 (pos + length buf) (left - length buf))))"
  by pat_completeness auto
termination
  by (relation "measure (\<lambda>(d, m, pos, left). left)") auto

declare window_loop.simps [simp del]

text \<open>
  \<open>lseek\<close>: a position is a signed number of 64 bits; its result is put into an \<open>int\<close> before it is compared
  with \<open>-1\<close>.
\<close>

definition window_seek :: "medium \<Rightarrow> u64 \<Rightarrow> unit res \<times> medium" where
  "window_seek m start =
     (if start = 0 then (Inr (), m)
      else (case sys_simple m of
          (Inl e, m1) \<Rightarrow> (Inl EPERM, m1)
        | (Inr _, m1) \<Rightarrow>
            (if sint start < 0 \<or> (ucast start :: u32) = - 1 then (Inl EPERM, m1) else (Inr (), m1))))"

text \<open>
  With a signature the digest is verified, else it is returned.  A failing \<open>open\<close>, \<open>lseek\<close> or \<open>read\<close> is
  \<open>-1\<close>.
\<close>

definition digest_file_window ::
    "digest \<Rightarrow> medium \<Rightarrow> bytes option \<Rightarrow> u64 \<Rightarrow> u64 \<Rightarrow> (bytes option \<times> digest) res \<times> medium" where
  "digest_file_window d m sig start sz = (case digest_init d of
     Inl e \<Rightarrow> (Inl e, m)
   | Inr d1 \<Rightarrow> (case sys_simple m of
       (Inl e, m1) \<Rightarrow> (Inl EPERM, m1)
     | (Inr _, m1) \<Rightarrow> (case window_seek m1 start of
         (Inl e, m2) \<Rightarrow> (Inl e, m2)
       | (Inr _, m2) \<Rightarrow> (case window_loop d1 m2 (unat start) (unat sz) of
           (Inl e, m3) \<Rightarrow> (Inl e, m3)
         | (Inr d2, m3) \<Rightarrow> (case sig of
             Some s \<Rightarrow> (case digest_generic_verify d2 s of
                 (Inl e, d3) \<Rightarrow> (Inl e, m3) | (Inr _, d3) \<Rightarrow> (Inr (None, d3), m3))
           | None \<Rightarrow> (case digest_final d2 of
                 Inl e \<Rightarrow> (Inl e, m3) | Inr (md, d3) \<Rightarrow> (Inr (Some md, d3), m3)))))))"

definition digest_file :: "digest \<Rightarrow> medium \<Rightarrow> bytes option \<Rightarrow> (bytes option \<times> digest) res \<times> medium" where
  "digest_file d m sig = (case sys_simple m of
     (Inl e, m1) \<Rightarrow> (Inl EPERM, m1)
   | (Inr _, m1) \<Rightarrow> digest_file_window d m1 sig 0 (word_of_nat (length (m_bytes m))))"

definition digest_file_by_name :: "digest_algo list \<Rightarrow> string \<Rightarrow> medium \<Rightarrow> bytes option \<Rightarrow> bytes option res \<times> medium" where
  "digest_file_by_name ds algo m sig = (case digest_alloc ds (Some algo) of
     None \<Rightarrow> (Inl EIO, m)
   | Some d \<Rightarrow> (case digest_file d m sig of
       (Inl e, m1) \<Rightarrow> (Inl e, m1) | (Inr (md, _), m1) \<Rightarrow> (Inr md, m1)))"

section \<open>Files that are read in pieces\<close>

lemma window_loop_obliging:
  assumes "obliging m" and "digest_holds d x" and "length x + left \<le> digest_limit"
  shows "\<exists>d' m'. window_loop d m pos left = (Inr d', m') \<and> digest_holds d' (x @ take left (drop pos (m_bytes m)))
    \<and> digest_spec d' = digest_spec d \<and> digest_length d' = digest_length d"
  using assms
proof (induction d m pos left arbitrary: x rule: window_loop.induct)
  case (1 d m pos left)
  show ?case
  proof (cases "left = 0")
    case False
    then obtain k m1 where r: "sys_read m pos (min 4096 left) = (Inr (take k (drop pos (m_bytes m))), m1)"
        "0 < k" "k \<le> min 4096 left" "obliging m1" "m_bytes m1 = m_bytes m"
      using sys_read_obliging [OF 1(2), of "min 4096 left" pos] by auto
    let ?b = "take k (drop pos (m_bytes m))"
    show ?thesis
    proof (cases "?b = []")
      case True
      then have "drop pos (m_bytes m) = []" using r(2) by auto
      with 1(3) False r True show ?thesis by (simp add: window_loop.simps [of d m pos left])
    next
      case nonempty: False
      have len: "length ?b \<le> k" by simp
      then obtain d1 where d1: "digest_update d ?b = Inr d1" "digest_holds d1 (x @ ?b)" "digest_spec d1 = digest_spec d"
        using digest_update_law [OF 1(3), of ?b] r(3) 1(4) by fastforce
      then have "digest_length d1 = digest_length d"
        by (auto simp: digest_update_def split: digest_ops.splits digest_ctx.splits)
      moreover have "take (left - length ?b) (drop (pos + length ?b) (m_bytes m1)) = drop (length ?b) (take left (drop pos (m_bytes m)))"
        by (simp add: r(5) drop_take add.commute)
      moreover have "?b @ drop (length ?b) (take left (drop pos (m_bytes m))) = take left (drop pos (m_bytes m))"
      proof -
        have "take k (drop pos (m_bytes m)) = take k (take left (drop pos (m_bytes m)))" using r(3) by (simp add: take_take)
        then have "?b = take (length ?b) (take left (drop pos (m_bytes m)))" by (metis length_take take_all_iff take_take nle_le min.idem append_eq_conv_conj append_take_drop_id)
        then show ?thesis by (metis append_take_drop_id)
      qed
      moreover have "length (x @ ?b) + (left - length ?b) \<le> digest_limit" using 1(4) r(3) len by (simp del: length_take)
      ultimately show ?thesis
        using 1(1) [OF False r(1) [symmetric] refl nonempty d1(1) r(4) d1(2)] r(1) d1(1,3) False nonempty
        by (simp add: window_loop.simps [of d m pos left])
    qed
  qed (use 1 in \<open>simp add: window_loop.simps\<close>)
qed

lemma window_reads:
  assumes "obliging m" and "digest_ready d" and "unat sz \<le> digest_limit" and "0 \<le> sint start" and "(ucast start :: u32) \<noteq> - 1"
  shows "\<exists>d1 m1 m2 d2 m3. digest_init d = Inr d1 \<and> sys_simple m = (Inr (), m1) \<and> window_seek m1 start = (Inr (), m2) \<and>
    window_loop d1 m2 (unat start) (unat sz) = (Inr d2, m3) \<and>
    digest_holds d2 (take (unat sz) (drop (unat start) (m_bytes m))) \<and> digest_spec d2 = digest_spec d \<and> digest_length d2 = digest_length d"
proof -
  obtain d1 where d1: "digest_init d = Inr d1" "digest_holds d1 []" "digest_spec d1 = digest_spec d"
    using digest_init_law [OF assms(2)] by auto
  then have l: "digest_length d1 = digest_length d"
    by (auto simp: digest_init_def split: digest_ops.splits digest_ctx.splits)
  obtain m1 where m1: "sys_simple m = (Inr (), m1)" "obliging m1" "m_bytes m1 = m_bytes m"
    using sys_simple_obliging [OF assms(1)] by blast
  obtain m2 where m2: "window_seek m1 start = (Inr (), m2)" "obliging m2" "m_bytes m2 = m_bytes m"
  proof (cases "start = 0")
    case True
    with m1 that show ?thesis by (simp add: window_seek_def)
  next
    case False
    obtain m2 where "sys_simple m1 = (Inr (), m2)" "obliging m2" "m_bytes m2 = m_bytes m1"
      using sys_simple_obliging [OF m1(2)] by blast
    with False m1 assms(4,5) that [of m2] show ?thesis by (simp add: window_seek_def)
  qed
  show ?thesis
    using window_loop_obliging [OF m2(2) d1(2), of "unat sz" "unat start"] assms(3) d1 l m1 m2 by auto
qed


definition pieces_demo :: medium where
  "pieces_demo = \<lparr>m_bytes = [1, 2, 3, 4, 5, 6], m_flash = False, m_script = [Io_ok, Io_ok, Io_part 0, Io_part 1]\<rparr>"


text \<open>A whole file, whatever its name for the digest: what the reads leave out is only what the file does not have.\<close>

lemma digest_file_obliging:
  assumes "obliging m" and "digest_ready d" and "length (m_bytes m) \<le> digest_limit" and "length (m_bytes m) < 2 ^ 64"
  shows "\<exists>d' m'. digest_file d m None = (Inr (Some (digest_spec d (m_bytes m)), d'), m') \<and> digest_ready d'"
proof -
  obtain m1 where m1: "sys_simple m = (Inr (), m1)" "obliging m1" "m_bytes m1 = m_bytes m"
    using sys_simple_obliging [OF assms(1)] by blast
  have u: "unat (word_of_nat (length (m_bytes m)) :: u64) = length (m_bytes m)" using assms(4) by (simp add: unat_of_nat)
  obtain d1 a m2 b d2 where w: "digest_init d = Inr d1" "sys_simple m1 = (Inr (), m2)" "window_seek m2 0 = (Inr (), a)"
      "window_loop d1 a 0 (length (m_bytes m)) = (Inr d2, b)" "digest_holds d2 (m_bytes m)" "digest_spec d2 = digest_spec d"
    using window_reads [OF m1(2) assms(2), of "word_of_nat (length (m_bytes m)) :: u64" 0] assms(3) u m1(3) by auto
  then obtain d3 where "digest_final d2 = Inr (digest_spec d (m_bytes m), d3)" "digest_ready d3"
    using digest_final_law [OF w(5)] assms(3) by force
  with w u show ?thesis by (auto simp: digest_file_def digest_file_window_def m1(1))
qed

text \<open>At the offset 4294967295 the position itself is taken for the error of \<open>lseek\<close>.\<close>

lemma window_seek_truncated: "healthy m \<Longrightarrow> fst (window_seek m 0xffffffff) = Inl EPERM"
  by (simp add: window_seek_def)

end
