(* ===== verification/Keystore.thy ===== *)
theory Keystore
  imports Barebox_State Base64
begin

text \<open>
  The keys of the authenticated formats: \<open>keystore_get_secret\<close> of \<open>src/keystore-blob.c\<close>.  A key is kept as an encrypted
  blob, in base64, in a variable of the state \<open>/blobs\<close>; the blob generator of the machine decrypts it.  The three files
  of the generator are a parameter.
\<close>

section \<open>The blob generator\<close>

text \<open>
  Writing the modifier, writing a blob (the number of bytes taken), and reading the payload for a modifier and a blob, at
  most as many bytes as are asked for; each can fail.  \<open>bg_errno\<close> is what \<open>errno\<close> holds where no call has failed.
\<close>

record blob_gen =
  bg_modifier :: "string \<Rightarrow> unit res"
  bg_blob :: "bytes \<Rightarrow> nat res"
  bg_payload :: "string \<Rightarrow> bytes \<Rightarrow> nat \<Rightarrow> bytes res"
  bg_errno :: "errno option"

text \<open>\<open>return -errno\<close> without an error: with \<open>0\<close> the caller uses a key that was never set.\<close>

definition stale_errno :: "blob_gen \<Rightarrow> 'a res" where
  "stale_errno bg = (case bg_errno bg of None \<Rightarrow> Inl FAULT | Some e \<Rightarrow> Inl e)"

text \<open>
  The buffer for the payload has the size of the blob and is zeroed.  Its text ends at a NUL; a payload that fills the
  buffer without one is read past the end.
\<close>

definition payload_key :: "nat \<Rightarrow> bytes \<Rightarrow> bytes res" where
  "payload_key room got =
     (if room \<le> length got \<and> 0 \<notin> set got then Inl FAULT
      else Inr (snd (decode_base64 (int (length got)) (bytes_str (takeWhile (\<lambda>b. b \<noteq> 0) got)))))"

definition keystore_secret :: "blob_gen \<Rightarrow> state \<Rightarrow> string \<Rightarrow> bytes res" where
  "keystore_secret bg st name =
     bindE (bg_modifier bg (''user:'' @ name)) (\<lambda>_.
     bindE (state_get_var st name) (\<lambda>text.
       let blob = snd (decode_base64 (int (length text) + 1) text)
       in bindE (bg_blob bg blob) (\<lambda>n.
          if n \<noteq> length blob then stale_errno bg
          else bindE (bg_payload bg (''user:'' @ name) blob (length blob)) (\<lambda>got.
            if got = [] then stale_errno bg else payload_key (length blob) got))))"

text \<open>The static variable \<open>state\<close> keeps the state with the blobs.  It is loaded without authentication and read only.\<close>

definition keystore_get_secret ::
    "environment \<Rightarrow> bool \<Rightarrow> bytes \<Rightarrow> keystore \<Rightarrow> blob_gen \<Rightarrow> string \<Rightarrow> state option \<times> of_globals \<times> medium
      \<Rightarrow> bytes res \<times> state option \<times> of_globals \<times> medium" where
  "keystore_get_secret env bc stack ks bg name w = (case w of
     (Some st, g, m) \<Rightarrow> (keystore_secret bg st name, Some st, g, m)
   | (None, g, m) \<Rightarrow> (case state_get env bc stack ks (Some ''/blobs'') None True False (g, m) of
         (Inl e, g1, m1) \<Rightarrow> (Inl e, None, g1, m1)
       | (Inr st, g1, m1) \<Rightarrow> (keystore_secret bg st name, Some st, g1, m1)))"

section \<open>The key store does not call itself\<close>

text \<open>
  Loading a state with authentication asks the key store for the key, and the key store loads a state: but without
  authentication, which asks for none.
\<close>

lemma verify_no_auth: "format_verify ks f magic buf len True = format_verify ks' f magic buf len True"
  by (simp add: format_verify_def backend_format_raw_verify_def split: backend_format.split)

lemma check_loop_no_auth:
  "storage_check_loop bc stack (format_verify ks) magic True bs i used f m =
   storage_check_loop bc stack (format_verify ks') magic True bs i used f m"
proof (induction bs arbitrary: i used f m)
  case (Cons b bs)
  show ?case
    by (simp add: Cons [of _ _ _] verify_no_auth [of ks _ _ _ _ ks'] Let_def split: prod.split option.split)
qed simp

lemma storage_read_no_auth:
  "state_storage_read bc stack (format_verify ks) st f magic True m = state_storage_read bc stack (format_verify ks') st f magic True m"
  by (simp add: state_storage_read_def check_loop_no_auth [of _ _ ks _ _ _ _ _ _ ks'])

lemma load_no_auth: "state_load_no_auth bc stack ks = state_load_no_auth bc stack ks'"
  unfolding state_load_no_auth_def state_do_load_def storage_read_no_auth [of _ _ ks _ _ _ _ ks'] ..

lemma state_get_no_auth:
  "state_get env bc stack ks name filename readonly False w = state_get env bc stack ks' name filename readonly False w"
  unfolding state_get_def load_no_auth [of bc stack ks ks'] if_False ..

section \<open>Keys that were stored\<close>

lemma length_encode_base64: "length bs \<le> length (encode_base64 bs)"
  by (induction bs rule: encode_base64.induct) (simp_all add: sextets_def)

lemma decode_filtered:
  assumes "filter b64_valid src = encode_base64 bs" and "int (length bs) \<le> n"
  shows "snd (decode_base64 n src) = bs"
proof -
  have "decode_loop n src (0, []) = (int (length bs), bs)"
    using decode_encode [OF assms(2), of 0 "[]"] decode_loop_filter [of n src "(0, [])"] assms(1) by simp
  then show ?thesis by (simp add: decode_base64_def)
qed

lemma length_filtered: "filter b64_valid src = encode_base64 bs \<Longrightarrow> length bs \<le> length src"
  by (metis length_encode_base64 length_filter_le order_trans)

text \<open>The text of a payload: base64, possibly with other characters between, that fits before the end of the buffer.\<close>

definition carries_key :: "nat \<Rightarrow> bytes \<Rightarrow> bytes \<Rightarrow> bool" where
  "carries_key room got key \<longleftrightarrow> got \<noteq> [] \<and> (length got < room \<or> 0 \<in> set got) \<and>
     filter b64_valid (bytes_str (takeWhile (\<lambda>b. b \<noteq> 0) got)) = encode_base64 key"

lemma payload_key_carries:
  assumes "carries_key room got key"
  shows "payload_key room got = Inr key"
proof -
  have f: "filter b64_valid (bytes_str (takeWhile (\<lambda>b. b \<noteq> 0) got)) = encode_base64 key"
    and "\<not> (room \<le> length got \<and> 0 \<notin> set got)" using assms by (auto simp: carries_key_def)
  moreover have "length key \<le> length got"
    using length_filtered [OF f] length_takeWhile_le [of "\<lambda>b. b \<noteq> 0" got] by simp
  ultimately show ?thesis by (simp add: payload_key_def decode_filtered)
qed


text \<open>A payload as long as the blob, without a NUL, is read out of bounds.\<close>

lemma payload_unterminated: "payload_key 4 (str_bytes ''QUJD'') = Inl FAULT"
  by (simp add: payload_key_def str_bytes_def)

definition blob_variable :: state_variable where
  "blob_variable = \<lparr>sv_type = STATE_VARIABLE_TYPE_STRING, sv_name = ''key'', sv_start = 0, sv_size = 9,
     sv_data = Var_string None None (str_bytes ''AQIDBAU='' @ [0])\<rparr>"

definition blob_demo :: blob_gen where
  "blob_demo = \<lparr>bg_modifier = (\<lambda>_. Inr ()), bg_blob = (\<lambda>b. Inr (length b)),
     bg_payload = (\<lambda>_ b n. Inr (str_bytes ''QQ=='')), bg_errno = None\<rparr>"

definition blob_state :: state where
  "blob_state = (state_new ''blobs'')\<lparr>s_variables := [blob_variable]\<rparr>"

lemma blob_state_text: "state_get_var blob_state ''key'' = Inr ''AQIDBAU=''"
  by code_simp

lemma blob_texts:
  "filter b64_valid ''AQIDBAU='' = encode_base64 [1, 2, 3, 4, 5]" "carries_key (Suc (Suc (Suc (Suc (Suc 0))))) (str_bytes ''QQ=='') [0x41]"
  by code_simp+


end
