(* ===== verification/Value_Types.thy ===== *)
theory Value_Types
  imports Cli_Values
begin

text \<open>
  The text interface of \<open>src/barebox-state.c\<close> is type safe: the getters and setters read a variable through a pointer to
  the structure of its type and index arrays with its value, without tests.  This theory shows which variables make
  that safe, and that setting values never leaves that set.
\<close>

text \<open>A variable of its type; the value of an enumeration is one of its names, a string has room for a byte.\<close>

definition well_typed :: "state_variable \<Rightarrow> bool" where
  "well_typed v \<longleftrightarrow> wf_var v \<and> (case sv_data v of
     Var_enum32 n _ ns \<Rightarrow> unat n < length ns \<and> length ns < 2 ^ 32
   | Var_string _ _ r \<Rightarrow> r \<noteq> []
   | _ \<Rightarrow> True)"

lemma well_typed_get:
  assumes "well_typed v" and "vs_type vs = sv_type v"
  shows "\<exists>val. vs_get vs v = Inr val"
proof -
  have w: "wf_var v" using assms(1) by (simp add: well_typed_def)
  show ?thesis
    using w assms
  proof (cases rule: wf_var_cases)
    case (str s d r)
    with assms show ?thesis by (cases r) (auto simp: well_typed_def vs_get_def state_string_get_def)
  qed (use assms in \<open>auto simp: well_typed_def vs_get_def state_uint32_get_def state_enum32_get_def state_mac_get_def wf_var_def\<close>)
qed

lemma well_typed_set_defined:
  assumes "well_typed v" and "vs_type vs = sv_type v"
  shows "vs_set vs v val \<noteq> Inl FAULT"
proof -
  have w: "wf_var v" using assms(1) by (simp add: well_typed_def)
  have e: "string_to_ethaddr val \<noteq> Inl FAULT" using ethaddr_shape [of val] ethaddr_no_shape [of val] by (cases "mac_shape val") auto
  from w show ?thesis
    by (cases rule: wf_var_cases)
      (use assms(2) e in \<open>auto simp: vs_set_def state_uint8_set_def state_uint32_set_def state_enum32_set_def state_mac_set_def
        state_string_set_def state_string_copy_to_raw_def Let_def bindE_eq_Inl split: option.splits\<close>)
qed

lemma well_typed_set_keeps:
  assumes "well_typed v" and "vs_type vs = sv_type v" and "vs_set vs v val = Inr v'"
  shows "well_typed v' \<and> sv_type v' = sv_type v \<and> sv_name v' = sv_name v \<and> sv_size v' = sv_size v \<and> sv_start v' = sv_start v"
proof -
  have w: "wf_var v" using assms(1) by (simp add: well_typed_def)
  from w show ?thesis
  proof (cases rule: wf_var_cases)
    case (enum n d ns)
    then obtain i where i: "name_index ns val = Some i" "v' = v\<lparr>sv_data := Var_enum32 (word_of_nat i) d ns\<rparr>"
      using assms(2,3) by (auto simp: vs_set_def state_enum32_set_def split: option.splits)
    have "i < length ns" "length ns < 2 ^ 32" using name_index_nth [OF i(1)] assms(1) enum(2) by (simp_all add: well_typed_def)
    then have "unat (word_of_nat i :: u32) = i" by (simp add: unsigned_of_nat take_bit_nat_eq_self)
    with i enum \<open>i < length ns\<close> \<open>length ns < 2 ^ 32\<close> show ?thesis by (simp add: well_typed_def wf_var_def)
  next
    case (mac m d)
    then show ?thesis using assms(2,3) ethaddr_six by (auto simp: vs_set_def state_mac_set_def well_typed_def wf_var_def)
  next
    case (str s d r)
    have "r \<noteq> []" using assms(1) str(2) by (simp add: well_typed_def)
    moreover have l: "length val \<le> unat (sv_size v)" "v' = v\<lparr>sv_data := Var_string (Some val) d (str_bytes val @ replicate (unat (sv_size v) - length val) 0)\<rparr>"
      using str assms(2,3) by (auto simp: vs_set_def state_string_set_def state_string_copy_to_raw_def Let_def split: if_splits)
    moreover have "0 < unat (sv_size v)" using \<open>r \<noteq> []\<close> str(4) by (metis length_greater_0_conv)
    moreover have n: "length (str_bytes val @ replicate (unat (sv_size v) - length val) 0) = unat (sv_size v)" using l(1) by simp
    ultimately have "str_bytes val @ replicate (unat (sv_size v) - length val) 0 \<noteq> []" by (metis length_greater_0_conv)
    with str l(2) n show ?thesis by (simp add: well_typed_def wf_var_def)
  qed (use assms in \<open>auto simp: vs_set_def state_uint8_set_def state_uint32_set_def well_typed_def wf_var_def Let_def split: if_splits\<close>)
qed

text \<open>
  C19: the values of a state are type safe: when every variable of a state is well typed, no getter and no setter leaves the
  memory of a variable or reads one as another type, whatever names and texts the user gives, and after every \<open>state_set_var\<close>,
  successful or not, every variable is well typed and has the type, the name, the size and the place it had.
\<close>

theorem state_values_type_safe:
  assumes "\<forall>v \<in> set (s_variables s). well_typed v" and "state_set_var s k val = (r, s')"
  shows "state_get_var s j \<noteq> Inl FAULT \<and> r \<noteq> Inl FAULT \<and> (\<forall>v \<in> set (s_variables s'). well_typed v)
    \<and> map (\<lambda>v. (sv_type v, sv_name v, sv_size v, sv_start v)) (s_variables s')
      = map (\<lambda>v. (sv_type v, sv_name v, sv_size v, sv_start v)) (s_variables s)"
proof (intro conjI)
  have get: "\<exists>x. vs_get vs v = Inr x" "vs_set vs v val \<noteq> Inl FAULT"
    if "state_find_var (s_variables s) i = Inr v" "state_find_type (sv_type v) = Some vs" for i v vs
    using well_typed_get well_typed_set_defined assms(1) found_var [OF that(1)] find_type_type [OF that(2)] by blast+
  show "state_get_var s j \<noteq> Inl FAULT"
  proof
    assume f: "state_get_var s j = Inl FAULT"
    then obtain v vs where v: "state_find_var (s_variables s) j = Inr v" "state_find_type (sv_type v) = Some vs" "vs_get vs v = Inl FAULT"
      by (auto simp: state_get_var_def split: sum.splits option.splits)
    from get(1) [OF v(1,2)] v(3) show False by simp
  qed
  show "r \<noteq> Inl FAULT"
  proof (cases "state_find_var (s_variables s) k")
    case (Inl e)
    then have "e \<noteq> FAULT" by (auto simp: state_find_var_def split: option.splits)
    with Inl assms(2) show ?thesis by (auto simp: state_set_var_def)
  next
    case (Inr sv)
    obtain vs where vs: "state_find_type (sv_type sv) = Some vs" using state_find_type_some by blast
    obtain x where "vs_get vs sv = Inr x" using get(1) [OF Inr vs] by blast
    with get(2) [OF Inr vs] assms(2) Inr vs show ?thesis by (auto simp: state_set_var_def split: if_splits sum.splits)
  qed
  show "\<forall>v \<in> set (s_variables s'). well_typed v"
    and "map (\<lambda>v. (sv_type v, sv_name v, sv_size v, sv_start v)) (s_variables s')
      = map (\<lambda>v. (sv_type v, sv_name v, sv_size v, sv_start v)) (s_variables s)"
    using assms(2)
  proof (atomize (full), cases rule: set_var_cases)
    case (changed sv vs sv')
    have sv: "sv \<in> set (s_variables s)" "sv_name sv = k" using found_var [OF changed(2)] by simp_all
    have n: "well_typed sv' \<and> sv_type sv' = sv_type sv \<and> sv_name sv' = sv_name sv \<and> sv_size sv' = sv_size sv \<and> sv_start sv' = sv_start sv"
      using well_typed_set_keeps [OF _ find_type_type [OF changed(3)] changed(6)] assms(1) sv(1) by simp
    note f = changed(2) [unfolded find_var_some]
    have "set (s_variables s') \<subseteq> insert sv' (set (s_variables s))"
      using update_var_find [OF f, of sv' k] n sv(2) by (simp add: changed(7))
    moreover have "map (\<lambda>v. (sv_type v, sv_name v, sv_size v, sv_start v)) (s_variables s')
        = map (\<lambda>v. (sv_type v, sv_name v, sv_size v, sv_start v)) (s_variables s)"
      using update_var_map [OF f, of "\<lambda>v. (sv_type v, sv_name v, sv_size v, sv_start v)" sv'] n by (simp add: changed(7))
    ultimately show "(\<forall>v \<in> set (s_variables s'). well_typed v) \<and> map (\<lambda>v. (sv_type v, sv_name v, sv_size v, sv_start v)) (s_variables s')
        = map (\<lambda>v. (sv_type v, sv_name v, sv_size v, sv_start v)) (s_variables s)"
      using n assms(1) by blast
  qed (use assms(1) in simp_all)
qed

definition typed_demo :: state where
  "typed_demo = (state_new ''state'')\<lparr>s_variables :=
     [\<lparr>sv_type = STATE_VARIABLE_TYPE_ENUM32, sv_name = ''slot'', sv_start = 0, sv_size = 4,
       sv_data = Var_enum32 1 0 [''a'', ''b'']\<rparr>,
      \<lparr>sv_type = STATE_VARIABLE_TYPE_STRING, sv_name = ''host'', sv_start = 4, sv_size = 2,
       sv_data = Var_string None None [0, 0]\<rparr>]\<rparr>"

theorem state_values_type_safe_witness:
  "state_get_var typed_demo ''slot'' \<noteq> Inl FAULT \<and> fst (state_set_var typed_demo ''host'' ''toolong'') \<noteq> Inl FAULT"
proof -
  have w: "\<forall>v \<in> set (s_variables typed_demo). well_typed v" by (simp add: typed_demo_def well_typed_def wf_var_def)
  show ?thesis
    using state_values_type_safe [OF w prod.collapse [symmetric], of "''slot''" "''host''" "''toolong''"] by simp
qed

end
