(* ===== verification/State_Fixup.thy ===== *)
theory State_Fixup
  imports State
begin

text \<open>
  \<open>of_state_fixup\<close> of \<open>src/barebox-state/state.c\<close>, which describes a state in the device tree of a kernel that is
  about to be started.  This program shares it with the boot loader; here \<open>of_register_fixup\<close> does nothing and
  \<open>of_find_node_by_reproducible_name\<close> finds nothing, both in the headers.
\<close>

definition of_find_node_by_reproducible_name :: "device_node \<Rightarrow> node_ref option" where
  "of_find_node_by_reproducible_name from = None"

definition of_find_root_node :: "node_ref \<Rightarrow> node_ref" where
  "of_find_root_node node = []"

text \<open>The node to be replaced, if there is one, and the node the new one goes below.\<close>

definition parent_path :: "string \<Rightarrow> string" where
  "parent_path path = rev (drop 1 (dropWhile (\<lambda>c. c \<noteq> CHR ''/'') (rev path)))"

definition fixup_parent :: "device_node \<Rightarrow> string \<Rightarrow> (node_ref option \<times> node_ref option) res" where
  "fixup_parent root of_path = (case of_find_node_by_path_from None (Some root) of_path of
     Some node \<Rightarrow> Inr (Some node, of_get_parent node)
   | None \<Rightarrow>
       if CHR ''/'' \<notin> set of_path then Inl ENODEV
       else Inr (None, Some (case of_find_node_by_path_from None (Some root) (parent_path of_path) of None \<Rightarrow> [] | Some r \<Rightarrow> r)))"

definition format_name :: "backend_format \<Rightarrow> string" where
  "format_name format = (case format of Backend_raw _ \<Rightarrow> ''raw'' | Backend_dtb _ \<Rightarrow> ''dtb'')"

definition state_backend_format_raw_get_digest :: "format_raw \<Rightarrow> digest option" where
  "state_backend_format_raw_get_digest raw = fr_digest raw"

definition fixup_describe :: "state \<Rightarrow> backend_format \<Rightarrow> u32 \<Rightarrow> device_node \<Rightarrow> device_node res" where
  "fixup_describe state format phandle new =
     bindE (of_property_write_u32 new ''backend'' phandle) (\<lambda>n1.
       let n2 = (case format of
              Backend_raw raw \<Rightarrow> (case state_backend_format_raw_get_digest raw of
                  None \<Rightarrow> n1 | Some d \<Rightarrow> of_new_property n1 ''algo'' (str_bytes (alg_name (d_algo d)) @ [0]))
            | Backend_dtb _ \<Rightarrow> n1);
           n3 = (case st_name (s_storage state) of
              None \<Rightarrow> n2 | Some s \<Rightarrow> of_new_property n2 ''backend-storage-type'' (str_bytes s @ [0]))
       in bindE (if st_stridesize (s_storage state) \<noteq> 0
                 then of_property_write_u32 n3 ''backend-stridesize'' (st_stridesize (s_storage state)) else Inr n3) (\<lambda>n4.
          bindE (of_property_write_u32 n4 ''#address-cells'' 1) (\<lambda>n5.
          of_property_write_u32 n5 ''#size-cells'' 1)))"

text \<open>
  The part behind the search for the backend: the description, the alias, the removal of the old node.  \<open>r\<close> is
  the new node in the tree, or nothing where it has no parent; on an error it is deleted.
\<close>

definition fixup_finish ::
    "state \<Rightarrow> backend_format \<Rightarrow> node_ref option \<Rightarrow> node_ref option \<Rightarrow> device_node \<Rightarrow> device_node \<Rightarrow> node_ref
      \<Rightarrow> unit res \<times> device_node" where
  "fixup_finish state format node r new root backend =
     (case of_node_create_phandle root backend of (phandle, root1) \<Rightarrow>
        let undo = (\<lambda>t. case r of None \<Rightarrow> t | Some n \<Rightarrow> the (of_delete_node t n))
        in case fixup_describe state format phandle (case r of None \<Rightarrow> new | Some n \<Rightarrow> the_node root1 n) of
             Inl e \<Rightarrow> (Inl e, undo root1)
           | Inr new2 \<Rightarrow>
               (case of_create_node (case r of None \<Rightarrow> root1 | Some n \<Rightarrow> node_update root1 n (\<lambda>_. new2)) ''/aliases'' of
                  (None, root3) \<Rightarrow> (Inl ENOMEM, undo root3)
                | (Some al, root3) \<Rightarrow>
                    (case of_set_property (the_node root3 al) (s_name state) (str_bytes (dn_full_name new2) @ [0]) True of
                       Inl e \<Rightarrow> (Inl e, undo root3)
                     | Inr aliases \<Rightarrow>
                         let root4 = node_update root3 al (\<lambda>_. aliases)
                         in (Inr (), case node of None \<Rightarrow> root4
                            | Some old \<Rightarrow> (case of_delete_node root4 old of None \<Rightarrow> root4 | Some t \<Rightarrow> t)))))"

definition of_state_fixup :: "device_node option \<Rightarrow> state \<Rightarrow> device_node \<Rightarrow> unit res \<times> device_node" where
  "of_state_fixup machine state root = (case fixup_parent root (s_of_path state) of
     Inl e \<Rightarrow> (Inl e, root)
   | Inr (node, parent) \<Rightarrow>
       (case state_to_node machine state (map_option (the_node root) parent) STATE_CONVERT_FIXUP of
          Inl e \<Rightarrow> (Inl e, root)
        | Inr new \<Rightarrow>
            (case s_format state of
               None \<Rightarrow> (Inl ENODEV, root)
             | Some format \<Rightarrow>
                 let new1 = of_new_property (of_new_property new ''compatible'' (str_bytes ''barebox,state'' @ [0]))
                       ''backend-type'' (str_bytes (format_name format) @ [0]);
                     root1 = (case parent of None \<Rightarrow> root
                       | Some p \<Rightarrow> node_update root p (\<lambda>q. set_children q (dn_children q @ [new1])))
                 in (case of_find_node_by_reproducible_name root1 of
                       None \<Rightarrow> (Inl ENODEV, root)
                     | Some backend \<Rightarrow> fixup_finish state format node
                         (map_option (\<lambda>p. p @ [length (dn_children (the_node root p))]) parent) new1 root1 backend))))"

text \<open>
  The fixup never succeeds here, and leaves the tree as it was: the node it added is deleted again.
\<close>

lemma of_state_fixup_fails: "fst (of_state_fixup machine s root) \<noteq> Inr () \<and> snd (of_state_fixup machine s root) = root"
  by (simp add: of_state_fixup_def of_find_node_by_reproducible_name_def Let_def split: sum.split prod.split option.split)

text \<open>That is what adding a node below \<open>p\<close> and deleting it comes to.\<close>

lemma remove_appended: "remove_child (length (dn_children t)) (set_children t (dn_children t @ [n])) = t"
  by (cases t) (simp add: remove_child_def)

lemma node_update_undo:
  "node_at t p = Some q \<Longrightarrow> g (f q) = q \<Longrightarrow> node_update (node_update t p f) p g = t"
proof (induction p arbitrary: t)
  case (Cons i p)
  then show ?case by (cases t) (auto split: if_splits)
qed simp

lemma fixup_undone:
  assumes "node_at root p = Some q"
  shows "of_delete_node (node_update root p (\<lambda>q. set_children q (dn_children q @ [n]))) (p @ [length (dn_children (the_node root p))]) = Some root"
  using node_update_undo [OF assms, of "remove_child (length (dn_children q))" "\<lambda>q. set_children q (dn_children q @ [n])"] assms
  by (simp add: of_delete_node_def the_node_def remove_appended)

end
