(* ===== verification/Hash_List.thy ===== *)
theory Hash_List
  imports Linked_List
begin

text \<open>
  The lists with a head of one pointer of \<open>src/dt/list.h\<close>, \<open>hlist\<close>.  A node knows the place that points to it: the
  head of the list or the \<open>next\<close> of the node before it.
\<close>

section \<open>Memory\<close>

text \<open>The places a \<open>struct hlist_node **\<close> points to.\<close>

datatype 'a place = At_first 'a | At_next 'a | Place_null | Place_poison

record 'a hlinks =
  hl_first :: "'a \<Rightarrow> 'a ptr"
  hl_next :: "'a \<Rightarrow> 'a ptr"
  hl_pprev :: "'a \<Rightarrow> 'a place"

fun load_at :: "'a place \<Rightarrow> 'a hlinks \<Rightarrow> 'a ptr" where
  "load_at (At_first h) m = hl_first m h"
| "load_at (At_next n) m = hl_next m n"
| "load_at _ m = Poison1"

fun store_at :: "'a place \<Rightarrow> 'a ptr \<Rightarrow> 'a hlinks \<Rightarrow> 'a hlinks res" where
  "store_at (At_first h) p m = Inr (m\<lparr>hl_first := (hl_first m)(h := p)\<rparr>)"
| "store_at (At_next n) p m = Inr (m\<lparr>hl_next := (hl_next m)(n := p)\<rparr>)"
| "store_at _ p m = Inl FAULT"

text \<open>\<open>if (p) p->pprev = place\<close>.\<close>

fun store_pprev :: "'a ptr \<Rightarrow> 'a place \<Rightarrow> 'a hlinks \<Rightarrow> 'a hlinks res" where
  "store_pprev (Ptr n) s m = Inr (m\<lparr>hl_pprev := (hl_pprev m)(n := s)\<rparr>)"
| "store_pprev Null s m = Inr m"
| "store_pprev _ s m = Inl FAULT"

section \<open>Operations\<close>

definition init_hlist_head :: "'a \<Rightarrow> 'a hlinks \<Rightarrow> 'a hlinks res" where
  "init_hlist_head h m = store_at (At_first h) Null m"

definition init_hlist_node :: "'a \<Rightarrow> 'a hlinks \<Rightarrow> 'a hlinks res" where
  "init_hlist_node n m = bindE (store_at (At_next n) Null m) (store_pprev (Ptr n) Place_null)"

definition hlist_unhashed :: "'a \<Rightarrow> 'a hlinks \<Rightarrow> bool" where
  "hlist_unhashed n m \<longleftrightarrow> hl_pprev m n = Place_null"

definition hlist_empty :: "'a \<Rightarrow> 'a hlinks \<Rightarrow> bool" where
  "hlist_empty h m \<longleftrightarrow> hl_first m h = Null"

definition hlist_unlink :: "'a \<Rightarrow> 'a hlinks \<Rightarrow> 'a hlinks res" where
  "hlist_unlink n m = bindE (store_at (hl_pprev m n) (hl_next m n) m) (store_pprev (hl_next m n) (hl_pprev m n))"

definition hlist_del :: "'a \<Rightarrow> 'a hlinks \<Rightarrow> 'a hlinks res" where
  "hlist_del n m = bindE (hlist_unlink n m) (\<lambda>m. bindE (store_at (At_next n) Poison1 m) (store_pprev (Ptr n) Place_poison))"

definition hlist_del_init :: "'a \<Rightarrow> 'a hlinks \<Rightarrow> 'a hlinks res" where
  "hlist_del_init n m = (if hlist_unhashed n m then Inr m else bindE (hlist_unlink n m) (init_hlist_node n))"

definition hlist_add_head :: "'a \<Rightarrow> 'a \<Rightarrow> 'a hlinks \<Rightarrow> 'a hlinks res" where
  "hlist_add_head n h m =
     bindE (store_at (At_next n) (hl_first m h) m) (\<lambda>m1. bindE (store_pprev (hl_first m h) (At_next n) m1) (\<lambda>m2.
     bindE (store_at (At_first h) (Ptr n) m2) (store_pprev (Ptr n) (At_first h))))"

definition hlist_add_before :: "'a \<Rightarrow> 'a \<Rightarrow> 'a hlinks \<Rightarrow> 'a hlinks res" where
  "hlist_add_before n nxt m =
     bindE (store_pprev (Ptr n) (hl_pprev m nxt) m) (\<lambda>m1. bindE (store_at (At_next n) (Ptr nxt) m1) (\<lambda>m2.
     bindE (store_pprev (Ptr nxt) (At_next n) m2) (\<lambda>m3. store_at (hl_pprev m3 n) (Ptr n) m3)))"

text \<open>
  \<open>hlist_add_after\<close> puts the second argument, despite its name, behind the first.
\<close>

definition hlist_add_after :: "'a \<Rightarrow> 'a \<Rightarrow> 'a hlinks \<Rightarrow> 'a hlinks res" where
  "hlist_add_after n nxt m =
     bindE (store_at (At_next nxt) (hl_next m n) m) (\<lambda>m1. bindE (store_at (At_next n) (Ptr nxt) m1) (\<lambda>m2.
     bindE (store_pprev (Ptr nxt) (At_next n) m2) (\<lambda>m3. store_pprev (hl_next m3 nxt) (At_next nxt) m3)))"

text \<open>The loops; on a memory whose pointers run in a circle they do not end.\<close>

partial_function (option) hlist_from :: "'a hlinks \<Rightarrow> 'a ptr \<Rightarrow> 'a list res option" where
  "hlist_from m p = (case p of
     Null \<Rightarrow> Some (Inr [])
   | Ptr n \<Rightarrow> Option.bind (hlist_from m (hl_next m n)) (\<lambda>r. Some (bindE r (\<lambda>ns. Inr (n # ns))))
   | _ \<Rightarrow> Some (Inl FAULT))"

definition hlist_for_each :: "'a \<Rightarrow> 'a hlinks \<Rightarrow> 'a list res option" where
  "hlist_for_each h m = hlist_from m (hl_first m h)"

section \<open>The list a head stands for\<close>

fun linked :: "'a hlinks \<Rightarrow> 'a place \<Rightarrow> 'a list \<Rightarrow> bool" where
  "linked m s [] \<longleftrightarrow> True"
| "linked m s (x # xs) \<longleftrightarrow> load_at s m = Ptr x \<and> hl_pprev m x = s \<and> linked m (At_next x) xs"

definition end_place :: "'a place \<Rightarrow> 'a list \<Rightarrow> 'a place" where
  "end_place s xs = (if xs = [] then s else At_next (last xs))"

definition hlist :: "'a hlinks \<Rightarrow> 'a \<Rightarrow> 'a list \<Rightarrow> bool" where
  "hlist m h xs \<longleftrightarrow> distinct xs \<and> linked m (At_first h) xs \<and> load_at (end_place (At_first h) xs) m = Null"

lemma linked_append: "linked m s (xs @ ys) \<longleftrightarrow> linked m s xs \<and> linked m (end_place s xs) ys"
  by (induction xs arbitrary: s) (auto simp: end_place_def)

lemma linked_frame:
  "(\<And>x. x \<in> set xs \<Longrightarrow> hl_pprev m' x = hl_pprev m x) \<Longrightarrow> (\<And>x. x \<in> set (butlast xs) \<Longrightarrow> hl_next m' x = hl_next m x) \<Longrightarrow>
     (xs \<noteq> [] \<Longrightarrow> load_at s m' = load_at s m) \<Longrightarrow> linked m s xs \<Longrightarrow> linked m' s xs"
proof (induction xs arbitrary: s)
  case (Cons x xs)
  then show ?case by (cases xs) auto
qed simp

lemma end_place_simps [simp]:
  "end_place s [] = s" "end_place s (xs @ ys) = end_place (end_place s xs) ys" "end_place s (x # xs) = end_place (At_next x) xs"
  by (auto simp: end_place_def)

lemma end_place_cases: "end_place s xs = s \<and> xs = [] \<or> end_place s xs = At_next (last xs) \<and> xs \<noteq> []"
  by (auto simp: end_place_def)

text \<open>The successor of a node in a list, and what it is told.\<close>

lemma hlist_loop: "linked m s xs \<Longrightarrow> load_at (end_place s xs) m = Null \<Longrightarrow> hlist_from m (load_at s m) = Some (Inr xs)"
proof (induction xs arbitrary: s)
  case (Cons x xs)
  with Cons.IH [of "At_next x"] show ?case by (simp add: hlist_from.simps [of m "Ptr x"])
qed (simp add: hlist_from.simps)

theorem hlist_for_each_visits: "hlist m h xs \<Longrightarrow> hlist_for_each h m = Some (Inr xs)"
  using hlist_loop [of m "At_first h" xs] by (simp add: hlist_for_each_def hlist_def)

lemma hlist_empty_iff: "hlist m h xs \<Longrightarrow> hlist_empty h m \<longleftrightarrow> xs = []"
  by (cases xs) (auto simp: hlist_empty_def hlist_def)

text \<open>What the insertions do to the memory, and what this does to the list: \<open>s\<close> is the place the new node is put at.\<close>

definition inserted :: "'a \<Rightarrow> 'a place \<Rightarrow> 'a hlinks \<Rightarrow> 'a hlinks \<Rightarrow> bool" where
  "inserted n s m m' \<longleftrightarrow> load_at (At_next n) m' = load_at s m \<and> load_at s m' = Ptr n
     \<and> (\<forall>p. p \<noteq> s \<and> p \<noteq> At_next n \<longrightarrow> load_at p m' = load_at p m)
     \<and> hl_pprev m' n = s \<and> (\<forall>y. load_at s m = Ptr y \<longrightarrow> hl_pprev m' y = At_next n)
     \<and> (\<forall>x. x \<noteq> n \<and> load_at s m \<noteq> Ptr x \<longrightarrow> hl_pprev m' x = hl_pprev m x)"

lemma inserted_hlist:
  assumes "inserted n (end_place (At_first h) xs) m m'" and "hlist m h (xs @ ys)" and "n \<notin> set (xs @ ys)"
  shows "hlist m' h (xs @ n # ys)"
proof -
  let ?s = "end_place (At_first h) xs"
  have l: "linked m (At_first h) xs" "linked m ?s ys" "load_at (end_place ?s ys) m = Null" "distinct (xs @ ys)"
    using assms(2) by (auto simp: hlist_def linked_append)
  have i: "load_at (At_next n) m' = load_at ?s m" "load_at ?s m' = Ptr n" "hl_pprev m' n = ?s"
      "\<And>p. p \<noteq> ?s \<Longrightarrow> p \<noteq> At_next n \<Longrightarrow> load_at p m' = load_at p m" "\<And>y. load_at ?s m = Ptr y \<Longrightarrow> hl_pprev m' y = At_next n"
      "\<And>x. x \<noteq> n \<Longrightarrow> load_at ?s m \<noteq> Ptr x \<Longrightarrow> hl_pprev m' x = hl_pprev m x"
    using assms(1) by (auto simp: inserted_def)
  have hd: "load_at ?s m = (case ys of [] \<Rightarrow> Null | y # _ \<Rightarrow> Ptr y)" using l(2,3) by (cases ys) auto
  have next_other: "hl_next m' x = hl_next m x" if "x \<noteq> n" "At_next x \<noteq> ?s" for x
    using i(4) [of "At_next x"] that by simp
  have "linked m' (At_first h) xs"
  proof (rule linked_frame [OF _ _ _ l(1)])
    fix x assume "x \<in> set xs"
    then show "hl_pprev m' x = hl_pprev m x" using i(6) [of x] assms(3) l(4) hd by (cases ys) auto
  next
    fix x assume x: "x \<in> set (butlast xs)"
    then have "x \<noteq> last xs" "x \<in> set xs" using l(4) by (cases xs rule: rev_cases; auto)+
    moreover from this have "At_next x \<noteq> ?s" by (auto simp: end_place_def)
    ultimately show "hl_next m' x = hl_next m x" using next_other [of x] assms(3) by auto
  next
    assume "xs \<noteq> []"
    then show "load_at (At_first h) m' = load_at (At_first h) m" using i(4) [of "At_first h"] by (simp add: end_place_def)
  qed
  moreover have "linked m' (At_next n) ys \<and> load_at (end_place (At_next n) ys) m' = Null"
  proof (cases ys)
    case Nil
    with i(1) hd show ?thesis by simp
  next
    case (Cons y zs)
    have nx: "hl_next m' x = hl_next m x" if "x \<in> set ys" for x
    proof -
      have "x \<notin> set xs" using that l(4) by auto
      then have "At_next x \<noteq> ?s" using last_in_set [of xs] by (cases "xs = []") (auto simp: end_place_def)
      with next_other [of x] that assms(3) l(4) show ?thesis by auto
    qed
    have "linked m' (At_next y) zs"
    proof (rule linked_frame)
      show "linked m (At_next y) zs" using l(2) Cons by simp
    next
      fix x assume "x \<in> set zs"
      then show "hl_pprev m' x = hl_pprev m x" using i(6) [of x] assms(3) l(4) hd Cons by auto
    next
      fix x assume "x \<in> set (butlast zs)"
      then show "hl_next m' x = hl_next m x" using nx Cons in_set_butlastD by fastforce
    next
      show "load_at (At_next y) m' = load_at (At_next y) m" using nx Cons by simp
    qed
    moreover have "load_at (end_place ?s ys) m' = load_at (end_place ?s ys) m"
      using nx [of "last ys"] Cons by (simp add: end_place_def)
    ultimately show ?thesis using i(1,5) hd Cons l(3) by (simp add: end_place_def)
  qed
  ultimately show ?thesis using i(2,3) l(4) assms(3) by (auto simp: hlist_def linked_append)
qed

text \<open>A node is pointed to from the place in front of it.\<close>

lemma place_of_node:
  assumes "hlist m h (xs @ x # ys)"
  shows "hl_pprev m x = end_place (At_first h) xs" and "load_at (hl_pprev m x) m = Ptr x"
    and "hl_next m x = (case ys of [] \<Rightarrow> Null | y # _ \<Rightarrow> Ptr y)"
proof -
  have l: "linked m (end_place (At_first h) xs) (x # ys)" "load_at (end_place (At_next x) ys) m = Null"
    using assms by (auto simp: hlist_def linked_append)
  then show "hl_pprev m x = end_place (At_first h) xs" "load_at (hl_pprev m x) m = Ptr x" by simp_all
  show "hl_next m x = (case ys of [] \<Rightarrow> Null | y # _ \<Rightarrow> Ptr y)" using l by (cases ys) simp_all
qed

lemma hlist_add_head_inserts:
  assumes "hlist m h ys" and "n \<notin> set ys"
  shows "\<exists>m'. hlist_add_head n h m = Inr m' \<and> hlist m' h (n # ys)"
proof -
  have f: "hl_first m h = (case ys of [] \<Rightarrow> Null | y # _ \<Rightarrow> Ptr y)"
    using assms(1) by (cases ys) (auto simp: hlist_def)
  obtain m' where m': "hlist_add_head n h m = Inr m'" using f by (cases ys) (simp_all add: hlist_add_head_def)
  have p: "load_at p m' = load_at p m" if "p \<noteq> At_first h" "p \<noteq> At_next n" for p
    using m' f that by (cases ys; cases p) (auto simp: hlist_add_head_def)
  have "inserted n (At_first h) m m'"
    using m' f p assms(2) by (cases ys) (auto simp: hlist_add_head_def inserted_def)
  then show ?thesis using inserted_hlist [of n h "[]" m m' ys] m' assms by simp
qed

lemma hlist_add_before_inserts:
  assumes "hlist m h (xs @ x # ys)" and "n \<notin> set (xs @ x # ys)"
  shows "\<exists>m'. hlist_add_before n x m = Inr m' \<and> hlist m' h (xs @ n # x # ys)"
proof -
  let ?s = "end_place (At_first h) xs"
  note pl = place_of_node [OF assms(1)]
  have s: "?s \<noteq> At_next n" "\<exists>a. ?s = At_first a \<or> ?s = At_next a" using assms(2) by (auto simp: end_place_def)
  have nx: "n \<noteq> x" using assms(2) by simp
  obtain m' where m': "hlist_add_before n x m = Inr m'" using s(2) pl nx by (auto simp: hlist_add_before_def)
  have p: "load_at p m' = load_at p m" if "p \<noteq> ?s" "p \<noteq> At_next n" for p
    using m' s pl that nx by (cases p) (auto simp: hlist_add_before_def)
  have "inserted n ?s m m'"
    using m' s pl p nx by (auto simp: hlist_add_before_def inserted_def)
  then show ?thesis using inserted_hlist [of n h xs m m' "x # ys"] m' assms by simp
qed

lemma hlist_add_after_inserts:
  assumes "hlist m h (xs @ x # ys)" and "n \<notin> set (xs @ x # ys)"
  shows "\<exists>m'. hlist_add_after x n m = Inr m' \<and> hlist m' h (xs @ x # n # ys)"
proof -
  note pl = place_of_node [OF assms(1)]
  have nx: "n \<noteq> x" "x \<notin> set ys" "n \<notin> set ys" using assms by (auto simp: hlist_def)
  obtain m' where m': "hlist_add_after x n m = Inr m'" using pl nx by (cases ys) (auto simp: hlist_add_after_def)
  have p: "load_at p m' = load_at p m" if "p \<noteq> At_next x" "p \<noteq> At_next n" for p
    using m' pl that nx by (cases ys; cases p) (auto simp: hlist_add_after_def)
  have "inserted n (At_next x) m m'"
    using m' pl p nx by (cases ys) (auto simp: hlist_add_after_def inserted_def)
  then show ?thesis using inserted_hlist [of n h "xs @ [x]" m m' ys] m' assms by simp
qed

text \<open>Deletion: the place in front of the node points to the one behind it.\<close>

definition removed :: "'a \<Rightarrow> 'a hlinks \<Rightarrow> 'a hlinks \<Rightarrow> bool" where
  "removed n m m' \<longleftrightarrow> load_at (hl_pprev m n) m' = hl_next m n
     \<and> (\<forall>p. p \<noteq> hl_pprev m n \<and> p \<noteq> At_next n \<longrightarrow> load_at p m' = load_at p m)
     \<and> (\<forall>y. hl_next m n = Ptr y \<longrightarrow> hl_pprev m' y = hl_pprev m n)
     \<and> (\<forall>x. x \<noteq> n \<and> hl_next m n \<noteq> Ptr x \<longrightarrow> hl_pprev m' x = hl_pprev m x)"

lemma removed_hlist:
  assumes "removed n m m'" and "hlist m h (xs @ n # ys)"
  shows "hlist m' h (xs @ ys)"
proof -
  let ?s = "end_place (At_first h) xs"
  note pl = place_of_node [OF assms(2)]
  have l: "linked m (At_first h) xs" "linked m (At_next n) ys" "load_at (end_place (At_next n) ys) m = Null" "distinct (xs @ n # ys)"
    using assms(2) by (auto simp: hlist_def linked_append)
  have i: "load_at ?s m' = hl_next m n" "\<And>p. p \<noteq> ?s \<Longrightarrow> p \<noteq> At_next n \<Longrightarrow> load_at p m' = load_at p m"
      "\<And>y. hl_next m n = Ptr y \<Longrightarrow> hl_pprev m' y = ?s"
      "\<And>x. x \<noteq> n \<Longrightarrow> hl_next m n \<noteq> Ptr x \<Longrightarrow> hl_pprev m' x = hl_pprev m x"
    using assms(1) pl(1) by (auto simp: removed_def)
  have next_other: "hl_next m' x = hl_next m x" if "x \<noteq> n" "At_next x \<noteq> ?s" for x
    using i(2) [of "At_next x"] that by simp
  have "linked m' (At_first h) xs"
  proof (rule linked_frame [OF _ _ _ l(1)])
    fix x assume "x \<in> set xs"
    then show "hl_pprev m' x = hl_pprev m x" using i(4) [of x] l(4) pl(3) by (cases ys) auto
  next
    fix x assume x: "x \<in> set (butlast xs)"
    then have "x \<noteq> last xs" "x \<in> set xs" using l(4) by (cases xs rule: rev_cases; auto)+
    moreover from this have "At_next x \<noteq> ?s" by (auto simp: end_place_def)
    ultimately show "hl_next m' x = hl_next m x" using next_other [of x] l(4) by auto
  next
    assume "xs \<noteq> []"
    then show "load_at (At_first h) m' = load_at (At_first h) m" using i(2) [of "At_first h"] by (simp add: end_place_def)
  qed
  moreover have "linked m' ?s ys \<and> load_at (end_place ?s ys) m' = Null"
  proof (cases ys)
    case Nil
    with i(1) pl(3) show ?thesis by simp
  next
    case (Cons y zs)
    have nx: "hl_next m' x = hl_next m x" if "x \<in> set ys" for x
    proof -
      have "x \<notin> set xs" using that l(4) by auto
      then have "At_next x \<noteq> ?s" using last_in_set [of xs] by (cases "xs = []") (auto simp: end_place_def)
      with next_other [of x] that l(4) show ?thesis by auto
    qed
    have "linked m' (At_next y) zs"
    proof (rule linked_frame)
      show "linked m (At_next y) zs" using l(2) Cons by simp
    next
      fix x assume "x \<in> set zs"
      then show "hl_pprev m' x = hl_pprev m x" using i(4) [of x] l(4) pl(3) Cons by auto
    next
      fix x assume "x \<in> set (butlast zs)"
      then show "hl_next m' x = hl_next m x" using nx Cons in_set_butlastD by fastforce
    next
      show "load_at (At_next y) m' = load_at (At_next y) m" using nx Cons by simp
    qed
    moreover have "load_at (end_place ?s ys) m' = load_at (end_place ?s ys) m"
      using nx [of "last ys"] Cons by (simp add: end_place_def)
    ultimately show ?thesis using i(1,3) pl(3) Cons l(3) by (simp add: end_place_def)
  qed
  ultimately show ?thesis using l(4) by (auto simp: hlist_def linked_append)
qed

text \<open>Both deletions take the node out of the list; only a node that was never in one, or is not any more, is passed over.\<close>

lemma hlist_unlink_removes:
  assumes "hlist m h (xs @ n # ys)"
  shows "\<exists>m'. hlist_unlink n m = Inr m' \<and> removed n m m'"
proof -
  note pl = place_of_node [OF assms]
  have n: "n \<notin> set ys" "n \<notin> set xs" using assms by (auto simp: hlist_def)
  obtain m' where m': "hlist_unlink n m = Inr m'"
    using end_place_cases [of "At_first h" xs] pl by (cases ys) (auto simp: hlist_unlink_def)
  have p: "load_at p m' = load_at p m" if "p \<noteq> hl_pprev m n" for p
    using m' pl that end_place_cases [of "At_first h" xs] by (cases ys; cases p) (auto simp: hlist_unlink_def)
  have "removed n m m'"
    using m' pl p n end_place_cases [of "At_first h" xs] by (cases ys) (auto simp: hlist_unlink_def removed_def)
  with m' show ?thesis by blast
qed

lemma removed_own: "removed n m m1 \<Longrightarrow> hl_pprev m n \<noteq> At_next n \<Longrightarrow> hl_next m n \<noteq> Ptr n \<Longrightarrow>
    removed n m (m1\<lparr>hl_next := (hl_next m1)(n := p), hl_pprev := (hl_pprev m1)(n := q)\<rparr>)"
proof -
  assume r: "removed n m m1" "hl_pprev m n \<noteq> At_next n" "hl_next m n \<noteq> Ptr n"
  let ?m = "m1\<lparr>hl_next := (hl_next m1)(n := p), hl_pprev := (hl_pprev m1)(n := q)\<rparr>"
  have "load_at s ?m = load_at s m1" if "s \<noteq> At_next n" for s using that by (cases s) auto
  with r show ?thesis by (auto simp: removed_def)
qed

theorem hlist_deletes:
  assumes "hlist m h (xs @ n # ys)"
  shows "\<exists>m'. hlist_del n m = Inr m' \<and> hlist m' h (xs @ ys)"
    and "\<exists>m'. hlist_del_init n m = Inr m' \<and> hlist m' h (xs @ ys) \<and> hlist_unhashed n m'"
proof -
  note pl = place_of_node [OF assms]
  obtain m1 where m1: "hlist_unlink n m = Inr m1" "removed n m m1" using hlist_unlink_removes [OF assms] by blast
  have o: "hl_pprev m n \<noteq> At_next n" "hl_next m n \<noteq> Ptr n" "hl_pprev m n \<noteq> Place_null"
    using pl assms by (cases ys; auto simp: hlist_def end_place_def)+
  note r = removed_hlist [OF removed_own [OF m1(2) o(1,2)] assms]
  show "\<exists>m'. hlist_del n m = Inr m' \<and> hlist m' h (xs @ ys)" using m1(1) r by (simp add: hlist_del_def)
  show "\<exists>m'. hlist_del_init n m = Inr m' \<and> hlist m' h (xs @ ys) \<and> hlist_unhashed n m'"
    using m1(1) r o(3) by (simp add: hlist_del_init_def hlist_unhashed_def init_hlist_node_def)
qed

end
