(* ===== verification/Spec2Isabelle.thy ===== *)
theory Spec2Isabelle
  imports Crc32 Sha1 Sha2 Digest Base64 Device_Tree State_Vars Format_Raw Medium Bucket Bucket_Direct Bucket_Circular
    Storage Redundancy Dt_Nodes Fdt State State_Dtb Cli_Values Barebox_State Dtblint Cdev Linked_List Dt_Print Digest_File Keystore Value_Types Recovery State_Fixup Hash_List
begin

text \<open>
  A verification library for dt-utils.
\<close>

end
